(* ===== verification/Prelude.thy ===== *)
theory Prelude
  imports Main "HOL-Library.Word" "HOL-Library.Char_ord" "HOL-Library.List_Lexorder"
begin

text \<open>
  What every component shares.  A Rust \<open>String\<close> is its UTF-8 bytes, an Isabelle \<^typ>\<open>string\<close>: \<open>len()\<close> is
  \<^const>\<open>length\<close>, and \<open>chars()\<close> splits the bytes into characters, each its own UTF-8 sequence.  A \<open>u64\<close> or
  \<open>usize\<close> that saturates is a \<^typ>\<open>nat\<close> with the bound written out.  \<open>probe\<close> collects the facts that relate two
  ways of running one evaluation, \<open>budget_mono\<close> those that say work is only ever spent, \<open>json_read\<close> the facts that
  read a member of a written object back.
\<close>

named_theorems probe
named_theorems budget_mono
named_theorems fuel_safe
named_theorems json_read
named_theorems saturating

section \<open>Saturating 64-bit arithmetic\<close>

definition u64_max :: nat where
  "u64_max = 2 ^ 64 - 1"

definition sat_add :: "nat \<Rightarrow> nat \<Rightarrow> nat" where
  "sat_add a b = min u64_max (a + b)"

definition sat_mul :: "nat \<Rightarrow> nat \<Rightarrow> nat" where
  "sat_mul a b = min u64_max (a * b)"

lemma sat_add_le [saturating]: "sat_add a b \<le> u64_max"
  by (simp add: sat_add_def)

lemma sat_mul_le [saturating]: "sat_mul a b \<le> u64_max"
  by (simp add: sat_mul_def)

lemma sat_add_exact: "sat_add a b < u64_max \<Longrightarrow> sat_add a b = a + b"
  by (simp add: sat_add_def min_def split: if_splits)

lemma sat_mul_exact: "sat_mul a b < u64_max \<Longrightarrow> sat_mul a b = a * b"
  by (simp add: sat_mul_def min_def split: if_splits)

lemma sat_add_mono: "a \<le> u64_max \<Longrightarrow> a \<le> sat_add a b"
  by (simp add: sat_add_def)

lemma sat_add_assoc: "sat_add (sat_add a b) c = sat_add a (sat_add b c)"
  by (simp add: sat_add_def min_def)

lemma sat_add_zero: "a \<le> u64_max \<Longrightarrow> sat_add a 0 = a"
  by (simp add: sat_add_def)

text \<open>Evaluating a small sum without the unary numeral of the bound.\<close>

lemma sat_add_code [code]: "sat_add a b = (if a + b < 64 then a + b else min u64_max (a + b))"
  by (simp add: sat_add_def u64_max_def)

lemma foldl_sat_add: "a \<le> u64_max \<Longrightarrow> foldl sat_add a xs = min u64_max (a + sum_list xs)"
proof (induction xs arbitrary: a)
  case (Cons x xs)
  have "sat_add a x \<le> u64_max" by (rule sat_add_le)
  then show ?case using Cons by (simp add: sat_add_def min_def)
qed simp

section \<open>Reachability\<close>

text \<open>What a walk that pushes a node's successors visits, from a set of starting nodes.\<close>

definition reach_from :: "('a \<Rightarrow> 'a \<Rightarrow> bool) \<Rightarrow> 'a set \<Rightarrow> 'a set" where
  "reach_from r S = {q. \<exists>p\<in>S. r\<^sup>*\<^sup>* p q}"

lemma reach_from_empty [simp]: "reach_from r {} = {}"
  by (simp add: reach_from_def)

lemma reach_from_Un: "reach_from r (S \<union> T) = reach_from r S \<union> reach_from r T"
  by (auto simp: reach_from_def)

lemma reach_from_insert: "reach_from r (insert p S) = insert p (reach_from r ({q. r p q} \<union> S))"
proof -
  have "r\<^sup>*\<^sup>* p q \<longleftrightarrow> p = q \<or> (\<exists>p'. r p p' \<and> r\<^sup>*\<^sup>* p' q)" for q
  proof
    assume "r\<^sup>*\<^sup>* p q"
    then show "p = q \<or> (\<exists>p'. r p p' \<and> r\<^sup>*\<^sup>* p' q)" by (rule converse_rtranclpE) blast+
  next
    assume "p = q \<or> (\<exists>p'. r p p' \<and> r\<^sup>*\<^sup>* p' q)"
    then show "r\<^sup>*\<^sup>* p q" by (elim disjE exE conjE) (simp, erule converse_rtranclp_into_rtranclp)
  qed
  note key = this
  show ?thesis
  proof (rule set_eqI)
    fix q
    have "q \<in> reach_from r (insert p S) \<longleftrightarrow> r\<^sup>*\<^sup>* p q \<or> (\<exists>s\<in>S. r\<^sup>*\<^sup>* s q)" by (simp add: reach_from_def)
    also have "\<dots> \<longleftrightarrow> (p = q \<or> (\<exists>p'. r p p' \<and> r\<^sup>*\<^sup>* p' q)) \<or> (\<exists>s\<in>S. r\<^sup>*\<^sup>* s q)" by (simp only: key [of q])
    also have "\<dots> \<longleftrightarrow> q \<in> insert p (reach_from r ({q. r p q} \<union> S))" by (auto simp: reach_from_def)
    finally show "q \<in> reach_from r (insert p S) \<longleftrightarrow> q \<in> insert p (reach_from r ({q. r p q} \<union> S))" .
  qed
qed

section \<open>Characters of a UTF-8 string\<close>

definition continuation :: "char \<Rightarrow> bool" where
  "continuation b \<longleftrightarrow> 128 \<le> (of_char b :: nat) \<and> (of_char b :: nat) < 192"

function chars :: "string \<Rightarrow> string list" where
  "chars [] = []"
| "chars (b # bs) = (b # takeWhile continuation bs) # chars (dropWhile continuation bs)"
  by pat_completeness auto
termination
  by (relation "measure length") (auto simp: le_imp_less_Suc length_dropWhile_le)

lemma concat_chars [simp]: "concat (chars s) = s"
  by (induction s rule: chars.induct) auto

lemma chars_eq_Nil [simp]: "chars s = [] \<longleftrightarrow> s = []"
  by (cases s) auto

lemma length_chars_le: "length (chars s) \<le> length s"
proof (induction s rule: chars.induct)
  case (2 b bs)
  have "length (dropWhile continuation bs) \<le> length bs"
    by (rule length_dropWhile_le)
  with 2 show ?case by simp
qed simp

text \<open>The Unicode scalar value of one character, and \<open>char::is_whitespace\<close>.\<close>

fun code_point :: "string \<Rightarrow> nat" where
  "code_point [a] = of_char a"
| "code_point [a, b] = (of_char a mod 32) * 64 + of_char b mod 64"
| "code_point [a, b, c] = (of_char a mod 16) * 4096 + (of_char b mod 64) * 64 + of_char c mod 64"
| "code_point [a, b, c, d] =
     (of_char a mod 8) * 262144 + (of_char b mod 64) * 4096 + (of_char c mod 64) * 64 + of_char d mod 64"
| "code_point _ = 0"

definition is_whitespace :: "string \<Rightarrow> bool" where
  "is_whitespace ch =
     (let n = code_point ch
      in 9 \<le> n \<and> n \<le> 13 \<or> n = 0x20 \<or> n = 0x85 \<or> n = 0xA0 \<or> n = 0x1680 \<or> 0x2000 \<le> n \<and> n \<le> 0x200A \<or>
         n = 0x2028 \<or> n = 0x2029 \<or> n = 0x202F \<or> n = 0x205F \<or> n = 0x3000)"

definition is_ascii :: "char \<Rightarrow> bool" where
  "is_ascii c \<longleftrightarrow> (of_char c :: nat) < 128"

definition ascii_digit :: "char \<Rightarrow> bool" where
  "ascii_digit c \<longleftrightarrow> CHR ''0'' \<le> c \<and> c \<le> CHR ''9''"

definition ascii_lower :: "char \<Rightarrow> bool" where
  "ascii_lower c \<longleftrightarrow> CHR ''a'' \<le> c \<and> c \<le> CHR ''z''"

definition ascii_upper :: "char \<Rightarrow> bool" where
  "ascii_upper c \<longleftrightarrow> CHR ''A'' \<le> c \<and> c \<le> CHR ''Z''"

definition ascii_alpha :: "char \<Rightarrow> bool" where
  "ascii_alpha c \<longleftrightarrow> ascii_lower c \<or> ascii_upper c"

definition to_lower :: "char \<Rightarrow> char" where
  "to_lower c = (if ascii_upper c then char_of ((of_char c :: nat) + 32) else c)"

fun strip_prefix :: "string \<Rightarrow> string \<Rightarrow> string option" where
  "strip_prefix [] s = Some s"
| "strip_prefix (p # ps) [] = None"
| "strip_prefix (p # ps) (c # cs) = (if p = c then strip_prefix ps cs else None)"

definition starts_with :: "string \<Rightarrow> string \<Rightarrow> bool" where
  "starts_with p s \<longleftrightarrow> take (length p) s = p"

lemma strip_prefix_Some: "strip_prefix p s = Some r \<longleftrightarrow> s = p @ r"
  by (induction p s rule: strip_prefix.induct) auto

lemma starts_with_append: "starts_with p s \<longleftrightarrow> (\<exists>r. s = p @ r)"
  by (metis append_eq_conv_conj append_take_drop_id starts_with_def)

text \<open>\<open>str::split\<close> at one character: always at least one piece.\<close>

fun split_on :: "char \<Rightarrow> string \<Rightarrow> string list" where
  "split_on d [] = [[]]"
| "split_on d (c # cs) =
     (case split_on d cs of
        [] \<Rightarrow> [[c]]
      | p # ps \<Rightarrow> if c = d then [] # p # ps else (c # p) # ps)"

lemma split_on_nonempty [simp]: "split_on d s \<noteq> []"
  by (induction s) (auto split: list.splits)

text \<open>\<open>str::replace\<close> of one two-character pattern, left to right without overlap.\<close>

fun replace2 :: "char \<Rightarrow> char \<Rightarrow> char \<Rightarrow> string \<Rightarrow> string" where
  "replace2 a b r (x # y # s) =
     (if x = a \<and> y = b then r # replace2 a b r s else x # replace2 a b r (y # s))"
| "replace2 a b r s = s"

section \<open>Decimal text\<close>

definition digit_char :: "nat \<Rightarrow> char" where
  "digit_char d = char_of (48 + d)"

definition digit_val :: "char \<Rightarrow> nat" where
  "digit_val c = of_char c - 48"

fun dec_of_nat :: "nat \<Rightarrow> string" where
  "dec_of_nat n = (if n < 10 then [digit_char n] else dec_of_nat (n div 10) @ [digit_char (n mod 10)])"

declare dec_of_nat.simps [simp del]

definition dec_of_int :: "int \<Rightarrow> string" where
  "dec_of_int i = (if i < 0 then CHR ''-'' # dec_of_nat (nat (- i)) else dec_of_nat (nat i))"

definition nat_of_dec :: "string \<Rightarrow> nat" where
  "nat_of_dec s = foldl (\<lambda>n c. 10 * n + digit_val c) 0 s"

text \<open>Reading a decimal integer; anything but an optional minus and digits is refused.\<close>

fun int_of_dec :: "string \<Rightarrow> int option" where
  "int_of_dec [] = None"
| "int_of_dec (c # cs) =
     (if c = CHR ''-''
      then if cs \<noteq> [] \<and> list_all ascii_digit cs then Some (- int (nat_of_dec cs)) else None
      else if list_all ascii_digit (c # cs) then Some (int (nat_of_dec (c # cs))) else None)"

lemma of_char_digit [simp]: "d < 10 \<Longrightarrow> (of_char (digit_char d) :: nat) = 48 + d"
  by (simp add: digit_char_def)

lemma digit_val_char [simp]: "d < 10 \<Longrightarrow> digit_val (digit_char d) = d"
  by (simp add: digit_val_def)

lemma ascii_digit_char [simp]: "d < 10 \<Longrightarrow> ascii_digit (digit_char d)"
  by (simp add: ascii_digit_def less_eq_char_def)

lemma dec_of_nat_nonempty [simp]: "dec_of_nat n \<noteq> []"
  by (subst dec_of_nat.simps) simp

lemma dec_of_nat_digits: "list_all ascii_digit (dec_of_nat n)"
proof (induction n rule: dec_of_nat.induct)
  case (1 n)
  then show ?case by (subst dec_of_nat.simps) simp
qed

lemma nat_of_dec_snoc: "nat_of_dec (s @ [c]) = 10 * nat_of_dec s + digit_val c"
  by (simp add: nat_of_dec_def)

lemma nat_of_dec_of_nat [simp]: "nat_of_dec (dec_of_nat n) = n"
proof (induction n rule: dec_of_nat.induct)
  case (1 n)
  show ?case
  proof (cases "n < 10")
    case True
    then show ?thesis by (subst dec_of_nat.simps) (simp add: nat_of_dec_def)
  next
    case False
    with 1 have "nat_of_dec (dec_of_nat (n div 10)) = n div 10" by simp
    with False show ?thesis by (subst dec_of_nat.simps) (simp add: nat_of_dec_snoc)
  qed
qed

lemma int_of_dec_of_nat [simp]: "int_of_dec (dec_of_nat n) = Some (int n)"
proof -
  obtain c cs where s: "dec_of_nat n = c # cs" by (cases "dec_of_nat n") auto
  have "ascii_digit c" using dec_of_nat_digits [of n] s by simp
  then have "c \<noteq> CHR ''-''" by (auto simp: ascii_digit_def less_eq_char_def)
  then show ?thesis
    using dec_of_nat_digits [of n] nat_of_dec_of_nat [of n] by (simp add: s)
qed

lemma int_of_dec_of_int [simp]: "int_of_dec (dec_of_int i) = Some i"
proof (cases "i < 0")
  case True
  then show ?thesis
    using dec_of_nat_digits [of "nat (- i)"] by (simp add: dec_of_int_def)
next
  case False
  then show ?thesis by (simp add: dec_of_int_def)
qed

section \<open>Lists, options\<close>

definition opt_all :: "('a \<Rightarrow> 'b option) \<Rightarrow> 'a list \<Rightarrow> 'b list option" where
  "opt_all f xs = those (map f xs)"

lemma opt_all_Nil [simp]: "opt_all f [] = Some []"
  by (simp add: opt_all_def)

lemma opt_all_Cons:
  "opt_all f (x # xs) = (case f x of None \<Rightarrow> None | Some y \<Rightarrow> map_option (Cons y) (opt_all f xs))"
  by (simp add: opt_all_def split: option.split)

lemma opt_all_map: "(\<And>x. x \<in> set xs \<Longrightarrow> f (g x) = Some x) \<Longrightarrow> opt_all f (map g xs) = Some xs"
  by (induction xs) (auto simp: opt_all_Cons)

lemma opt_all_length: "opt_all f xs = Some ys \<Longrightarrow> length ys = length xs"
  by (induction xs arbitrary: ys) (auto simp: opt_all_Cons split: option.splits)

lemma opt_all_nth:
  "opt_all f xs = Some ys \<Longrightarrow> i < length xs \<Longrightarrow> f (xs ! i) = Some (ys ! i)"
  by (induction xs arbitrary: ys i) (auto simp: opt_all_Cons nth_Cons split: option.splits nat.splits)

definition the_or :: "'a \<Rightarrow> 'a option \<Rightarrow> 'a" where
  "the_or d x = (case x of None \<Rightarrow> d | Some y \<Rightarrow> y)"

lemma the_or_simps [simp]: "the_or d None = d" "the_or d (Some x) = x"
  by (simp_all add: the_or_def)

end
