(* ===== verification/Json.thy ===== *)
theory Json
  imports Prelude
begin

text \<open>
  The decoded JSON value every part of the Brain works on (\<open>vendor/strict-json/src/value.rs\<close>) and the Brain's helpers
  over it (\<open>runtime/src/json.rs\<close>).  An \<open>i64\<close> is an \<^typ>\<open>int\<close>, a float its 64 bits; an object keeps its members in
  document order, and \<open>value_ok\<close> states what the strict reader guarantees: field names of one object are distinct.
\<close>

unbundle bit_operations_syntax

type_synonym f64 = "64 word"

datatype number = Integer int | BigInt string | Float f64

datatype json =
    Null
  | Bool bool
  | Number number
  | String string
  | Array "json list"
  | Object "(string \<times> json) list"

text \<open>The fields of a binary64 float.\<close>

definition f64_negative :: "f64 \<Rightarrow> bool" where
  "f64_negative f = bit f 63"

definition f64_exponent :: "f64 \<Rightarrow> int" where
  "f64_exponent f = uint (drop_bit 52 f AND 0x7ff)"

definition f64_fraction :: "f64 \<Rightarrow> int" where
  "f64_fraction f = uint (f AND (push_bit 52 1 - 1))"

definition f64_finite :: "f64 \<Rightarrow> bool" where
  "f64_finite f \<longleftrightarrow> f64_exponent f \<noteq> 0x7ff"

text \<open>What the strict reader guarantees of a number: an \<open>i64\<close>, canonical digits outside it, a finite float.\<close>

definition in_i64 :: "int \<Rightarrow> bool" where
  "in_i64 i \<longleftrightarrow> - (2 ^ 63) \<le> i \<and> i < 2 ^ 63"

fun number_ok :: "number \<Rightarrow> bool" where
  "number_ok (Integer i) = in_i64 i"
| "number_ok (BigInt digits) =
     (case int_of_dec digits of None \<Rightarrow> False | Some i \<Rightarrow> \<not> in_i64 i \<and> dec_of_int i = digits)"
| "number_ok (Float f) = f64_finite f"

definition is_object :: "json \<Rightarrow> bool" where
  "is_object v = (case v of Object _ \<Rightarrow> True | _ \<Rightarrow> False)"

fun get :: "json \<Rightarrow> string \<Rightarrow> json option" where
  "get (Object ms) key = map_of ms key"
| "get _ key = None"

fun members :: "json \<Rightarrow> (string \<times> json) list" where
  "members (Object ms) = ms"
| "members _ = []"

fun elements :: "json \<Rightarrow> json list" where
  "elements (Array vs) = vs"
| "elements _ = []"

fun children :: "json \<Rightarrow> json list" where
  "children (Array vs) = vs"
| "children (Object ms) = map snd ms"
| "children _ = []"

fun value_ok :: "json \<Rightarrow> bool" where
  "value_ok (Array vs) = (\<forall>v\<in>set vs. value_ok v)"
| "value_ok (Object ms) = (distinct (map fst ms) \<and> (\<forall>v\<in>snd ` set ms. value_ok v))"
| "value_ok (Number n) = number_ok n"
| "value_ok _ = True"

fun node_count :: "json \<Rightarrow> nat" where
  "node_count (Array vs) = Suc (sum_list (map node_count vs))"
| "node_count (Object ms) = Suc (sum_list (map (\<lambda>m. node_count (snd m)) ms))"
| "node_count _ = 1"

lemma node_count_children: "node_count v = Suc (sum_list (map node_count (children v)))"
  by (cases v) (auto simp: comp_def)

lemma node_count_elem: "v \<in> set vs \<Longrightarrow> node_count v < node_count (Array vs)"
  by (induction vs) (auto simp: less_Suc_eq_le)

lemma node_count_member: "(k, v) \<in> set ms \<Longrightarrow> node_count v < node_count (Object ms)"
  by (induction ms) (auto simp: less_Suc_eq_le)

lemma node_count_child: "c \<in> set (children v) \<Longrightarrow> node_count c < node_count v"
  by (cases v) (auto dest: node_count_elem node_count_member simp del: node_count.simps)

lemma node_count_pos [simp]: "0 < node_count v"
  by (simp add: node_count_children)

lemma children_elements_members: "children v = elements v @ map snd (members v)"
  by (cases v) auto

lemma get_in_members: "get v k = Some c \<Longrightarrow> (k, c) \<in> set (members v)"
  by (cases v) (auto dest: map_of_SomeD)

lemma get_child: "get v k = Some c \<Longrightarrow> c \<in> set (children v)"
  by (cases v) (force dest: map_of_SomeD)+

lemma get_is_object: "get v k = Some c \<Longrightarrow> is_object v"
  by (cases v) (auto simp: is_object_def)

lemma value_ok_children: "value_ok v \<Longrightarrow> c \<in> set (children v) \<Longrightarrow> value_ok c"
  by (cases v) auto

lemma is_object_iff: "is_object v \<longleftrightarrow> (\<exists>ms. v = Object ms)"
  by (cases v) (auto simp: is_object_def)

section \<open>Building and reading values\<close>

definition object :: "(string \<times> json) list \<Rightarrow> json" where
  "object ms = Object ms"

definition uint_json :: "nat \<Rightarrow> json" where
  "uint_json n = (if n < 2 ^ 63 then Number (Integer (int n)) else Number (BigInt (dec_of_nat n)))"

definition str_of :: "json \<Rightarrow> string \<Rightarrow> string option" where
  "str_of v key = (case get v key of Some (String s) \<Rightarrow> Some s | _ \<Rightarrow> None)"

definition u64_of :: "json \<Rightarrow> string \<Rightarrow> nat option" where
  "u64_of v key =
     (case get v key of Some (Number (Integer i)) \<Rightarrow> if 0 \<le> i then Some (nat i) else None | _ \<Rightarrow> None)"

definition bool_of :: "json \<Rightarrow> string \<Rightarrow> bool option" where
  "bool_of v key = (case get v key of Some (Bool b) \<Rightarrow> Some b | _ \<Rightarrow> None)"

definition array_of :: "json \<Rightarrow> string \<Rightarrow> json list option" where
  "array_of v key = (case get v key of Some (Array vs) \<Rightarrow> Some vs | _ \<Rightarrow> None)"

definition has_exactly :: "json \<Rightarrow> string list \<Rightarrow> bool" where
  "has_exactly v fields =
     (case v of Object ms \<Rightarrow> length ms = length fields \<and> list_all (\<lambda>m. fst m \<in> set fields) ms | _ \<Rightarrow> False)"

lemmas json_readers = object_def str_of_def u64_of_def bool_of_def array_of_def has_exactly_def

lemma u64_of_uint_json [json_read]: "get v k = Some (uint_json n) \<Longrightarrow> n < 2 ^ 63 \<Longrightarrow> u64_of v k = Some n"
  by (simp add: u64_of_def uint_json_def)

lemma has_exactly_names:
  assumes "has_exactly v fields" "value_ok v" "distinct fields"
  shows "set (map fst (members v)) = set fields"
proof -
  obtain ms where v: "v = Object ms" and len: "length ms = length fields"
    and sub: "set (map fst ms) \<subseteq> set fields"
    using assms(1) by (auto simp: has_exactly_def list_all_iff split: json.splits)
  have "card (set (map fst ms)) = card (set fields)"
    using assms v len by (simp add: distinct_card flip: set_map)
  then show ?thesis using sub v by (simp add: card_subset_eq)
qed

lemma has_exactly_get:
  assumes "has_exactly v fields" "value_ok v" "distinct fields" "k \<in> set fields"
  shows "\<exists>c. get v k = Some c"
proof -
  have "k \<in> fst ` set (members v)" using has_exactly_names [OF assms(1-3)] assms(4) by simp
  then show ?thesis
    using assms(1) by (cases v) (auto simp: has_exactly_def map_of_eq_None_iff dest: weak_map_of_SomeI)
qed

lemma str_of_Some: "str_of v k = Some s \<longleftrightarrow> get v k = Some (String s)"
  by (auto simp: str_of_def split: option.splits json.splits)

lemma bool_of_Some: "bool_of v k = Some b \<longleftrightarrow> get v k = Some (Bool b)"
  by (auto simp: bool_of_def split: option.splits json.splits)

lemma array_of_Some: "array_of v k = Some vs \<longleftrightarrow> get v k = Some (Array vs)"
  by (auto simp: array_of_def split: option.splits json.splits)

lemma u64_of_Some: "u64_of v k = Some n \<longleftrightarrow> get v k = Some (Number (Integer (int n)))"
  by (auto simp: u64_of_def split: option.splits json.splits number.splits)

lemmas read_some = str_of_Some bool_of_Some array_of_Some u64_of_Some bind_eq_Some_conv

lemma value_ok_get: "value_ok v \<Longrightarrow> get v kw = Some s \<Longrightarrow> value_ok s"
  by (blast intro: value_ok_children get_child)

end
