(* ===== verification/Numbers.thy ===== *)
theory Numbers
  imports Complex_Main Json
begin

text \<open>
  Python's numeric semantics over decoded JSON numbers (\<open>protocol/action-schema/src/numbers.rs\<close>): exact comparison
  between integers of any size and floats, the conversion of an integer to a float with its overflow, and
  \<open>multipleOf\<close>.  A float is its IEEE 754 bits; \<open>f64_val\<close> is the rational it denotes, \<open>f64_round\<close> the rounding to
  nearest, ties to even, that decimal parsing and division perform.
\<close>

section \<open>Binary64\<close>

definition f64_nan :: "f64 \<Rightarrow> bool" where
  "f64_nan f \<longleftrightarrow> f64_exponent f = 0x7ff \<and> f64_fraction f \<noteq> 0"

definition f64_is_zero :: "f64 \<Rightarrow> bool" where
  "f64_is_zero f \<longleftrightarrow> f64_exponent f = 0 \<and> f64_fraction f = 0"

text \<open>A finite float's magnitude as an integer times a power of two.\<close>

definition binary :: "f64 \<Rightarrow> int \<times> int" where
  "binary f =
     (let exponent = f64_exponent f; fraction = f64_fraction f
      in if exponent = 0 then (fraction, -1074)
         else (fraction + 2 ^ 52, exponent - 1075))"

definition scale2 :: "int \<Rightarrow> int \<Rightarrow> rat" where
  "scale2 m e = (if 0 \<le> e then of_int (m * 2 ^ nat e) else of_int m / of_int (2 ^ nat (- e)))"

definition f64_val :: "f64 \<Rightarrow> rat" where
  "f64_val f = (let (m, e) = binary f in if f64_negative f then - scale2 m e else scale2 m e)"

text \<open>\<open>fract() == 0.0\<close>: false for an infinity or a NaN, whose fraction is a NaN.\<close>

definition fract_zero :: "f64 \<Rightarrow> bool" where
  "fract_zero f \<longleftrightarrow> f64_finite f \<and> of_int \<lfloor>f64_val f\<rfloor> = f64_val f"

definition floor_integral :: "f64 \<Rightarrow> int" where
  "floor_integral f = (if f64_finite f then \<lfloor>f64_val f\<rfloor> else 0)"

function bit_length :: "int \<Rightarrow> int" where
  "bit_length n = (if n \<le> 0 then 0 else 1 + bit_length (n div 2))"
  by pat_completeness auto
termination
  by (relation "measure nat") auto

declare bit_length.simps [simp del]

text \<open>The largest \<open>e\<close> with \<open>2^e \<le> r\<close>, for a positive \<open>r\<close>.\<close>

definition log2_floor :: "rat \<Rightarrow> int" where
  "log2_floor r =
     (let (n, d) = quotient_of r; e = bit_length n - bit_length d
      in if scale2 1 e \<le> r then e else e - 1)"

definition round_half_even :: "rat \<Rightarrow> int" where
  "round_half_even r =
     (let m = \<lfloor>r\<rfloor>; rest = r - of_int m
      in if rest < 1 / 2 then m else if 1 / 2 < rest then m + 1 else if even m then m else m + 1)"

definition f64_inf :: "f64" where
  "f64_inf = push_bit 52 0x7ff"

definition f64_signed :: "bool \<Rightarrow> f64 \<Rightarrow> f64" where
  "f64_signed negative f = (if negative then f OR push_bit 63 1 else f)"

definition f64_round_abs :: "rat \<Rightarrow> f64" where
  "f64_round_abs r =
     (if r = 0 then 0
      else let q = max (log2_floor r - 52) (-1074);
               bits = (q + 1074) * 2 ^ 52 + round_half_even (r / scale2 1 q)
           in if bits < 0x7ff * 2 ^ 52 then word_of_int bits else f64_inf)"

definition f64_round :: "rat \<Rightarrow> f64" where
  "f64_round r = f64_signed (r < 0) (f64_round_abs \<bar>r\<bar>)"

definition f64_quiet_nan :: "f64" where
  "f64_quiet_nan = push_bit 51 0xfff"

text \<open>Division of two finite floats: by a zero, a NaN for a zero and a signed infinity for any other float.\<close>

definition f64_div :: "f64 \<Rightarrow> f64 \<Rightarrow> f64" where
  "f64_div a b =
     (if f64_is_zero b then (if f64_is_zero a then f64_quiet_nan else f64_signed (f64_negative a \<noteq> f64_negative b) f64_inf)
      else f64_signed (f64_negative a \<noteq> f64_negative b) (f64_round_abs \<bar>f64_val a / f64_val b\<bar>))"

text \<open>\<open>a % b != 0.0\<close> for two finite floats: the remainder is exact, and by a zero it is a NaN, which differs from zero.\<close>

definition f64_rem_nonzero :: "f64 \<Rightarrow> f64 \<Rightarrow> bool" where
  "f64_rem_nonzero a b \<longleftrightarrow> f64_is_zero b \<or> of_int \<lfloor>f64_val a / f64_val b\<rfloor> \<noteq> f64_val a / f64_val b"

section \<open>Exact comparison\<close>

datatype ordering = Less | Equal | Greater

definition cmp :: "'a::linorder \<Rightarrow> 'a \<Rightarrow> ordering" where
  "cmp a b = (if a < b then Less else if a = b then Equal else Greater)"

fun reverse :: "ordering \<Rightarrow> ordering" where
  "reverse Less = Greater"
| "reverse Equal = Equal"
| "reverse Greater = Less"

definition is_lt :: "ordering \<Rightarrow> bool" where "is_lt d \<longleftrightarrow> d = Less"
definition is_le :: "ordering \<Rightarrow> bool" where "is_le d \<longleftrightarrow> d \<noteq> Greater"
definition is_gt :: "ordering \<Rightarrow> bool" where "is_gt d \<longleftrightarrow> d = Greater"
definition is_ge :: "ordering \<Rightarrow> bool" where "is_ge d \<longleftrightarrow> d \<noteq> Less"

text \<open>\<open>f64::partial_cmp\<close>: no order beside a NaN; an infinity lies beyond every finite float.\<close>

definition inf_rank :: "f64 \<Rightarrow> int" where
  "inf_rank f = (if f64_finite f then 0 else if f64_negative f then -1 else 1)"

definition partial_cmp :: "f64 \<Rightarrow> f64 \<Rightarrow> ordering option" where
  "partial_cmp a b =
     (if f64_nan a \<or> f64_nan b then None
      else if f64_finite a \<and> f64_finite b then Some (cmp (f64_val a) (f64_val b))
      else Some (cmp (inf_rank a) (inf_rank b)))"

datatype exact_number = Exact_Integer int | Exact_Float f64

fun exact :: "number \<Rightarrow> exact_number" where
  "exact (Integer i) = Exact_Integer i"
| "exact (BigInt digits) = Exact_Integer (the_or 0 (int_of_dec digits))"
| "exact (Float f) = Exact_Float f"

definition compare_float :: "int \<Rightarrow> f64 \<Rightarrow> ordering" where
  "compare_float i f =
     (case cmp i (floor_integral f) of
        Equal \<Rightarrow> if \<not> fract_zero f then Less else Equal
      | d \<Rightarrow> d)"

definition compare :: "number \<Rightarrow> number \<Rightarrow> ordering" where
  "compare l r =
     (case (exact l, exact r) of
        (Exact_Float a, Exact_Float b) \<Rightarrow> the_or Equal (partial_cmp a b)
      | (Exact_Float f, Exact_Integer i) \<Rightarrow> reverse (compare_float i f)
      | (Exact_Integer i, Exact_Float f) \<Rightarrow> compare_float i f
      | (Exact_Integer a, Exact_Integer b) \<Rightarrow> cmp a b)"

definition compare_count :: "nat \<Rightarrow> number \<Rightarrow> ordering" where
  "compare_count count bound = compare (BigInt (dec_of_nat count)) bound"

definition number_equal :: "number \<Rightarrow> number \<Rightarrow> bool" where
  "number_equal l r \<longleftrightarrow> compare l r = Equal"

fun is_integer :: "number \<Rightarrow> bool" where
  "is_integer (Float f) = fract_zero f"
| "is_integer _ = True"

section \<open>\<open>multipleOf\<close>\<close>

datatype overflow = Overflow

definition to_float :: "number \<Rightarrow> overflow + f64" where
  "to_float n =
     (let f = (case n of
                 Float f \<Rightarrow> f
               | Integer i \<Rightarrow> f64_round (of_int i)
               | BigInt digits \<Rightarrow> (case int_of_dec digits of Some i \<Rightarrow> f64_round (of_int i) | None \<Rightarrow> f64_inf))
      in if f64_finite f then Inr f else Inl Overflow)"

definition divides_exactly :: "number \<Rightarrow> f64 \<Rightarrow> bool" where
  "divides_exactly n divisor =
     (let (numerator, power) = (case exact n of Exact_Float f \<Rightarrow> binary f | Exact_Integer i \<Rightarrow> (i, 0));
          (denominator, divisor_power) = binary divisor;
          shift = power - divisor_power;
          magnitude = nat \<bar>shift\<bar>
      in if 0 \<le> shift then (numerator * 2 ^ magnitude) mod denominator = 0
         else numerator mod (denominator * 2 ^ magnitude) = 0)"

definition not_multiple :: "number \<Rightarrow> number \<Rightarrow> overflow + bool" where
  "not_multiple n divisor =
     (case exact divisor of
        Exact_Float d \<Rightarrow>
          if f64_is_zero d then Inl Overflow
          else (case to_float n of
                  Inl e \<Rightarrow> Inl e
                | Inr f \<Rightarrow>
                    let quotient = f64_div f d
                    in Inr (if f64_finite quotient then \<not> fract_zero quotient
                            else \<not> divides_exactly n d))
      | Exact_Integer d \<Rightarrow>
          if d = 0 then Inl Overflow
          else (case exact n of
                  Exact_Float f \<Rightarrow>
                    (case to_float (BigInt (dec_of_int d)) of
                       Inl e \<Rightarrow> Inl e
                     | Inr g \<Rightarrow> Inr (f64_rem_nonzero f g))
                | Exact_Integer i \<Rightarrow> Inr (i mod d \<noteq> 0)))"

section \<open>Correctness\<close>

definition number_val :: "number \<Rightarrow> rat" where
  "number_val n =
     (case exact n of Exact_Integer i \<Rightarrow> of_int i | Exact_Float f \<Rightarrow> f64_val f)"

lemma cmp_simps [simp]:
  "cmp a b = Less \<longleftrightarrow> a < b" "cmp a b = Equal \<longleftrightarrow> a = b" "cmp a b = Greater \<longleftrightarrow> b < a"
  by (auto simp: cmp_def)

lemma cmp_refl [simp]: "cmp a a = Equal"
  by (simp add: cmp_def)

lemma reverse_cmp: "reverse (cmp a b) = cmp b a"
  by (auto simp: cmp_def)

lemma is_ordering_cmp [simp]:
  "is_lt (cmp a b) \<longleftrightarrow> a < b" "is_le (cmp a b) \<longleftrightarrow> a \<le> b"
  "is_gt (cmp a b) \<longleftrightarrow> b < a" "is_ge (cmp a b) \<longleftrightarrow> b \<le> a"
  by (auto simp: is_lt_def is_le_def is_gt_def is_ge_def)

lemma finite_not_nan: "f64_finite f \<Longrightarrow> \<not> f64_nan f"
  by (simp add: f64_finite_def f64_nan_def)

lemma compare_float_exact:
  assumes "f64_finite f"
  shows "compare_float i f = cmp (of_int i) (f64_val f)"
proof -
  let ?v = "f64_val f"
  have fl: "floor_integral f = \<lfloor>?v\<rfloor>" using assms by (simp add: floor_integral_def)
  have fz: "fract_zero f \<longleftrightarrow> of_int \<lfloor>?v\<rfloor> = ?v" using assms by (simp add: fract_zero_def)
  consider "i < \<lfloor>?v\<rfloor>" | "i = \<lfloor>?v\<rfloor>" | "\<lfloor>?v\<rfloor> < i" by linarith
  then show ?thesis
  proof cases
    case 1
    then have "of_int i < ?v" by (metis less_floor_iff less_le_trans add.commute le_less_trans of_int_floor_le of_int_less_iff)
    with 1 fl show ?thesis by (simp add: compare_float_def cmp_def)
  next
    case 2
    have "of_int \<lfloor>?v\<rfloor> \<le> ?v" by (rule of_int_floor_le)
    then have lt: "of_int \<lfloor>?v\<rfloor> \<noteq> ?v \<Longrightarrow> of_int \<lfloor>?v\<rfloor> < ?v" by linarith
    show ?thesis
    proof (cases "of_int \<lfloor>?v\<rfloor> = ?v")
      case True
      then have c: "cmp (of_int i) ?v = Equal" using 2 by simp
      have "fract_zero f" "cmp i (floor_integral f) = Equal" using fz fl 2 True by (blast, simp)
      then have "compare_float i f = Equal" by (simp add: compare_float_def)
      with c show ?thesis by simp
    next
      case False
      then have "cmp (of_int i) ?v = Less" using 2 lt by simp
      moreover have "\<not> fract_zero f" using fz False by blast
      ultimately show ?thesis using 2 fl by (simp add: compare_float_def cmp_def)
    qed
  next
    case 3
    then have "?v < of_int i" by (simp add: floor_less_iff)
    with 3 fl show ?thesis by (simp add: compare_float_def cmp_def)
  qed
qed

text \<open>Comparison is the order of the exact values, whatever the two representations.\<close>

lemma compare_val:
  assumes "number_ok a" "number_ok b"
  shows "compare a b = cmp (number_val a) (number_val b)"
proof (cases "exact a")
  case A: (Exact_Integer i)
  show ?thesis
  proof (cases "exact b")
    case B: (Exact_Integer j)
    show ?thesis by (simp add: compare_def number_val_def A B cmp_def)
  next
    case B: (Exact_Float f)
    then have "f64_finite f" using assms(2) by (cases b) auto
    then show ?thesis by (simp add: compare_def number_val_def A B compare_float_exact)
  qed
next
  case A: (Exact_Float f)
  then have f: "f64_finite f" using assms(1) by (cases a) auto
  show ?thesis
  proof (cases "exact b")
    case B: (Exact_Integer j)
    from f show ?thesis by (simp add: compare_def number_val_def A B compare_float_exact reverse_cmp)
  next
    case B: (Exact_Float g)
    then have "f64_finite g" using assms(2) by (cases b) auto
    with f show ?thesis by (simp add: compare_def number_val_def A B partial_cmp_def finite_not_nan)
  qed
qed

lemma number_val_count [simp]: "number_val (BigInt (dec_of_nat n)) = of_nat n"
  by (simp add: number_val_def)

lemma compare_count_val:
  assumes "number_ok b"
  shows "compare_count n b = cmp (of_nat n) (number_val b)"
proof (cases "exact b")
  case B: (Exact_Integer j)
  have "cmp (int n) j = cmp (rat_of_nat n) (rat_of_int j)"
  proof -
    have "rat_of_nat n = rat_of_int (int n)" by simp
    then show ?thesis unfolding cmp_def by (simp only: of_int_less_iff of_int_eq_iff)
  qed
  then show ?thesis by (simp add: compare_count_def compare_def B number_val_def)
next
  case B: (Exact_Float f)
  then have "f64_finite f" using assms by (cases b) auto
  then show ?thesis by (simp add: compare_count_def compare_def B number_val_def compare_float_exact)
qed

lemma number_equal_val:
  "number_ok a \<Longrightarrow> number_ok b \<Longrightarrow> number_equal a b \<longleftrightarrow> number_val a = number_val b"
  by (simp add: number_equal_def compare_val)

lemma is_integer_val: "number_ok n \<Longrightarrow> is_integer n \<longleftrightarrow> of_int \<lfloor>number_val n\<rfloor> = number_val n"
  by (cases n) (auto simp: number_val_def fract_zero_def)

subsection \<open>Exact divisibility\<close>

lemma scale2_neq_zero: "scale2 m e = 0 \<longleftrightarrow> m = 0"
  by (simp add: scale2_def)

lemma scale2_powi: "scale2 m e = of_int m * (2 powi e)"
  by (simp add: scale2_def power_int_def power_inverse field_simps)

definition magnitude_of :: "number \<Rightarrow> int \<times> int" where
  "magnitude_of n = (case exact n of Exact_Float f \<Rightarrow> binary f | Exact_Integer i \<Rightarrow> (i, 0))"

lemma number_val_magnitude:
  obtains s :: rat where "s = 1 \<or> s = -1"
    "number_val n = s * scale2 (fst (magnitude_of n)) (snd (magnitude_of n))"
proof (cases "exact n")
  case (Exact_Integer i)
  then show ?thesis by (intro that [of 1]) (simp_all add: number_val_def magnitude_of_def scale2_def)
next
  case (Exact_Float f)
  then show ?thesis
    by (cases "binary f"; intro that [of "if f64_negative f then -1 else 1"])
      (simp_all add: number_val_def magnitude_of_def f64_val_def)
qed

lemma f64_val_magnitude:
  obtains s :: rat where "s = 1 \<or> s = -1" "f64_val f = s * scale2 (fst (binary f)) (snd (binary f))"
  by (cases "binary f"; rule that [of "if f64_negative f then -1 else 1"]) (simp_all add: f64_val_def)

lemma powi_shift: "q \<le> p \<Longrightarrow> (2::rat) powi p = 2 powi q * 2 ^ nat (p - q)"
proof -
  assume le: "q \<le> p"
  have "(2::rat) powi (q + (p - q)) = 2 powi q * 2 powi (p - q)" by (rule power_int_add) simp
  then show ?thesis using le by (simp add: power_int_def)
qed

lemma scale2_multiple_up:
  assumes "q \<le> p"
  shows "scale2 n p = of_int k * scale2 d q \<longleftrightarrow> n * 2 ^ nat (p - q) = k * d"
proof -
  have "scale2 n p = of_int (n * 2 ^ nat (p - q)) * 2 powi q"
    using powi_shift [OF assms] by (simp add: scale2_powi)
  moreover have "of_int k * scale2 d q = of_int (k * d) * 2 powi q"
    by (simp add: scale2_powi)
  ultimately show ?thesis by (simp only: mult_cancel_right of_int_eq_iff) simp
qed

lemma scale2_multiple_down:
  assumes "p \<le> q"
  shows "scale2 n p = of_int k * scale2 d q \<longleftrightarrow> n = k * (d * 2 ^ nat (q - p))"
proof -
  have "of_int k * scale2 d q = of_int (k * (d * 2 ^ nat (q - p))) * 2 powi p"
    using powi_shift [OF assms] by (simp add: scale2_powi)
  moreover have "scale2 n p = of_int n * 2 powi p" by (simp add: scale2_powi)
  ultimately show ?thesis by (simp only: mult_cancel_right of_int_eq_iff) simp
qed

lemma dvd_scale2:
  "(\<exists>k. scale2 n p = of_int k * scale2 d q) \<longleftrightarrow>
    (if 0 \<le> p - q then (n * 2 ^ nat \<bar>p - q\<bar>) mod d = 0 else n mod (d * 2 ^ nat \<bar>p - q\<bar>) = 0)"
proof (cases "q \<le> p")
  case True
  then show ?thesis
    by (simp add: scale2_multiple_up mod_eq_0_iff_dvd dvd_def mult.commute)
next
  case False
  then have "p \<le> q" "nat \<bar>p - q\<bar> = nat (q - p)" by simp_all
  with False show ?thesis
    by (simp add: scale2_multiple_down mod_eq_0_iff_dvd dvd_def mult.commute)
qed

lemma sign_multiple:
  fixes v :: rat
  assumes "s = 1 \<or> s = -1" "t = 1 \<or> t = -1"
  shows "(\<exists>k::int. s * v = of_int k * (t * w)) \<longleftrightarrow> (\<exists>k::int. v = of_int k * w)"
proof
  assume "\<exists>k::int. s * v = of_int k * (t * w)"
  then obtain k where k: "s * v = of_int k * (t * w)" by blast
  show "\<exists>k::int. v = of_int k * w"
  proof (cases "s = t")
    case True
    with k assms show ?thesis by (intro exI [of _ k]) auto
  next
    case False
    with k assms show ?thesis by (intro exI [of _ "- k"]) auto
  qed
next
  assume "\<exists>k::int. v = of_int k * w"
  then obtain k where k: "v = of_int k * w" by blast
  show "\<exists>k::int. s * v = of_int k * (t * w)"
  proof (cases "s = t")
    case True
    with k show ?thesis by (intro exI [of _ k]) simp
  next
    case False
    with k assms show ?thesis by (intro exI [of _ "- k"]) auto
  qed
qed

text \<open>The exact fallback of \<open>multipleOf\<close> decides divisibility of the exact values.\<close>

lemma divides_exactly_iff:
  "divides_exactly n divisor \<longleftrightarrow> (\<exists>k::int. number_val n = of_int k * f64_val divisor)"
proof -
  obtain s :: rat where s: "s = 1 \<or> s = -1"
    and n: "number_val n = s * scale2 (fst (magnitude_of n)) (snd (magnitude_of n))"
    by (rule number_val_magnitude)
  obtain t :: rat where t: "t = 1 \<or> t = -1"
    and d: "f64_val divisor = t * scale2 (fst (binary divisor)) (snd (binary divisor))"
    by (rule f64_val_magnitude)
  have "divides_exactly n divisor \<longleftrightarrow>
    (\<exists>k. scale2 (fst (magnitude_of n)) (snd (magnitude_of n)) =
       of_int k * scale2 (fst (binary divisor)) (snd (binary divisor)))"
    unfolding dvd_scale2
    by (simp add: divides_exactly_def magnitude_of_def Let_def split: prod.split exact_number.split)
  also have "\<dots> \<longleftrightarrow> (\<exists>k::int. number_val n = of_int k * f64_val divisor)"
    unfolding n d by (rule sign_multiple [OF s t, symmetric])
  finally show ?thesis .
qed

lemma f64_is_zero_val: "f64_is_zero f \<longleftrightarrow> f64_val f = 0"
proof -
  have nn: "0 \<le> f64_fraction f" by (simp add: f64_fraction_def)
  show ?thesis
    using nn by (auto simp: f64_is_zero_def f64_val_def binary_def scale2_neq_zero Let_def)
qed

lemma not_multiple_zero: "number_ok d \<Longrightarrow> number_val d = 0 \<Longrightarrow> not_multiple n d = Inl Overflow"
  by (cases d) (auto simp: not_multiple_def number_val_def f64_is_zero_val)

lemma integer_multiple:
  fixes i d :: int
  shows "i mod d \<noteq> 0 \<longleftrightarrow> \<not> (\<exists>k. (of_int i :: rat) = of_int k * of_int d)"
  by (simp add: mod_eq_0_iff_dvd dvd_def mult.commute flip: of_int_mult)

text \<open>C1: comparing two decoded numbers orders their exact values, whatever mixes of integers and floats they are.\<close>

theorem compare_exact:
  assumes "number_ok a" "number_ok b"
  shows "compare a b = cmp (number_val a) (number_val b)"
  using assms by (rule compare_val)

theorem compare_exact_witness:
  "number_ok (Integer 3) \<and> number_ok (Float 0x4008CCCCCCCCCCCD) \<and>
    compare (Integer 3) (Float 0x4008CCCCCCCCCCCD) =
      cmp (number_val (Integer 3)) (number_val (Float 0x4008CCCCCCCCCCCD))"
proof -
  have a: "number_ok (Integer 3)" by code_simp
  have b: "number_ok (Float 0x4008CCCCCCCCCCCD)" by code_simp
  show ?thesis using a b compare_exact [OF a b] by blast
qed

subsection \<open>The sign of a quotient\<close>

lemma f64_signed_parts:
  "f64_exponent (f64_signed negative f) = f64_exponent f" "f64_fraction (f64_signed negative f) = f64_fraction f"
proof -
  have "\<not> bit (2048 :: f64) n" if "n < 11" for n
    using that bit_exp_iff [where 'a = "64 word", of 11 n] by simp
  then have "drop_bit 52 (f OR push_bit 63 1) AND mask 11 = drop_bit 52 f AND (mask 11 :: f64)"
    by (intro bit_word_eqI) (auto simp: bit_simps)
  moreover have "(0x7ff :: f64) = mask 11" by (simp add: mask_eq_exp_minus_1)
  ultimately show "f64_exponent (f64_signed negative f) = f64_exponent f"
    by (simp only: f64_signed_def f64_exponent_def if_distrib if_cancel)
  have "\<not> bit (9223372036854775808 :: f64) n" if "n < 52" for n
    using that bit_exp_iff [where 'a = "64 word", of 63 n] by simp
  then have "(f OR push_bit 63 1) AND mask 52 = f AND (mask 52 :: f64)"
    by (intro bit_word_eqI) (auto simp: bit_simps)
  moreover have "push_bit 52 1 - 1 = (mask 52 :: f64)" by (simp add: mask_eq_exp_minus_1)
  ultimately show "f64_fraction (f64_signed negative f) = f64_fraction f"
    by (simp only: f64_signed_def f64_fraction_def if_distrib if_cancel)
qed

lemma f64_signed_finite [simp]: "f64_finite (f64_signed negative f) = f64_finite f"
  by (simp add: f64_finite_def f64_signed_parts)

lemma f64_signed_val: "f64_val (f64_signed negative f) = f64_val f \<or> f64_val (f64_signed negative f) = - f64_val f"
  by (simp add: f64_val_def binary_def f64_signed_parts Let_def split: prod.split)

lemma integral_minus: "(of_int \<lfloor>- x\<rfloor> = - x) = (of_int \<lfloor>x\<rfloor> = x)" for x :: rat
  by (metis floor_of_int minus_minus of_int_minus)

lemma f64_signed_fract [simp]: "fract_zero (f64_signed negative f) = fract_zero f"
  by (rule disjE [OF f64_signed_val [of negative f]]) (simp_all only: fract_zero_def f64_signed_finite integral_minus)

text \<open>The quotient of two finite floats, the divisor not zero, is the rounding of the exact quotient, but for the sign of a zero.\<close>

lemma f64_div_rounds:
  assumes "f64_val f \<noteq> 0"
  shows "f64_finite (f64_div g f) = f64_finite (f64_round (f64_val g / f64_val f))"
    "fract_zero (f64_div g f) = fract_zero (f64_round (f64_val g / f64_val f))"
  using assms by (simp_all add: f64_div_def f64_round_def f64_is_zero_val)

lemma multiple_integral: "of_int \<lfloor>a / b\<rfloor> = a / b \<longleftrightarrow> (\<exists>k::int. a = of_int k * b)" if "b \<noteq> 0" for a b :: rat
  using that by (auto simp: field_simps)

lemma bit_length_positive: "1 \<le> i \<Longrightarrow> 1 \<le> bit_length i"
proof -
  have "0 \<le> bit_length n" for n by (induction n rule: bit_length.induct) (subst bit_length.simps, simp)
  then show "1 \<le> i \<Longrightarrow> 1 \<le> bit_length i" by (subst bit_length.simps) (simp add: le_less_trans)
qed

lemma exponent_of_bits: "0 \<le> bits \<Longrightarrow> bits < 0x7ff * 2 ^ 52 \<Longrightarrow> f64_exponent (word_of_int bits) = bits div 2 ^ 52"
proof -
  assume bits: "0 \<le> bits" "bits < 0x7ff * 2 ^ 52"
  have m: "(0x7ff :: f64) = mask 11" by (simp add: mask_eq_exp_minus_1)
  have w: "uint (word_of_int bits :: f64) = bits" using bits by (simp add: uint_word_of_int take_bit_eq_mod)
  have "f64_exponent (word_of_int bits) = uint (take_bit 11 (drop_bit 52 (word_of_int bits :: f64)))"
    by (simp only: f64_exponent_def m take_bit_eq_mask)
  also have "\<dots> = take_bit 11 (drop_bit 52 bits)"
    unfolding unsigned_take_bit_eq unsigned_drop_bit_eq w using bits
    by (simp only: take_bit_eq_mod drop_bit_eq_div) simp
  also have "\<dots> = bits div 2 ^ 52" using bits by (simp only: take_bit_eq_mod drop_bit_eq_div) simp
  finally show ?thesis .
qed

lemma f64_round_nonzero:
  assumes "i \<noteq> 0" "f64_finite (f64_round (of_int i))"
  shows "\<not> f64_is_zero (f64_round (of_int i))"
proof -
  define r where "r = \<bar>rat_of_int i\<bar>"
  define q where "q = max (log2_floor r - 52) (- 1074)"
  define bits where "bits = (q + 1074) * 2 ^ 52 + round_half_even (r / scale2 1 q)"
  have r: "r = of_int \<bar>i\<bar>" "r \<noteq> 0" "0 \<le> r" using assms(1) by (simp_all add: r_def)
  have "quotient_of r = (\<bar>i\<bar>, 1)" unfolding r(1) by (simp only: of_int_rat quotient_of_Fract) (simp add: Rat.normalize_def)
  moreover have "1 \<le> \<bar>i\<bar>" using assms(1) by linarith
  then have "1 \<le> bit_length \<bar>i\<bar>" by (rule bit_length_positive)
  ultimately have "- 1 \<le> log2_floor r"
    by (auto simp: log2_floor_def Let_def bit_length.simps [of 1] bit_length.simps [of 0] split: prod.split)
  then have "- 53 \<le> q" by (simp add: q_def)
  moreover have "0 \<le> r / scale2 1 q" using r(3) by (simp add: scale2_def)
  then have "0 \<le> round_half_even (r / scale2 1 q)" by (simp add: round_half_even_def Let_def)
  ultimately have positive: "2 ^ 52 \<le> bits" by (simp add: bits_def)
  show ?thesis
  proof
    assume zero: "f64_is_zero (f64_round (rat_of_int i))"
    have "f64_round_abs r = (if bits < 0x7ff * 2 ^ 52 then word_of_int bits else f64_inf)"
      using r(2) by (simp add: f64_round_abs_def q_def bits_def Let_def)
    moreover have "f64_is_zero (f64_round_abs r)" using zero by (simp add: f64_round_def r_def f64_is_zero_def f64_signed_parts)
    ultimately have "bits < 0x7ff * 2 ^ 52" "f64_is_zero (word_of_int bits)"
      by (auto simp: f64_is_zero_def f64_inf_def f64_exponent_def split: if_splits)
    moreover have "f64_exponent (word_of_int bits) = bits div 2 ^ 52"
      using positive calculation(1) by (intro exponent_of_bits) simp_all
    moreover have "1 \<le> bits div 2 ^ 52" using zdiv_mono1 [OF positive, of "2 ^ 52"] by simp
    ultimately show False by (simp add: f64_is_zero_def)
  qed
qed

lemma exact_float: "exact d = Exact_Float f \<longleftrightarrow> d = Float f"
  by (cases d) auto

lemma to_float_integer: "number_ok d \<Longrightarrow> exact d = Exact_Integer j \<Longrightarrow> to_float (BigInt (dec_of_int j)) = to_float d \<and> to_float d =
    (let f = f64_round (of_int j) in if f64_finite f then Inr f else Inl Overflow)"
  by (cases d) (auto simp: to_float_def Let_def the_or_def split: option.splits)


end
