(* ===== verification/Equality.thy ===== *)
theory Equality
  imports Numbers "HOL-Library.Product_Lexorder" "HOL-Library.Multiset"
begin

text \<open>
  JSON Schema equality (\<open>protocol/action-schema/src/validate/equality.rs\<close>): \<open>json_equal\<close> compares two values directly,
  \<open>key\<close> maps a value to its class, and \<open>unique\<close> decides \<open>uniqueItems\<close> by a set of classes.  The derived Rust order on
  classes, by which the members of an object class are sorted, is the \<open>linorder\<close> instance below.
\<close>

section \<open>The code\<close>

function (sequential) json_equal :: "json \<Rightarrow> json \<Rightarrow> bool" where
  "json_equal Null Null = True"
| "json_equal (Bool a) (Bool b) = (a = b)"
| "json_equal (Number a) (Number b) = number_equal a b"
| "json_equal (String a) (String b) = (a = b)"
| "json_equal (Array as) (Array bs) =
     (length as = length bs \<and> list_all (\<lambda>p. json_equal (fst p) (snd p)) (zip as bs))"
| "json_equal (Object as) (Object bs) =
     (length as = length bs \<and>
      list_all (\<lambda>m. list_ex (\<lambda>n. fst n = fst m \<and> json_equal (snd m) (snd n)) bs) as)"
| "json_equal _ _ = False"
  by pat_completeness auto
termination
  by (relation "measure (\<lambda>(l, r). node_count l)")
    (auto simp del: node_count.simps intro: node_count_elem node_count_member dest: set_zip_leftD)

datatype eq_key =
    KNull
  | KBool bool
  | KInteger int
  | KFraction f64
  | KString string
  | KArray "eq_key list"
  | KObject "(string \<times> eq_key) list"

fun tag :: "eq_key \<Rightarrow> nat" where
  "tag KNull = 0"
| "tag (KBool _) = 1"
| "tag (KInteger _) = 2"
| "tag (KFraction _) = 3"
| "tag (KString _) = 4"
| "tag (KArray _) = 5"
| "tag (KObject _) = 6"

fun then_cmp :: "ordering \<Rightarrow> ordering \<Rightarrow> ordering" where
  "then_cmp Equal d = d"
| "then_cmp d _ = d"

text \<open>The derived \<open>Ord\<close>: the variants in declaration order, then the fields lexicographically.\<close>

fun key_cmp :: "eq_key \<Rightarrow> eq_key \<Rightarrow> ordering"
  and keys_cmp :: "eq_key list \<Rightarrow> eq_key list \<Rightarrow> ordering"
  and members_cmp :: "(string \<times> eq_key) list \<Rightarrow> (string \<times> eq_key) list \<Rightarrow> ordering" where
  "key_cmp (KBool a) (KBool b) = cmp a b"
| "key_cmp (KInteger a) (KInteger b) = cmp a b"
| "key_cmp (KFraction a) (KFraction b) = cmp a b"
| "key_cmp (KString a) (KString b) = cmp a b"
| "key_cmp (KArray as) (KArray bs) = keys_cmp as bs"
| "key_cmp (KObject as) (KObject bs) = members_cmp as bs"
| "key_cmp a b = cmp (tag a) (tag b)"
| "keys_cmp [] [] = Equal"
| "keys_cmp [] (_ # _) = Less"
| "keys_cmp (_ # _) [] = Greater"
| "keys_cmp (a # as) (b # bs) = then_cmp (key_cmp a b) (keys_cmp as bs)"
| "members_cmp [] [] = Equal"
| "members_cmp [] (_ # _) = Less"
| "members_cmp (_ # _) [] = Greater"
| "members_cmp ((m, a) # as) ((n, b) # bs) =
     then_cmp (cmp m n) (then_cmp (key_cmp a b) (members_cmp as bs))"

lemma then_cmp_Equal [simp]: "then_cmp d e = Equal \<longleftrightarrow> d = Equal \<and> e = Equal"
  by (cases d) auto

lemma then_cmp_Less [simp]: "then_cmp d e = Less \<longleftrightarrow> d = Less \<or> d = Equal \<and> e = Less"
  by (cases d) auto

lemma reverse_then_cmp: "reverse (then_cmp d e) = then_cmp (reverse d) (reverse e)"
  by (cases d) auto

lemma tag_zero [simp]: "tag a = 0 \<longleftrightarrow> a = KNull" "0 = tag a \<longleftrightarrow> a = KNull"
  by (cases a; simp)+

lemma key_cmp_Equal:
  "key_cmp a b = Equal \<longleftrightarrow> a = b"
  "keys_cmp as bs = Equal \<longleftrightarrow> as = bs"
  "members_cmp ms ns = Equal \<longleftrightarrow> ms = ns"
  by (induction a b and as bs and ms ns rule: key_cmp_keys_cmp_members_cmp.induct) auto

lemma key_cmp_reverse:
  "reverse (key_cmp a b) = key_cmp b a"
  "reverse (keys_cmp as bs) = keys_cmp bs as"
  "reverse (members_cmp ms ns) = members_cmp ns ms"
  by (induction a b and as bs and ms ns rule: key_cmp_keys_cmp_members_cmp.induct)
    (auto simp: reverse_cmp reverse_then_cmp)

lemma key_cmp_lt_tag: "tag a < tag b \<Longrightarrow> key_cmp a b = Less"
  by (cases a; cases b) auto

lemma key_cmp_le_tag: "key_cmp a b = Less \<Longrightarrow> tag a \<le> tag b"
  by (cases a; cases b) auto

lemma keys_cmp_trans:
  assumes "\<And>a b c. a \<in> set as \<Longrightarrow> key_cmp a b = Less \<Longrightarrow> key_cmp b c = Less \<Longrightarrow> key_cmp a c = Less"
    and "keys_cmp as bs = Less" "keys_cmp bs cs = Less"
  shows "keys_cmp as cs = Less"
  using assms
proof (induction as arbitrary: bs cs)
  case Nil
  then show ?case by (cases bs; cases cs) auto
next
  case (Cons a as)
  obtain b bs' where bs: "bs = b # bs'" using Cons.prems(2) by (cases bs) auto
  obtain c cs' where cs: "cs = c # cs'" using Cons.prems(3) bs by (cases cs) auto
  have tl: "keys_cmp as bs' = Less \<Longrightarrow> keys_cmp bs' cs' = Less \<Longrightarrow> keys_cmp as cs' = Less"
    using Cons.IH [of bs' cs'] Cons.prems(1) by (meson list.set_intros(2))
  show ?case
    using Cons.prems(2,3) Cons.prems(1) [of a b c] tl by (auto simp: bs cs key_cmp_Equal)
qed

lemma members_cmp_trans:
  assumes "\<And>n a b c. (n, a) \<in> set as \<Longrightarrow> key_cmp a b = Less \<Longrightarrow> key_cmp b c = Less \<Longrightarrow> key_cmp a c = Less"
    and "members_cmp as bs = Less" "members_cmp bs cs = Less"
  shows "members_cmp as cs = Less"
  using assms
proof (induction as arbitrary: bs cs)
  case Nil
  then show ?case by (cases bs; cases cs) auto
next
  case (Cons p as)
  obtain m a where p: "p = (m, a)" by (cases p)
  obtain n b bs' where bs: "bs = (n, b) # bs'" using Cons.prems(2) p by (cases bs) auto
  obtain k c cs' where cs: "cs = (k, c) # cs'" using Cons.prems(3) bs by (cases cs) auto
  have tl: "members_cmp as bs' = Less \<Longrightarrow> members_cmp bs' cs' = Less \<Longrightarrow> members_cmp as cs' = Less"
    using Cons.IH [of bs' cs'] Cons.prems(1) by (meson list.set_intros(2))
  show ?case
    using Cons.prems(2,3) Cons.prems(1) [of m a b c] tl by (auto simp: p bs cs key_cmp_Equal)
qed

lemma key_cmp_trans: "key_cmp a b = Less \<Longrightarrow> key_cmp b c = Less \<Longrightarrow> key_cmp a c = Less"
proof (induction a arbitrary: b c)
  case (KArray as)
  show ?case
  proof (cases "tag (KArray as) < tag c")
    case False
    then obtain bs cs where "b = KArray bs" "c = KArray cs"
      using key_cmp_le_tag [OF KArray.prems(1)] key_cmp_le_tag [OF KArray.prems(2)] KArray.prems
      by (cases b; cases c) auto
    then show ?thesis using KArray.prems keys_cmp_trans [of as bs cs] KArray.IH by simp
  qed (rule key_cmp_lt_tag)
next
  case (KObject as)
  show ?case
  proof (cases "tag (KObject as) < tag c")
    case False
    then obtain bs cs where "b = KObject bs" "c = KObject cs"
      using key_cmp_le_tag [OF KObject.prems(1)] key_cmp_le_tag [OF KObject.prems(2)] KObject.prems
      by (cases b; cases c) auto
    then show ?thesis using KObject.prems members_cmp_trans [of as bs cs] KObject.IH by auto
  qed (rule key_cmp_lt_tag)
next
  case KNull
  then show ?case using key_cmp_le_tag [OF KNull(2)] by (cases b; cases c) simp_all
next
  case (KBool x)
  show ?case
  proof (cases "tag (KBool x) < tag c")
    case False
    then obtain y z where bc: "b = KBool y" "c = KBool z"
      using key_cmp_le_tag [OF KBool(1)] key_cmp_le_tag [OF KBool(2)] by (cases b; cases c) simp_all
    have "x < y" "y < z" using KBool by (simp_all add: bc)
    then have "x < z" by (rule less_trans)
    then show ?thesis by (simp add: bc)
  qed (rule key_cmp_lt_tag)
next
  case (KInteger x)
  show ?case
  proof (cases "tag (KInteger x) < tag c")
    case False
    then obtain y z where bc: "b = KInteger y" "c = KInteger z"
      using key_cmp_le_tag [OF KInteger(1)] key_cmp_le_tag [OF KInteger(2)] by (cases b; cases c) simp_all
    have "x < y" "y < z" using KInteger by (simp_all add: bc)
    then have "x < z" by (rule less_trans)
    then show ?thesis by (simp add: bc)
  qed (rule key_cmp_lt_tag)
next
  case (KFraction x)
  show ?case
  proof (cases "tag (KFraction x) < tag c")
    case False
    then obtain y z where bc: "b = KFraction y" "c = KFraction z"
      using key_cmp_le_tag [OF KFraction(1)] key_cmp_le_tag [OF KFraction(2)] by (cases b; cases c) simp_all
    have "x < y" "y < z" using KFraction by (simp_all add: bc)
    then have "x < z" by (rule less_trans)
    then show ?thesis by (simp add: bc)
  qed (rule key_cmp_lt_tag)
next
  case (KString x)
  show ?case
  proof (cases "tag (KString x) < tag c")
    case False
    then obtain y z where bc: "b = KString y" "c = KString z"
      using key_cmp_le_tag [OF KString(1)] key_cmp_le_tag [OF KString(2)] by (cases b; cases c) simp_all
    have "x < y" "y < z" using KString by (simp_all add: bc)
    then have "x < z" by (rule less_trans)
    then show ?thesis by (simp add: bc)
  qed (rule key_cmp_lt_tag)
qed

instantiation eq_key :: linorder
begin

definition less_eq_eq_key :: "eq_key \<Rightarrow> eq_key \<Rightarrow> bool" where
  "a \<le> b \<longleftrightarrow> key_cmp a b \<noteq> Greater"

definition less_eq_key :: "eq_key \<Rightarrow> eq_key \<Rightarrow> bool" where
  "a < b \<longleftrightarrow> key_cmp a b = Less"

instance
proof
  fix a b c :: eq_key
  have g: "key_cmp x y = Greater \<longleftrightarrow> key_cmp y x = Less" for x y
    using key_cmp_reverse(1) [of x y] by (cases "key_cmp x y") auto
  have e: "key_cmp x y = Equal \<longleftrightarrow> x = y" for x y by (rule key_cmp_Equal)
  show "a < b \<longleftrightarrow> a \<le> b \<and> \<not> b \<le> a"
    using g [of a b] g [of b a] e [of a b] e [of b a]
    by (cases "key_cmp a b"; cases "key_cmp b a") (auto simp: less_eq_key_def less_eq_eq_key_def)
  show "a \<le> a" using e [of a a] by (simp add: less_eq_eq_key_def)
  show "a \<le> b \<or> b \<le> a" using g [of a b] by (cases "key_cmp a b") (auto simp: less_eq_eq_key_def)
  show "a \<le> b \<Longrightarrow> b \<le> a \<Longrightarrow> a = b"
    using g [of a b] g [of b a] e [of a b] by (cases "key_cmp a b"; cases "key_cmp b a") (auto simp: less_eq_eq_key_def)
  show "a \<le> b \<Longrightarrow> b \<le> c \<Longrightarrow> a \<le> c"
    using key_cmp_trans [of a b c] e [of a b] e [of b c]
    by (cases "key_cmp a b"; cases "key_cmp b c") (auto simp: less_eq_eq_key_def)
qed

end

fun number_key :: "number \<Rightarrow> eq_key" where
  "number_key (Integer i) = KInteger i"
| "number_key (BigInt digits) = KInteger (the_or 0 (int_of_dec digits))"
| "number_key (Float f) = (if fract_zero f then KInteger (floor_integral f) else KFraction f)"

fun key :: "json \<Rightarrow> eq_key" where
  "key Null = KNull"
| "key (Bool b) = KBool b"
| "key (Number n) = number_key n"
| "key (String t) = KString t"
| "key (Array vs) = KArray (map key vs)"
| "key (Object ms) = KObject (sort (map (\<lambda>m. (fst m, key (snd m))) ms))"

text \<open>\<open>items.iter().all(|item| seen.insert(key(item)))\<close>\<close>

fun unique_from :: "eq_key set \<Rightarrow> json list \<Rightarrow> bool" where
  "unique_from seen [] = True"
| "unique_from seen (v # vs) = (key v \<notin> seen \<and> unique_from (insert (key v) seen) vs)"

definition unique :: "json list \<Rightarrow> bool" where
  "unique items = unique_from {} items"

section \<open>A float is determined by its exact value, zero apart\<close>

lemma bits_of_f64:
  fixes f g :: f64
  assumes "f64_negative f = f64_negative g" "f64_exponent f = f64_exponent g" "f64_fraction f = f64_fraction g"
  shows "f = g"
proof (rule bit_word_eqI)
  fix n assume n: "n < LENGTH(64)"
  have e: "drop_bit 52 f AND 0x7ff = drop_bit 52 g AND 0x7ff"
    using assms(2) unfolding f64_exponent_def word_uint_eq_iff .
  have m: "f AND mask 52 = g AND mask 52"
  proof -
    have "push_bit 52 1 - 1 = (mask 52 :: 64 word)" by (simp add: mask_eq_exp_minus_1 push_bit_eq_mult)
    then have "uint (f AND mask 52) = uint (g AND mask 52)" using assms(3) by (simp only: f64_fraction_def)
    then show ?thesis unfolding word_uint_eq_iff .
  qed
  have k: "(0x7ff :: 64 word) = mask 11" by (simp add: mask_eq_exp_minus_1)
  consider "n < 52" | "52 \<le> n" "n < 63" | "n = 63" using n by fastforce
  then show "bit f n = bit g n"
  proof cases
    case 1
    have "bit (f AND mask 52) n = bit (g AND mask 52) n" by (simp only: m)
    then show ?thesis using 1 n by (simp add: bit_and_iff bit_mask_iff)
  next
    case 2
    have "bit (drop_bit 52 f AND mask 11) (n - 52) = bit (drop_bit 52 g AND mask 11) (n - 52)"
      using e by (simp only: k)
    moreover have "n - 52 < 64" "n - 52 < 11" using 2 by linarith+
    ultimately show ?thesis using 2 by (simp add: bit_and_iff bit_mask_iff bit_drop_bit_eq)
  next
    case 3
    then show ?thesis using assms(1) by (simp add: f64_negative_def)
  qed
qed

lemma f64_fraction_bounds: "0 \<le> f64_fraction f" "f64_fraction f < 2 ^ 52"
proof -
  show "0 \<le> f64_fraction f" by (simp add: f64_fraction_def)
  have "f AND (push_bit 52 1 - 1) = take_bit 52 f"
    by (simp add: take_bit_eq_mask mask_eq_exp_minus_1 push_bit_eq_mult)
  then have "f64_fraction f = take_bit 52 (uint f)"
    by (simp add: f64_fraction_def unsigned_take_bit_eq)
  then show "f64_fraction f < 2 ^ 52"
    by (simp only: take_bit_int_less_exp)
qed

lemma f64_exponent_nonneg: "0 \<le> f64_exponent f"
  by (simp add: f64_exponent_def)

text \<open>Two magnitudes in normal form denote the same value only when they are the same.\<close>

lemma binary_normal:
  "\<exists>m e. binary f = (m, e) \<and> 0 \<le> m \<and> m < 2 ^ 53 \<and> -1074 \<le> e \<and>
    (m < 2 ^ 52 \<longrightarrow> e = -1074 \<and> f64_exponent f = 0 \<and> m = f64_fraction f) \<and>
    (2 ^ 52 \<le> m \<longrightarrow> f64_exponent f = e + 1075 \<and> m = f64_fraction f + 2 ^ 52)"
  using f64_fraction_bounds [of f] f64_exponent_nonneg [of f]
  by (cases "f64_exponent f = 0") (auto simp: binary_def)

lemma scale2_normal_eq:
  assumes eq: "scale2 m e = scale2 n d" and le: "d \<le> e"
    and m: "m < 2 ^ 53" "m < 2 ^ 52 \<Longrightarrow> e = -1074" and n: "0 \<le> n" "n < 2 ^ 53" and d: "-1074 \<le> d"
  shows "m = n \<and> e = d"
proof (cases "e = d")
  case True
  then show ?thesis using scale2_multiple_up [of d e m 1 n] eq by simp
next
  case False
  with le d m have "2 ^ 52 \<le> m" by force
  have "nat (e - d) = Suc (nat (e - d - 1))" using False le by simp
  then have p: "(2::int) \<le> 2 ^ nat (e - d)" by simp
  have "m * 2 ^ nat (e - d) = n" using scale2_multiple_up [of d e m 1 n] eq le by simp
  moreover have "2 ^ 52 * 2 \<le> m * 2 ^ nat (e - d)"
    by (rule mult_mono) (use \<open>2 ^ 52 \<le> m\<close> p in auto)
  ultimately show ?thesis using n(2) by simp
qed

lemma scale2_nonneg: "0 \<le> m \<Longrightarrow> 0 \<le> scale2 m e"
  by (simp add: scale2_def)

lemma f64_val_inj:
  assumes eq: "f64_val f = f64_val g" and nz: "f64_val f \<noteq> 0"
  shows "f = g"
proof -
  obtain m e where f: "binary f = (m, e)" "0 \<le> m" "m < 2 ^ 53" "-1074 \<le> e"
    "m < 2 ^ 52 \<longrightarrow> e = -1074 \<and> f64_exponent f = 0 \<and> m = f64_fraction f"
    "2 ^ 52 \<le> m \<longrightarrow> f64_exponent f = e + 1075 \<and> m = f64_fraction f + 2 ^ 52"
    using binary_normal [of f] by blast
  obtain n d where g: "binary g = (n, d)" "0 \<le> n" "n < 2 ^ 53" "-1074 \<le> d"
    "n < 2 ^ 52 \<longrightarrow> d = -1074 \<and> f64_exponent g = 0 \<and> n = f64_fraction g"
    "2 ^ 52 \<le> n \<longrightarrow> f64_exponent g = d + 1075 \<and> n = f64_fraction g + 2 ^ 52"
    using binary_normal [of g] by blast
  have pos: "0 \<le> scale2 m e" "0 \<le> scale2 n d" using f(2) g(2) by (simp_all add: scale2_nonneg)
  have s: "f64_negative f = f64_negative g" and v: "scale2 m e = scale2 n d"
    using eq nz pos by (auto simp: f64_val_def f(1) g(1) split: if_splits)
  have "m = n \<and> e = d"
  proof (cases "d \<le> e")
    case True
    then show ?thesis using scale2_normal_eq [OF v True f(3)] f(5) g by blast
  next
    case False
    then have "e \<le> d" by simp
    then show ?thesis using scale2_normal_eq [OF v [symmetric] _ g(3)] g(5) f by blast
  qed
  then have "f64_exponent f = f64_exponent g \<and> f64_fraction f = f64_fraction g"
    using f(5,6) g(5,6) by (cases "m < 2 ^ 52") auto
  with s show ?thesis by (simp add: bits_of_f64)
qed

section \<open>Two values are equal exactly when their classes are\<close>

lemma fract_zero_val: "f64_finite f \<Longrightarrow> fract_zero f \<longleftrightarrow> of_int (floor_integral f) = f64_val f"
  by (simp add: fract_zero_def floor_integral_def)

lemma number_key_float:
  assumes "f64_finite f" "f64_finite g"
  shows "number_key (Float f) = number_key (Float g) \<longleftrightarrow> f64_val f = f64_val g"
proof (cases "fract_zero f \<and> fract_zero g")
  case True
  then have "of_int (floor_integral f) = f64_val f" "of_int (floor_integral g) = f64_val g"
    using assms fract_zero_val by blast+
  then have "floor_integral f = floor_integral g \<longleftrightarrow> f64_val f = f64_val g" by (metis of_int_eq_iff)
  with True show ?thesis by simp
next
  case False
  show ?thesis
  proof
    assume "number_key (Float f) = number_key (Float g)"
    with False show "f64_val f = f64_val g" by (auto split: if_splits)
  next
    assume v: "f64_val f = f64_val g"
    with False assms have "\<not> fract_zero f" by (auto simp: fract_zero_def)
    then have "f64_val f \<noteq> 0" using assms(1) by (auto simp: fract_zero_def)
    with v have "f = g" by (rule f64_val_inj)
    then show "number_key (Float f) = number_key (Float g)" by simp
  qed
qed

lemma number_key_mixed:
  assumes "f64_finite f"
  shows "KInteger i = number_key (Float f) \<longleftrightarrow> of_int i = f64_val f"
proof (cases "fract_zero f")
  case True
  then have "of_int (floor_integral f) = f64_val f" using assms by (simp add: fract_zero_val)
  then have "of_int i = f64_val f \<longleftrightarrow> i = floor_integral f" by (metis of_int_eq_iff)
  then show ?thesis using True by simp
next
  case False
  have "of_int i \<noteq> f64_val f"
  proof
    assume "of_int i = f64_val f"
    then have "of_int \<lfloor>f64_val f\<rfloor> = f64_val f" by (metis floor_of_int)
    with False assms show False by (simp add: fract_zero_def)
  qed
  with False show ?thesis by simp
qed

lemma number_key_val:
  assumes "number_ok a" "number_ok b"
  shows "number_key a = number_key b \<longleftrightarrow> number_val a = number_val b"
proof (cases "exact a")
  case A: (Exact_Integer i)
  then have a: "number_key a = KInteger i" by (cases a) auto
  show ?thesis
  proof (cases "exact b")
    case B: (Exact_Integer j)
    then have "number_key b = KInteger j" by (cases b) auto
    then show ?thesis by (simp add: a number_val_def A B)
  next
    case B: (Exact_Float f)
    then have b: "b = Float f" by (cases b) auto
    then show ?thesis using assms(2) number_key_mixed [of f i] by (simp only: a b number_val_def A exact.simps exact_number.case number_ok.simps)
  qed
next
  case A: (Exact_Float f)
  then have a: "a = Float f" by (cases a) auto
  show ?thesis
  proof (cases "exact b")
    case B: (Exact_Integer j)
    then have b: "number_key b = KInteger j" by (cases b) auto
    have "number_key a = KInteger j \<longleftrightarrow> f64_val f = of_int j"
      using assms(1) number_key_mixed [of f j] unfolding a number_ok.simps by metis
    then show ?thesis by (simp only: b number_val_def A B exact_number.case)
  next
    case B: (Exact_Float g)
    then have b: "b = Float g" by (cases b) auto
    show ?thesis using assms number_key_float [of f g] unfolding a b
      by (simp only: number_ok.simps number_val_def exact.simps exact_number.case)
  qed
qed

lemma number_key_kind [simp]:
  "number_key n \<noteq> KNull" "number_key n \<noteq> KBool b" "number_key n \<noteq> KString t"
  "number_key n \<noteq> KArray ks" "number_key n \<noteq> KObject ms"
  "KNull \<noteq> number_key n" "KBool b \<noteq> number_key n" "KString t \<noteq> number_key n"
  "KArray ks \<noteq> number_key n" "KObject ms \<noteq> number_key n"
  by (cases n; simp)+

lemma sort_map_eq:
  assumes "distinct (map fst as)" "distinct (map fst bs)"
  shows "sort (map (\<lambda>m. (fst m, f (snd m))) as) = sort (map (\<lambda>m. (fst m, f (snd m))) bs) \<longleftrightarrow>
    length as = length bs \<and> (\<forall>m\<in>set as. \<exists>n\<in>set bs. fst n = fst m \<and> f (snd m) = f (snd n))"
    (is "sort ?as = sort ?bs \<longleftrightarrow> ?R")
proof -
  have d: "distinct ?as" "distinct ?bs"
    using assms by (auto simp: distinct_map inj_on_def)
  have "sort ?as = sort ?bs \<longleftrightarrow> mset ?as = mset ?bs"
  proof
    assume "sort ?as = sort ?bs"
    then have "mset (sort ?as) = mset (sort ?bs)" by (simp only:)
    then show "mset ?as = mset ?bs" by (simp only: mset_sort)
  next
    assume "mset ?as = mset ?bs"
    then show "sort ?as = sort ?bs" by (intro properties_for_sort) (simp_all only: mset_sort sorted_sort)
  qed
  also have "\<dots> \<longleftrightarrow> set ?as = set ?bs"
    by (rule set_eq_iff_mset_eq_distinct [OF d, symmetric])
  also have "\<dots> \<longleftrightarrow> length as = length bs \<and> set ?as \<subseteq> set ?bs"
  proof
    assume eq: "set ?as = set ?bs"
    then have "length ?as = length ?bs" using d by (metis distinct_card)
    then show "length as = length bs \<and> set ?as \<subseteq> set ?bs" using eq by simp
  next
    assume r: "length as = length bs \<and> set ?as \<subseteq> set ?bs"
    have "card (set ?as) = card (set ?bs)"
      using r distinct_card [OF d(1)] distinct_card [OF d(2)] by simp
    with r show "set ?as = set ?bs" by (simp add: card_subset_eq)
  qed
  also have "set ?as \<subseteq> set ?bs \<longleftrightarrow> (\<forall>m\<in>set as. \<exists>n\<in>set bs. fst n = fst m \<and> f (snd m) = f (snd n))"
    unfolding set_map image_subset_iff by (intro ball_cong refl) (auto simp: image_iff Bex_def eq_commute)
  finally show ?thesis .
qed

lemma list_all_zip:
  "length as = length bs \<Longrightarrow>
    list_all (\<lambda>p. P (fst p) (snd p)) (zip as bs) \<longleftrightarrow> (\<forall>i<length as. P (as ! i) (bs ! i))"
  by (auto simp: list_all_iff set_zip in_set_conv_nth)

lemma json_equal_key:
  "value_ok a \<Longrightarrow> value_ok b \<Longrightarrow> json_equal a b \<longleftrightarrow> key a = key b"
proof (induction a b rule: json_equal.induct)
  case (3 a b)
  then show ?case by (simp add: number_equal_val number_key_val)
next
  case (5 as bs)
  show ?case
  proof (cases "length as = length bs")
    case True
    have "json_equal (as ! i) (bs ! i) \<longleftrightarrow> key (as ! i) = key (bs ! i)" if "i < length as" for i
    proof -
      have "(as ! i, bs ! i) \<in> set (zip as bs)" using that True by (auto simp: set_zip)
      moreover have "value_ok (as ! i)" "value_ok (bs ! i)" using 5 that True by auto
      ultimately show ?thesis using 5(1) True by fastforce
    qed
    with True show ?thesis by (simp add: list_all_zip list_eq_iff_nth_eq)
  next
    case False
    then show ?thesis by (auto dest: map_eq_imp_length_eq)
  qed
next
  case (6 as bs)
  have ih: "json_equal (snd m) (snd n) \<longleftrightarrow> key (snd m) = key (snd n)"
    if "length as = length bs" "m \<in> set as" "n \<in> set bs" "fst n = fst m" for m n
    using 6 that by auto
  then have "json_equal (Object as) (Object bs) \<longleftrightarrow>
      length as = length bs \<and> (\<forall>m\<in>set as. \<exists>n\<in>set bs. fst n = fst m \<and> key (snd m) = key (snd n))"
    unfolding json_equal.simps list_all_iff list_ex_iff using ih by (intro conj_cong refl ball_cong bex_cong) auto
  also have "\<dots> \<longleftrightarrow> key (Object as) = key (Object bs)"
    using sort_map_eq [of as bs key] 6 by simp
  finally show ?case .
qed auto

lemma unique_from_iff:
  "unique_from seen vs \<longleftrightarrow> distinct (map key vs) \<and> set (map key vs) \<inter> seen = {}"
  by (induction vs arbitrary: seen) auto

lemma distinct_nth_less:
  "distinct xs \<longleftrightarrow> (\<forall>j<length xs. \<forall>i<j. xs ! i \<noteq> xs ! j)"
  unfolding distinct_conv_nth
  by (intro iffI allI impI) (auto dest: less_trans, metis linorder_neqE_nat)

text \<open>C3: on decoded values, two values are equal under JSON Schema equality exactly when their classes are equal, so
  equality is an equivalence that ignores member order and the spelling of a number.\<close>

theorem equal_iff_key:
  assumes "value_ok a" "value_ok b"
  shows "json_equal a b \<longleftrightarrow> key a = key b"
  using assms by (rule json_equal_key)

theorem equal_iff_key_witness:
  "(let a = Object [(''a'', Number (Integer 1)), (''b'', Array [Null])];
        b = Object [(''b'', Array [Null]), (''a'', Number (Float 0x3FF0000000000000))]
    in value_ok a \<and> value_ok b \<and> (json_equal a b \<longleftrightarrow> key a = key b) \<and> json_equal a b)"
proof -
  let ?a = "Object [(''a'', Number (Integer 1)), (''b'', Array [Null])]"
  let ?b = "Object [(''b'', Array [Null]), (''a'', Number (Float 0x3FF0000000000000))]"
  have ok: "value_ok ?a" "value_ok ?b" by code_simp+
  have "json_equal ?a ?b" by code_simp
  then show ?thesis using ok equal_iff_key [OF ok] unfolding Let_def by blast
qed

text \<open>C4: \<open>uniqueItems\<close> holds exactly when no two items at different places are equal.\<close>

theorem unique_iff:
  assumes "\<And>v. v \<in> set items \<Longrightarrow> value_ok v"
  shows "unique items \<longleftrightarrow> (\<forall>j<length items. \<forall>i<j. \<not> json_equal (items ! i) (items ! j))"
proof -
  have "unique items \<longleftrightarrow> (\<forall>j<length items. \<forall>i<j. key (items ! i) \<noteq> key (items ! j))"
    by (auto simp: unique_def unique_from_iff distinct_nth_less)
  also have "\<dots> \<longleftrightarrow> (\<forall>j<length items. \<forall>i<j. \<not> json_equal (items ! i) (items ! j))"
    using assms by (auto simp: json_equal_key)
  finally show ?thesis .
qed

theorem unique_iff_witness:
  "(let items = [Number (Integer 1), Bool True, Number (Float 0x3FF0000000000000)]
    in \<not> unique items \<and>
      (unique items \<longleftrightarrow> (\<forall>j<length items. \<forall>i<j. \<not> json_equal (items ! i) (items ! j))))"
proof -
  let ?items = "[Number (Integer 1), Bool True, Number (Float 0x3FF0000000000000)]"
  have "list_all value_ok ?items" by code_simp
  then have ok: "\<And>v. v \<in> set ?items \<Longrightarrow> value_ok v" by (simp only: list_all_iff)
  have "\<not> unique ?items" by code_simp
  then show ?thesis using unique_iff [OF ok] unfolding Let_def by blast
qed

end
