(* ===== verification/Walk.thy ===== *)
theory Walk
  imports Json
begin

text \<open>
  The subschema positions of a schema and the walks over them (\<open>protocol/action-schema/src/walk.rs\<close>): the value count
  \<open>nodes_within\<close>, the target of a reference, and \<open>expand\<close>, which sums every reference's expansion.  The code keys its
  walk by the address of a value inside the document; the model's address is the path of child indices from the root,
  a \<open>place\<close> is an address with its value, and \<open>expand\<close> runs the loop on a fuel that \<open>expand_returns\<close> shows to be
  enough.
\<close>

section \<open>Positions\<close>

definition APPLICATORS :: "string list" where
  "APPLICATORS =
     [''additionalProperties'', ''contains'', ''contentSchema'', ''else'', ''if'', ''items'', ''not'',
      ''propertyNames'', ''then'', ''unevaluatedItems'', ''unevaluatedProperties'']"

definition LIST_APPLICATORS :: "string list" where
  "LIST_APPLICATORS = [''allOf'', ''anyOf'', ''oneOf'', ''prefixItems'']"

definition MAP_APPLICATORS :: "string list" where
  "MAP_APPLICATORS = [''$defs'', ''definitions'', ''dependentSchemas'', ''patternProperties'', ''properties'']"

definition applied :: "json \<Rightarrow> json list" where
  "applied node =
     List.map_filter (get node) APPLICATORS
     @ concat (map elements (List.map_filter (get node) LIST_APPLICATORS))
     @ concat (map (\<lambda>m. map snd (members m)) (List.map_filter (get node) MAP_APPLICATORS))"

text \<open>The node budget: a stack of values still to count, the most recently pushed first.\<close>

function nodes_loop :: "nat \<Rightarrow> nat \<Rightarrow> json list \<Rightarrow> bool" where
  "nodes_loop limit count [] = True"
| "nodes_loop limit count (node # pending) =
     (let count = count + 1
      in if count > limit then False
         else nodes_loop limit count (rev (map snd (members node)) @ rev (elements node) @ pending))"
  by pat_completeness auto
termination
proof (relation "measure (\<lambda>(limit, count, pending). sum_list (map node_count pending))", goal_cases)
  case (2 limit count node pending x)
  then show ?case
    by (simp add: node_count_children [of node] children_elements_members sum_list_rev flip: rev_map)
qed simp

definition nodes_within :: "json \<Rightarrow> nat \<Rightarrow> bool" where
  "nodes_within v limit = nodes_loop limit 0 [v]"

text \<open>\<open>#\<close>, or \<open>#/$defs/<name>\<close> and \<open>#/definitions/<name>\<close> with \<open>~1\<close> and \<open>~0\<close> decoded.\<close>

definition reference_name :: "string \<Rightarrow> string \<Rightarrow> string option" where
  "reference_name reference container =
     map_option (\<lambda>name. replace2 (CHR ''~'') (CHR ''0'') (CHR ''~'') (replace2 (CHR ''~'') (CHR ''1'') (CHR ''/'') name))
       (strip_prefix (''#/'' @ container @ ''/'') reference)"

definition target_in :: "json \<Rightarrow> string \<Rightarrow> string \<Rightarrow> json option" where
  "target_in root reference container =
     (case reference_name reference container of
        None \<Rightarrow> None
      | Some name \<Rightarrow> (case get root container of None \<Rightarrow> None | Some defs \<Rightarrow> get defs name))"

definition reference_target :: "json \<Rightarrow> string \<Rightarrow> json option" where
  "reference_target root reference =
     (if reference = ''#'' then Some root
      else case target_in root reference ''$defs'' of
             Some target \<Rightarrow> Some target
           | None \<Rightarrow> target_in root reference ''definitions'')"

section \<open>Places\<close>

type_synonym place = "nat list \<times> json"

fun find_member :: "nat \<Rightarrow> (string \<times> json) list \<Rightarrow> string \<Rightarrow> (nat \<times> json) option" where
  "find_member i [] k = None"
| "find_member i ((n, v) # ms) k = (if n = k then Some (i, v) else find_member (Suc i) ms k)"

definition get_at :: "place \<Rightarrow> string \<Rightarrow> place option" where
  "get_at a k = map_option (\<lambda>(i, c). (fst a @ [i], c)) (find_member 0 (members (snd a)) k)"

definition elements_at :: "place \<Rightarrow> place list" where
  "elements_at a = map (\<lambda>(i, c). (fst a @ [i], c)) (enumerate 0 (elements (snd a)))"

definition members_at :: "place \<Rightarrow> place list" where
  "members_at a = map (\<lambda>(i, m). (fst a @ [i], snd m)) (enumerate 0 (members (snd a)))"

definition applied_at :: "place \<Rightarrow> place list" where
  "applied_at a =
     List.map_filter (get_at a) APPLICATORS
     @ concat (map elements_at (List.map_filter (get_at a) LIST_APPLICATORS))
     @ concat (map members_at (List.map_filter (get_at a) MAP_APPLICATORS))"

definition target_in_at :: "json \<Rightarrow> string \<Rightarrow> string \<Rightarrow> place option" where
  "target_in_at root reference container =
     (case reference_name reference container of
        None \<Rightarrow> None
      | Some name \<Rightarrow> (case get_at ([], root) container of None \<Rightarrow> None | Some defs \<Rightarrow> get_at defs name))"

definition reference_target_at :: "json \<Rightarrow> string \<Rightarrow> place option" where
  "reference_target_at root reference =
     (if reference = ''#'' then Some ([], root)
      else case target_in_at root reference ''$defs'' of
             Some target \<Rightarrow> Some target
           | None \<Rightarrow> target_in_at root reference ''definitions'')"

section \<open>Expansion\<close>

record expansion =
  subschemas :: nat
  depth :: nat

record frame =
  frame_node :: place
  edges :: "place list"
  summed :: expansion

record expand_state =
  known :: "nat list \<Rightarrow> expansion option"
  opened :: "nat list set"
  parents :: "frame list"
  current :: frame

definition LEAF :: expansion where
  "LEAF = \<lparr>subschemas = 1, depth = 0\<rparr>"

text \<open>The edges are popped from the end: the model keeps them in popping order.\<close>

definition frame_of :: "json \<Rightarrow> place \<Rightarrow> frame option" where
  "frame_of root node =
     (case get (snd node) ''$ref'' of
        Some (String reference) \<Rightarrow>
          (case reference_target_at root reference of
             None \<Rightarrow> None
           | Some target \<Rightarrow>
               Some \<lparr>frame_node = node, edges = rev (applied_at node @ [target]), summed = LEAF\<rparr>)
      | _ \<Rightarrow> Some \<lparr>frame_node = node, edges = rev (applied_at node), summed = LEAF\<rparr>)"

definition absorb :: "expansion \<Rightarrow> expansion \<Rightarrow> json \<Rightarrow> expansion" where
  "absorb parent child node =
     \<lparr>subschemas = sat_add (subschemas parent) (subschemas child),
      depth = (if is_object node then max (depth parent) (sat_add (depth child) 1) else depth parent)\<rparr>"

definition absorb_into :: "frame \<Rightarrow> expansion \<Rightarrow> json \<Rightarrow> frame" where
  "absorb_into f child node = f\<lparr>summed := absorb (summed f) child node\<rparr>"

definition expand_step :: "json \<Rightarrow> expand_state \<Rightarrow> expansion option + expand_state" where
  "expand_step root s =
     (case edges (current s) of
        edge # rest \<Rightarrow>
          let c = (current s)\<lparr>edges := rest\<rparr>
          in (case known s (fst edge) of
                Some child \<Rightarrow> Inr (s\<lparr>current := absorb_into c child (snd edge)\<rparr>)
              | None \<Rightarrow>
                  if \<not> is_object (snd edge) then Inr (s\<lparr>current := absorb_into c LEAF (snd edge)\<rparr>)
                  else if fst edge \<notin> opened s
                  then (case frame_of root edge of
                          None \<Rightarrow> Inl None
                        | Some f \<Rightarrow>
                            Inr (s\<lparr>opened := insert (fst edge) (opened s), parents := c # parents s, current := f\<rparr>))
                  else Inl None)
      | [] \<Rightarrow>
          let key = fst (frame_node (current s)); total = summed (current s)
          in (case parents s of
                [] \<Rightarrow> Inl (Some total)
              | parent # rest \<Rightarrow>
                  Inr (s\<lparr>opened := opened s - {key}, known := (known s)(key \<mapsto> total), parents := rest,
                         current := absorb_into parent total (snd (frame_node (current s)))\<rparr>)))"

fun expand_run :: "nat \<Rightarrow> json \<Rightarrow> expand_state \<Rightarrow> expansion option option" where
  "expand_run 0 root s = None"
| "expand_run (Suc fuel) root s =
     (case expand_step root s of Inl result \<Rightarrow> Some result | Inr s' \<Rightarrow> expand_run fuel root s')"

definition expand_start :: "json \<Rightarrow> expand_state option" where
  "expand_start root =
     map_option (\<lambda>f. \<lparr>known = (\<lambda>_. None), opened = {[]}, parents = [], current = f\<rparr>) (frame_of root ([], root))"

text \<open>Every step pops an edge or closes a frame, and no position is opened twice.\<close>

fun walk_cost :: "json \<Rightarrow> nat" where
  "walk_cost v =
     3 + length (applied v)
     + (case v of Array vs \<Rightarrow> sum_list (map walk_cost vs)
                | Object ms \<Rightarrow> sum_list (map (\<lambda>m. walk_cost (snd m)) ms)
                | _ \<Rightarrow> 0)"

definition expand :: "json \<Rightarrow> expansion option" where
  "expand root =
     (case expand_start root of
        None \<Rightarrow> None
      | Some s \<Rightarrow> the_or None (expand_run (walk_cost root) root s))"


section \<open>The node budget\<close>

lemma nodes_loop_count: "nodes_loop limit count pending \<longleftrightarrow> pending = [] \<or> count + sum_list (map node_count pending) \<le> limit"
proof (induction limit count pending rule: nodes_loop.induct)
  case (2 limit count node pending)
  have total: "sum_list (map node_count (rev (map snd (members node)) @ rev (elements node) @ pending))
      = node_count node - 1 + sum_list (map node_count pending)"
    by (simp add: node_count_children [of node] children_elements_members sum_list_rev flip: rev_map)
  show ?case
  proof (cases "count + 1 > limit")
    case True
    moreover have "1 \<le> node_count node" using node_count_pos [of node] by linarith
    ultimately show ?thesis by (auto simp: Let_def)
  next
    case False
    have "nodes_loop limit count (node # pending)
        = nodes_loop limit (count + 1) (rev (map snd (members node)) @ rev (elements node) @ pending)"
      using False by (simp add: Let_def)
    also have "\<dots> \<longleftrightarrow> count + 1 + (node_count node - 1 + sum_list (map node_count pending)) \<le> limit"
      using 2 [OF refl False] False total by fastforce
    also have "\<dots> \<longleftrightarrow> count + sum_list (map node_count (node # pending)) \<le> limit"
      using node_count_pos [of node] Suc_pred [of "node_count node"] by (simp del: Suc_pred node_count_pos) arith
    finally show ?thesis by simp
  qed
qed simp

section \<open>Places denote values of the document\<close>

fun at :: "json \<Rightarrow> nat list \<Rightarrow> json option" where
  "at v [] = Some v"
| "at v (i # p) = (if i < length (children v) then at (children v ! i) p else None)"

definition placed :: "json \<Rightarrow> place \<Rightarrow> bool" where
  "placed root a \<longleftrightarrow> at root (fst a) = Some (snd a)"

lemma at_append: "at v (p @ q) = (case at v p of None \<Rightarrow> None | Some w \<Rightarrow> at w q)"
  by (induction p arbitrary: v) auto

lemma placed_root [simp]: "placed root ([], root)"
  by (simp add: placed_def)

lemma placed_child:
  "placed root a \<Longrightarrow> i < length (children (snd a)) \<Longrightarrow> placed root (fst a @ [i], children (snd a) ! i)"
  by (simp add: placed_def at_append)

lemma find_member_Some:
  "find_member i ms k = Some (j, v) \<Longrightarrow> i \<le> j \<and> j - i < length ms \<and> ms ! (j - i) = (k, v)"
proof (induction i ms k rule: find_member.induct)
  case (2 i n v' ms k)
  show ?case
  proof (cases "n = k")
    case False
    then have "find_member (Suc i) ms k = Some (j, v)" using 2 by simp
    with False 2 have "Suc i \<le> j" "j - Suc i < length ms" "ms ! (j - Suc i) = (k, v)" by auto
    then show ?thesis by (auto simp: nth_Cons' Suc_diff_Suc)
  qed (use 2 in auto)
qed simp

lemma find_member_get: "map_option snd (find_member i ms k) = map_of ms k"
  by (induction i ms k rule: find_member.induct) auto

lemma children_Object: "members v = ms \<Longrightarrow> ms \<noteq> [] \<Longrightarrow> children v = map snd ms"
  by (cases v) auto

lemma children_Array: "elements v = vs \<Longrightarrow> vs \<noteq> [] \<Longrightarrow> children v = vs"
  by (cases v) auto

lemma placed_get_at:
  assumes "placed root a" "get_at a k = Some b"
  shows "placed root b"
proof -
  obtain i c where f: "find_member 0 (members (snd a)) k = Some (i, c)" and b: "b = (fst a @ [i], c)"
    using assms(2) by (auto simp: get_at_def)
  have i: "i < length (members (snd a))" "members (snd a) ! i = (k, c)"
    using find_member_Some [OF f] by auto
  then have "children (snd a) = map snd (members (snd a))" by (auto intro: children_Object)
  then show ?thesis using placed_child [OF assms(1), of i] i b by simp
qed

lemma placed_elements_at: "placed root a \<Longrightarrow> b \<in> set (elements_at a) \<Longrightarrow> placed root b"
proof -
  assume a: "placed root a" and b: "b \<in> set (elements_at a)"
  then obtain i c where i: "i < length (elements (snd a))" "elements (snd a) ! i = c" "b = (fst a @ [i], c)"
    by (auto simp: elements_at_def in_set_enumerate_eq)
  then have "children (snd a) = elements (snd a)" by (auto intro: children_Array)
  then show ?thesis using placed_child [OF a, of i] i by simp
qed

lemma placed_members_at: "placed root a \<Longrightarrow> b \<in> set (members_at a) \<Longrightarrow> placed root b"
proof -
  assume a: "placed root a" and b: "b \<in> set (members_at a)"
  then obtain i m where i: "i < length (members (snd a))" "members (snd a) ! i = m" "b = (fst a @ [i], snd m)"
    by (auto simp: members_at_def in_set_enumerate_eq)
  then have "children (snd a) = map snd (members (snd a))" by (auto intro: children_Object)
  then show ?thesis using placed_child [OF a, of i] i by simp
qed

lemma map_filter_cases:
  assumes "b \<in> set (List.map_filter f xs)"
  obtains x where "f x = Some b"
  using assms by (induction xs) (auto simp: List.map_filter_simps split: option.splits)

lemma applied_at_cases:
  assumes "b \<in> set (applied_at a)"
  obtains k where "get_at a k = Some b"
  | k c where "get_at a k = Some c" "b \<in> set (elements_at c)"
  | k c where "get_at a k = Some c" "b \<in> set (members_at c)"
proof -
  have "b \<in> set (List.map_filter (get_at a) APPLICATORS)
      \<or> (\<exists>c\<in>set (List.map_filter (get_at a) LIST_APPLICATORS). b \<in> set (elements_at c))
      \<or> (\<exists>c\<in>set (List.map_filter (get_at a) MAP_APPLICATORS). b \<in> set (members_at c))"
    using assms unfolding applied_at_def set_append set_concat set_map by blast
  then show thesis by (meson map_filter_cases that)
qed

lemma placed_applied_at: "placed root a \<Longrightarrow> b \<in> set (applied_at a) \<Longrightarrow> placed root b"
  by (erule applied_at_cases) (metis placed_get_at placed_elements_at placed_members_at)+

lemma placed_target_in: "target_in_at root reference container = Some b \<Longrightarrow> placed root b"
  unfolding target_in_at_def by (auto split: option.splits) (metis placed_get_at placed_root)

lemma placed_target: "reference_target_at root reference = Some b \<Longrightarrow> placed root b"
  unfolding reference_target_at_def by (auto split: if_splits option.splits dest: placed_target_in)

text \<open>Forgetting the paths gives back the code's walk over values.\<close>

lemma get_at_get: "map_option snd (get_at a k) = get (snd a) k"
proof -
  have "map_option snd (get_at a k) = map_of (members (snd a)) k"
    by (simp add: get_at_def option.map_comp comp_def case_prod_unfold flip: find_member_get [of 0])
  then show ?thesis by (cases "snd a") auto
qed

lemma map_snd_filter: "map snd (List.map_filter (get_at a) ks) = List.map_filter (get (snd a)) ks"
proof (induction ks)
  case (Cons k ks)
  then show ?case using get_at_get [of a k] by (cases "get_at a k") (auto simp: List.map_filter_simps dest: sym)
qed (simp add: List.map_filter_simps)

lemma map_snd_elements_at: "map snd (elements_at b) = elements (snd b)"
  by (simp add: elements_at_def comp_def case_prod_unfold)

lemma map_snd_members_at: "map snd (members_at b) = map snd (members (snd b))"
proof -
  have "map snd (members_at b) = map snd (map snd (enumerate 0 (members (snd b))))"
    by (simp only: members_at_def map_map) (simp add: comp_def case_prod_unfold del: map_snd_enumerate)
  then show ?thesis by (simp only: map_snd_enumerate)
qed

lemma applied_at_applied: "map snd (applied_at a) = applied (snd a)"
proof -
  have e: "map snd (concat (map elements_at bs)) = concat (map elements (map snd bs))" for bs
    by (induction bs) (simp_all add: map_snd_elements_at)
  have m: "map snd (concat (map members_at bs)) = concat (map (\<lambda>m. map snd (members m)) (map snd bs))" for bs
    by (induction bs) (simp_all add: map_snd_members_at)
  show ?thesis by (simp only: applied_at_def applied_def map_append e m map_snd_filter)
qed

lemma target_in_at_target: "map_option snd (target_in_at root reference container) = target_in root reference container"
proof (cases "reference_name reference container")
  case (Some name)
  show ?thesis
    using get_at_get [of "([], root)" container] Some
    by (cases "get_at ([], root) container") (auto simp: target_in_at_def target_in_def get_at_get dest: sym)
qed (simp add: target_in_at_def target_in_def)

lemma reference_target_at_target: "map_option snd (reference_target_at root reference) = reference_target root reference"
  using target_in_at_target [of root reference "''$defs''"] target_in_at_target [of root reference "''definitions''"]
  by (cases "target_in_at root reference ''$defs''")
    (auto simp: reference_target_at_def reference_target_def dest: sym)

section \<open>What an expansion is\<close>

definition fold_absorb :: "(place \<times> expansion) list \<Rightarrow> expansion" where
  "fold_absorb ps = foldl (\<lambda>e p. absorb e (snd p) (snd (fst p))) LEAF ps"

text \<open>
  A place expands when every place it applies, its reference's target included, expands: being inductive, the relation
  has no expansion for a place that leads back to itself.
\<close>

inductive expands :: "json \<Rightarrow> place \<Rightarrow> expansion \<Rightarrow> bool" for root where
  expandsI: "frame_of root a = Some f \<Longrightarrow> map fst ps = edges f \<Longrightarrow> (\<forall>p\<in>set ps. expands root (fst p) (snd p))
    \<Longrightarrow> expands root a (fold_absorb ps)"

inductive_cases expandsE: "expands root a e"

definition applies :: "json \<Rightarrow> place \<Rightarrow> place \<Rightarrow> bool" where
  "applies root a b \<longleftrightarrow> (\<exists>f. frame_of root a = Some f \<and> b \<in> set (edges f))"

lemma expands_edge:
  assumes "expands root a e" "frame_of root a = Some f" "b \<in> set (edges f)"
  shows "\<exists>e. expands root b e"
  using assms(1)
proof (rule expandsE)
  fix f' ps assume f': "frame_of root a = Some f'" and ps: "map fst ps = edges f'" and
    all: "\<forall>p\<in>set ps. expands root (fst p) (snd p)"
  then have "b \<in> set (map fst ps)" using assms by simp
  then show ?thesis using all by auto
qed

lemma expands_framed: "expands root a e \<Longrightarrow> \<exists>f. frame_of root a = Some f"
  by (erule expandsE) auto

lemma expands_det: "expands root a e \<Longrightarrow> expands root a e' \<Longrightarrow> e = e'"
proof (induction arbitrary: e' rule: expands.induct)
  case (expandsI a f ps)
  from expandsI.prems show ?case
  proof (rule expandsE)
    fix f' ps' assume ps': "e' = fold_absorb ps'" "frame_of root a = Some f'" "map fst ps' = edges f'"
      "\<forall>p\<in>set ps'. expands root (fst p) (snd p)"
    have same: "map fst ps' = map fst ps" using ps'(2,3) expandsI.hyps by simp
    have "ps = ps'"
    proof (rule nth_equalityI)
      show len: "length ps = length ps'" using same by (metis length_map)
      fix i assume i: "i < length ps"
      have "fst (ps ! i) = fst (ps' ! i)" using same i len by (metis nth_map)
      moreover have "snd (ps ! i) = snd (ps' ! i)"
        using expandsI.IH i len ps'(4) \<open>fst (ps ! i) = fst (ps' ! i)\<close> nth_mem by metis
      ultimately show "ps ! i = ps' ! i" by (simp add: prod_eq_iff)
    qed
    then show ?thesis using ps'(1) by simp
  qed
qed

lemma expands_no_cycle:
  "expands root a e \<Longrightarrow> \<not> (applies root)\<^sup>+\<^sup>+ a a"
proof -
  assume "expands root a e"
  then have "Wellfounded.accp (\<lambda>x y. applies root y x) a"
  proof (induction rule: expands.induct)
    case (expandsI a f ps)
    show ?case
    proof (rule accp.accI)
      fix b assume "applies root a b"
      then have "b \<in> set (map fst ps)" using expandsI.hyps by (auto simp: applies_def)
      then show "Wellfounded.accp (\<lambda>x y. applies root y x) b" using expandsI.IH by auto
    qed
  qed
  then show "\<not> (applies root)\<^sup>+\<^sup>+ a a"
  proof (induction rule: accp.induct)
    case (accI a)
    show ?case
    proof
      assume cycle: "(applies root)\<^sup>+\<^sup>+ a a"
      then obtain b where b: "applies root a b" "(applies root)\<^sup>*\<^sup>* b a"
        by (meson tranclpD)
      then have "(applies root)\<^sup>+\<^sup>+ b b" by (meson rtranclp_into_tranclp1)
      then show False using accI b(1) by blast
    qed
  qed
qed

section \<open>The loop computes it\<close>

text \<open>An open frame has absorbed the edges before the ones that remain.\<close>

definition summing :: "json \<Rightarrow> frame \<Rightarrow> (place \<times> expansion) list \<Rightarrow> place list \<Rightarrow> bool" where
  "summing root f ps rest \<longleftrightarrow>
     placed root (frame_node f) \<and>
     (\<exists>g. frame_of root (frame_node f) = Some g \<and> edges g = map fst ps @ rest @ edges f) \<and>
     (\<forall>p\<in>set ps. expands root (fst p) (snd p)) \<and> summed f = fold_absorb ps"

fun chained :: "json \<Rightarrow> place \<Rightarrow> frame list \<Rightarrow> bool" where
  "chained root child [] = (child = ([], root))"
| "chained root child (f # fs) = ((\<exists>ps. summing root f ps [child]) \<and> chained root (frame_node f) fs)"

definition open_paths :: "expand_state \<Rightarrow> nat list list" where
  "open_paths s = map (\<lambda>f. fst (frame_node f)) (current s # parents s)"

definition expand_inv :: "json \<Rightarrow> expand_state \<Rightarrow> bool" where
  "expand_inv root s \<longleftrightarrow>
     (\<exists>ps. summing root (current s) ps []) \<and> chained root (frame_node (current s)) (parents s) \<and>
     (\<forall>p e. known s p = Some e \<longrightarrow> (\<exists>v. at root p = Some v \<and> expands root (p, v) e)) \<and>
     opened s = set (open_paths s) \<and> distinct (open_paths s) \<and>
     (\<forall>p\<in>opened s. known s p = None)"

lemma frame_of_node: "frame_of root a = Some f \<Longrightarrow> frame_node f = a \<and> summed f = LEAF"
  by (auto simp: frame_of_def split: option.splits json.splits)

lemma frame_of_edges_placed:
  "frame_of root a = Some f \<Longrightarrow> placed root a \<Longrightarrow> b \<in> set (edges f) \<Longrightarrow> placed root b"
  by (auto simp: frame_of_def split: option.splits json.splits dest: placed_applied_at placed_target)

lemma frame_of_leaf: "\<not> is_object (snd a) \<Longrightarrow> frame_of root a = Some \<lparr>frame_node = a, edges = [], summed = LEAF\<rparr>"
proof -
  assume leaf: "\<not> is_object (snd a)"
  have none: "get (snd a) k = None" for k using get_is_object [of "snd a" k] leaf by (cases "get (snd a) k") auto
  have "get_at a k = None" for k using get_at_get [of a k] none by simp
  then have "applied_at a = []" by (simp add: applied_at_def List.map_filter_def)
  then show ?thesis using none by (simp add: frame_of_def)
qed

lemma expands_leaf: "\<not> is_object (snd a) \<Longrightarrow> expands root a LEAF"
  using expandsI [OF frame_of_leaf, of a "[]" root] by (simp add: fold_absorb_def)

lemma summing_start: "frame_of root a = Some f \<Longrightarrow> placed root a \<Longrightarrow> summing root f [] []"
  by (auto simp: summing_def fold_absorb_def dest: frame_of_node)

lemma summing_absorb:
  assumes "summing root f ps []" "edges f = b # rest" "expands root b e"
  shows "summing root (absorb_into (f\<lparr>edges := rest\<rparr>) e (snd b)) (ps @ [(b, e)]) []"
  using assms by (auto simp: summing_def absorb_into_def fold_absorb_def)

lemma summing_pop:
  "summing root f ps [] \<Longrightarrow> edges f = b # rest \<Longrightarrow> summing root (f\<lparr>edges := rest\<rparr>) ps [b]"
  by (auto simp: summing_def)

lemma summing_back:
  "summing root f ps [b] \<Longrightarrow> expands root b e \<Longrightarrow> summing root (absorb_into f e (snd b)) (ps @ [(b, e)]) []"
  by (auto simp: summing_def absorb_into_def fold_absorb_def)

lemma summing_edge:
  "summing root f ps [] \<Longrightarrow> edges f = b # rest \<Longrightarrow> placed root b \<and> applies root (frame_node f) b"
  by (auto simp: summing_def applies_def intro: frame_of_edges_placed)

lemma summing_done: "summing root f ps [] \<Longrightarrow> edges f = [] \<Longrightarrow> expands root (frame_node f) (summed f)"
  unfolding summing_def by (auto intro: expandsI)

lemma expand_inv_start: "expand_start root = Some s \<Longrightarrow> expand_inv root s"
  using summing_start [of root "([], root)"]
  by (fastforce simp: expand_start_def expand_inv_def open_paths_def dest: frame_of_node)

lemma expand_inv_step:
  assumes "expand_inv root s" "expand_step root s = Inr s'"
  shows "expand_inv root s'"
proof (cases "edges (current s)")
  case Nil
  let ?c = "current s"
  obtain ps where ps: "summing root ?c ps []" using assms(1) by (auto simp: expand_inv_def)
  then have done_c: "expands root (frame_node ?c) (summed ?c)" "placed root (frame_node ?c)"
    using Nil summing_done by (auto simp: summing_def)
  obtain parent rest where parents: "parents s = parent # rest" and s': "s' = s\<lparr>
      opened := opened s - {fst (frame_node ?c)}, known := (known s)(fst (frame_node ?c) \<mapsto> summed ?c),
      parents := rest, current := absorb_into parent (summed ?c) (snd (frame_node ?c))\<rparr>"
    using assms(2) Nil by (auto simp: expand_step_def Let_def split: list.splits)
  obtain qs where qs: "summing root parent qs [frame_node ?c]" "chained root (frame_node parent) rest"
    using assms(1) parents by (auto simp: expand_inv_def)
  have "summing root (current s') (qs @ [(frame_node ?c, summed ?c)]) []"
    using summing_back [OF qs(1) done_c(1)] s' by simp
  moreover have "at root (fst (frame_node ?c)) = Some (snd (frame_node ?c))" using done_c(2) by (simp add: placed_def)
  ultimately show ?thesis using assms(1) qs(2) parents s' done_c(1)
    by (auto simp: expand_inv_def open_paths_def absorb_into_def image_iff)
next
  case (Cons b rest)
  obtain ps where ps: "summing root (current s) ps []" using assms(1) by (auto simp: expand_inv_def)
  note edge = summing_edge [OF ps Cons]
  have known: "expands root b e" if k: "known s (fst b) = Some e" for e
  proof -
    obtain v where "at root (fst b) = Some v" "expands root (fst b, v) e"
      using assms(1) k unfolding expand_inv_def by blast
    then show ?thesis using edge by (simp add: placed_def)
  qed
  show ?thesis
  proof (cases "known s (fst b)")
    case (Some e)
    then have "s' = s\<lparr>current := absorb_into ((current s)\<lparr>edges := rest\<rparr>) e (snd b)\<rparr>"
      using assms(2) Cons by (simp add: expand_step_def Let_def)
    then show ?thesis using assms(1) summing_absorb [OF ps Cons known [OF Some]]
      by (auto simp: expand_inv_def open_paths_def absorb_into_def)
  next
    case None
    show ?thesis
    proof (cases "is_object (snd b)")
      case False
      then have "s' = s\<lparr>current := absorb_into ((current s)\<lparr>edges := rest\<rparr>) LEAF (snd b)\<rparr>"
        using assms(2) Cons None by (simp add: expand_step_def Let_def)
      then show ?thesis using assms(1) summing_absorb [OF ps Cons expands_leaf [OF False]]
        by (auto simp: expand_inv_def open_paths_def absorb_into_def)
    next
      case True
      then obtain f where new: "fst b \<notin> opened s" and f: "frame_of root b = Some f" and
        s': "s' = s\<lparr>opened := insert (fst b) (opened s), parents := (current s)\<lparr>edges := rest\<rparr> # parents s, current := f\<rparr>"
        using assms(2) Cons None by (auto simp: expand_step_def Let_def split: if_splits option.splits)
      have "summing root f [] []" "frame_node f = b" using summing_start [OF f] frame_of_node [OF f] edge by auto
      then show ?thesis using assms(1) summing_pop [OF ps Cons] s' new None
        by (auto simp: expand_inv_def open_paths_def)
    qed
  qed
qed

lemma chained_reaches:
  assumes "chained root c fs" "p \<in> fst ` insert c (frame_node ` set fs)"
  shows "\<exists>a. fst a = p \<and> (a = c \<or> a \<in> frame_node ` set fs) \<and> (applies root)\<^sup>*\<^sup>* a c"
  using assms
proof (induction fs arbitrary: c)
  case (Cons f fs)
  have last: "applies root (frame_node f) c" using Cons.prems(1) by (auto simp: summing_def applies_def)
  show ?case
  proof (cases "p = fst c")
    case False
    then have "p \<in> fst ` insert (frame_node f) (frame_node ` set fs)" using Cons.prems(2) by auto
    moreover have "chained root (frame_node f) fs" using Cons.prems(1) by simp
    ultimately obtain a where a: "fst a = p" "a = frame_node f \<or> a \<in> frame_node ` set fs"
      "(applies root)\<^sup>*\<^sup>* a (frame_node f)"
      using Cons.IH [of "frame_node f"] by blast
    have "(applies root)\<^sup>*\<^sup>* a c" using a(3) last by (rule rtranclp.rtrancl_into_rtrancl)
    moreover have "a \<in> frame_node ` set (f # fs)" using a(2) by auto
    ultimately show ?thesis using a(1) by blast
  next
    case True
    then show ?thesis by blast
  qed
qed auto

lemma chained_placed: "chained root c fs \<Longrightarrow> f \<in> set fs \<Longrightarrow> placed root (frame_node f)"
proof (induction fs arbitrary: c)
  case (Cons g gs)
  have "placed root (frame_node g)" "chained root (frame_node g) gs" using Cons.prems(1) by (auto simp: summing_def)
  then show ?case using Cons.IH [of "frame_node g"] Cons.prems(2) by auto
qed simp

lemma chained_root: "chained root c fs \<Longrightarrow> (applies root)\<^sup>*\<^sup>* ([], root) c"
proof (induction fs arbitrary: c)
  case (Cons f fs)
  have last: "applies root (frame_node f) c" using Cons.prems(1) by (auto simp: summing_def applies_def)
  have "chained root (frame_node f) fs" using Cons.prems(1) by simp
  from rtranclp.rtrancl_into_rtrancl [OF Cons.IH [OF this] last] show ?case .
qed simp

lemma expands_reached:
  "(applies root)\<^sup>*\<^sup>* a b \<Longrightarrow> expands root a e \<Longrightarrow> \<exists>e. expands root b e"
  by (induction arbitrary: e rule: converse_rtranclp_induct) (auto simp: applies_def dest: expands_edge)

lemma expand_inv_returns:
  assumes inv: "expand_inv root s" and step: "expand_step root s = Inl result"
  shows "case result of None \<Rightarrow> \<not> (\<exists>e. expands root ([], root) e) | Some e \<Rightarrow> expands root ([], root) e"
proof (cases "edges (current s)")
  case Nil
  obtain ps where ps: "summing root (current s) ps []" using inv by (auto simp: expand_inv_def)
  have "parents s = []" "result = Some (summed (current s))"
    using step Nil by (auto simp: expand_step_def Let_def split: list.splits)
  moreover have "frame_node (current s) = ([], root)" using inv calculation by (simp add: expand_inv_def)
  ultimately show ?thesis using summing_done [OF ps Nil] by simp
next
  case (Cons b rest)
  obtain ps where ps: "summing root (current s) ps []" using inv by (auto simp: expand_inv_def)
  note edge = summing_edge [OF ps Cons]
  have chain: "chained root (frame_node (current s)) (parents s)" using inv by (simp add: expand_inv_def)
  have reached: "(applies root)\<^sup>*\<^sup>* ([], root) b"
    using chained_root [OF chain] edge by (auto intro: rtranclp.rtrancl_into_rtrancl)
  have result: "result = None" and why: "fst b \<in> opened s \<or> frame_of root b = None"
    using step Cons by (auto simp: expand_step_def Let_def split: option.splits if_splits)
  have "\<not> (\<exists>e. expands root ([], root) e)"
  proof
    assume "\<exists>e. expands root ([], root) e"
    then obtain e where e: "expands root b e" using expands_reached [OF reached] by blast
    then have "fst b \<in> opened s" using why expands_framed by fastforce
    then have "fst b \<in> fst ` insert (frame_node (current s)) (frame_node ` set (parents s))"
      using inv by (auto simp: expand_inv_def open_paths_def)
    from chained_reaches [OF chain this] obtain a where a: "fst a = fst b"
      "a = frame_node (current s) \<or> a \<in> frame_node ` set (parents s)" "(applies root)\<^sup>*\<^sup>* a (frame_node (current s))"
      by blast
    have "placed root (frame_node (current s))" using ps by (simp add: summing_def)
    then have "placed root a" using a(2) chained_placed [OF chain] by blast
    then have "a = b" using edge a(1) by (simp add: placed_def prod_eq_iff)
    then show False using expands_no_cycle [OF e] a(3) edge by (meson rtranclp_into_tranclp1)
  qed
  then show ?thesis using result by simp
qed

section \<open>The fuel is enough\<close>

definition paths :: "json \<Rightarrow> nat list set" where
  "paths v = {p. at v p \<noteq> None}"

lemma paths_split: "paths v = insert [] (\<Union>i<length (children v). (#) i ` paths (children v ! i))"
proof (rule set_eqI)
  fix p show "p \<in> paths v \<longleftrightarrow> p \<in> insert [] (\<Union>i<length (children v). (#) i ` paths (children v ! i))"
    by (cases p) (auto simp: paths_def)
qed

lemma finite_paths: "finite (paths v)"
proof (induction "node_count v" arbitrary: v rule: less_induct)
  case less
  have "finite (paths (children v ! i))" if "i < length (children v)" for i
    using less [OF node_count_child] that by simp
  then show ?case by (subst paths_split) auto
qed

lemma paths_sum:
  "(\<Sum>p\<in>paths v. w (the (at v p))) = w v + (\<Sum>c\<leftarrow>children v. \<Sum>p\<in>paths c. (w (the (at c p)) :: nat))"
proof -
  let ?n = "length (children v)"
  let ?A = "\<lambda>i. (#) i ` paths (children v ! i)"
  have "(\<Sum>p\<in>paths v. w (the (at v p))) = w v + (\<Sum>p\<in>(\<Union>i<?n. ?A i). w (the (at v p)))"
    by (subst paths_split, subst sum.insert) (auto simp: finite_paths)
  also have "(\<Sum>p\<in>(\<Union>i<?n. ?A i). w (the (at v p))) = (\<Sum>i<?n. \<Sum>p\<in>?A i. w (the (at v p)))"
    by (rule sum.UNION_disjoint) (auto simp: finite_paths)
  also have "\<dots> = (\<Sum>i<?n. \<Sum>p\<in>paths (children v ! i). w (the (at (children v ! i) p)))"
    by (rule sum.cong) (auto simp: sum.reindex)
  also have "\<dots> = (\<Sum>c\<leftarrow>children v. \<Sum>p\<in>paths c. w (the (at c p)))"
    by (simp add: sum_list_sum_nth atLeast0LessThan)
  finally show ?thesis .
qed

lemma walk_cost_children: "walk_cost v = 3 + length (applied v) + sum_list (map walk_cost (children v))"
  by (cases v) (simp_all add: comp_def)

lemma walk_cost_paths: "walk_cost v = (\<Sum>p\<in>paths v. 3 + length (applied (the (at v p))))"
proof (induction "node_count v" arbitrary: v rule: less_induct)
  case less
  have "map walk_cost (children v) = map (\<lambda>c. \<Sum>p\<in>paths c. 3 + length (applied (the (at c p)))) (children v)"
    using less [OF node_count_child] by simp
  then show ?case
    by (simp only: walk_cost_children [of v] paths_sum [of "\<lambda>v. 3 + length (applied v)" v])
qed

definition unopened :: "json \<Rightarrow> expand_state \<Rightarrow> nat list set" where
  "unopened root s = paths root - opened s - dom (known s)"

definition remaining_work :: "json \<Rightarrow> expand_state \<Rightarrow> nat" where
  "remaining_work root s =
     (\<Sum>p\<in>unopened root s. 3 + length (applied (the (at root p))))
     + (\<Sum>f\<leftarrow>current s # parents s. Suc (length (edges f)))"

lemma frame_of_edges: "frame_of root a = Some f \<Longrightarrow> length (edges f) \<le> Suc (length (applied (snd a)))"
proof -
  have "length (applied_at a) = length (applied (snd a))"
    by (metis applied_at_applied length_map)
  then show "frame_of root a = Some f \<Longrightarrow> length (edges f) \<le> Suc (length (applied (snd a)))"
    by (auto simp: frame_of_def split: option.splits json.splits)
qed

lemma remaining_work_step:
  assumes inv: "expand_inv root s" and step: "expand_step root s = Inr s'"
  shows "remaining_work root s' < remaining_work root s"
proof (cases "edges (current s)")
  case Nil
  then obtain parent rest where parents: "parents s = parent # rest" and s': "s' = s\<lparr>
      opened := opened s - {fst (frame_node (current s))},
      known := (known s)(fst (frame_node (current s)) \<mapsto> summed (current s)),
      parents := rest, current := absorb_into parent (summed (current s)) (snd (frame_node (current s)))\<rparr>"
    using step by (auto simp: expand_step_def Let_def split: list.splits)
  have "fst (frame_node (current s)) \<in> opened s" using inv by (simp add: expand_inv_def open_paths_def)
  then have "unopened root s' = unopened root s" using s' by (auto simp: unopened_def)
  then show ?thesis using parents s' by (simp add: remaining_work_def absorb_into_def)
next
  case (Cons b rest)
  obtain ps where ps: "summing root (current s) ps []" using inv by (auto simp: expand_inv_def)
  note edge = summing_edge [OF ps Cons]
  have same: "remaining_work root s' < remaining_work root s"
    if "s' = s\<lparr>current := absorb_into ((current s)\<lparr>edges := rest\<rparr>) e (snd b)\<rparr>" for e
    using that Cons by (simp add: remaining_work_def unopened_def absorb_into_def)
  show ?thesis
  proof (cases "\<exists>e. s' = s\<lparr>current := absorb_into ((current s)\<lparr>edges := rest\<rparr>) e (snd b)\<rparr>")
    case True
    then show ?thesis using same by blast
  next
    case False
    then obtain f where new: "fst b \<notin> opened s" "known s (fst b) = None" and f: "frame_of root b = Some f" and
      s': "s' = s\<lparr>opened := insert (fst b) (opened s), parents := (current s)\<lparr>edges := rest\<rparr> # parents s, current := f\<rparr>"
      using step Cons by (auto simp: expand_step_def Let_def split: if_splits option.splits)
    have b: "at root (fst b) = Some (snd b)" using edge by (simp add: placed_def)
    then have mem: "fst b \<in> unopened root s" using new by (auto simp: unopened_def paths_def)
    have un: "unopened root s' = unopened root s - {fst b}" using s' by (auto simp: unopened_def)
    have fin: "finite (unopened root s)" by (simp add: unopened_def finite_paths)
    have "(\<Sum>p\<in>unopened root s. 3 + length (applied (the (at root p))))
        = 3 + length (applied (snd b)) + (\<Sum>p\<in>unopened root s'. 3 + length (applied (the (at root p))))"
      using sum.remove [OF fin mem, of "\<lambda>p. 3 + length (applied (the (at root p)))"] b un by simp
    then show ?thesis using frame_of_edges [OF f] s' Cons by (simp add: remaining_work_def)
  qed
qed

lemma expand_run_enough:
  assumes "expand_inv root s" "remaining_work root s < fuel"
  shows "\<exists>result. expand_run fuel root s = Some result \<and>
    (case result of None \<Rightarrow> \<not> (\<exists>e. expands root ([], root) e) | Some e \<Rightarrow> expands root ([], root) e)"
  using assms
proof (induction fuel arbitrary: s)
  case (Suc fuel)
  show ?case
  proof (cases "expand_step root s")
    case (Inl result)
    then show ?thesis using expand_inv_returns [OF Suc.prems(1) Inl] by simp
  next
    case (Inr s')
    have "remaining_work root s' < fuel" using remaining_work_step [OF Suc.prems(1) Inr] Suc.prems(2) by simp
    then show ?thesis using Suc.IH [OF expand_inv_step [OF Suc.prems(1) Inr]] Inr by simp
  qed
qed simp

lemma remaining_work_start: "expand_start root = Some s \<Longrightarrow> remaining_work root s < walk_cost root"
proof -
  assume start: "expand_start root = Some s"
  then obtain f where f: "frame_of root ([], root) = Some f" and
    s: "s = \<lparr>known = (\<lambda>_. None), opened = {[]}, parents = [], current = f\<rparr>"
    by (auto simp: expand_start_def)
  have "[] \<in> paths root" by (simp add: paths_def)
  then have "walk_cost root = 3 + length (applied root) + (\<Sum>p\<in>paths root - {[]}. 3 + length (applied (the (at root p))))"
    using sum.remove [OF finite_paths, of "[]" root "\<lambda>p. 3 + length (applied (the (at root p)))"]
    by (simp only: walk_cost_paths) simp
  moreover have "unopened root s = paths root - {[]}" using s by (simp add: unopened_def)
  ultimately show ?thesis using frame_of_edges [OF f] s by (simp add: remaining_work_def)
qed

lemma expand_run_start:
  assumes "expand_start root = Some s"
  shows "\<exists>result. expand_run (walk_cost root) root s = Some result \<and>
    (case result of None \<Rightarrow> \<not> (\<exists>e. expands root ([], root) e) | Some e \<Rightarrow> expands root ([], root) e)"
  using expand_run_enough [OF expand_inv_start [OF assms] remaining_work_start [OF assms]] .

definition reached :: "json \<Rightarrow> place \<Rightarrow> bool" where
  "reached root a \<longleftrightarrow> (applies root)\<^sup>*\<^sup>* ([], root) a"

lemma reached_placed: "reached root a \<Longrightarrow> placed root a"
  unfolding reached_def
  by (induction rule: rtranclp_induct) (auto simp: applies_def placed_root intro: frame_of_edges_placed)

lemma finite_reached: "finite {a. reached root a}"
proof (rule finite_subset)
  show "{a. reached root a} \<subseteq> (\<lambda>p. (p, the (at root p))) ` paths root"
    by (auto simp: paths_def placed_def image_iff dest!: reached_placed)
qed (simp add: finite_paths)

text \<open>Where no reached place misses its target or contains itself, every reached place expands.\<close>

lemma expands_sound_graph:
  assumes framed: "\<And>a. reached root a \<Longrightarrow> frame_of root a \<noteq> None"
    and acyclic_graph: "\<And>a. reached root a \<Longrightarrow> \<not> (applies root)\<^sup>+\<^sup>+ a a"
    and "reached root a"
  shows "\<exists>e. expands root a e"
proof -
  let ?r = "{(b, a). reached root a \<and> applies root a b}"
  have onward: "reached root b" if "reached root a" "applies root a b" for a b
    using that unfolding reached_def by (rule rtranclp.rtrancl_into_rtrancl)
  have up: "reached root a \<and> (applies root)\<^sup>+\<^sup>+ a b" if "(b, a) \<in> ?r\<^sup>+" for a b
    using that
  proof (induction rule: trancl_induct)
    case (base a)
    then show ?case by auto
  next
    case (step a c)
    then show ?case by (auto intro: tranclp_into_tranclp2)
  qed
  have "finite ?r"
  proof (rule finite_subset)
    show "?r \<subseteq> {a. reached root a} \<times> {a. reached root a}" using onward by auto
  qed (simp add: finite_reached)
  moreover have "acyclic ?r" unfolding acyclic_def using up acyclic_graph by blast
  ultimately have "wf ?r" by (rule finite_acyclic_wf)
  then show ?thesis using \<open>reached root a\<close>
  proof (induction a rule: wf_induct_rule)
    case (less a)
    obtain f where f: "frame_of root a = Some f" using framed [OF less.prems] by blast
    have "\<forall>b\<in>set (edges f). \<exists>e. expands root b e"
    proof
      fix b assume "b \<in> set (edges f)"
      then have "applies root a b" using f by (auto simp: applies_def)
      then show "\<exists>e. expands root b e" using less onward by blast
    qed
    then obtain h where h: "\<forall>b\<in>set (edges f). expands root b (h b)" by metis
    have "map fst (map (\<lambda>b. (b, h b)) (edges f)) = edges f" by (simp add: comp_def)
    moreover have "\<forall>p\<in>set (map (\<lambda>b. (b, h b)) (edges f)). expands root (fst p) (snd p)" using h by auto
    ultimately show ?case using expandsI [OF f] by blast
  qed
qed

lemma expand_expands: "expand root = Some e \<longleftrightarrow> expands root ([], root) e"
proof (cases "expand_start root")
  case None
  then have "frame_of root ([], root) = None" by (simp add: expand_start_def)
  then show ?thesis using None expands_framed by (fastforce simp: expand_def)
next
  case (Some s)
  then show ?thesis using expand_run_start [OF Some]
    by (auto simp: expand_def the_or_def split: option.splits dest: expands_det)
qed

section \<open>Properties\<close>

text \<open>
  \<open>nodes_within\<close> answers whether a value holds at most the limit of JSON values: the early stop at the first excess
  changes nothing.
\<close>

theorem nodes_within_iff: "nodes_within v limit \<longleftrightarrow> node_count v \<le> limit"
  by (simp add: nodes_within_def nodes_loop_count)

text \<open>
  C5 The expansion walk, on the fuel given, returns an expansion exactly when it is the sum over the applied places and
  the references' targets, each counted once per path that reaches it.
\<close>

theorem expand_exact: "expand root = Some e \<longleftrightarrow> expands root ([], root) e"
  by (rule expand_expands)

text \<open>
  The expansion walk refuses exactly the schemas that reach a reference to a missing definition or a subschema that
  leads back to itself.
\<close>

theorem expand_refuses:
  "expand root = None \<longleftrightarrow>
     (\<exists>a. reached root a \<and> (frame_of root a = None \<or> (applies root)\<^sup>+\<^sup>+ a a))"
proof (cases "expand root")
  case None
  then have "\<not> (\<exists>e. expands root ([], root) e)" by (simp flip: expand_expands)
  moreover have "reached root ([], root)" by (simp add: reached_def)
  ultimately have "\<exists>a. reached root a \<and> (frame_of root a = None \<or> (applies root)\<^sup>+\<^sup>+ a a)"
    using expands_sound_graph [of root "([], root)"] by metis
  then show ?thesis using None by simp
next
  case (Some e)
  then have "expands root ([], root) e" by (simp add: expand_expands)
  then have "\<exists>e. expands root a e" if "reached root a" for a
    using expands_reached that unfolding reached_def by blast
  then show ?thesis using Some expands_framed expands_no_cycle by fastforce
qed

end
