(* ===== verification/Pattern.thy ===== *)
theory Pattern
  imports Prelude
begin

text \<open>
  The pattern dialect (\<open>protocol/action-schema/src/pattern.rs\<close>).  The syntax tree is the one the \<open>regex_syntax\<close> crate
  returns, with the constructors the source names and one more, \<open>Other\<close>, for the kinds it refuses without naming them; the
  parser itself is the parameter \<open>parse\<close>.  A \<open>char\<close> is its \<open>u32\<close>, a count a natural number, and every \<open>u64\<close> sum
  saturates as the code's does.
\<close>

section \<open>Constants\<close>

definition MAX_PATTERN_NESTING :: nat where "MAX_PATTERN_NESTING = 32"
definition MAX_REPEAT :: nat where "MAX_REPEAT = 1000"
definition MAX_PATTERN_PROGRAM :: nat where "MAX_PATTERN_PROGRAM = 16384"
definition PROGRAM_OVERHEAD :: nat where "PROGRAM_OVERHEAD = 16"
definition FOLD_WEIGHT :: nat where "FOLD_WEIGHT = 64"
definition SCAN_WEIGHT :: nat where "SCAN_WEIGHT = 4"
definition CASED_END :: nat where "CASED_END = 0x20000"
definition MAX_PATTERN_WORK :: nat where "MAX_PATTERN_WORK = 2 ^ 27"
definition MAX_PREPARATION_WORK :: nat where "MAX_PREPARATION_WORK = MAX_PATTERN_WORK div 2"
definition PREPARATION_BASE :: nat where "PREPARATION_BASE = 2 ^ 16"
definition PREPARATION_WEIGHT :: nat where "PREPARATION_WEIGHT = 256"

lemmas pattern_constants = MAX_REPEAT_def MAX_PATTERN_PROGRAM_def PROGRAM_OVERHEAD_def FOLD_WEIGHT_def SCAN_WEIGHT_def
  CASED_END_def MAX_PATTERN_WORK_def MAX_PREPARATION_WORK_def PREPARATION_BASE_def PREPARATION_WEIGHT_def

section \<open>The syntax tree\<close>

record span =
  start_offset :: nat
  end_offset :: nat

datatype literal_kind = Verbatim | Meta | Superfluous | Special | Hex_X | Other_Literal

record literal =
  literal_kind :: literal_kind
  literal_c :: "32 word"

datatype perl_kind = Digit | Space | Word

record perl_class =
  perl_span :: span
  perl_kind :: perl_kind
  negated :: bool

datatype class_item =
    Item_Empty
  | Item_Literal literal
  | Item_Range literal literal
  | Item_Ascii
  | Item_Unicode
  | Item_Perl perl_class
  | Item_Bracketed
  | Item_Union "class_item list"

datatype class_set = Class_Item class_item | Class_BinaryOp

datatype flag = CaseInsensitive | MultiLine | DotMatchesNewLine | Other_Flag

datatype flags_item = Negation | Flag flag

datatype repetition_kind =
    ZeroOrOne
  | ZeroOrMore
  | OneOrMore
  | Exactly nat
  | AtLeast nat
  | Bounded nat nat

datatype assertion_kind = StartLine | EndLine | StartText | WordBoundary | NotWordBoundary | Other_Assertion

datatype group_kind =
    CaptureIndex
  | CaptureName bool string
  | NonCapturing "flags_item list"

datatype ast =
    Empty
  | Flags span "flags_item list"
  | Literal literal
  | Dot
  | Assertion span assertion_kind
  | ClassUnicode
  | ClassPerl perl_class
  | ClassBracketed class_set
  | Repetition span repetition_kind ast
  | Group group_kind ast
  | Alternation "ast list"
  | Concat "ast list"

section \<open>Admission\<close>

fun flags_admitted :: "flags_item list \<Rightarrow> bool \<Rightarrow> bool" where
  "flags_admitted items scoped =
     list_all (\<lambda>item. case item of Negation \<Rightarrow> scoped | Flag f \<Rightarrow> f \<in> {CaseInsensitive, MultiLine, DotMatchesNewLine})
       items"

definition literal_admitted :: "literal \<Rightarrow> bool" where
  "literal_admitted l \<longleftrightarrow> literal_kind l \<in> {Verbatim, Meta, Superfluous, Special, Hex_X}"

fun class_items :: "class_set \<Rightarrow> class_item list option" where
  "class_items (Class_Item (Item_Union items)) = Some items"
| "class_items (Class_Item item) = Some [item]"
| "class_items Class_BinaryOp = None"

definition bare_dash :: "literal \<Rightarrow> bool" where
  "bare_dash l \<longleftrightarrow> literal_kind l = Verbatim \<and> literal_c l = 45"

fun item_admitted :: "class_item \<Rightarrow> bool" where
  "item_admitted (Item_Literal l) = literal_admitted l"
| "item_admitted (Item_Range low high) = (literal_admitted low \<and> literal_admitted high)"
| "item_admitted (Item_Perl p) = True"
| "item_admitted _ = False"

definition class_items_admitted :: "class_item list \<Rightarrow> bool" where
  "class_items_admitted items =
     (let dashes = map fst (filter (\<lambda>(position, item). case item of Item_Literal l \<Rightarrow> bare_dash l | _ \<Rightarrow> False)
            (enumerate 0 items))
      in (case dashes of
            [] \<Rightarrow> True
          | [position] \<Rightarrow> position = 0 \<or> position + 1 = length items
          | _ \<Rightarrow> False)
         \<and> list_all item_admitted items)"

fun repetition_count :: "repetition_kind \<Rightarrow> nat" where
  "repetition_count (Exactly count) = count"
| "repetition_count (AtLeast count) = count"
| "repetition_count (Bounded _ count) = count"
| "repetition_count _ = 0"

fun python_group_name :: "string \<Rightarrow> bool" where
  "python_group_name name =
     (case chars name of
        [] \<Rightarrow> False
      | first # rest \<Rightarrow>
          (first = ''_'' \<or> list_all ascii_alpha first) \<and>
          list_all (\<lambda>ch. ch = ''_'' \<or> list_all (\<lambda>b. ascii_alpha b \<or> ascii_digit b) ch) rest)"

text \<open>The text of a counted repetition: no white space, and no count with a leading zero.\<close>

definition slice :: "string \<Rightarrow> span \<Rightarrow> string" where
  "slice s sp = take (end_offset sp - start_offset sp) (drop (start_offset sp) s)"

fun digit_runs :: "string list \<Rightarrow> string list" where
  "digit_runs [] = [[]]"
| "digit_runs (ch # rest) =
     (case digit_runs rest of
        [] \<Rightarrow> [ch]
      | run # runs \<Rightarrow> if list_all ascii_digit ch then (ch @ run) # runs else [] # run # runs)"

definition compact_operator :: "string \<Rightarrow> bool" where
  "compact_operator operator \<longleftrightarrow>
     \<not> list_ex is_whitespace (chars operator) \<and>
     \<not> list_ex (\<lambda>count. length count > 1 \<and> starts_with ''0'' count) (digit_runs (chars operator))"

fun repeatable :: "ast \<Rightarrow> bool" where
  "repeatable (Literal _) = True"
| "repeatable Dot = True"
| "repeatable (ClassPerl _) = True"
| "repeatable (ClassBracketed _) = True"
| "repeatable (Group _ _) = True"
| "repeatable _ = False"

fun ast_admitted :: "ast \<Rightarrow> string \<Rightarrow> bool" where
  "ast_admitted Empty pattern = True"
| "ast_admitted Dot pattern = True"
| "ast_admitted (ClassPerl _) pattern = True"
| "ast_admitted (Flags sp flags) pattern = (start_offset sp = 0 \<and> flags_admitted flags False)"
| "ast_admitted (Literal l) pattern = literal_admitted l"
| "ast_admitted (Assertion _ kind) pattern =
     (kind \<in> {StartLine, EndLine, StartText, WordBoundary, NotWordBoundary})"
| "ast_admitted ClassUnicode pattern = False"
| "ast_admitted (ClassBracketed class) pattern =
     (case class_items class of None \<Rightarrow> False | Some items \<Rightarrow> class_items_admitted items)"
| "ast_admitted (Repetition op kind operand) pattern =
     (repetition_count kind \<le> MAX_REPEAT \<and> compact_operator (slice pattern op) \<and> repeatable operand \<and>
      ast_admitted operand pattern)"
| "ast_admitted (Group kind body) pattern =
     ((case kind of
         CaptureIndex \<Rightarrow> True
       | CaptureName starts_with_p name \<Rightarrow> starts_with_p \<and> python_group_name name
       | NonCapturing flags \<Rightarrow> flags_admitted flags True) \<and>
      ast_admitted body pattern)"
| "ast_admitted (Alternation asts) pattern = list_all (\<lambda>child. ast_admitted child pattern) asts"
| "ast_admitted (Concat asts) pattern = list_all (\<lambda>child. ast_admitted child pattern) asts"

section \<open>Costs\<close>

definition checked_div :: "nat \<Rightarrow> nat \<Rightarrow> nat option" where
  "checked_div a b = (if b = 0 then None else Some (a div b))"

fun repetition_budget :: "ast \<Rightarrow> nat \<Rightarrow> nat" where
  "repetition_budget (Repetition _ kind operand) budget =
     repetition_budget operand (the_or budget (checked_div budget (repetition_count kind)))"
| "repetition_budget (Group _ body) budget = repetition_budget body budget"
| "repetition_budget (Alternation asts) budget = foldl min budget (map (\<lambda>child. repetition_budget child budget) asts)"
| "repetition_budget (Concat asts) budget = foldl min budget (map (\<lambda>child. repetition_budget child budget) asts)"
| "repetition_budget _ budget = budget"

definition char_is_ascii :: "32 word \<Rightarrow> bool" where
  "char_is_ascii ch \<longleftrightarrow> unat ch < 128"

definition class_bound :: "class_item list \<Rightarrow> nat" where
  "class_bound items =
     (let ascii = list_all (\<lambda>item. case item of
            Item_Literal l \<Rightarrow> char_is_ascii (literal_c l)
          | Item_Range low high \<Rightarrow> char_is_ascii (literal_c high)
          | Item_Perl p \<Rightarrow> \<not> negated p
          | _ \<Rightarrow> False) items;
          count = length items
      in if ascii then 32 + 4 * count else sat_add 128 (sat_mul count 32))"

fun counted :: "repetition_kind \<Rightarrow> bool" where
  "counted (Exactly _) = True"
| "counted (AtLeast _) = True"
| "counted (Bounded _ _) = True"
| "counted _ = False"

fun program_bound :: "ast \<Rightarrow> nat" where
  "program_bound Empty = 1"
| "program_bound (Flags _ _) = 0"
| "program_bound (Literal _) = 8"
| "program_bound Dot = 16"
| "program_bound (Assertion _ _) = 2"
| "program_bound (ClassPerl _) = 32"
| "program_bound ClassUnicode = 32"
| "program_bound (ClassBracketed class) =
     (case class_items class of None \<Rightarrow> u64_max | Some items \<Rightarrow> class_bound items)"
| "program_bound (Repetition _ kind operand) =
     (let bound = program_bound operand
      in if counted kind then sat_add (sat_mul (max (repetition_count kind) 1) (sat_add bound 1)) 1
         else sat_add bound 2)"
| "program_bound (Group _ body) = sat_add (program_bound body) 2"
| "program_bound (Alternation asts) = foldl sat_add (length asts) (map program_bound asts)"
| "program_bound (Concat asts) = foldl sat_add 0 (map program_bound asts)"

definition item_span :: "class_item \<Rightarrow> (nat \<times> nat) option" where
  "item_span item =
     (case item of
        Item_Literal l \<Rightarrow> Some (unat (literal_c l), unat (literal_c l))
      | Item_Range low high \<Rightarrow> Some (unat (literal_c low), unat (literal_c high))
      | Item_Perl p \<Rightarrow> Some (0, if negated p then 0x10FFFF else 0x7F)
      | _ \<Rightarrow> None)"

definition item_folds :: "class_item \<Rightarrow> nat" where
  "item_folds item =
     (case item_span item of
        None \<Rightarrow> u64_max
      | Some (low, high) \<Rightarrow>
          let cased = (min high (CASED_END - 1) + 1) - low;
              covered = (high - low) + 1
          in sat_add (sat_mul FOLD_WEIGHT cased) (sat_mul SCAN_WEIGHT (covered - cased)))"

fun fold_work :: "ast \<Rightarrow> nat" where
  "fold_work (ClassBracketed class) =
     (case class_items class of None \<Rightarrow> u64_max | Some items \<Rightarrow> foldl sat_add 0 (map item_folds items))"
| "fold_work (Repetition _ _ operand) = fold_work operand"
| "fold_work (Group _ body) = fold_work body"
| "fold_work (Alternation asts) = foldl sat_add 0 (map fold_work asts)"
| "fold_work (Concat asts) = foldl sat_add 0 (map fold_work asts)"
| "fold_work _ = 0"

definition pattern_costs :: "(string \<Rightarrow> ast option) \<Rightarrow> string \<Rightarrow> (nat \<times> nat) option" where
  "pattern_costs parse pattern =
     (case parse pattern of
        None \<Rightarrow> None
      | Some parsed \<Rightarrow>
          let bound = sat_add PROGRAM_OVERHEAD (program_bound parsed);
              preparation = sat_add (sat_add PREPARATION_BASE (sat_mul PREPARATION_WEIGHT bound)) (fold_work parsed)
          in if ast_admitted parsed pattern \<and> repetition_budget parsed MAX_REPEAT > 0 \<and> bound \<le> MAX_PATTERN_PROGRAM
             then Some (bound, preparation)
             else None)"

definition pattern_program :: "(string \<Rightarrow> ast option) \<Rightarrow> string \<Rightarrow> nat option" where
  "pattern_program parse pattern = map_option fst (pattern_costs parse pattern)"

definition pattern_preparation :: "(string \<Rightarrow> ast option) \<Rightarrow> string \<Rightarrow> nat option" where
  "pattern_preparation parse pattern = map_option snd (pattern_costs parse pattern)"

definition pattern_admitted :: "(string \<Rightarrow> ast option) \<Rightarrow> string \<Rightarrow> bool" where
  "pattern_admitted parse pattern \<longleftrightarrow> pattern_program parse pattern \<noteq> None"

section \<open>Saturation never shows in an admitted pattern\<close>

text \<open>The same costs in unbounded arithmetic.\<close>

definition unbounded_class :: "class_item list \<Rightarrow> nat" where
  "unbounded_class items =
     (if list_all (\<lambda>item. case item of
            Item_Literal l \<Rightarrow> char_is_ascii (literal_c l)
          | Item_Range low high \<Rightarrow> char_is_ascii (literal_c high)
          | Item_Perl p \<Rightarrow> \<not> negated p
          | _ \<Rightarrow> False) items
      then 32 + 4 * length items else 128 + 32 * length items)"

fun unbounded_program :: "ast \<Rightarrow> nat" where
  "unbounded_program Empty = 1"
| "unbounded_program (Flags _ _) = 0"
| "unbounded_program (Literal _) = 8"
| "unbounded_program Dot = 16"
| "unbounded_program (Assertion _ _) = 2"
| "unbounded_program (ClassPerl _) = 32"
| "unbounded_program ClassUnicode = 32"
| "unbounded_program (ClassBracketed class) =
     (case class_items class of None \<Rightarrow> u64_max | Some items \<Rightarrow> unbounded_class items)"
| "unbounded_program (Repetition _ kind operand) =
     (if counted kind then max (repetition_count kind) 1 * (unbounded_program operand + 1) + 1
      else unbounded_program operand + 2)"
| "unbounded_program (Group _ body) = unbounded_program body + 2"
| "unbounded_program (Alternation asts) = length asts + sum_list (map unbounded_program asts)"
| "unbounded_program (Concat asts) = sum_list (map unbounded_program asts)"

definition unbounded_item :: "class_item \<Rightarrow> nat" where
  "unbounded_item item =
     (case item_span item of
        None \<Rightarrow> u64_max
      | Some (low, high) \<Rightarrow>
          64 * (min high 0x1FFFF + 1 - low) + 4 * (high - low + 1 - (min high 0x1FFFF + 1 - low)))"

fun unbounded_folds :: "ast \<Rightarrow> nat" where
  "unbounded_folds (ClassBracketed class) =
     (case class_items class of None \<Rightarrow> u64_max | Some items \<Rightarrow> sum_list (map unbounded_item items))"
| "unbounded_folds (Repetition _ _ operand) = unbounded_folds operand"
| "unbounded_folds (Group _ body) = unbounded_folds body"
| "unbounded_folds (Alternation asts) = sum_list (map unbounded_folds asts)"
| "unbounded_folds (Concat asts) = sum_list (map unbounded_folds asts)"
| "unbounded_folds _ = 0"

text \<open>Equal, or both out of range.\<close>

definition sat_eq :: "nat \<Rightarrow> nat \<Rightarrow> bool" where
  "sat_eq a b \<longleftrightarrow> a = b \<or> u64_max \<le> a \<and> u64_max \<le> b"

lemma sat_eq_refl [simp]: "sat_eq a a"
  by (simp add: sat_eq_def)

lemma sat_eq_add: "sat_eq a a' \<Longrightarrow> sat_eq b b' \<Longrightarrow> sat_eq (sat_add a b) (a' + b')"
  by (auto simp: sat_eq_def sat_add_def min_def)

lemma sat_eq_mul:
  assumes "sat_eq a a'" "sat_eq b b'" "0 < a" "0 < a'" "0 < b" "0 < b'"
  shows "sat_eq (sat_mul a b) (a' * b')"
proof (cases "u64_max \<le> a \<and> u64_max \<le> a' \<or> u64_max \<le> b \<and> u64_max \<le> b'")
  case True
  have "u64_max \<le> x * y" if "u64_max \<le> x \<and> 0 < y \<or> u64_max \<le> y \<and> 0 < x" for x y :: nat
    using that by (cases x; cases y) (auto intro: trans_le_add1 trans_le_add2)
  then have "u64_max \<le> a * b" "u64_max \<le> a' * b'" using True assms by auto
  then show ?thesis by (simp add: sat_eq_def sat_mul_def)
next
  case False
  then have "a = a'" "b = b'" using assms by (auto simp: sat_eq_def)
  then show ?thesis by (auto simp: sat_eq_def sat_mul_def min_def)
qed

lemma sat_eq_exact: "sat_eq a b \<Longrightarrow> a < u64_max \<Longrightarrow> a = b"
  by (auto simp: sat_eq_def)

lemma sat_eq_foldl: "list_all2 sat_eq xs ys \<Longrightarrow> sat_eq a b \<Longrightarrow> sat_eq (foldl sat_add a xs) (b + sum_list ys)"
proof (induction xs ys arbitrary: a b rule: list_all2_induct)
  case (Cons x xs y ys)
  then have "sat_eq (foldl sat_add (sat_add a x) xs) (b + y + sum_list ys)" by (intro Cons.IH sat_eq_add)
  then show ?case by (simp add: add.assoc)
qed simp

lemma sat_eq_map: "(\<And>x. x \<in> set xs \<Longrightarrow> sat_eq (f x) (g x)) \<Longrightarrow> sat_eq a b \<Longrightarrow>
    sat_eq (foldl sat_add a (map f xs)) (b + sum_list (map g xs))"
  by (rule sat_eq_foldl) (auto simp: list_all2_map1 list_all2_map2 intro: list_all2_same [THEN iffD2])


lemma class_bound_sat: "sat_eq (class_bound items) (unbounded_class items)"
proof -
  have "sat_eq (sat_mul (length items) 32) (length items * 32)"
    by (cases "length items = 0") (auto intro: sat_eq_mul simp: sat_mul_def sat_eq_def min_def)
  then have "sat_eq (sat_add 128 (sat_mul (length items) 32)) (128 + 32 * length items)"
    using sat_eq_add [OF sat_eq_refl] by (metis mult.commute)
  then show ?thesis by (simp add: class_bound_def unbounded_class_def Let_def)
qed

lemma program_sat: "sat_eq (program_bound t) (unbounded_program t)"
proof (induction t rule: program_bound.induct)
  case (8 cls)
  then show ?case by (simp add: class_bound_sat split: option.split)
next
  case (9 sp kind operand)
  have "sat_eq (sat_add (program_bound operand) 1) (unbounded_program operand + 1)"
    using 9 by (intro sat_eq_add) simp_all
  moreover have "0 < sat_add (program_bound operand) 1" by (simp add: sat_add_def u64_max_def)
  ultimately have "sat_eq (sat_mul (max (repetition_count kind) 1) (sat_add (program_bound operand) 1))
      (max (repetition_count kind) 1 * (unbounded_program operand + 1))"
    by (intro sat_eq_mul) simp_all
  from sat_eq_add [OF this sat_eq_refl, of 1] sat_eq_add [OF 9 sat_eq_refl, of 2]
  show ?case by (simp add: Let_def)
next
  case (10 kind body)
  from sat_eq_add [OF 10 sat_eq_refl, of 2] show ?case by simp
next
  case (11 asts)
  then show ?case by (simp add: sat_eq_map)
next
  case (12 asts)
  then show ?case using sat_eq_map [of asts program_bound unbounded_program 0 0] by simp
qed simp_all

lemma mul_sat: "sat_eq (sat_mul a b) (a * b)"
  by (simp add: sat_eq_def sat_mul_def min_def)

lemma item_folds_sat: "sat_eq (item_folds item) (unbounded_item item)"
proof (cases "item_span item")
  case (Some p)
  then obtain low high where "item_span item = Some (low, high)" by (cases p) auto
  then show ?thesis
    using sat_eq_add [OF mul_sat [of 64 "min high 0x1FFFF + 1 - low"]
        mul_sat [of 4 "high - low + 1 - (min high 0x1FFFF + 1 - low)"]]
    by (simp add: item_folds_def unbounded_item_def Let_def pattern_constants)
qed (simp add: item_folds_def unbounded_item_def)

lemma folds_sat: "sat_eq (fold_work t) (unbounded_folds t)"
proof (induction t rule: fold_work.induct)
  case (1 cls)
  show ?case
    using sat_eq_map [of _ item_folds unbounded_item 0 0, OF item_folds_sat]
    by (simp split: option.split)
next
  case (4 asts)
  then show ?case using sat_eq_map [of asts fold_work unbounded_folds 0 0] by simp
next
  case (5 asts)
  then show ?case using sat_eq_map [of asts fold_work unbounded_folds 0 0] by simp
qed simp_all

text \<open>A member's folding work is bounded, and so is the members' number by the program bound.\<close>

lemma item_admitted_folds: "item_admitted item \<Longrightarrow> unbounded_item item \<le> 2 ^ 35"
proof -
  have bound: "64 * (min high 0x1FFFF + 1 - low) + 4 * (high - low + 1 - (min high 0x1FFFF + 1 - low)) \<le> (2::nat) ^ 35"
    if "high < 2 ^ 32" for low high :: nat
  proof -
    have "min high 0x1FFFF + 1 - low \<le> 0x20000" "high - low + 1 \<le> 2 ^ 32" using that by linarith+
    then show ?thesis by simp
  qed
  have word: "unat (literal_c l) < 2 ^ 32" for l using unsigned_less [of "literal_c l"] by simp
  show "item_admitted item \<Longrightarrow> unbounded_item item \<le> 2 ^ 35"
    using bound [OF word] bound [of "0x10FFFF" 0] bound [of "0x7F" 0]
    by (cases item) (simp_all add: unbounded_item_def item_span_def)
qed

lemma sum_list_le_mult: "(\<And>x. x \<in> set xs \<Longrightarrow> f x \<le> k * g x) \<Longrightarrow> sum_list (map f xs) \<le> k * sum_list (map g xs)"
  for k :: nat
  by (induction xs) (auto simp: add_mult_distrib2 intro: add_mono)

lemma class_admitted_folds:
  "class_items_admitted items \<Longrightarrow> sum_list (map unbounded_item items) \<le> 2 ^ 35 * unbounded_class items"
proof -
  assume "class_items_admitted items"
  then have "list_all item_admitted items" by (simp add: class_items_admitted_def Let_def)
  then have "sum_list (map unbounded_item items) \<le> 2 ^ 35 * sum_list (map (\<lambda>_. 1) items)"
    by (intro sum_list_le_mult) (use item_admitted_folds in \<open>simp add: list_all_iff\<close>)
  also have "\<dots> \<le> 2 ^ 35 * unbounded_class items"
    by (intro mult_le_mono2) (simp add: unbounded_class_def sum_list_triv)
  finally show ?thesis .
qed

lemma folds_le: "ast_admitted t pattern \<Longrightarrow> unbounded_folds t \<le> 2 ^ 35 * unbounded_program t"
proof (induction t pattern rule: ast_admitted.induct)
  case (8 cls pattern)
  then show ?case using class_admitted_folds by (auto split: option.splits)
next
  case (9 sp kind operand pattern)
  then have "unbounded_folds operand \<le> 2 ^ 35 * unbounded_program operand" by simp
  also have "\<dots> \<le> 2 ^ 35 * unbounded_program (Repetition sp kind operand)"
  proof (rule mult_le_mono2)
    have "1 * (unbounded_program operand + 1) \<le> max (repetition_count kind) 1 * (unbounded_program operand + 1)"
      by (rule mult_le_mono1) simp
    then show "unbounded_program operand \<le> unbounded_program (Repetition sp kind operand)" by simp
  qed
  finally show ?case by simp
next
  case (11 asts pattern)
  then have "sum_list (map unbounded_folds asts) \<le> 2 ^ 35 * sum_list (map unbounded_program asts)"
    by (intro sum_list_le_mult) (simp add: list_all_iff)
  then show ?case by simp
next
  case (12 asts pattern)
  then have "sum_list (map unbounded_folds asts) \<le> 2 ^ 35 * sum_list (map unbounded_program asts)"
    by (intro sum_list_le_mult) (simp add: list_all_iff)
  then show ?case by simp
qed simp_all

lemma costs_unbounded:
  assumes "pattern_costs parse pattern = Some (bound, preparation)"
  shows "\<exists>t. parse pattern = Some t \<and> ast_admitted t pattern \<and> bound = 16 + unbounded_program t \<and> bound \<le> 16384 \<and>
    preparation = 2 ^ 16 + 256 * bound + unbounded_folds t"
proof -
  from assms obtain t where t: "parse pattern = Some t" "ast_admitted t pattern"
    and bound: "bound = sat_add 16 (program_bound t)" "bound \<le> 16384"
    and prep: "preparation = sat_add (sat_add (2 ^ 16) (sat_mul 256 bound)) (fold_work t)"
    by (auto simp: pattern_costs_def Let_def pattern_constants split: option.splits if_splits)
  have b: "bound = 16 + unbounded_program t"
  proof (rule sat_eq_exact)
    show "sat_eq bound (16 + unbounded_program t)" using bound(1) sat_eq_add [OF sat_eq_refl program_sat] by simp
    show "bound < u64_max" using bound(2) by (simp add: u64_max_def)
  qed
  have "unbounded_folds t \<le> 2 ^ 35 * 16384" using folds_le [OF t(2)] b bound(2)
    by (metis le_add2 le_trans mult_le_mono2)
  then have small: "unbounded_folds t < 2 ^ 50" by simp
  have folds: "fold_work t = unbounded_folds t"
    using folds_sat [of t] small by (auto simp: sat_eq_def u64_max_def)
  have "sat_mul 256 bound = 256 * bound" using bound(2) by (simp add: sat_mul_def u64_max_def)
  then have "preparation = 2 ^ 16 + 256 * bound + unbounded_folds t"
    using prep folds small bound(2) by (simp add: sat_add_def u64_max_def)
  then show ?thesis using t b bound(2) by blast
qed

section \<open>Nested repetitions\<close>

text \<open>The counts met on each way down the tree, the unbounded operators left out.\<close>

fun count_paths :: "ast \<Rightarrow> nat list list" where
  "count_paths (Repetition _ kind operand) =
     (if repetition_count kind = 0 then count_paths operand
      else map (Cons (repetition_count kind)) (count_paths operand))"
| "count_paths (Group _ body) = count_paths body"
| "count_paths (Alternation asts) = [] # concat (map count_paths asts)"
| "count_paths (Concat asts) = [] # concat (map count_paths asts)"
| "count_paths _ = [[]]"

lemma foldl_min_pos: "0 < foldl min b xs \<longleftrightarrow> 0 < b \<and> (\<forall>x\<in>set xs. 0 < x)" for b :: nat
  by (induction xs arbitrary: b) auto

lemma count_paths_pos: "path \<in> set (count_paths t) \<Longrightarrow> 0 < prod_list path"
  by (induction t arbitrary: path rule: count_paths.induct) (auto split: if_splits)

lemma repetition_budget_paths: "0 < repetition_budget t budget \<longleftrightarrow> (\<forall>path\<in>set (count_paths t). prod_list path \<le> budget)"
proof (induction t budget rule: repetition_budget.induct)
  case (1 sp kind operand budget)
  then show ?case
    by (cases "repetition_count kind = 0")
      (auto simp: checked_div_def less_eq_div_iff_mult_less_eq mult.commute)
next
  case (3 asts budget)
  then show ?case by (auto simp: foldl_min_pos)
next
  case (4 asts budget)
  then show ?case by (auto simp: foldl_min_pos)
qed auto

section \<open>Properties\<close>

text \<open>A concrete parser for the witnesses: it reads one pattern.\<close>

definition sample_parse :: "string \<Rightarrow> ast option" where
  "sample_parse pattern =
     (if pattern = ''a{1,3}''
      then Some (Repetition \<lparr>start_offset = 1, end_offset = 6\<rparr> (Bounded 1 3)
             (Literal \<lparr>literal_kind = Verbatim, literal_c = 97\<rparr>))
      else None)"

lemma sample_costs: "pattern_costs sample_parse ''a{1,3}'' = Some (44, 76800)"
proof -
  have "compact_operator ''{1,3}''" by code_simp
  then show ?thesis
    by (simp add: pattern_costs_def sample_parse_def pattern_constants sat_add_def sat_mul_def u64_max_def checked_div_def
        slice_def literal_admitted_def)
qed

text \<open>
  An admitted pattern's costs are exact: computed without any bound, its program bound is the same and at most
  16,384, and its preparation is the base, 256 per unit of that bound and the folding work, so saturation never shows.
\<close>

theorem pattern_costs_exact:
  assumes "pattern_costs parse pattern = Some (bound, preparation)"
  shows "\<exists>t. parse pattern = Some t \<and> bound = 16 + unbounded_program t \<and> bound \<le> 16384 \<and>
    preparation = 2 ^ 16 + 256 * bound + unbounded_folds t \<and> preparation < u64_max"
proof -
  obtain t where t: "parse pattern = Some t" "ast_admitted t pattern" "bound = 16 + unbounded_program t" "bound \<le> 16384"
    "preparation = 2 ^ 16 + 256 * bound + unbounded_folds t"
    using costs_unbounded [OF assms] by blast
  have "unbounded_folds t \<le> 2 ^ 35 * 16384" using folds_le [OF t(2)] t(3,4)
    by (metis le_add2 le_trans mult_le_mono2)
  then have "preparation < u64_max" using t(4,5) by (simp add: u64_max_def)
  then show ?thesis using t by blast
qed

theorem pattern_costs_exact_witness:
  "pattern_costs sample_parse ''a{1,3}'' = Some (44, 76800) \<and>
    (\<exists>t. sample_parse ''a{1,3}'' = Some t \<and> 44 = 16 + unbounded_program t)"
proof -
  have "pattern_costs sample_parse ''a{1,3}'' = Some (44, 76800)" by (rule sample_costs)
  from pattern_costs_exact [OF this] show ?thesis using \<open>pattern_costs sample_parse _ = _\<close> by blast
qed

text \<open>
  An admitted pattern keeps RE2's repetition bound: on every way down its tree the counts of the nested counted
  repetitions multiply to at most 1,000.
\<close>

theorem admitted_repetitions:
  assumes "pattern_admitted parse pattern"
  shows "\<exists>t. parse pattern = Some t \<and> (\<forall>path\<in>set (count_paths t). prod_list path \<le> 1000)"
  using assms repetition_budget_paths
  by (auto simp: pattern_admitted_def pattern_program_def pattern_costs_def Let_def MAX_REPEAT_def
      split: option.splits if_splits)

theorem admitted_repetitions_witness:
  "pattern_admitted sample_parse ''a{1,3}'' \<and> (\<exists>t. sample_parse ''a{1,3}'' = Some t \<and>
    (\<forall>path\<in>set (count_paths t). prod_list path \<le> 1000))"
proof -
  have "pattern_admitted sample_parse ''a{1,3}''"
    using sample_costs by (simp add: pattern_admitted_def pattern_program_def)
  from admitted_repetitions [OF this] show ?thesis using \<open>pattern_admitted _ _\<close> by blast
qed

end
