(* ===== verification/Matcher.thy ===== *)
theory Matcher
  imports Pattern
begin

text \<open>
  Matching under one payload's work budget (\<open>protocol/action-schema/src/matcher.rs\<close>).  The parser of \<open>regex_syntax\<close> and
  the \<open>regex\<close> engine are the fields of an \<open>engine\<close>: reading a pattern's syntax, and building a matcher from the rewritten
  text.  A prepared pattern keeps its matcher and its program bound.  The locale \<open>search\<close> is what the payload evaluator
  relies on; the budgeted search below is its instance.
\<close>

section \<open>The code\<close>

record engine =
  parse_pattern :: "string \<Rightarrow> ast option"
  new_regex :: "string \<Rightarrow> (string \<Rightarrow> bool) option"

datatype pattern_error = Refused | Exhausted

record budget =
  remaining :: nat
  prepared :: "string \<Rightarrow> ((string \<Rightarrow> bool) \<times> nat) option"

definition fresh_budget :: budget where
  "fresh_budget = \<lparr>remaining = MAX_PATTERN_WORK, prepared = (\<lambda>_. None)\<rparr>"

definition backslash :: string where
  "backslash = [CHR 0x5C]"

definition ascii_class :: "perl_class \<Rightarrow> string" where
  "ascii_class p =
     (case (perl_kind p, negated p) of
        (Digit, False) \<Rightarrow> ''[0-9]''
      | (Digit, True) \<Rightarrow> ''[^0-9]''
      | (Word, False) \<Rightarrow> ''[0-9A-Za-z_]''
      | (Word, True) \<Rightarrow> ''[^0-9A-Za-z_]''
      | (Space, False) \<Rightarrow> ''['' @ concat (map (\<lambda>ch. backslash @ [ch]) ''tnfr'') @ '' ]''
      | (Space, True) \<Rightarrow> ''[^'' @ concat (map (\<lambda>ch. backslash @ [ch]) ''tnfr'') @ '' ]'')"

text \<open>The visitor's replacements in pattern order; an admitted class holds no nested class and no set operation.\<close>

fun item_rewrites :: "class_item \<Rightarrow> (span \<times> string) list" where
  "item_rewrites (Item_Perl p) = [(perl_span p, ascii_class p)]"
| "item_rewrites (Item_Union items) = concat (map item_rewrites items)"
| "item_rewrites _ = []"

fun ast_rewrites :: "ast \<Rightarrow> (span \<times> string) list" where
  "ast_rewrites (ClassPerl p) = [(perl_span p, ascii_class p)]"
| "ast_rewrites (Assertion sp WordBoundary) = [(sp, ''(?-u:'' @ backslash @ ''b)'')]"
| "ast_rewrites (Assertion sp NotWordBoundary) = [(sp, ''(?-u:'' @ backslash @ ''B)'')]"
| "ast_rewrites (ClassBracketed (Class_Item item)) = item_rewrites item"
| "ast_rewrites (Repetition _ _ operand) = ast_rewrites operand"
| "ast_rewrites (Group _ body) = ast_rewrites body"
| "ast_rewrites (Alternation asts) = concat (map ast_rewrites asts)"
| "ast_rewrites (Concat asts) = concat (map ast_rewrites asts)"
| "ast_rewrites _ = []"

fun translated :: "string \<Rightarrow> nat \<Rightarrow> (span \<times> string) list \<Rightarrow> string" where
  "translated pattern copied [] = drop copied pattern"
| "translated pattern copied ((sp, replacement) # rest) =
     slice pattern \<lparr>start_offset = copied, end_offset = start_offset sp\<rparr> @ replacement
     @ translated pattern (end_offset sp) rest"

definition compile :: "engine \<Rightarrow> string \<Rightarrow> (string \<Rightarrow> bool) option" where
  "compile e pattern =
     (case parse_pattern e pattern of
        None \<Rightarrow> None
      | Some parsed \<Rightarrow> new_regex e (translated pattern 0 (ast_rewrites parsed)))"

definition charge :: "nat \<Rightarrow> budget \<Rightarrow> (pattern_error + unit) \<times> budget" where
  "charge units b =
     (if units \<le> remaining b then (Inr (), b\<lparr>remaining := remaining b - units\<rparr>) else (Inl Exhausted, b))"

definition prepare :: "engine \<Rightarrow> string \<Rightarrow> budget \<Rightarrow> (pattern_error + nat) \<times> budget" where
  "prepare e pattern b =
     (case prepared b pattern of
        Some (_, bound) \<Rightarrow> (Inr bound, b)
      | None \<Rightarrow>
          (case pattern_costs (parse_pattern e) pattern of
             None \<Rightarrow> (Inl Refused, b)
           | Some (bound, preparation) \<Rightarrow>
               (case charge preparation b of
                  (Inl err, b) \<Rightarrow> (Inl err, b)
                | (Inr _, b) \<Rightarrow>
                    (case compile e pattern of
                       None \<Rightarrow> (Inl Refused, b)
                     | Some regex \<Rightarrow> (Inr bound, b\<lparr>prepared := (prepared b)(pattern \<mapsto> (regex, bound))\<rparr>)))))"

definition pattern_matches ::
    "engine \<Rightarrow> string \<Rightarrow> string \<Rightarrow> budget \<Rightarrow> (pattern_error + bool) \<times> budget" where
  "pattern_matches e pattern subject b =
     (case prepare e pattern b of
        (Inl err, b) \<Rightarrow> (Inl err, b)
      | (Inr bound, b) \<Rightarrow>
          (case charge (sat_mul (max (length subject) 1) bound) b of
             (Inl err, b) \<Rightarrow> (Inl err, b)
           | (Inr _, b) \<Rightarrow>
               (Inr (case prepared b pattern of Some (regex, _) \<Rightarrow> regex subject | None \<Rightarrow> False), b)))"

section \<open>What the evaluator relies on\<close>

locale search =
  fixes matches :: "string \<Rightarrow> string \<Rightarrow> 'b \<Rightarrow> (pattern_error + bool) \<times> 'b"
    and work :: "'b \<Rightarrow> nat"
    and budget_ok :: "'b \<Rightarrow> bool"
  assumes matches_ok: "budget_ok b \<Longrightarrow> budget_ok (snd (matches pattern subject b))"
    and matches_spend: "budget_ok b \<Longrightarrow> work (snd (matches pattern subject b)) \<le> work b"

section \<open>The budget\<close>

text \<open>What every prepared pattern keeps: its own matcher and its own bound.\<close>

definition budget_valid :: "engine \<Rightarrow> budget \<Rightarrow> bool" where
  "budget_valid e b \<longleftrightarrow>
     remaining b \<le> MAX_PATTERN_WORK \<and>
     (\<forall>pattern regex bound. prepared b pattern = Some (regex, bound) \<longrightarrow>
        (\<exists>preparation. pattern_costs (parse_pattern e) pattern = Some (bound, preparation)) \<and>
        compile e pattern = Some regex)"

lemma budget_valid_fresh: "budget_valid e fresh_budget"
  by (simp add: budget_valid_def fresh_budget_def)

lemma budget_valid_charge: "budget_valid e b \<Longrightarrow> budget_valid e (snd (charge units b))"
  by (auto simp: charge_def budget_valid_def)

lemma charge_cases:
  obtains "units \<le> remaining b" "charge units b = (Inr (), b\<lparr>remaining := remaining b - units\<rparr>)"
  | "remaining b < units" "charge units b = (Inl Exhausted, b)"
  by (cases "units \<le> remaining b") (auto simp: charge_def)

text \<open>One preparation: what it answers, and what it charges.\<close>

lemma prepare_known: "prepared b pattern = Some (regex, bound) \<Longrightarrow> prepare e pattern b = (Inr bound, b)"
  by (simp add: prepare_def)

lemma prepare_new:
  assumes "prepared b pattern = None" "pattern_costs (parse_pattern e) pattern = Some (bound, preparation)"
    "preparation \<le> remaining b" "compile e pattern = Some regex"
  shows "prepare e pattern b =
    (Inr bound, \<lparr>remaining = remaining b - preparation, prepared = (prepared b)(pattern \<mapsto> (regex, bound))\<rparr>)"
  using assms by (simp add: prepare_def charge_def)

lemma prepare_Inr:
  assumes "budget_valid e b" "prepare e pattern b = (Inr bound, b')"
  shows "\<exists>regex preparation. pattern_costs (parse_pattern e) pattern = Some (bound, preparation) \<and>
    compile e pattern = Some regex \<and>
    remaining b = remaining b' + (if prepared b pattern = None then preparation else 0) \<and>
    prepared b' = (prepared b)(pattern \<mapsto> (regex, bound))"
proof (cases "prepared b pattern")
  case None
  then show ?thesis using assms
    by (auto simp: prepare_def charge_def split: option.splits if_splits prod.splits)
next
  case (Some entry)
  obtain regex bound' where "entry = (regex, bound')" by fastforce
  then have entry: "prepared b pattern = Some (regex, bound)" and same: "b' = b"
    using Some assms(2) by (simp_all add: prepare_def)
  then show ?thesis using assms(1) by (fastforce simp: budget_valid_def fun_upd_idem)
qed

lemma prepare_Inl:
  assumes "prepare e pattern b = (Inl err, b')"
  shows "remaining b' \<le> remaining b \<and> prepared b' = prepared b"
  using assms by (auto simp: prepare_def charge_def split: option.splits if_splits prod.splits)

lemma budget_valid_prepare:
  assumes "budget_valid e b"
  shows "budget_valid e (snd (prepare e pattern b))"
proof (cases "prepare e pattern b")
  case (Pair result b')
  show ?thesis
  proof (cases result)
    case (Inl err)
    then show ?thesis using assms Pair prepare_Inl [of e pattern b err b'] by (simp add: budget_valid_def)
  next
    case (Inr bound)
    then show ?thesis using assms Pair prepare_Inr [OF assms, of pattern bound b']
      by (auto simp: budget_valid_def split: if_splits)
  qed
qed

lemma matches_Inr:
  assumes "budget_valid e b" "pattern_matches e pattern subject b = (Inr answer, b')"
  shows "\<exists>regex bound preparation. pattern_costs (parse_pattern e) pattern = Some (bound, preparation) \<and>
    compile e pattern = Some regex \<and> answer = regex subject \<and>
    remaining b = remaining b' + (if prepared b pattern = None then preparation else 0) + max (length subject) 1 * bound \<and>
    prepared b' = (prepared b)(pattern \<mapsto> (regex, bound))"
proof -
  obtain bound b1 where p: "prepare e pattern b = (Inr bound, b1)"
    using assms(2) by (auto simp: pattern_matches_def split: prod.splits sum.splits)
  from prepare_Inr [OF assms(1) p] obtain regex preparation where
    r: "pattern_costs (parse_pattern e) pattern = Some (bound, preparation)" "compile e pattern = Some regex"
      "remaining b = remaining b1 + (if prepared b pattern = None then preparation else 0)"
      "prepared b1 = (prepared b)(pattern \<mapsto> (regex, bound))"
    by blast
  have "remaining b1 < u64_max" using assms(1) r(3) by (simp add: budget_valid_def u64_max_def pattern_constants)
  then have "sat_mul (max (length subject) 1) bound \<le> remaining b1 \<Longrightarrow>
      sat_mul (max (length subject) 1) bound = max (length subject) 1 * bound"
    by (auto intro: sat_mul_exact)
  then show ?thesis using assms(2) p r
    by (auto simp: pattern_matches_def charge_def split: if_splits)
qed

lemma charge_remaining: "remaining (snd (charge units b)) \<le> remaining b"
  by (simp add: charge_def)

lemma matches_snd:
  "snd (pattern_matches e pattern subject b) =
    (case prepare e pattern b of
       (Inl err, b) \<Rightarrow> b
     | (Inr bound, b) \<Rightarrow> snd (charge (sat_mul (max (length subject) 1) bound) b))"
  by (simp add: pattern_matches_def split: prod.split sum.split)

lemma prepare_remaining: "budget_valid e b \<Longrightarrow> remaining (snd (prepare e pattern b)) \<le> remaining b"
proof (cases "prepare e pattern b")
  case (Pair result b')
  assume "budget_valid e b"
  then show ?thesis using Pair prepare_Inr [of e b pattern] prepare_Inl [of e pattern b]
    by (cases result) fastforce+
qed

lemma budget_valid_matches: "budget_valid e b \<Longrightarrow> budget_valid e (snd (pattern_matches e pattern subject b))"
  using budget_valid_prepare [of e b pattern] budget_valid_charge [of e "snd (prepare e pattern b)"]
  by (auto simp: matches_snd split: prod.split sum.split)

lemma matches_remaining: "budget_valid e b \<Longrightarrow> remaining (snd (pattern_matches e pattern subject b)) \<le> remaining b"
  using prepare_remaining [of e b pattern] charge_remaining
  by (auto simp: matches_snd split: prod.split sum.split) (meson le_trans)

interpretation budgeted: search "pattern_matches e" remaining "budget_valid e" for e
proof
  fix b pattern subject
  assume b: "budget_valid e b"
  then show "budget_valid e (snd (pattern_matches e pattern subject b))" by (rule budget_valid_matches)
  from b show "remaining (snd (pattern_matches e pattern subject b)) \<le> remaining b" by (rule matches_remaining)
qed

section \<open>Preparing a schema's patterns\<close>

fun prepare_all :: "engine \<Rightarrow> string list \<Rightarrow> budget \<Rightarrow> (pattern_error + unit) \<times> budget" where
  "prepare_all e [] b = (Inr (), b)"
| "prepare_all e (pattern # patterns) b =
     (case prepare e pattern b of
        (Inl err, b) \<Rightarrow> (Inl err, b)
      | (Inr _, b) \<Rightarrow> prepare_all e patterns b)"

lemma prepare_all_affordable:
  assumes "distinct patterns" "\<forall>p\<in>set patterns. prepared b p = None \<and> compile e p \<noteq> None \<and>
      pattern_costs (parse_pattern e) p = Some (bound p, preparation p)"
    "sum_list (map preparation patterns) \<le> remaining b"
  shows "\<exists>b'. prepare_all e patterns b = (Inr (), b') \<and>
    remaining b' = remaining b - sum_list (map preparation patterns)"
  using assms
proof (induction patterns arbitrary: b)
  case (Cons p ps)
  then obtain regex where regex: "compile e p = Some regex" by auto
  let ?b = "\<lparr>remaining = remaining b - preparation p, prepared = (prepared b)(p \<mapsto> (regex, bound p))\<rparr>"
  have "prepare e p b = (Inr (bound p), ?b)" using Cons.prems regex by (intro prepare_new) auto
  moreover have "\<exists>b'. prepare_all e ps ?b = (Inr (), b') \<and> remaining b' = remaining ?b - sum_list (map preparation ps)"
    using Cons.prems by (intro Cons.IH) auto
  ultimately show ?case by auto
qed simp

section \<open>Properties\<close>

text \<open>A concrete engine for the witnesses: it reads one pattern and matches one subject.\<close>

definition sample_engine :: engine where
  "sample_engine = \<lparr>parse_pattern = sample_parse, new_regex = (\<lambda>_. Some (\<lambda>subject. subject = ''aa''))\<rparr>"

lemma sample_compile: "compile sample_engine ''a{1,3}'' = Some (\<lambda>subject. subject = ''aa'')"
  by (simp add: compile_def sample_engine_def sample_parse_def)

lemma sample_engine_costs: "pattern_costs (parse_pattern sample_engine) ''a{1,3}'' = Some (44, 76800)"
  using sample_costs by (simp add: sample_engine_def)

text \<open>
  C6 A search that runs answers what the pattern's own compiled matcher answers, charges exactly the subject's length
  (at least one) times the program bound, and the preparation only the first time the budget meets the pattern.
\<close>

theorem search_charges:
  assumes "budget_valid e b" "pattern_matches e pattern subject b = (Inr answer, b')"
  shows "\<exists>regex bound preparation. pattern_costs (parse_pattern e) pattern = Some (bound, preparation) \<and>
    compile e pattern = Some regex \<and> answer = regex subject \<and>
    remaining b = remaining b' + (if prepared b pattern = None then preparation else 0) + max (length subject) 1 * bound \<and>
    prepared b' = (prepared b)(pattern \<mapsto> (regex, bound))"
  using assms by (rule matches_Inr)

theorem search_charges_witness:
  "\<exists>b'. pattern_matches sample_engine ''a{1,3}'' ''aa'' fresh_budget = (Inr True, b') \<and>
    remaining fresh_budget = remaining b' + 76800 + 88"
proof -
  obtain b' where run: "pattern_matches sample_engine ''a{1,3}'' ''aa'' fresh_budget = (Inr True, b')"
    by (simp add: pattern_matches_def prepare_def charge_def fresh_budget_def sample_engine_costs sample_compile
        sat_mul_def u64_max_def pattern_constants)
  from search_charges [OF budget_valid_fresh this] show ?thesis
    using run sample_engine_costs by (auto simp: fresh_budget_def)
qed

text \<open>
  A fresh budget prepares every pattern of a schema whose distinct patterns' preparations sum to half the budget,
  and keeps the other half for its searches.
\<close>

theorem preparations_fit:
  assumes "distinct patterns"
    and "\<forall>p\<in>set patterns. compile e p \<noteq> None \<and> pattern_costs (parse_pattern e) p = Some (bound p, preparation p)"
    and "sum_list (map preparation patterns) \<le> MAX_PREPARATION_WORK"
  shows "\<exists>b. prepare_all e patterns fresh_budget = (Inr (), b) \<and> MAX_PREPARATION_WORK \<le> remaining b"
proof -
  have "sum_list (map preparation patterns) \<le> remaining fresh_budget"
    using assms(3) by (simp add: fresh_budget_def pattern_constants)
  then obtain b where "prepare_all e patterns fresh_budget = (Inr (), b)"
    "remaining b = remaining fresh_budget - sum_list (map preparation patterns)"
    using prepare_all_affordable [of patterns fresh_budget e bound preparation] assms by (auto simp: fresh_budget_def)
  then show ?thesis using assms(3) by (simp add: fresh_budget_def pattern_constants)
qed

theorem preparations_fit_witness:
  "\<exists>b. prepare_all sample_engine [''a{1,3}''] fresh_budget = (Inr (), b) \<and> MAX_PREPARATION_WORK \<le> remaining b"
  using sample_engine_costs sample_compile
  by (intro preparations_fit [where bound = "\<lambda>_. 44" and preparation = "\<lambda>_. 76800"]) (simp_all add: pattern_constants)

end
