(* ===== verification/Validate.thy ===== *)
theory Validate
  imports Equality Walk Matcher
begin

text \<open>
  Payload validation (\<open>protocol/action-schema/src/validate.rs\<close>, \<open>validate/assertions.rs\<close>, \<open>validate/applicators.rs\<close>).
  The evaluator threads the matching budget and the error consumer.  The code has two consumers, one that stops at the
  first error and one that only remembers that there was one; each sets a flag, the \<open>hit\<close> of the state, and answers
  whether to go on.  The recursion through subschemas is open: every keyword takes the evaluator it descends with, and
  \<open>descend\<close> ties the knot on a fuel, whose end is the error \<open>Out_of_fuel\<close> of the model.  \<open>matches\<close> is the budgeted search,
  any function of a pattern, a subject and a budget.
\<close>

section \<open>State, errors and consumers\<close>

datatype payload_error =
    NotAnObject
  | TooDeep
  | Invalid
  | Pattern pattern_error
  | Arithmetic
  | Unsupported
  | Out_of_fuel

definition MAX_PAYLOAD_DEPTH :: nat where "MAX_PAYLOAD_DEPTH = 32"

datatype flow = Go_on | Break

datatype consumer = Stop_first | Collect

record 'b eval =
  search_budget :: 'b
  hit :: bool

type_synonym ('b, 'a) run = "'b eval \<Rightarrow> (payload_error + 'a) \<times> 'b eval"
type_synonym 'b step = "('b, flow) run"
type_synonym 'b evaluator = "consumer \<Rightarrow> json \<Rightarrow> json \<Rightarrow> 'b step"
type_synonym 'b searcher = "string \<Rightarrow> string \<Rightarrow> 'b \<Rightarrow> (pattern_error + bool) \<times> 'b"

definition ret :: "'a \<Rightarrow> ('b, 'a) run" where
  "ret x s = (Inr x, s)"

definition raise :: "payload_error \<Rightarrow> ('b, 'a) run" where
  "raise err s = (Inl err, s)"

definition bind :: "('b, 'a) run \<Rightarrow> ('a \<Rightarrow> ('b, 'c) run) \<Rightarrow> ('b, 'c) run" where
  "bind m k s = (case m s of (Inl err, s) \<Rightarrow> (Inl err, s) | (Inr x, s) \<Rightarrow> k x s)"

abbreviation go_on :: "'b step" where
  "go_on \<equiv> ret Go_on"

definition sink :: "consumer \<Rightarrow> 'b step" where
  "sink consumer s = (Inr (case consumer of Stop_first \<Rightarrow> Break | Collect \<Rightarrow> Go_on), s\<lparr>hit := True\<rparr>)"

text \<open>A loop whose body may break out of the whole step.\<close>

fun each :: "('a \<Rightarrow> 'b step) \<Rightarrow> 'a list \<Rightarrow> 'b step" where
  "each body [] = go_on"
| "each body (x # xs) = bind (body x) (\<lambda>flow. case flow of Break \<Rightarrow> ret Break | Go_on \<Rightarrow> each body xs)"

text \<open>Nesting below the root.\<close>

function depth_loop :: "nat \<Rightarrow> (json \<times> nat) list \<Rightarrow> bool" where
  "depth_loop limit [] = True"
| "depth_loop limit ((node, level) # pending) =
     (if level > limit then False
      else depth_loop limit
             (rev (map (\<lambda>m. (snd m, level + 1)) (members node)) @ rev (map (\<lambda>child. (child, level + 1)) (elements node))
              @ pending))"
  by pat_completeness auto
termination
proof (relation "measure (\<lambda>(limit, pending). sum_list (map (\<lambda>p. node_count (fst p)) pending))", goal_cases)
  case (2 limit node level pending)
  then show ?case
    by (simp add: node_count_children [of node] children_elements_members sum_list_rev comp_def flip: rev_map)
qed simp

definition depth_within :: "json \<Rightarrow> nat \<Rightarrow> bool" where
  "depth_within v limit = depth_loop limit [(v, 0)]"

section \<open>Assertions\<close>

definition is_type :: "json \<Rightarrow> string \<Rightarrow> bool" where
  "is_type instance kind =
     (case instance of
        Array _ \<Rightarrow> kind = ''array''
      | Bool _ \<Rightarrow> kind = ''boolean''
      | Null \<Rightarrow> kind = ''null''
      | Number n \<Rightarrow> kind = ''number'' \<or> kind = ''integer'' \<and> is_integer n
      | Object _ \<Rightarrow> kind = ''object''
      | String _ \<Rightarrow> kind = ''string'')"

definition typed :: "json \<Rightarrow> json \<Rightarrow> bool" where
  "typed kinds instance =
     (case kinds of
        String kind \<Rightarrow> is_type instance kind
      | other \<Rightarrow> list_ex (\<lambda>kind. case kind of String kind \<Rightarrow> is_type instance kind | _ \<Rightarrow> False) (elements other))"

definition numeric :: "json \<Rightarrow> json \<Rightarrow> (ordering \<Rightarrow> bool) \<Rightarrow> bool" where
  "numeric instance bound refuses =
     (case (instance, bound) of (Number i, Number b) \<Rightarrow> refuses (compare i b) | _ \<Rightarrow> False)"

definition not_multiple_of :: "json \<Rightarrow> json \<Rightarrow> payload_error + bool" where
  "not_multiple_of instance divisor =
     (case (instance, divisor) of
        (Number i, Number d) \<Rightarrow> (case not_multiple i d of Inl _ \<Rightarrow> Inl Arithmetic | Inr refused \<Rightarrow> Inr refused)
      | _ \<Rightarrow> Inr False)"

definition bounded :: "string \<Rightarrow> nat \<Rightarrow> json \<Rightarrow> bool" where
  "bounded keyword amount bound =
     (case bound of
        Number b \<Rightarrow>
          (let d = compare_count amount b in if starts_with ''min'' keyword then is_lt d else is_gt d)
      | _ \<Rightarrow> False)"

definition present :: "json \<Rightarrow> json \<Rightarrow> bool" where
  "present name instance = (case name of String n \<Rightarrow> get instance n \<noteq> None | _ \<Rightarrow> False)"

definition missing :: "consumer \<Rightarrow> json list \<Rightarrow> json \<Rightarrow> 'b step" where
  "missing consumer names instance = each (\<lambda>name. if present name instance then go_on else sink consumer) names"

definition required :: "consumer \<Rightarrow> json \<Rightarrow> json \<Rightarrow> 'b step" where
  "required consumer names instance =
     (if \<not> is_object instance then go_on else missing consumer (elements names) instance)"

definition dependent_required :: "consumer \<Rightarrow> json \<Rightarrow> json \<Rightarrow> 'b step" where
  "dependent_required consumer table instance =
     (if \<not> is_object instance then go_on
      else each (\<lambda>(name, dependencies).
                  if get instance name \<noteq> None then missing consumer (elements dependencies) instance else go_on)
             (members table))"

definition fail_if :: "consumer \<Rightarrow> bool \<Rightarrow> 'b step" where
  "fail_if consumer failed = (if failed then sink consumer else go_on)"

definition assert_keyword :: "consumer \<Rightarrow> string \<Rightarrow> json \<Rightarrow> json \<Rightarrow> 'b step" where
  "assert_keyword consumer keyword v instance =
     (if keyword = ''type'' then fail_if consumer (\<not> typed v instance)
      else if keyword = ''const'' then fail_if consumer (\<not> json_equal instance v)
      else if keyword = ''enum'' then fail_if consumer (\<not> list_ex (\<lambda>each. json_equal each instance) (elements v))
      else if keyword = ''minimum'' then fail_if consumer (numeric instance v is_lt)
      else if keyword = ''maximum'' then fail_if consumer (numeric instance v is_gt)
      else if keyword = ''exclusiveMinimum'' then fail_if consumer (numeric instance v is_le)
      else if keyword = ''exclusiveMaximum'' then fail_if consumer (numeric instance v is_ge)
      else if keyword = ''multipleOf''
      then (case not_multiple_of instance v of Inl err \<Rightarrow> raise err | Inr failed \<Rightarrow> fail_if consumer failed)
      else if keyword = ''minLength'' \<or> keyword = ''maxLength''
      then fail_if consumer (case instance of String text \<Rightarrow> bounded keyword (length (chars text)) v | _ \<Rightarrow> False)
      else if keyword = ''minItems'' \<or> keyword = ''maxItems''
      then fail_if consumer (case instance of Array items \<Rightarrow> bounded keyword (length items) v | _ \<Rightarrow> False)
      else if keyword = ''minProperties'' \<or> keyword = ''maxProperties''
      then fail_if consumer (case instance of Object entries \<Rightarrow> bounded keyword (length entries) v | _ \<Rightarrow> False)
      else if keyword = ''uniqueItems'' then fail_if consumer (v = Bool True \<and> \<not> unique (elements instance))
      else if keyword = ''required'' then required consumer v instance
      else if keyword = ''dependentRequired'' then dependent_required consumer v instance
      else go_on)"

section \<open>Probes and searches\<close>

definition is_valid :: "'b evaluator \<Rightarrow> json \<Rightarrow> json \<Rightarrow> ('b, bool) run" where
  "is_valid desc instance schema s =
     (case desc Stop_first instance schema (s\<lparr>hit := False\<rparr>) of
        (Inl err, t) \<Rightarrow> (Inl err, t\<lparr>hit := hit s\<rparr>)
      | (Inr _, t) \<Rightarrow> (Inr (\<not> hit t), t\<lparr>hit := hit s\<rparr>))"

definition has_errors :: "'b evaluator \<Rightarrow> json \<Rightarrow> json \<Rightarrow> ('b, bool) run" where
  "has_errors desc instance schema s =
     (case desc Collect instance schema (s\<lparr>hit := False\<rparr>) of
        (Inl err, t) \<Rightarrow> (Inl err, t\<lparr>hit := hit s\<rparr>)
      | (Inr _, t) \<Rightarrow> (Inr (hit t), t\<lparr>hit := hit s\<rparr>))"

definition matches_in :: "'b searcher \<Rightarrow> string \<Rightarrow> string \<Rightarrow> ('b, bool) run" where
  "matches_in matches pattern subject s =
     (case matches pattern subject (search_budget s) of
        (Inl err, b) \<Rightarrow> (Inl (Pattern err), s\<lparr>search_budget := b\<rparr>)
      | (Inr found, b) \<Rightarrow> (Inr found, s\<lparr>search_budget := b\<rparr>))"

section \<open>Applicators\<close>

definition reference_kw :: "'b evaluator \<Rightarrow> json \<Rightarrow> consumer \<Rightarrow> json \<Rightarrow> json \<Rightarrow> 'b step" where
  "reference_kw desc doc consumer reference instance =
     (case reference of
        String name \<Rightarrow>
          (case reference_target doc name of
             None \<Rightarrow> raise Unsupported
           | Some target \<Rightarrow> desc consumer instance target)
      | _ \<Rightarrow> raise Unsupported)"

definition all_of :: "'b evaluator \<Rightarrow> consumer \<Rightarrow> json \<Rightarrow> json \<Rightarrow> 'b step" where
  "all_of desc consumer schemas instance = each (\<lambda>subschema. desc consumer instance subschema) (elements schemas)"

fun any_of_loop :: "'b evaluator \<Rightarrow> consumer \<Rightarrow> json list \<Rightarrow> json \<Rightarrow> 'b step" where
  "any_of_loop desc consumer [] instance = sink consumer"
| "any_of_loop desc consumer (subschema # rest) instance =
     bind (has_errors desc instance subschema)
       (\<lambda>errors. if \<not> errors then go_on else any_of_loop desc consumer rest instance)"

definition any_of :: "'b evaluator \<Rightarrow> consumer \<Rightarrow> json \<Rightarrow> json \<Rightarrow> 'b step" where
  "any_of desc consumer schemas instance = any_of_loop desc consumer (elements schemas) instance"

fun first_passing :: "'b evaluator \<Rightarrow> nat \<Rightarrow> json list \<Rightarrow> json \<Rightarrow> ('b, nat option) run" where
  "first_passing desc index [] instance = ret None"
| "first_passing desc index (subschema # rest) instance =
     bind (has_errors desc instance subschema)
       (\<lambda>errors. if \<not> errors then ret (Some index) else first_passing desc (index + 1) rest instance)"

fun any_valid :: "'b evaluator \<Rightarrow> bool \<Rightarrow> json list \<Rightarrow> json \<Rightarrow> ('b, bool) run" where
  "any_valid desc again [] instance = ret again"
| "any_valid desc again (subschema # rest) instance =
     bind (is_valid desc instance subschema) (\<lambda>valid. any_valid desc (again \<or> valid) rest instance)"

definition one_of :: "'b evaluator \<Rightarrow> consumer \<Rightarrow> json \<Rightarrow> json \<Rightarrow> 'b step" where
  "one_of desc consumer schemas instance =
     bind (first_passing desc 0 (elements schemas) instance)
       (\<lambda>first. case first of
          None \<Rightarrow> sink consumer
        | Some first \<Rightarrow>
            bind (any_valid desc False (drop (first + 1) (elements schemas)) instance)
              (\<lambda>again. if again then sink consumer else go_on))"

definition not_kw :: "'b evaluator \<Rightarrow> consumer \<Rightarrow> json \<Rightarrow> json \<Rightarrow> 'b step" where
  "not_kw desc consumer subschema instance =
     bind (is_valid desc instance subschema) (\<lambda>valid. if valid then sink consumer else go_on)"

definition if_then_else :: "'b evaluator \<Rightarrow> consumer \<Rightarrow> json \<Rightarrow> json \<Rightarrow> json \<Rightarrow> 'b step" where
  "if_then_else desc consumer condition instance schema =
     bind (is_valid desc instance condition)
       (\<lambda>valid. case get schema (if valid then ''then'' else ''else'') of
          Some branch \<Rightarrow> desc consumer instance branch
        | None \<Rightarrow> go_on)"

definition properties_kw :: "'b evaluator \<Rightarrow> consumer \<Rightarrow> json \<Rightarrow> json \<Rightarrow> 'b step" where
  "properties_kw desc consumer table instance =
     (if \<not> is_object instance then go_on
      else each (\<lambda>(name, subschema).
                  case get instance name of Some v \<Rightarrow> desc consumer v subschema | None \<Rightarrow> go_on)
             (members table))"

definition pattern_kw :: "'b searcher \<Rightarrow> consumer \<Rightarrow> json \<Rightarrow> json \<Rightarrow> 'b step" where
  "pattern_kw matches consumer pattern instance =
     (case (pattern, instance) of
        (String p, String subject) \<Rightarrow>
          bind (matches_in matches p subject) (\<lambda>found. if \<not> found then sink consumer else go_on)
      | _ \<Rightarrow> go_on)"

definition pattern_properties :: "'b searcher \<Rightarrow> 'b evaluator \<Rightarrow> consumer \<Rightarrow> json \<Rightarrow> json \<Rightarrow> 'b step" where
  "pattern_properties matches desc consumer table instance =
     (if \<not> is_object instance then go_on
      else each (\<lambda>(pattern, subschema).
             each (\<lambda>(name, v).
                    bind (matches_in matches pattern name) (\<lambda>found. if found then desc consumer v subschema else go_on))
               (members instance))
             (members table))"

fun any_matches :: "'b searcher \<Rightarrow> (string \<times> json) list \<Rightarrow> string \<Rightarrow> ('b, bool) run" where
  "any_matches matches [] name = ret False"
| "any_matches matches ((pattern, _) # rest) name =
     bind (matches_in matches pattern name) (\<lambda>found. if found then ret True else any_matches matches rest name)"

fun extras_loop ::
    "'b searcher \<Rightarrow> json option \<Rightarrow> (string \<times> json) list \<Rightarrow> (string \<times> json) list \<Rightarrow> ('b, json list) run" where
  "extras_loop matches declared patterns [] = ret []"
| "extras_loop matches declared patterns ((name, v) # rest) =
     (if Option.bind declared (\<lambda>d. get d name) \<noteq> None then extras_loop matches declared patterns rest
      else bind (any_matches matches patterns name)
             (\<lambda>found. bind (extras_loop matches declared patterns rest)
                (\<lambda>extras. ret (if \<not> found then v # extras else extras))))"

definition extras :: "'b searcher \<Rightarrow> json \<Rightarrow> json \<Rightarrow> ('b, json list) run" where
  "extras matches instance schema =
     extras_loop matches (get schema ''properties'')
       (case get schema ''patternProperties'' of None \<Rightarrow> [] | Some table \<Rightarrow> members table) (members instance)"

definition additional_properties ::
    "'b searcher \<Rightarrow> 'b evaluator \<Rightarrow> consumer \<Rightarrow> json \<Rightarrow> json \<Rightarrow> json \<Rightarrow> 'b step" where
  "additional_properties matches desc consumer additional instance schema =
     (if \<not> is_object instance then go_on
      else bind (extras matches instance schema)
             (\<lambda>extras. case additional of
                Object _ \<Rightarrow> each (\<lambda>extra. desc consumer extra additional) extras
              | Bool False \<Rightarrow> if extras \<noteq> [] then sink consumer else go_on
              | _ \<Rightarrow> go_on))"

definition property_names :: "'b evaluator \<Rightarrow> consumer \<Rightarrow> json \<Rightarrow> json \<Rightarrow> 'b step" where
  "property_names desc consumer subschema instance =
     each (\<lambda>(name, _). desc consumer (String name) subschema) (members instance)"

definition dependent_schemas :: "'b evaluator \<Rightarrow> consumer \<Rightarrow> json \<Rightarrow> json \<Rightarrow> 'b step" where
  "dependent_schemas desc consumer table instance =
     (if \<not> is_object instance then go_on
      else each (\<lambda>(name, subschema). if get instance name \<noteq> None then desc consumer instance subschema else go_on)
             (members table))"

definition prefix_items :: "'b evaluator \<Rightarrow> consumer \<Rightarrow> json \<Rightarrow> json \<Rightarrow> 'b step" where
  "prefix_items desc consumer schemas instance =
     (case instance of
        Array items \<Rightarrow> each (\<lambda>(item, subschema). desc consumer item subschema) (zip items (elements schemas))
      | _ \<Rightarrow> go_on)"

definition items_kw :: "'b evaluator \<Rightarrow> consumer \<Rightarrow> json \<Rightarrow> json \<Rightarrow> json \<Rightarrow> 'b step" where
  "items_kw desc consumer subschema instance schema =
     (case instance of
        Array items \<Rightarrow>
          (let prefix = (case get schema ''prefixItems'' of None \<Rightarrow> 0 | Some list \<Rightarrow> length (elements list));
               rest = drop prefix items
           in if rest = [] then go_on
              else if subschema = Bool False then sink consumer
              else each (\<lambda>item. desc consumer item subschema) rest)
      | _ \<Rightarrow> go_on)"

definition exceeds :: "nat \<Rightarrow> json option \<Rightarrow> nat \<Rightarrow> bool" where
  "exceeds amount bound whole =
     (case bound of Some (Number b) \<Rightarrow> is_gt (compare_count amount b) | _ \<Rightarrow> amount > whole)"

definition below :: "nat \<Rightarrow> json option \<Rightarrow> bool" where
  "below amount bound = (case bound of Some (Number b) \<Rightarrow> is_lt (compare_count amount b) | _ \<Rightarrow> amount < 1)"

fun contains_loop ::
    "'b evaluator \<Rightarrow> consumer \<Rightarrow> json \<Rightarrow> json \<Rightarrow> nat \<Rightarrow> nat \<Rightarrow> json list \<Rightarrow> 'b step" where
  "contains_loop desc consumer subschema schema whole matched [] =
     (if below matched (get schema ''minContains'') then sink consumer else go_on)"
| "contains_loop desc consumer subschema schema whole matched (item # rest) =
     bind (is_valid desc item subschema)
       (\<lambda>valid.
          if valid
          then (if exceeds (matched + 1) (get schema ''maxContains'') whole then sink consumer
                else contains_loop desc consumer subschema schema whole (matched + 1) rest)
          else contains_loop desc consumer subschema schema whole matched rest)"

definition contains_kw :: "'b evaluator \<Rightarrow> consumer \<Rightarrow> json \<Rightarrow> json \<Rightarrow> json \<Rightarrow> 'b step" where
  "contains_kw desc consumer subschema instance schema =
     (case instance of
        Array items \<Rightarrow> contains_loop desc consumer subschema schema (length items) 0 items
      | _ \<Rightarrow> go_on)"


text \<open>
  \<open>unevaluatedItems\<close>: the indices an applicator evaluated, collected through references, conditions and combined
  subschemas; the collection recurs on its own fuel and probes with \<open>desc\<close>.
\<close>

fun probe_items :: "'b evaluator \<Rightarrow> json \<Rightarrow> (nat \<times> json) list \<Rightarrow> nat set \<Rightarrow> ('b, nat set) run" where
  "probe_items desc subschema [] evaluated = ret evaluated"
| "probe_items desc subschema ((index, item) # rest) evaluated =
     bind (is_valid desc item subschema)
       (\<lambda>valid. probe_items desc subschema rest (if valid then insert index evaluated else evaluated))"

fun evaluated_by_items ::
    "'b evaluator \<Rightarrow> json list \<Rightarrow> json \<Rightarrow> string list \<Rightarrow> nat set \<Rightarrow> ('b, nat set) run" where
  "evaluated_by_items desc items schema [] evaluated = ret evaluated"
| "evaluated_by_items desc items schema (keyword # rest) evaluated =
     (case get schema keyword of
        None \<Rightarrow> evaluated_by_items desc items schema rest evaluated
      | Some subschema \<Rightarrow>
          bind (probe_items desc subschema (enumerate 0 items) evaluated)
            (evaluated_by_items desc items schema rest))"

type_synonym 'b collector = "json \<Rightarrow> json \<Rightarrow> nat set \<Rightarrow> ('b, nat set) run"

definition evaluated_by_condition :: "'b evaluator \<Rightarrow> 'b collector \<Rightarrow> 'b collector" where
  "evaluated_by_condition desc collect instance schema evaluated =
     (case get schema ''if'' of
        None \<Rightarrow> ret evaluated
      | Some condition \<Rightarrow>
          bind (is_valid desc instance condition)
            (\<lambda>valid.
               if valid
               then bind (collect instance condition evaluated)
                      (\<lambda>evaluated. case get schema ''then'' of
                         Some branch \<Rightarrow> collect instance branch evaluated | None \<Rightarrow> ret evaluated)
               else (case get schema ''else'' of
                       Some branch \<Rightarrow> collect instance branch evaluated | None \<Rightarrow> ret evaluated)))"

fun evaluated_by_valid :: "'b evaluator \<Rightarrow> 'b collector \<Rightarrow> json \<Rightarrow> json list \<Rightarrow> nat set \<Rightarrow> ('b, nat set) run" where
  "evaluated_by_valid desc collect instance [] evaluated = ret evaluated"
| "evaluated_by_valid desc collect instance (subschema # rest) evaluated =
     bind (is_valid desc instance subschema)
       (\<lambda>valid. bind (if valid then collect instance subschema evaluated else ret evaluated)
          (evaluated_by_valid desc collect instance rest))"

definition subschemas_under :: "json \<Rightarrow> string list \<Rightarrow> json list" where
  "subschemas_under schema keywords =
     concat (map (\<lambda>keyword. case get schema keyword of None \<Rightarrow> [] | Some list \<Rightarrow> elements list) keywords)"

definition collect_reference :: "json \<Rightarrow> 'b collector \<Rightarrow> 'b collector" where
  "collect_reference doc collect instance schema evaluated =
     (case get schema ''$ref'' of
        Some (String reference) \<Rightarrow>
          (case reference_target doc reference of
             None \<Rightarrow> raise Unsupported
           | Some target \<Rightarrow> collect instance target evaluated)
      | _ \<Rightarrow> ret evaluated)"

primrec evaluated_items ::
    "nat \<Rightarrow> 'b evaluator \<Rightarrow> json \<Rightarrow> json \<Rightarrow> json \<Rightarrow> nat set \<Rightarrow> ('b, nat set) run" where
  "evaluated_items 0 desc doc instance schema evaluated = raise Out_of_fuel"
| "evaluated_items (Suc fuel) desc doc instance schema evaluated =
     (let collect = evaluated_items fuel desc doc; items = elements instance
     in if \<not> is_object schema then ret evaluated
        else if get schema ''items'' \<noteq> None then ret (evaluated \<union> {..<length items})
        else bind (collect_reference doc collect instance schema evaluated)
          (\<lambda>evaluated.
             let evaluated = (case get schema ''prefixItems'' of
                   None \<Rightarrow> evaluated | Some prefix \<Rightarrow> evaluated \<union> {..<length (elements prefix)})
             in bind (evaluated_by_condition desc collect instance schema evaluated)
               (\<lambda>evaluated. bind (evaluated_by_items desc items schema [''contains'', ''unevaluatedItems''] evaluated)
                  (evaluated_by_valid desc collect instance
                     (subschemas_under schema [''allOf'', ''oneOf'', ''anyOf''])))))"

definition unevaluated_items :: "'b collector \<Rightarrow> consumer \<Rightarrow> json \<Rightarrow> json \<Rightarrow> 'b step" where
  "unevaluated_items collect consumer instance schema =
     (case instance of
        Array items \<Rightarrow>
          bind (collect instance schema {})
            (\<lambda>evaluated. if list_all (\<lambda>index. index \<in> evaluated) [0..<length items] then go_on else sink consumer)
      | _ \<Rightarrow> go_on)"

section \<open>The evaluator\<close>

definition keyword_step ::
    "'b searcher \<Rightarrow> json \<Rightarrow> 'b evaluator \<Rightarrow> 'b collector \<Rightarrow> consumer \<Rightarrow> string \<Rightarrow> json \<Rightarrow> json \<Rightarrow> json \<Rightarrow> 'b step" where
  "keyword_step matches doc desc collect consumer keyword v instance schema =
     (if keyword = ''$ref'' then reference_kw desc doc consumer v instance
      else if keyword = ''additionalProperties'' then additional_properties matches desc consumer v instance schema
      else if keyword = ''allOf'' then all_of desc consumer v instance
      else if keyword = ''anyOf'' then any_of desc consumer v instance
      else if keyword = ''contains'' then contains_kw desc consumer v instance schema
      else if keyword = ''dependentSchemas'' then dependent_schemas desc consumer v instance
      else if keyword = ''if'' then if_then_else desc consumer v instance schema
      else if keyword = ''items'' then items_kw desc consumer v instance schema
      else if keyword = ''not'' then not_kw desc consumer v instance
      else if keyword = ''oneOf'' then one_of desc consumer v instance
      else if keyword = ''pattern'' then pattern_kw matches consumer v instance
      else if keyword = ''patternProperties'' then pattern_properties matches desc consumer v instance
      else if keyword = ''prefixItems'' then prefix_items desc consumer v instance
      else if keyword = ''properties'' then properties_kw desc consumer v instance
      else if keyword = ''propertyNames'' then property_names desc consumer v instance
      else if keyword = ''unevaluatedItems'' then unevaluated_items collect consumer instance schema
      else if keyword = ''$dynamicRef'' then raise Unsupported
      else if keyword = ''unevaluatedProperties'' then raise (Pattern Refused)
      else assert_keyword consumer keyword v instance)"

primrec descend :: "nat \<Rightarrow> 'b searcher \<Rightarrow> json \<Rightarrow> consumer \<Rightarrow> json \<Rightarrow> json \<Rightarrow> 'b step" where
  "descend 0 matches doc consumer instance schema = raise Out_of_fuel"
| "descend (Suc fuel) matches doc consumer instance schema =
     (case schema of
       Bool True \<Rightarrow> go_on
     | Bool False \<Rightarrow> sink consumer
     | Object keywords \<Rightarrow>
         each (\<lambda>(keyword, v).
                keyword_step matches doc (descend fuel matches doc) (evaluated_items (Suc fuel) (descend fuel matches doc) doc)
                  consumer keyword v instance schema)
           keywords
     | _ \<Rightarrow> raise Unsupported)"

definition validate_payload_in ::
    "nat \<Rightarrow> 'b searcher \<Rightarrow> json \<Rightarrow> json \<Rightarrow> 'b \<Rightarrow> (payload_error + unit) \<times> 'b" where
  "validate_payload_in fuel matches schema payload budget =
     (if \<not> is_object payload then (Inl NotAnObject, budget)
      else if \<not> depth_within payload MAX_PAYLOAD_DEPTH then (Inl TooDeep, budget)
      else case is_valid (descend fuel matches schema) payload schema \<lparr>search_budget = budget, hit = False\<rparr> of
             (Inl err, s) \<Rightarrow> (Inl err, search_budget s)
           | (Inr valid, s) \<Rightarrow> (if valid then Inr () else Inl Invalid, search_budget s))"

definition validate_payload :: "nat \<Rightarrow> engine \<Rightarrow> json \<Rightarrow> json \<Rightarrow> payload_error + unit" where
  "validate_payload fuel e schema payload =
     fst (validate_payload_in fuel (pattern_matches e) schema payload fresh_budget)"

end
