(* ===== verification/Validity.thy ===== *)
theory Validity
  imports Validate
begin

text \<open>
  What payload validation means: \<open>conforms\<close> is JSON Schema validity of an instance as a predicate, without a budget, an
  error consumer or an order of evaluation, and the evaluator refines it under any search that answers as \<open>answer\<close> does:
  whenever it completes, both consumers, and so every probe, agree with the predicate.  \<open>ranked\<close> bounds the references'
  expansion, and with it the fuel.
\<close>

section \<open>Validity as a predicate\<close>

definition assert_holds :: "string \<Rightarrow> json \<Rightarrow> json \<Rightarrow> bool" where
  "assert_holds keyword v instance =
     (if keyword = ''type'' then typed v instance
      else if keyword = ''const'' then json_equal instance v
      else if keyword = ''enum'' then list_ex (\<lambda>each. json_equal each instance) (elements v)
      else if keyword = ''minimum'' then \<not> numeric instance v is_lt
      else if keyword = ''maximum'' then \<not> numeric instance v is_gt
      else if keyword = ''exclusiveMinimum'' then \<not> numeric instance v is_le
      else if keyword = ''exclusiveMaximum'' then \<not> numeric instance v is_ge
      else if keyword = ''multipleOf'' then not_multiple_of instance v = Inr False
      else if keyword = ''minLength'' \<or> keyword = ''maxLength''
      then (case instance of String t \<Rightarrow> \<not> bounded keyword (length (chars t)) v | _ \<Rightarrow> True)
      else if keyword = ''minItems'' \<or> keyword = ''maxItems''
      then (case instance of Array items \<Rightarrow> \<not> bounded keyword (length items) v | _ \<Rightarrow> True)
      else if keyword = ''minProperties'' \<or> keyword = ''maxProperties''
      then (case instance of Object entries \<Rightarrow> \<not> bounded keyword (length entries) v | _ \<Rightarrow> True)
      else if keyword = ''uniqueItems'' then v = Bool True \<longrightarrow> unique (elements instance)
      else if keyword = ''required'' then is_object instance \<longrightarrow> list_all (\<lambda>name. present name instance) (elements v)
      else if keyword = ''dependentRequired''
      then is_object instance \<longrightarrow>
        list_all (\<lambda>m. get instance (fst m) \<noteq> None \<longrightarrow> list_all (\<lambda>name. present name instance) (elements (snd m)))
          (members v)
      else True)"

definition undeclared :: "(string \<Rightarrow> string \<Rightarrow> bool) \<Rightarrow> json \<Rightarrow> json \<Rightarrow> json list" where
  "undeclared answer instance schema =
     map snd (filter (\<lambda>m. Option.bind (get schema ''properties'') (\<lambda>d. get d (fst m)) = None \<and>
         \<not> list_ex (\<lambda>p. answer (fst p) (fst m))
             (case get schema ''patternProperties'' of None \<Rightarrow> [] | Some table \<Rightarrow> members table))
       (members instance))"

type_synonym validity = "json \<Rightarrow> json \<Rightarrow> bool"

definition contains_holds :: "validity \<Rightarrow> json \<Rightarrow> json \<Rightarrow> json list \<Rightarrow> bool" where
  "contains_holds V v schema items =
     (let n = length (filter (\<lambda>item. V item v) items)
      in \<not> below n (get schema ''minContains'') \<and>
         \<not> (0 < n \<and> exceeds n (get schema ''maxContains'') (length items)))"

definition keyword_holds ::
    "(string \<Rightarrow> string \<Rightarrow> bool) \<Rightarrow> json \<Rightarrow> validity \<Rightarrow> (json \<Rightarrow> json \<Rightarrow> nat set) \<Rightarrow> string \<Rightarrow> json \<Rightarrow> json \<Rightarrow> json \<Rightarrow> bool" where
  "keyword_holds answer doc V evaluated keyword v instance schema =
     (if keyword = ''$ref''
      then (case v of String r \<Rightarrow> (case reference_target doc r of Some t \<Rightarrow> V instance t | None \<Rightarrow> False) | _ \<Rightarrow> False)
      else if keyword = ''additionalProperties''
      then is_object instance \<longrightarrow>
        (case v of Object _ \<Rightarrow> list_all (\<lambda>extra. V extra v) (undeclared answer instance schema)
                 | Bool b \<Rightarrow> b \<or> undeclared answer instance schema = []
                 | _ \<Rightarrow> True)
      else if keyword = ''allOf'' then list_all (V instance) (elements v)
      else if keyword = ''anyOf'' then list_ex (V instance) (elements v)
      else if keyword = ''contains'' then (case instance of Array items \<Rightarrow> contains_holds V v schema items | _ \<Rightarrow> True)
      else if keyword = ''dependentSchemas''
      then is_object instance \<longrightarrow> list_all (\<lambda>m. get instance (fst m) \<noteq> None \<longrightarrow> V instance (snd m)) (members v)
      else if keyword = ''if''
      then (case get schema (if V instance v then ''then'' else ''else'') of Some branch \<Rightarrow> V instance branch | None \<Rightarrow> True)
      else if keyword = ''items''
      then (case instance of
              Array items \<Rightarrow>
                list_all (\<lambda>item. v \<noteq> Bool False \<and> V item v)
                  (drop (case get schema ''prefixItems'' of None \<Rightarrow> 0 | Some list \<Rightarrow> length (elements list)) items)
            | _ \<Rightarrow> True)
      else if keyword = ''not'' then \<not> V instance v
      else if keyword = ''oneOf'' then length (filter (V instance) (elements v)) = 1
      else if keyword = ''pattern''
      then (case (v, instance) of (String p, String subject) \<Rightarrow> answer p subject | _ \<Rightarrow> True)
      else if keyword = ''patternProperties''
      then is_object instance \<longrightarrow>
        list_all (\<lambda>p. list_all (\<lambda>m. answer (fst p) (fst m) \<longrightarrow> V (snd m) (snd p)) (members instance)) (members v)
      else if keyword = ''prefixItems''
      then (case instance of Array items \<Rightarrow> list_all (\<lambda>p. V (fst p) (snd p)) (zip items (elements v)) | _ \<Rightarrow> True)
      else if keyword = ''properties''
      then is_object instance \<longrightarrow>
        list_all (\<lambda>m. case get instance (fst m) of Some child \<Rightarrow> V child (snd m) | None \<Rightarrow> True) (members v)
      else if keyword = ''propertyNames'' then list_all (\<lambda>m. V (String (fst m)) v) (members instance)
      else if keyword = ''unevaluatedItems''
      then (case instance of Array items \<Rightarrow> {..<length items} \<subseteq> evaluated instance schema | _ \<Rightarrow> True)
      else if keyword = ''$dynamicRef'' then False
      else if keyword = ''unevaluatedProperties'' then False
      else assert_holds keyword v instance)"

primrec evaluated_set :: "nat \<Rightarrow> validity \<Rightarrow> json \<Rightarrow> json \<Rightarrow> json \<Rightarrow> nat set" where
  "evaluated_set 0 V doc instance schema = {}"
| "evaluated_set (Suc fuel) V doc instance schema =
     (let under = evaluated_set fuel V doc instance; items = elements instance;
         at_key = (\<lambda>kw. case get schema kw of Some s \<Rightarrow> under s | None \<Rightarrow> {})
     in if \<not> is_object schema then {}
        else if get schema ''items'' \<noteq> None then {..<length items}
        else (case get schema ''$ref'' of
                Some (String r) \<Rightarrow> (case reference_target doc r of Some t \<Rightarrow> under t | None \<Rightarrow> {})
              | _ \<Rightarrow> {})
          \<union> (case get schema ''prefixItems'' of Some prefix \<Rightarrow> {..<length (elements prefix)} | None \<Rightarrow> {})
          \<union> (case get schema ''if'' of
               Some condition \<Rightarrow> if V instance condition then under condition \<union> at_key ''then'' else at_key ''else''
             | None \<Rightarrow> {})
          \<union> (\<Union>kw\<in>{''contains'', ''unevaluatedItems''}.
               case get schema kw of Some s \<Rightarrow> {i. i < length items \<and> V (items ! i) s} | None \<Rightarrow> {})
          \<union> (\<Union>s\<in>{s \<in> set (subschemas_under schema [''allOf'', ''oneOf'', ''anyOf'']). V instance s}. under s))"

primrec conforms :: "nat \<Rightarrow> (string \<Rightarrow> string \<Rightarrow> bool) \<Rightarrow> json \<Rightarrow> json \<Rightarrow> json \<Rightarrow> bool" where
  "conforms 0 answer doc instance schema = False"
| "conforms (Suc fuel) answer doc instance schema =
     (case schema of
       Bool b \<Rightarrow> b
     | Object keywords \<Rightarrow>
         list_all (\<lambda>m. keyword_holds answer doc (conforms fuel answer doc)
             (evaluated_set (Suc fuel) (conforms fuel answer doc) doc) (fst m) (snd m) instance schema)
           keywords
     | _ \<Rightarrow> False)"

section \<open>Rank\<close>

primrec ranked :: "nat \<Rightarrow> json \<Rightarrow> json \<Rightarrow> bool" where
  "ranked 0 doc = (\<lambda>v. False)"
| "ranked (Suc n) doc = (\<lambda>v.
     list_all (ranked n doc) (applied v) \<and>
     (case get v ''$ref'' of
        Some (String r) \<Rightarrow> (case reference_target doc r of Some t \<Rightarrow> ranked n doc t | None \<Rightarrow> True)
      | _ \<Rightarrow> True))"

lemma ranked_Suc: "ranked n doc v \<Longrightarrow> ranked (Suc n) doc v"
proof (induction n arbitrary: v)
  case (Suc n)
  have "list_all (ranked (Suc n) doc) (applied v)" using Suc by (auto simp: list_all_iff)
  moreover have "ranked (Suc n) doc t" if "get v ''$ref'' = Some (String r)" "reference_target doc r = Some t" for r t
    using Suc.prems that by (intro Suc.IH) simp
  ultimately show ?case by (simp only: ranked.simps(2) [of "Suc n"]) (auto split: option.splits json.splits)
qed simp

lemma map_filter_mem: "y \<in> set xs \<Longrightarrow> f y = Some x \<Longrightarrow> x \<in> set (List.map_filter f xs)"
  by (induction xs) (auto simp: List.map_filter_simps split: option.split)

lemma applied_single: "get v kw = Some s \<Longrightarrow> kw \<in> set APPLICATORS \<Longrightarrow> s \<in> set (applied v)"
  unfolding applied_def set_append by (rule UnI1, rule map_filter_mem)

lemma applied_list:
  assumes "get v kw = Some list" "kw \<in> set LIST_APPLICATORS" "s \<in> set (elements list)"
  shows "s \<in> set (applied v)"
proof -
  have "list \<in> set (List.map_filter (get v) LIST_APPLICATORS)" using assms(2,1) by (rule map_filter_mem)
  then show ?thesis using assms(3) unfolding applied_def set_append set_concat set_map by blast
qed

lemma applied_map:
  assumes "get v kw = Some table" "kw \<in> set MAP_APPLICATORS" "m \<in> set (members table)"
  shows "snd m \<in> set (applied v)"
proof -
  have mem: "table \<in> set (List.map_filter (get v) MAP_APPLICATORS)" using assms(2,1) by (rule map_filter_mem)
  have "snd m \<in> set (concat (map (\<lambda>m. map snd (members m)) tables))" if "table \<in> set tables" for tables
    using that assms(3) by (induction tables) auto
  from this [OF mem] show ?thesis unfolding applied_def by (simp only: set_append Un_iff simp_thms)
qed

text \<open>A schema that can be descended into on a fuel.\<close>

definition sound_schema :: "nat \<Rightarrow> json \<Rightarrow> json \<Rightarrow> bool" where
  "sound_schema n doc v \<longleftrightarrow> ranked n doc v \<and> value_ok v"

lemma value_ok_element: "value_ok v \<Longrightarrow> s \<in> set (elements v) \<Longrightarrow> value_ok s"
  by (cases v) auto

lemma value_ok_member: "value_ok v \<Longrightarrow> m \<in> set (members v) \<Longrightarrow> value_ok (snd m)"
  by (cases v) auto

lemma value_ok_target: "value_ok doc \<Longrightarrow> reference_target doc r = Some t \<Longrightarrow> value_ok t"
  by (auto simp: reference_target_def target_in_def split: if_splits option.splits dest: value_ok_get)

lemma sound_single: "sound_schema (Suc n) doc v \<Longrightarrow> get v kw = Some s \<Longrightarrow> kw \<in> set APPLICATORS \<Longrightarrow> sound_schema n doc s"
  using applied_single [of v kw s] by (auto simp: sound_schema_def list_all_iff dest: value_ok_get)

lemma sound_list:
  "sound_schema (Suc n) doc v \<Longrightarrow> get v kw = Some list \<Longrightarrow> kw \<in> set LIST_APPLICATORS \<Longrightarrow> s \<in> set (elements list) \<Longrightarrow>
    sound_schema n doc s"
  using applied_list [of v kw list s] by (auto simp: sound_schema_def list_all_iff dest: value_ok_get value_ok_element)

lemma sound_map:
  "sound_schema (Suc n) doc v \<Longrightarrow> get v kw = Some table \<Longrightarrow> kw \<in> set MAP_APPLICATORS \<Longrightarrow> m \<in> set (members table) \<Longrightarrow>
    sound_schema n doc (snd m)"
  using applied_map [of v kw table m] by (auto simp: sound_schema_def list_all_iff dest: value_ok_get value_ok_member)

lemma sound_reference:
  "sound_schema (Suc n) doc v \<Longrightarrow> value_ok doc \<Longrightarrow> get v ''$ref'' = Some (String r) \<Longrightarrow> reference_target doc r = Some t \<Longrightarrow>
    sound_schema n doc t"
  by (auto simp: sound_schema_def dest: value_ok_target)

lemma sound_Suc: "sound_schema n doc v \<Longrightarrow> sound_schema (Suc n) doc v"
  using ranked_Suc by (simp add: sound_schema_def)

lemma get_member: "value_ok (Object ms) \<Longrightarrow> (kw, v) \<in> set ms \<Longrightarrow> get (Object ms) kw = Some v"
  by simp


section \<open>Outcomes of a run\<close>

text \<open>The errors an evaluation can end with: no fuel, and none of the payload's own shape.\<close>

fun evaluation_error :: "payload_error \<Rightarrow> bool" where
  "evaluation_error (Pattern _) = True"
| "evaluation_error Arithmetic = True"
| "evaluation_error Unsupported = True"
| "evaluation_error _ = False"

locale pure_search = search +
  fixes answer :: "string \<Rightarrow> string \<Rightarrow> bool"
  assumes matches_answer: "budget_ok b \<Longrightarrow> matches pattern subject b = (Inr found, b') \<Longrightarrow> found = answer pattern subject"
begin

definition outcome :: "('a, 'c) run \<Rightarrow> ('c \<Rightarrow> bool \<Rightarrow> bool \<Rightarrow> bool) \<Rightarrow> bool" where
  "outcome m Q \<longleftrightarrow>
     (\<forall>s r t. budget_ok (search_budget s) \<longrightarrow> m s = (r, t) \<longrightarrow>
        budget_ok (search_budget t) \<and> work (search_budget t) \<le> work (search_budget s) \<and> (\<forall>err. r = Inl err \<longrightarrow> evaluation_error err) \<and>
        (\<forall>x. r = Inr x \<longrightarrow> Q x (hit s) (hit t)))"

definition yields :: "('a, 'c) run \<Rightarrow> 'c \<Rightarrow> bool" where
  "yields m v \<longleftrightarrow> outcome m (\<lambda>x h h'. x = v \<and> h' = h)"

definition decides :: "consumer \<Rightarrow> 'a step \<Rightarrow> bool \<Rightarrow> bool" where
  "decides consumer m P \<longleftrightarrow>
     outcome m (\<lambda>flow h h'. (flow = Break \<longleftrightarrow> consumer = Stop_first \<and> \<not> P) \<and> (h' \<longleftrightarrow> h \<or> \<not> P))"

lemma outcome_ret: "(\<And>h. Q x h h) \<Longrightarrow> outcome (ret x) Q"
  by (simp add: outcome_def ret_def)

lemma outcome_raise: "evaluation_error err \<Longrightarrow> outcome (raise err) Q"
  by (simp add: outcome_def raise_def)

lemma outcome_mono: "outcome m Q \<Longrightarrow> (\<And>x h h'. Q x h h' \<Longrightarrow> R x h h') \<Longrightarrow> outcome m R"
  unfolding outcome_def by blast

lemma outcome_bind:
  assumes "outcome m Q" "\<And>x h h'. Q x h h' \<Longrightarrow> outcome (k x) (\<lambda>y h1 h2. h1 = h' \<longrightarrow> R y h h2)"
  shows "outcome (bind m k) R"
  unfolding outcome_def
proof (intro allI impI)
  fix s r t assume s: "budget_ok (search_budget s)" and run: "bind m k s = (r, t)"
  obtain r1 s1 where m: "m s = (r1, s1)" by fastforce
  note m1 = assms(1) [unfolded outcome_def, rule_format, OF s m]
  show "budget_ok (search_budget t) \<and> work (search_budget t) \<le> work (search_budget s) \<and> (\<forall>err. r = Inl err \<longrightarrow> evaluation_error err) \<and>
    (\<forall>x. r = Inr x \<longrightarrow> R x (hit s) (hit t))"
  proof (cases r1)
    case (Inl err)
    then show ?thesis using m m1 run by (auto simp: bind_def)
  next
    case (Inr x)
    then have k: "k x s1 = (r, t)" using m run by (simp add: bind_def)
    have "Q x (hit s) (hit s1)" using m1 Inr by simp
    from assms(2) [OF this, unfolded outcome_def, rule_format, OF _ k] m1
    show ?thesis by auto
  qed
qed

lemma yields_ret: "yields (ret v) v"
  unfolding yields_def by (rule outcome_ret) simp

lemma yields_raise: "evaluation_error err \<Longrightarrow> yields (raise err) v"
  unfolding yields_def by (rule outcome_raise)

lemma yields_bind: "yields m v \<Longrightarrow> yields (k v) w \<Longrightarrow> yields (bind m k) w"
  unfolding yields_def by (rule outcome_bind, assumption) (auto elim: outcome_mono)

lemma decides_bind: "yields m v \<Longrightarrow> decides consumer (k v) P \<Longrightarrow> decides consumer (bind m k) P"
  unfolding yields_def decides_def by (rule outcome_bind, assumption) (auto elim: outcome_mono)

lemma decides_ret: "P \<Longrightarrow> decides consumer go_on P"
  unfolding decides_def by (rule outcome_ret) simp

lemma decides_raise: "evaluation_error err \<Longrightarrow> decides consumer (raise err) P"
  unfolding decides_def by (rule outcome_raise)

lemma decides_sink: "\<not> P \<Longrightarrow> decides consumer (sink consumer) P"
  by (auto simp: decides_def outcome_def sink_def split: consumer.splits)

lemma decides_fail_if: "decides consumer (fail_if consumer failed) (\<not> failed)"
  by (simp add: fail_if_def decides_ret decides_sink)

lemma decides_cong: "decides consumer m P \<Longrightarrow> P = P' \<Longrightarrow> decides consumer m P'"
  by simp

lemma decides_each:
  assumes "\<And>x. x \<in> set xs \<Longrightarrow> decides consumer (body x) (P x)"
  shows "decides consumer (each body xs) (list_all P xs)"
  using assms
proof (induction xs)
  case Nil
  then show ?case by (simp add: decides_ret)
next
  case (Cons x xs)
  have x: "decides consumer (body x) (P x)" and xs: "decides consumer (each body xs) (list_all P xs)"
    using Cons by auto
  show ?case unfolding each.simps decides_def
  proof (rule outcome_bind [OF x [unfolded decides_def]])
    fix flow h h' assume flow: "(flow = Break) = (consumer = Stop_first \<and> \<not> P x) \<and> h' = (h \<or> \<not> P x)"
    show "outcome (case flow of Go_on \<Rightarrow> each body xs | Break \<Rightarrow> ret Break)
        (\<lambda>y h1 h2. h1 = h' \<longrightarrow> (y = Break) = (consumer = Stop_first \<and> \<not> list_all P (x # xs)) \<and>
          h2 = (h \<or> \<not> list_all P (x # xs)))"
    proof (cases flow)
      case Break
      then show ?thesis using flow by (auto intro!: outcome_ret)
    next
      case Go_on
      then show ?thesis using flow xs by (auto simp: decides_def elim!: outcome_mono)
    qed
  qed
qed

lemma yields_matches: "yields (matches_in matches pattern subject) (answer pattern subject)"
  unfolding yields_def outcome_def
proof (intro allI impI)
  fix s :: "'a eval" and r t
  assume s: "budget_ok (search_budget s)" and run: "matches_in matches pattern subject s = (r, t)"
  obtain r1 b where m: "matches pattern subject (search_budget s) = (r1, b)" by fastforce
  have b: "budget_ok b" "work b \<le> work (search_budget s)"
    using matches_ok [OF s, of pattern subject] matches_spend [OF s, of pattern subject] m by simp_all
  show "budget_ok (search_budget t) \<and> work (search_budget t) \<le> work (search_budget s) \<and> (\<forall>err. r = Inl err \<longrightarrow> evaluation_error err) \<and>
    (\<forall>x. r = Inr x \<longrightarrow> x = answer pattern subject \<and> hit t = hit s)"
  proof (cases r1)
    case (Inl err)
    then show ?thesis using m b run by (auto simp: matches_in_def)
  next
    case (Inr found)
    then show ?thesis using m b run matches_answer [OF s, of pattern subject found b] by (auto simp: matches_in_def)
  qed
qed

section \<open>Probes\<close>

lemma yields_probe:
  assumes "decides consumer d P"
    and "\<And>s. m s = (case d (s\<lparr>hit := False\<rparr>) of
        (Inl err, t) \<Rightarrow> (Inl err, t\<lparr>hit := hit s\<rparr>)
      | (Inr _, t) \<Rightarrow> (Inr (f (hit t)), t\<lparr>hit := hit s\<rparr>))"
  shows "yields m (f (\<not> P))"
  unfolding yields_def outcome_def
proof (intro allI impI)
  fix s :: "'a eval" and r t
  assume s: "budget_ok (search_budget s)" and run: "m s = (r, t)"
  obtain r1 t1 where d: "d (s\<lparr>hit := False\<rparr>) = (r1, t1)" by fastforce
  have "budget_ok (search_budget (s\<lparr>hit := False\<rparr>))" using s by simp
  note d1 = assms(1) [unfolded decides_def outcome_def, rule_format, OF this d]
  show "budget_ok (search_budget t) \<and> work (search_budget t) \<le> work (search_budget s) \<and> (\<forall>err. r = Inl err \<longrightarrow> evaluation_error err) \<and>
    (\<forall>x. r = Inr x \<longrightarrow> x = f (\<not> P) \<and> hit t = hit s)"
    using run d d1 by (cases r1) (auto simp: assms(2))
qed

text \<open>\<open>desc\<close> decides \<open>V\<close> on the schemas of \<open>G\<close>, for both consumers.\<close>

definition evaluates :: "'a evaluator \<Rightarrow> validity \<Rightarrow> (json \<Rightarrow> bool) \<Rightarrow> bool" where
  "evaluates desc V G \<longleftrightarrow> (\<forall>consumer instance schema. G schema \<longrightarrow> decides consumer (desc consumer instance schema) (V instance schema))"

lemma evaluates_decides: "evaluates desc V G \<Longrightarrow> G schema \<Longrightarrow> decides consumer (desc consumer instance schema) (V instance schema)"
  by (simp add: evaluates_def)

lemma evaluates_is_valid:
  assumes "evaluates desc V G" "G schema"
  shows "yields (is_valid desc instance schema) (V instance schema)"
  using yields_probe [OF evaluates_decides [OF assms, of Stop_first "instance"], where m = "is_valid desc instance schema" and f = Not]
  by (simp add: is_valid_def)

lemma evaluates_has_errors:
  assumes "evaluates desc V G" "G schema"
  shows "yields (has_errors desc instance schema) (\<not> V instance schema)"
  using yields_probe [OF evaluates_decides [OF assms, of Collect "instance"], where m = "has_errors desc instance schema" and f = "\<lambda>h. h"]
  by (simp add: has_errors_def)

end

section \<open>The keywords\<close>

context pure_search
begin

lemma decides_missing: "decides consumer (missing consumer names instance) (list_all (\<lambda>name. present name instance) names)"
  unfolding missing_def by (rule decides_each) (simp add: decides_ret decides_sink)

lemma decides_required:
  "decides consumer (required consumer names instance)
    (is_object instance \<longrightarrow> list_all (\<lambda>name. present name instance) (elements names))"
  by (simp add: required_def decides_ret decides_missing)

lemma decides_dependent_required:
  "decides consumer (dependent_required consumer table instance)
    (is_object instance \<longrightarrow>
      list_all (\<lambda>m. get instance (fst m) \<noteq> None \<longrightarrow> list_all (\<lambda>name. present name instance) (elements (snd m)))
        (members table))"
  by (auto simp: dependent_required_def case_prod_unfold decides_ret decides_missing intro!: decides_each)

lemma decides_if_both:
  "(b \<Longrightarrow> decides consumer m P) \<Longrightarrow> (\<not> b \<Longrightarrow> decides consumer m' P') \<Longrightarrow>
    decides consumer (if b then m else m') (if b then P else P')"
  by simp

lemma decides_assert: "decides consumer (assert_keyword consumer keyword v instance) (assert_holds keyword v instance)"
proof -
  have multiple: "decides consumer (case not_multiple_of instance v of Inl err \<Rightarrow> raise err | Inr failed \<Rightarrow> fail_if consumer failed)
      (not_multiple_of instance v = Inr False)"
  proof (cases "not_multiple_of instance v")
    case (Inl err)
    then have "err = Arithmetic"
      by (auto simp: not_multiple_of_def split: prod.splits json.splits sum.splits)
    then show ?thesis using Inl by (simp add: decides_raise)
  next
    case (Inr failed)
    then show ?thesis using decides_fail_if [of consumer failed] by (cases failed) simp_all
  qed
  have texts: "decides consumer (fail_if consumer (case instance of String t \<Rightarrow> bounded keyword (length (chars t)) v | _ \<Rightarrow> False))
      (case instance of String t \<Rightarrow> \<not> bounded keyword (length (chars t)) v | _ \<Rightarrow> True)"
    by (rule decides_cong [OF decides_fail_if]) (simp split: json.split)
  have items: "decides consumer (fail_if consumer (case instance of Array xs \<Rightarrow> bounded keyword (length xs) v | _ \<Rightarrow> False))
      (case instance of Array xs \<Rightarrow> \<not> bounded keyword (length xs) v | _ \<Rightarrow> True)"
    by (rule decides_cong [OF decides_fail_if]) (simp split: json.split)
  have entries: "decides consumer (fail_if consumer (case instance of Object ms \<Rightarrow> bounded keyword (length ms) v | _ \<Rightarrow> False))
      (case instance of Object ms \<Rightarrow> \<not> bounded keyword (length ms) v | _ \<Rightarrow> True)"
    by (rule decides_cong [OF decides_fail_if]) (simp split: json.split)
  have failed: "decides consumer (fail_if consumer F) P" if "P \<longleftrightarrow> \<not> F" for F P
    using decides_fail_if [of consumer F] that by simp
  show ?thesis
    unfolding assert_keyword_def assert_holds_def
    by (intro decides_if_both texts items entries multiple decides_required decides_dependent_required decides_ret failed)
      simp_all
qed

lemma decides_reference:
  assumes "\<And>r t. v = String r \<Longrightarrow> reference_target doc r = Some t \<Longrightarrow> decides consumer (desc consumer instance t) (V instance t)"
  shows "decides consumer (reference_kw desc doc consumer v instance)
    (case v of String r \<Rightarrow> (case reference_target doc r of Some t \<Rightarrow> V instance t | None \<Rightarrow> False) | _ \<Rightarrow> False)"
  using assms by (auto simp: reference_kw_def decides_raise split: json.split option.split)

lemma decides_all_of:
  assumes "evaluates desc V G" "\<forall>s\<in>set (elements v). G s"
  shows "decides consumer (all_of desc consumer v instance) (list_all (V instance) (elements v))"
  unfolding all_of_def using assms(2) by (intro decides_each evaluates_decides [OF assms(1)]) blast

lemma decides_any_of:
  assumes "evaluates desc V G" "\<forall>s\<in>set (elements v). G s"
  shows "decides consumer (any_of desc consumer v instance) (list_ex (V instance) (elements v))"
proof -
  have "\<forall>s\<in>set schemas. G s \<Longrightarrow> decides consumer (any_of_loop desc consumer schemas instance) (list_ex (V instance) schemas)"
    for schemas
  proof (induction schemas)
    case Nil
    then show ?case by (simp add: decides_sink)
  next
    case (Cons s schemas)
    then have "yields (has_errors desc instance s) (\<not> V instance s)" using evaluates_has_errors [OF assms(1)] by simp
    from decides_bind [OF this] Cons show ?case by (auto simp: decides_ret)
  qed
  then show ?thesis using assms(2) by (simp add: any_of_def)
qed

lemma yields_first_passing:
  assumes "evaluates desc V G" "\<forall>s\<in>set schemas. G s"
  shows "yields (first_passing desc index schemas instance)
    (if list_ex (V instance) schemas then Some (index + length (takeWhile (\<lambda>s. \<not> V instance s) schemas)) else None)"
  using assms(2)
proof (induction schemas arbitrary: index)
  case Nil
  then show ?case by (simp add: yields_ret)
next
  case (Cons s schemas)
  then have "yields (has_errors desc instance s) (\<not> V instance s)" using evaluates_has_errors [OF assms(1)] by simp
  note step = yields_bind [OF this, of "\<lambda>errors. if \<not> errors then ret (Some index) else first_passing desc (index + 1) schemas instance"]
  show ?case
  proof (cases "V instance s")
    case True
    then show ?thesis using step by (simp add: yields_ret)
  next
    case False
    have "yields (first_passing desc (index + 1) schemas instance)
        (if list_ex (V instance) (s # schemas)
         then Some (index + length (takeWhile (\<lambda>s. \<not> V instance s) (s # schemas))) else None)"
      using Cons.IH [of "index + 1"] Cons.prems False by (cases "list_ex (V instance) schemas") simp_all
    then show ?thesis using step False by simp
  qed
qed

lemma yields_any_valid:
  assumes "evaluates desc V G" "\<forall>s\<in>set schemas. G s"
  shows "yields (any_valid desc found schemas instance) (found \<or> list_ex (V instance) schemas)"
  using assms(2)
proof (induction schemas arbitrary: found)
  case Nil
  then show ?case by (simp add: yields_ret)
next
  case (Cons s schemas)
  then have s: "yields (is_valid desc instance s) (V instance s)" using evaluates_is_valid [OF assms(1)] by simp
  have rest: "yields (any_valid desc (found \<or> V instance s) schemas instance)
      (found \<or> list_ex (V instance) (s # schemas))"
    using Cons.IH [of "found \<or> V instance s"] Cons.prems by (simp add: disj_assoc)
  show ?case unfolding any_valid.simps
    by (rule yields_bind [where k = "\<lambda>valid. any_valid desc (found \<or> valid) schemas instance", OF s rest])
qed

lemma filter_one: "length (filter p xs) = 1 \<longleftrightarrow> list_ex p xs \<and> \<not> list_ex p (drop (Suc (length (takeWhile (\<lambda>x. \<not> p x) xs))) xs)"
  by (induction xs) (auto simp: filter_empty_conv list_ex_iff)

lemma decides_one_of:
  assumes "evaluates desc V G" "\<forall>s\<in>set (elements v). G s"
  shows "decides consumer (one_of desc consumer v instance) (length (filter (V instance) (elements v)) = 1)"
proof -
  let ?xs = "elements v" and ?n = "length (takeWhile (\<lambda>s. \<not> V instance s) (elements v))"
  note first = decides_bind [OF yields_first_passing [OF assms, of 0]]
  show ?thesis
  proof (cases "list_ex (V instance) ?xs")
    case True
    have "yields (any_valid desc False (drop (?n + 1) ?xs) instance) (list_ex (V instance) (drop (?n + 1) ?xs))"
      using yields_any_valid [OF assms(1), of "drop (?n + 1) ?xs" False] assms(2) by (auto dest: in_set_dropD)
    then have rest: "decides consumer (bind (any_valid desc False (drop (?n + 1) ?xs) instance)
        (\<lambda>again. if again then sink consumer else go_on)) (length (filter (V instance) ?xs) = 1)"
      by (rule decides_bind) (use True filter_one [of "V instance" ?xs] in \<open>auto simp: decides_ret decides_sink\<close>)
    show ?thesis unfolding one_of_def by (rule first) (use True rest in simp)
  next
    case False
    then show ?thesis unfolding one_of_def
      by (intro first) (use filter_one [of "V instance" ?xs] in \<open>simp add: decides_sink\<close>)
  qed
qed

lemma decides_not:
  assumes "evaluates desc V G" "G v"
  shows "decides consumer (not_kw desc consumer v instance) (\<not> V instance v)"
  unfolding not_kw_def by (rule decides_bind [OF evaluates_is_valid [OF assms]]) (simp add: decides_ret decides_sink)

lemma decides_if:
  assumes "evaluates desc V G" "G v" "\<And>kw s. kw \<in> {''then'', ''else''} \<Longrightarrow> get schema kw = Some s \<Longrightarrow> G s"
  shows "decides consumer (if_then_else desc consumer v instance schema)
    (case get schema (if V instance v then ''then'' else ''else'') of Some branch \<Rightarrow> V instance branch | None \<Rightarrow> True)"
  unfolding if_then_else_def
proof (rule decides_bind [OF evaluates_is_valid [OF assms(1,2)]])
  let ?kw = "if V instance v then ''then'' else ''else''"
  show "decides consumer (case get schema ?kw of Some branch \<Rightarrow> desc consumer instance branch | None \<Rightarrow> go_on)
    (case get schema ?kw of Some branch \<Rightarrow> V instance branch | None \<Rightarrow> True)"
    using assms(3) [of ?kw] evaluates_decides [OF assms(1)]
    by (cases "get schema ?kw") (auto simp: decides_ret)
qed

lemma decides_properties:
  assumes "evaluates desc V G" "\<forall>m\<in>set (members v). G (snd m)"
  shows "decides consumer (properties_kw desc consumer v instance)
    (is_object instance \<longrightarrow>
      list_all (\<lambda>m. case get instance (fst m) of Some child \<Rightarrow> V child (snd m) | None \<Rightarrow> True) (members v))"
  using assms(2) unfolding properties_kw_def case_prod_unfold
  by (auto simp: decides_ret intro!: decides_each evaluates_decides [OF assms(1)] split: option.split)

lemma decides_pattern:
  "decides consumer (pattern_kw matches consumer v instance)
    (case (v, instance) of (String p, String subject) \<Rightarrow> answer p subject | _ \<Rightarrow> True)"
  unfolding pattern_kw_def
  by (auto simp: decides_ret decides_sink intro!: decides_bind [OF yields_matches] split: json.split)

lemma decides_pattern_properties:
  assumes "evaluates desc V G" "\<forall>m\<in>set (members v). G (snd m)"
  shows "decides consumer (pattern_properties matches desc consumer v instance)
    (is_object instance \<longrightarrow>
      list_all (\<lambda>p. list_all (\<lambda>m. answer (fst p) (fst m) \<longrightarrow> V (snd m) (snd p)) (members instance)) (members v))"
  using assms(2) unfolding pattern_properties_def case_prod_unfold
  by (auto simp: decides_ret
      intro!: decides_each decides_bind [OF yields_matches] evaluates_decides [OF assms(1)])

lemma yields_any_matches:
  "yields (any_matches matches patterns name) (list_ex (\<lambda>p. answer (fst p) name) patterns)"
proof (induction patterns)
  case Nil
  then show ?case by (simp add: yields_ret)
next
  case (Cons p patterns)
  show ?case using Cons yields_ret
    by (cases p) (auto intro!: yields_bind [OF yields_matches])
qed

lemma yields_extras_loop:
  "yields (extras_loop matches declared patterns ms)
    (map snd (filter (\<lambda>m. Option.bind declared (\<lambda>d. get d (fst m)) = None \<and> \<not> list_ex (\<lambda>p. answer (fst p) (fst m)) patterns) ms))"
proof (induction ms)
  case Nil
  then show ?case by (simp add: yields_ret)
next
  case (Cons m ms)
  obtain name v where m: "m = (name, v)" by fastforce
  show ?case
  proof (cases "Option.bind declared (\<lambda>d. get d name)")
    case None
    then show ?thesis using m yields_ret
      by (auto intro!: yields_bind [OF yields_any_matches] yields_bind [OF Cons.IH])
  next
    case (Some d)
    then show ?thesis using m Cons.IH by simp
  qed
qed

lemma yields_extras: "yields (extras matches instance schema) (undeclared answer instance schema)"
  using yields_extras_loop [of "get schema ''properties''"] by (simp add: extras_def undeclared_def)

lemma decides_additional:
  assumes "evaluates desc V G" "G v"
  shows "decides consumer (additional_properties matches desc consumer v instance schema)
    (is_object instance \<longrightarrow>
      (case v of Object _ \<Rightarrow> list_all (\<lambda>extra. V extra v) (undeclared answer instance schema)
               | Bool b \<Rightarrow> b \<or> undeclared answer instance schema = []
               | _ \<Rightarrow> True))"
proof (cases "is_object instance")
  case True
  let ?xs = "undeclared answer instance schema"
  have each: "decides consumer (each (\<lambda>extra. desc consumer extra v) ?xs) (list_all (\<lambda>extra. V extra v) ?xs)"
    using evaluates_decides [OF assms] by (intro decides_each)
  have "decides consumer (case v of Object _ \<Rightarrow> each (\<lambda>extra. desc consumer extra v) ?xs
      | Bool False \<Rightarrow> if ?xs \<noteq> [] then sink consumer else go_on | _ \<Rightarrow> go_on)
    (case v of Object _ \<Rightarrow> list_all (\<lambda>extra. V extra v) ?xs | Bool b \<Rightarrow> b \<or> ?xs = [] | _ \<Rightarrow> True)"
    using each by (auto simp: decides_ret decides_sink split: json.split bool.split)
  then show ?thesis using True unfolding additional_properties_def
    by (auto intro!: decides_bind [OF yields_extras])
next
  case False
  then show ?thesis by (simp add: additional_properties_def decides_ret)
qed

lemma decides_property_names:
  assumes "evaluates desc V G" "G v"
  shows "decides consumer (property_names desc consumer v instance) (list_all (\<lambda>m. V (String (fst m)) v) (members instance))"
  unfolding property_names_def case_prod_unfold using evaluates_decides [OF assms] by (intro decides_each)

lemma decides_dependent_schemas:
  assumes "evaluates desc V G" "\<forall>m\<in>set (members v). G (snd m)"
  shows "decides consumer (dependent_schemas desc consumer v instance)
    (is_object instance \<longrightarrow> list_all (\<lambda>m. get instance (fst m) \<noteq> None \<longrightarrow> V instance (snd m)) (members v))"
  using assms(2) unfolding dependent_schemas_def case_prod_unfold
  by (auto simp: decides_ret intro!: decides_each evaluates_decides [OF assms(1)])

lemma decides_prefix_items:
  assumes "evaluates desc V G" "\<forall>s\<in>set (elements v). G s"
  shows "decides consumer (prefix_items desc consumer v instance)
    (case instance of Array items \<Rightarrow> list_all (\<lambda>p. V (fst p) (snd p)) (zip items (elements v)) | _ \<Rightarrow> True)"
  using assms(2) unfolding prefix_items_def case_prod_unfold
  by (auto simp: decides_ret intro!: decides_each evaluates_decides [OF assms(1)] split: json.split dest: set_zip_rightD)

lemma decides_items:
  assumes "evaluates desc V G" "G v"
  shows "decides consumer (items_kw desc consumer v instance schema)
    (case instance of
       Array items \<Rightarrow>
         list_all (\<lambda>item. v \<noteq> Bool False \<and> V item v)
           (drop (case get schema ''prefixItems'' of None \<Rightarrow> 0 | Some list \<Rightarrow> length (elements list)) items)
     | _ \<Rightarrow> True)"
proof (cases "\<exists>items. instance = Array items")
  case True
  then obtain items where i: "instance = Array items" by blast
  let ?rest = "drop (case get schema ''prefixItems'' of None \<Rightarrow> 0 | Some list \<Rightarrow> length (elements list)) items"
  have each: "decides consumer (each (\<lambda>item. desc consumer item v) ?rest) (list_all (\<lambda>item. V item v) ?rest)"
    using evaluates_decides [OF assms] by (intro decides_each)
  show ?thesis
  proof (cases "v = Bool False")
    case True
    then show ?thesis using i by (cases ?rest) (auto simp: items_kw_def Let_def decides_ret decides_sink)
  next
    case False
    then show ?thesis using i each by (auto simp: items_kw_def Let_def decides_ret)
  qed
next
  case False
  then show ?thesis by (cases "instance") (auto simp: items_kw_def decides_ret)
qed

end

section \<open>Counting and collecting keywords\<close>

lemma exceeds_mono:
  assumes "\<And>b. bound = Some b \<Longrightarrow> value_ok b" "m \<le> n" "exceeds m bound whole"
  shows "exceeds n bound whole"
proof (cases "\<exists>b. bound = Some (Number b)")
  case True
  then obtain b where b: "bound = Some (Number b)" by blast
  then have "number_ok b" using assms(1) by fastforce
  then show ?thesis using assms(2,3) b
    by (auto simp: exceeds_def is_gt_def compare_count_val cmp_def split: if_splits)
next
  case False
  then show ?thesis using assms(2,3) by (auto simp: exceeds_def split: option.splits json.splits)
qed

lemma sound_mono: "sound_schema n doc v \<Longrightarrow> n \<le> m \<Longrightarrow> sound_schema m doc v"
  by (induction m) (auto simp: le_Suc_eq dest: sound_Suc)

lemma sound_subschemas:
  assumes "sound_schema (Suc n) doc schema" "s \<in> set (subschemas_under schema kws)" "set kws \<subseteq> set LIST_APPLICATORS"
  shows "sound_schema n doc s"
proof -
  obtain kw where kw: "kw \<in> set kws" "s \<in> set (case get schema kw of None \<Rightarrow> [] | Some list \<Rightarrow> elements list)"
    using assms(2) unfolding subschemas_under_def set_concat set_map by blast
  then obtain list where "get schema kw = Some list" "s \<in> set (elements list)" by (cases "get schema kw") auto
  then show ?thesis using kw(1) assms(3) sound_list [OF assms(1)] by blast
qed

context pure_search
begin

lemma decides_contains_loop:
  assumes "evaluates desc V G" "G v" "value_ok schema"
  shows "decides consumer (contains_loop desc consumer v schema whole matched items)
    (let n = matched + length (filter (\<lambda>item. V item v) items)
     in \<not> below n (get schema ''minContains'') \<and> \<not> (matched < n \<and> exceeds n (get schema ''maxContains'') whole))"
proof (induction items arbitrary: matched)
  case Nil
  then show ?case by (simp add: decides_ret decides_sink)
next
  case (Cons item items)
  note valid = evaluates_is_valid [OF assms(1,2), of item]
  let ?n = "matched + length (filter (\<lambda>item. V item v) (item # items))"
  let ?max = "get schema ''maxContains''"
  have max_ok: "value_ok b" if "?max = Some b" for b using value_ok_get [OF assms(3) that] .
  show ?case unfolding contains_loop.simps
  proof (rule decides_bind [OF valid])
    show "decides consumer
      (if V item v
       then (if exceeds (matched + 1) ?max whole then sink consumer
             else contains_loop desc consumer v schema whole (matched + 1) items)
       else contains_loop desc consumer v schema whole matched items)
      (let n = ?n in \<not> below n (get schema ''minContains'') \<and> \<not> (matched < n \<and> exceeds n ?max whole))"
    proof (cases "V item v")
      case False
      then show ?thesis using Cons.IH [of matched] by simp
    next
      case True
      then have n: "matched + 1 \<le> ?n" by simp
      show ?thesis
      proof (cases "exceeds (matched + 1) ?max whole")
        case over: True
        then have "exceeds ?n ?max whole" using exceeds_mono [OF max_ok n] by blast
        then show ?thesis using True over n by (simp add: Let_def decides_sink)
      next
        case False
        have same: "(matched + 1 < ?n \<and> exceeds ?n ?max whole) = (matched < ?n \<and> exceeds ?n ?max whole)"
          using False n by (cases "?n = matched + 1") auto
        have n_eq: "matched + 1 + length (filter (\<lambda>item. V item v) items) = ?n" using True by simp
        have IH: "decides consumer (contains_loop desc consumer v schema whole (matched + 1) items)
            (\<not> below ?n (get schema ''minContains'') \<and> \<not> (matched + 1 < ?n \<and> exceeds ?n ?max whole))"
          using Cons.IH [of "matched + 1"] unfolding Let_def n_eq .
        show ?thesis unfolding Let_def if_P [OF True] if_not_P [OF False]
          by (rule decides_cong [OF IH]) (simp only: same)
      qed
    qed
  qed
qed

lemma decides_contains:
  assumes "evaluates desc V G" "G v" "value_ok schema"
  shows "decides consumer (contains_kw desc consumer v instance schema)
    (case instance of Array items \<Rightarrow> contains_holds V v schema items | _ \<Rightarrow> True)"
  using decides_contains_loop [OF assms, of consumer _ 0]
  by (auto simp: contains_kw_def contains_holds_def decides_ret split: json.split)

lemma yields_cong: "yields m v \<Longrightarrow> v = w \<Longrightarrow> yields m w"
  by simp

lemma yields_probe_items:
  assumes "evaluates desc V G" "G s"
  shows "yields (probe_items desc s (enumerate k items) E) (E \<union> {i. k \<le> i \<and> i < k + length items \<and> V (items ! (i - k)) s})"
proof (induction items arbitrary: k E)
  case Nil
  then show ?case by (auto intro: yields_cong [OF yields_ret])
next
  case (Cons item items)
  let ?E = "if V item s then insert k E else E"
  have "{i. k \<le> i \<and> i < k + length (item # items) \<and> V ((item # items) ! (i - k)) s}
      = (if V item s then {k} else {}) \<union> {i. Suc k \<le> i \<and> i < Suc k + length items \<and> V (items ! (i - Suc k)) s}"
    by (auto simp: nth_Cons' Suc_le_eq le_less Suc_diff_Suc)
  then have "?E \<union> {i. Suc k \<le> i \<and> i < Suc k + length items \<and> V (items ! (i - Suc k)) s}
      = E \<union> {i. k \<le> i \<and> i < k + length (item # items) \<and> V ((item # items) ! (i - k)) s}"
    by simp
  then show ?case
    using yields_bind [OF evaluates_is_valid [OF assms, of item], of
        "\<lambda>valid. probe_items desc s (enumerate (Suc k) items) (if valid then insert k E else E)", OF Cons.IH]
    by simp
qed

lemma yields_by_items:
  assumes "evaluates desc V G" "\<And>kw s. kw \<in> set kws \<Longrightarrow> get schema kw = Some s \<Longrightarrow> G s"
  shows "yields (evaluated_by_items desc items schema kws E)
    (E \<union> (\<Union>kw\<in>set kws. case get schema kw of Some s \<Rightarrow> {i. i < length items \<and> V (items ! i) s} | None \<Rightarrow> {}))"
  using assms(2)
proof (induction kws arbitrary: E)
  case Nil
  then show ?case by (simp add: yields_ret)
next
  case (Cons kw kws)
  have IH: "yields (evaluated_by_items desc items schema kws F)
      (F \<union> (\<Union>kw\<in>set kws. case get schema kw of Some s \<Rightarrow> {i. i < length items \<and> V (items ! i) s} | None \<Rightarrow> {}))" for F
    by (rule Cons.IH) (use Cons.prems in auto)
  show ?case
  proof (cases "get schema kw")
    case None
    then show ?thesis using IH by simp
  next
    case (Some s)
    then have s: "G s" using Cons.prems [of kw s] by simp
    have "yields (probe_items desc s (enumerate 0 items) E) (E \<union> {i. i < length items \<and> V (items ! i) s})"
      using yields_probe_items [OF assms(1) s, of 0 items E] by simp
    from yields_bind [OF this, of "evaluated_by_items desc items schema kws", OF IH] Some
    show ?thesis by (simp add: Un_assoc)
  qed
qed

lemma yields_by_valid:
  assumes "evaluates desc V G"
    and "\<And>s E. s \<in> set schemas \<Longrightarrow> G s \<and> yields (collect instance s E) (E \<union> U s)"
  shows "yields (evaluated_by_valid desc collect instance schemas E) (E \<union> (\<Union>s\<in>{s \<in> set schemas. V instance s}. U s))"
  using assms(2)
proof (induction schemas arbitrary: E)
  case Nil
  then show ?case by (simp add: yields_ret)
next
  case (Cons s schemas)
  have s: "G s" "\<And>E. yields (collect instance s E) (E \<union> U s)" using Cons.prems by auto
  have rest: "yields (evaluated_by_valid desc collect instance schemas F) (F \<union> (\<Union>s\<in>{s \<in> set schemas. V instance s}. U s))" for F
    using Cons by auto
  have one: "yields (if V instance s then collect instance s E else ret E) (if V instance s then E \<union> U s else E)"
    using s(2) by (simp add: yields_ret)
  have both: "yields (bind (if V instance s then collect instance s E else ret E) (evaluated_by_valid desc collect instance schemas))
      ((if V instance s then E \<union> U s else E) \<union> (\<Union>s\<in>{s \<in> set schemas. V instance s}. U s))"
    by (rule yields_bind [OF one rest])
  have "{x \<in> set (s # schemas). V instance x} = (if V instance s then {s} else {}) \<union> {x \<in> set schemas. V instance x}" by auto
  then have "(if V instance s then E \<union> U s else E) \<union> (\<Union>s\<in>{s \<in> set schemas. V instance s}. U s)
      = E \<union> (\<Union>s\<in>{x \<in> set (s # schemas). V instance x}. U s)" by auto
  then show ?case unfolding evaluated_by_valid.simps
    using yields_bind [OF evaluates_is_valid [OF assms(1) s(1)], of "\<lambda>valid. bind (if valid then collect instance s E else ret E)
          (evaluated_by_valid desc collect instance schemas)", OF both] by simp
qed

lemma yields_by_condition:
  assumes "evaluates desc V G" "\<And>s. get schema ''if'' = Some s \<Longrightarrow> G s"
    and "\<And>kw s E. kw \<in> {''if'', ''then'', ''else''} \<Longrightarrow> get schema kw = Some s \<Longrightarrow> yields (collect instance s E) (E \<union> U s)"
  shows "yields (evaluated_by_condition desc collect instance schema E)
    (E \<union> (case get schema ''if'' of
           Some condition \<Rightarrow>
             if V instance condition
             then U condition \<union> (case get schema ''then'' of Some s \<Rightarrow> U s | None \<Rightarrow> {})
             else (case get schema ''else'' of Some s \<Rightarrow> U s | None \<Rightarrow> {})
         | None \<Rightarrow> {}))"
proof (cases "get schema ''if''")
  case None
  then show ?thesis by (simp add: evaluated_by_condition_def yields_ret)
next
  case (Some condition)
  note valid = evaluates_is_valid [OF assms(1) assms(2) [OF Some]]
  have branch: "yields (case get schema kw of Some s \<Rightarrow> collect instance s F | None \<Rightarrow> ret F)
      (F \<union> (case get schema kw of Some s \<Rightarrow> U s | None \<Rightarrow> {}))" if "kw \<in> {''then'', ''else''}" for kw F
    using that assms(3) [of kw] by (auto simp: yields_ret split: option.split)
  have "yields (bind (collect instance condition E)
      (\<lambda>E. case get schema ''then'' of Some s \<Rightarrow> collect instance s E | None \<Rightarrow> ret E))
     ((E \<union> U condition) \<union> (case get schema ''then'' of Some s \<Rightarrow> U s | None \<Rightarrow> {}))"
    by (rule yields_bind [OF assms(3) [OF _ Some]]) (use branch in simp_all)
  then show ?thesis using Some branch [of "''else''" E]
    by (auto simp: evaluated_by_condition_def Un_assoc intro!: yields_bind [OF valid])
qed

lemma yields_collect_reference:
  assumes "\<And>r t. get schema ''$ref'' = Some (String r) \<Longrightarrow> reference_target doc r = Some t \<Longrightarrow>
    yields (collect instance t E) (E \<union> U t)"
  shows "yields (collect_reference doc collect instance schema E)
    (E \<union> (case get schema ''$ref'' of
           Some (String r) \<Rightarrow> (case reference_target doc r of Some t \<Rightarrow> U t | None \<Rightarrow> {})
         | _ \<Rightarrow> {}))"
  using assms by (auto simp: collect_reference_def yields_ret yields_raise split: option.split json.split)

lemma yields_evaluated_items:
  assumes desc: "evaluates desc V (sound_schema n doc)" and doc: "value_ok doc"
  shows "sound_schema fuel doc schema \<Longrightarrow> fuel \<le> Suc n \<Longrightarrow>
    yields (evaluated_items fuel desc doc instance schema E) (E \<union> evaluated_set fuel V doc instance schema)"
proof (induction fuel arbitrary: schema E)
  case 0
  then show ?case by (simp add: sound_schema_def)
next
  case (Suc fuel)
  let ?collect = "evaluated_items fuel desc doc" and ?U = "evaluated_set fuel V doc instance"
  have good: "sound_schema n doc s" if "sound_schema fuel doc s" for s using sound_mono [OF that] Suc.prems(2) by simp
  have single: "sound_schema fuel doc s" if "get schema kw = Some s" "kw \<in> set APPLICATORS" for kw s
    using sound_single [OF Suc.prems(1)] that by blast
  have collect: "yields (?collect instance s F) (F \<union> ?U s)" if "sound_schema fuel doc s" for s F
    using Suc.IH [OF that] Suc.prems(2) by simp
  let ?ref = "case get schema ''$ref'' of
      Some (String r) \<Rightarrow> (case reference_target doc r of Some t \<Rightarrow> ?U t | None \<Rightarrow> {}) | _ \<Rightarrow> {}"
  let ?prefix = "case get schema ''prefixItems'' of Some prefix \<Rightarrow> {..<length (elements prefix)} | None \<Rightarrow> {}"
  let ?cond = "case get schema ''if'' of
      Some condition \<Rightarrow>
        if V instance condition
        then ?U condition \<union> (case get schema ''then'' of Some s \<Rightarrow> ?U s | None \<Rightarrow> {})
        else (case get schema ''else'' of Some s \<Rightarrow> ?U s | None \<Rightarrow> {})
    | None \<Rightarrow> {}"
  let ?items = "\<Union>kw\<in>{''contains'', ''unevaluatedItems''}.
      case get schema kw of Some s \<Rightarrow> {i. i < length (elements instance) \<and> V (elements instance ! i) s} | None \<Rightarrow> {}"
  let ?subs = "subschemas_under schema [''allOf'', ''oneOf'', ''anyOf'']"
  let ?valid = "\<Union>s\<in>{s \<in> set ?subs. V instance s}. ?U s"
  have ref: "yields (collect_reference doc ?collect instance schema F) (F \<union> ?ref)" for F
    using sound_reference [OF Suc.prems(1) doc] by (intro yields_collect_reference collect) blast
  have cond: "yields (evaluated_by_condition desc ?collect instance schema F) (F \<union> ?cond)" for F
  proof (rule yields_by_condition [OF desc])
    show "sound_schema n doc s" if "get schema ''if'' = Some s" for s
      using good [OF single [OF that]] by (simp add: APPLICATORS_def)
    show "yields (?collect instance s E) (E \<union> ?U s)"
      if "kw \<in> {''if'', ''then'', ''else''}" "get schema kw = Some s" for kw s E
    proof -
      have "kw \<in> set APPLICATORS" using that(1) by (auto simp: APPLICATORS_def)
      from collect [OF single [OF that(2) this]] show ?thesis .
    qed
  qed
  have items: "yields (evaluated_by_items desc (elements instance) schema [''contains'', ''unevaluatedItems''] F) (F \<union> ?items)" for F
  proof -
    have "sound_schema n doc s" if "kw \<in> set [''contains'', ''unevaluatedItems'']" "get schema kw = Some s" for kw s
    proof -
      have "kw \<in> set APPLICATORS" using that(1) by (auto simp: APPLICATORS_def)
      from good [OF single [OF that(2) this]] show ?thesis .
    qed
    then show ?thesis
      using yields_by_items [OF desc, of "[''contains'', ''unevaluatedItems'']" schema "elements instance" F]
      by (simp only: list.set)
  qed
  have subs: "sound_schema fuel doc s" if "s \<in> set ?subs" for s
    by (rule sound_subschemas [OF Suc.prems(1) that]) (simp add: LIST_APPLICATORS_def)
  have valid: "yields (evaluated_by_valid desc ?collect instance ?subs F) (F \<union> ?valid)" for F
    by (rule yields_by_valid [OF desc]) (use subs good collect in blast)
  show ?case
  proof (cases "is_object schema \<and> get schema ''items'' = None")
    case True
    let ?body = "\<lambda>F. bind (evaluated_by_condition desc ?collect instance schema F)
        (\<lambda>F. bind (evaluated_by_items desc (elements instance) schema [''contains'', ''unevaluatedItems''] F)
          (evaluated_by_valid desc ?collect instance ?subs))"
    have body: "yields (?body F) (F \<union> ?cond \<union> ?items \<union> ?valid)" for F
      by (rule yields_bind [OF cond], rule yields_bind [OF items], rule valid)
    have "yields (bind (collect_reference doc ?collect instance schema E)
        (\<lambda>F. ?body (case get schema ''prefixItems'' of None \<Rightarrow> F | Some prefix \<Rightarrow> F \<union> {..<length (elements prefix)})))
      ((case get schema ''prefixItems'' of None \<Rightarrow> E \<union> ?ref | Some prefix \<Rightarrow> E \<union> ?ref \<union> {..<length (elements prefix)})
        \<union> ?cond \<union> ?items \<union> ?valid)"
      by (rule yields_bind [OF ref], rule body)
    moreover have "(case get schema ''prefixItems'' of None \<Rightarrow> E \<union> ?ref | Some prefix \<Rightarrow> E \<union> ?ref \<union> {..<length (elements prefix)})
        \<union> ?cond \<union> ?items \<union> ?valid = E \<union> (?ref \<union> ?prefix \<union> ?cond \<union> ?items \<union> ?valid)"
      by (simp add: Un_ac split: option.split)
    ultimately show ?thesis using True by (simp only: evaluated_items.simps evaluated_set.simps Let_def) simp
  next
    case False
    then show ?thesis by (auto simp: Let_def yields_ret)
  qed
qed

lemma decides_unevaluated:
  assumes "yields (collect instance schema {}) ({} \<union> evaluated)"
  shows "decides consumer (unevaluated_items collect consumer instance schema)
    (case instance of Array items \<Rightarrow> {..<length items} \<subseteq> evaluated | _ \<Rightarrow> True)"
proof (cases "\<exists>items. instance = Array items")
  case True
  then obtain items where i: "instance = Array items" by blast
  have "decides consumer (if list_all (\<lambda>index. index \<in> {} \<union> evaluated) [0..<length items] then go_on else sink consumer)
      ({..<length items} \<subseteq> evaluated)"
    by (cases "{..<length items} \<subseteq> evaluated")
      (auto simp: list_all_iff subset_iff decides_ret decides_sink)
  from decides_bind [OF assms, of consumer "\<lambda>E. if list_all (\<lambda>index. index \<in> E) [0..<length items] then go_on else sink consumer", OF this]
  show ?thesis using i by (simp add: unevaluated_items_def)
next
  case False
  then show ?thesis by (cases "instance") (auto simp: unevaluated_items_def decides_ret)
qed

end

section \<open>The evaluator refines the predicate\<close>

context pure_search
begin

lemma decides_keyword:
  assumes desc: "evaluates desc V (sound_schema n doc)" and doc: "value_ok doc"
    and schema: "sound_schema (Suc n) doc schema" and v: "get schema keyword = Some v"
    and collect: "yields (collect instance schema {}) ({} \<union> evaluated instance schema)"
  shows "decides consumer (keyword_step matches doc desc collect consumer keyword v instance schema)
    (keyword_holds answer doc V evaluated keyword v instance schema)"
proof -
  have single: "sound_schema n doc s" if "get schema kw = Some s" "kw \<in> set APPLICATORS" for kw s
    using sound_single [OF schema] that by blast
  have one: "sound_schema n doc v" if "keyword \<in> set APPLICATORS"
    using single [OF v that] .
  have listed: "\<forall>s\<in>set (elements v). sound_schema n doc s" if "keyword \<in> set LIST_APPLICATORS"
    using sound_list [OF schema v that] by blast
  have mapped: "\<forall>m\<in>set (members v). sound_schema n doc (snd m)" if "keyword \<in> set MAP_APPLICATORS"
    using sound_map [OF schema v that] by blast
  have ref: "decides consumer (reference_kw desc doc consumer v instance)
      (case v of String r \<Rightarrow> (case reference_target doc r of Some t \<Rightarrow> V instance t | None \<Rightarrow> False) | _ \<Rightarrow> False)"
    if "keyword = ''$ref''"
    using that v sound_reference [OF schema doc] by (intro decides_reference evaluates_decides [OF desc]) simp
  have value_schema: "value_ok schema" using schema by (simp add: sound_schema_def)
  have branches: "sound_schema n doc s" if "kw \<in> {''then'', ''else''}" "get schema kw = Some s" for kw s
  proof -
    have "kw \<in> set APPLICATORS" using that(1) by (auto simp: APPLICATORS_def)
    with that(2) show ?thesis by (rule single)
  qed
  have un: "decides consumer (unevaluated_items collect consumer instance schema)
      (case instance of Array items \<Rightarrow> {..<length items} \<subseteq> evaluated instance schema | _ \<Rightarrow> True)"
    using collect by (rule decides_unevaluated)
  note rules = decides_if_both decides_additional [OF desc] decides_all_of [OF desc] decides_any_of [OF desc]
    decides_contains [OF desc _ value_schema] decides_dependent_schemas [OF desc] decides_if [OF desc _ branches]
    decides_items [OF desc] decides_not [OF desc] decides_one_of [OF desc] decides_pattern
    decides_pattern_properties [OF desc] decides_prefix_items [OF desc] decides_properties [OF desc]
    decides_property_names [OF desc] un decides_assert
  show ?thesis
    unfolding keyword_step_def keyword_holds_def
    by (intro rules ref one listed mapped decides_raise; simp add: APPLICATORS_def LIST_APPLICATORS_def MAP_APPLICATORS_def)
qed

theorem evaluates_descend:
  assumes doc: "value_ok doc"
  shows "evaluates (descend n matches doc) (conforms n answer doc) (sound_schema n doc)"
proof (induction n)
  case 0
  then show ?case by (simp add: evaluates_def sound_schema_def)
next
  case (Suc n)
  show ?case unfolding evaluates_def
  proof (intro allI impI)
    fix consumer "instance" schema
    assume schema: "sound_schema (Suc n) doc schema"
    let ?desc = "descend n matches doc" and ?V = "conforms n answer doc"
    show "decides consumer (descend (Suc n) matches doc consumer instance schema) (conforms (Suc n) answer doc instance schema)"
    proof (cases schema)
      case (Object ks)
      have collect: "yields (evaluated_items (Suc n) ?desc doc instance schema {})
          ({} \<union> evaluated_set (Suc n) ?V doc instance schema)"
        by (rule yields_evaluated_items [OF Suc.IH doc schema order_refl])
      have "decides consumer (each (\<lambda>m. keyword_step matches doc ?desc (evaluated_items (Suc n) ?desc doc) consumer
            (fst m) (snd m) instance schema) ks)
          (list_all (\<lambda>m. keyword_holds answer doc ?V (evaluated_set (Suc n) ?V doc) (fst m) (snd m) instance schema) ks)"
      proof (rule decides_each)
        fix m assume "m \<in> set ks"
        then have "get schema (fst m) = Some (snd m)"
          using get_member [of ks "fst m" "snd m"] Object schema by (simp add: sound_schema_def)
        show "decides consumer (keyword_step matches doc ?desc (evaluated_items (Suc n) ?desc doc) consumer
            (fst m) (snd m) instance schema)
          (keyword_holds answer doc ?V (evaluated_set (Suc n) ?V doc) (fst m) (snd m) instance schema)"
          by (rule decides_keyword [OF Suc.IH doc schema \<open>get schema (fst m) = Some (snd m)\<close>]) (rule collect)
      qed
      then show ?thesis using Object
        by (simp only: descend.simps conforms.simps json.case case_prod_unfold)
    qed (auto simp: decides_ret decides_sink decides_raise split: bool.split)
  qed
qed

lemma validate_outcome:
  assumes "budget_ok b" "value_ok schema" "ranked n schema schema"
    and run: "validate_payload_in n matches schema payload b = (result, b')"
  shows "budget_ok b' \<and> work b' \<le> work b \<and>
    (case result of
       Inr _ \<Rightarrow> is_object payload \<and> depth_within payload MAX_PAYLOAD_DEPTH \<and> conforms n answer schema payload schema
     | Inl NotAnObject \<Rightarrow> \<not> is_object payload
     | Inl TooDeep \<Rightarrow> \<not> depth_within payload MAX_PAYLOAD_DEPTH
     | Inl Invalid \<Rightarrow> \<not> conforms n answer schema payload schema
     | Inl err \<Rightarrow> evaluation_error err)"
proof (cases "is_object payload \<and> depth_within payload MAX_PAYLOAD_DEPTH")
  case True
  let ?run = "is_valid (descend n matches schema) payload schema \<lparr>search_budget = b, hit = False\<rparr>"
  obtain r s where rs: "?run = (r, s)" by fastforce
  have "yields (is_valid (descend n matches schema) payload schema) (conforms n answer schema payload schema)"
    using evaluates_is_valid [OF evaluates_descend [OF assms(2)]] assms(2,3) by (simp add: sound_schema_def)
  from this [unfolded yields_def outcome_def, rule_format, OF _ rs] assms(1)
  have out: "budget_ok (search_budget s) \<and> work (search_budget s) \<le> work b \<and> (\<forall>err. r = Inl err \<longrightarrow> evaluation_error err) \<and>
      (\<forall>x. r = Inr x \<longrightarrow> x = conforms n answer schema payload schema)" by simp
  show ?thesis
  proof (cases r)
    case (Inl err)
    then show ?thesis using run rs out True
      by (auto simp: validate_payload_in_def split: payload_error.splits)
  next
    case (Inr valid)
    then show ?thesis using run rs out True by (auto simp: validate_payload_in_def split: if_splits)
  qed
next
  case False
  then show ?thesis using run assms(1) by (auto simp: validate_payload_in_def split: if_splits)
qed

end

section \<open>The expansion bounds the rank\<close>

declare ranked.simps [simp del]

lemma ranked_mono: "ranked n doc v \<Longrightarrow> n \<le> m \<Longrightarrow> ranked m doc v"
  by (induction m) (auto simp: le_Suc_eq dest: ranked_Suc)

lemma ranked_leaf: "\<not> is_object v \<Longrightarrow> ranked 1 doc v"
proof -
  assume leaf: "\<not> is_object v"
  have none: "get v kw = None" for kw using get_is_object [of v kw] leaf by (cases "get v kw") auto
  then have "applied v = []" by (simp add: applied_def List.map_filter_def)
  then show ?thesis using none by (simp add: ranked.simps)
qed

lemma depth_foldl:
  "depth e \<le> depth (foldl (\<lambda>e p. absorb e (snd p) (snd (fst p))) e ps) \<and>
   (\<forall>p\<in>set ps. is_object (snd (fst p)) \<longrightarrow>
      sat_add (depth (snd p)) 1 \<le> depth (foldl (\<lambda>e p. absorb e (snd p) (snd (fst p))) e ps))"
proof (induction ps arbitrary: e)
  case (Cons p ps)
  from Cons [of "absorb e (snd p) (snd (fst p))"] show ?case by (auto simp: absorb_def)
qed simp

lemma expands_ranked: "expands doc a e \<Longrightarrow> depth e < u64_max \<Longrightarrow> ranked (depth e + 2) doc (snd a)"
proof (induction rule: expands.induct)
  case (expandsI a f ps)
  let ?e = "fold_absorb ps"
  have below: "ranked (depth ?e + 1) doc (snd b)" if edge: "b \<in> set (edges f)" for b
  proof -
    obtain d where p: "(b, d) \<in> set ps" using edge expandsI.hyps(2) by (metis in_set_zip list.set_map imageE prod.collapse)
    show ?thesis
    proof (cases "is_object (snd b)")
      case False
      then show ?thesis by (intro ranked_mono [OF ranked_leaf]) simp_all
    next
      case True
      then have "sat_add (depth d) 1 \<le> depth ?e" using depth_foldl [of LEAF ps] p by (force simp: fold_absorb_def)
      then have "depth d + 1 \<le> depth ?e" using expandsI.prems by (auto simp: sat_add_def min_def split: if_splits)
      then have small: "depth d < u64_max" "depth d + 2 \<le> depth ?e + 1" using expandsI.prems by simp_all
      have "ranked (depth d + 2) doc (snd b)" using expandsI.IH p small(1) by auto
      from ranked_mono [OF this small(2)] show ?thesis .
    qed
  qed
  have applied: "list_all (ranked (depth ?e + 1) doc) (applied (snd a))"
  proof -
    have "ranked (depth ?e + 1) doc v" if vin: "v \<in> set (map snd (applied_at a))" for v
    proof -
      obtain b where "b \<in> set (applied_at a)" "v = snd b" using vin unfolding set_map by blast
      moreover have "set (applied_at a) \<subseteq> set (edges f)"
        using expandsI.hyps(1) by (auto simp: frame_of_def split: option.splits json.splits)
      ultimately show ?thesis using below by blast
    qed
    then show ?thesis by (simp only: applied_at_applied list_all_iff) blast
  qed
  have "ranked (depth ?e + 1) doc t" if rt: "get (snd a) ''$ref'' = Some (String r)" "reference_target doc r = Some t" for r t
  proof -
    obtain b where b: "reference_target_at doc r = Some b" "snd b = t"
      using reference_target_at_target [of doc r] rt(2) by (cases "reference_target_at doc r") auto
    then have "b \<in> set (edges f)" using expandsI.hyps(1) rt(1) by (auto simp: frame_of_def split: option.splits)
    then show ?thesis using below b(2) by blast
  qed
  then have "ranked (Suc (depth ?e + 1)) doc (snd a)"
    using applied by (simp only: ranked.simps) (auto split: option.split json.split)
  then show ?case by simp
qed

text \<open>The fuel that suffices for every schema admission lets through.\<close>

definition EVALUATION_FUEL :: nat where
  "EVALUATION_FUEL = 34"

lemma expand_ranked: "expand schema = Some e \<Longrightarrow> depth e \<le> 32 \<Longrightarrow> ranked EVALUATION_FUEL schema schema"
proof -
  assume e: "expand schema = Some e" "depth e \<le> 32"
  then have "expands schema ([], schema) e" "depth e < u64_max" by (simp_all add: expand_expands u64_max_def)
  from expands_ranked [OF this] have "ranked (depth e + 2) schema schema" by (simp only: snd_conv)
  then show "ranked EVALUATION_FUEL schema schema"
    by (rule ranked_mono) (simp add: e(2) EVALUATION_FUEL_def)
qed

section \<open>Nesting\<close>

fun nesting :: "json \<Rightarrow> nat" where
  "nesting (Array vs) = Max (set (0 # map (\<lambda>v. Suc (nesting v)) vs))"
| "nesting (Object ms) = Max (set (0 # map (\<lambda>m. Suc (nesting (snd m))) ms))"
| "nesting _ = 0"

lemma nesting_children: "nesting v \<le> n \<longleftrightarrow> (\<forall>c\<in>set (children v). nesting c < n)"
  by (cases v) (auto simp: Suc_le_eq)

lemma depth_loop_nesting: "depth_loop limit pending \<longleftrightarrow> (\<forall>p\<in>set pending. snd p + nesting (fst p) \<le> limit)"
proof (induction limit pending rule: depth_loop.induct)
  case (2 limit node level pending)
  have kids: "children node = elements node @ map snd (members node)" by (rule children_elements_members)
  show ?case
  proof (cases "level > limit")
    case False
    have "level + nesting node \<le> limit \<longleftrightarrow> nesting node \<le> limit - level" using False by auto
    also have "\<dots> \<longleftrightarrow> (\<forall>c\<in>set (children node). level + 1 + nesting c \<le> limit)"
      using False by (auto simp: nesting_children)
    finally have node: "level + nesting node \<le> limit \<longleftrightarrow> (\<forall>c\<in>set (children node). level + 1 + nesting c \<le> limit)" .
    have "depth_loop limit ((node, level) # pending)
        \<longleftrightarrow> (\<forall>p\<in>set (rev (map (\<lambda>m. (snd m, level + 1)) (members node)) @ rev (map (\<lambda>child. (child, level + 1)) (elements node))
              @ pending). snd p + nesting (fst p) \<le> limit)"
      using False 2 by simp
    also have "\<dots> \<longleftrightarrow> (\<forall>c\<in>set (children node). level + 1 + nesting c \<le> limit) \<and>
        (\<forall>p\<in>set pending. snd p + nesting (fst p) \<le> limit)"
      unfolding kids by (simp add: ball_Un conj_ac)
    finally show ?thesis using node by simp
  qed auto
qed simp

lemma depth_within_nesting: "depth_within v limit \<longleftrightarrow> nesting v \<le> limit"
  by (simp add: depth_within_def depth_loop_nesting)

section \<open>The budgeted search answers purely\<close>

definition engine_answer :: "engine \<Rightarrow> string \<Rightarrow> string \<Rightarrow> bool" where
  "engine_answer e pattern subject = (case compile e pattern of Some regex \<Rightarrow> regex subject | None \<Rightarrow> False)"

interpretation matching: pure_search "pattern_matches e" remaining "budget_valid e" "engine_answer e" for e
proof
  fix b pattern subject found b'
  assume "budget_valid e b" "pattern_matches e pattern subject b = (Inr found, b')"
  from matches_Inr [OF this] show "found = engine_answer e pattern subject" by (auto simp: engine_answer_def)
qed

lemma accepted_conforms:
  assumes "budget_valid e b" "value_ok schema" "expand schema = Some ex" "depth ex \<le> 32"
    and "validate_payload_in EVALUATION_FUEL (pattern_matches e) schema payload b = (Inr (), b')"
  shows "is_object payload" "conforms EVALUATION_FUEL (engine_answer e) schema payload schema"
  using matching.validate_outcome [OF assms(1,2) expand_ranked [OF assms(3,4)] assms(5)] by simp_all

text \<open>What conforming to an object schema says of each of its keywords.\<close>

lemma conforms_keyword:
  assumes "conforms (Suc n) answer doc instance schema" "get schema kw = Some v"
  shows "keyword_holds answer doc (conforms n answer doc) (evaluated_set (Suc n) (conforms n answer doc) doc) kw v instance schema"
proof -
  obtain ms where "schema = Object ms" using get_is_object [OF assms(2)] by (auto simp: is_object_iff)
  then show ?thesis using assms map_of_SomeD [of ms kw v] by (fastforce simp: list_all_iff simp del: evaluated_set.simps)
qed

section \<open>Properties\<close>

text \<open>A concrete schema and payload for the witnesses.\<close>

definition sample_schema :: json where
  "sample_schema =
     Object [(''type'', String ''object''),
       (''properties'', Object [(''n'', Object [(''minimum'', Number (Integer 1))])]),
       (''required'', Array [String ''n'']), (''additionalProperties'', Bool False)]"

definition sample_payload :: json where
  "sample_payload = Object [(''n'', Number (Integer 3))]"

lemma sample_schema_expand: "expand sample_schema = Some \<lparr>subschemas = 3, depth = 1\<rparr>"
  by code_simp

lemma sample_schema_ok: "value_ok sample_schema"
  by code_simp

lemma sample_accepted:
  "\<exists>b'. validate_payload_in EVALUATION_FUEL (pattern_matches e) sample_schema sample_payload b = (Inr (), b')"
proof -
  have "fst (validate_payload_in EVALUATION_FUEL (pattern_matches e) sample_schema sample_payload b) = Inr ()" by code_simp
  then show ?thesis by (cases "validate_payload_in EVALUATION_FUEL (pattern_matches e) sample_schema sample_payload b") simp
qed

lemma sample_probes:
  "\<exists>t. is_valid (descend EVALUATION_FUEL (pattern_matches e) sample_schema) sample_payload sample_schema \<lparr>search_budget = b, hit = h\<rparr> = (Inr True, t)"
  "\<exists>t. has_errors (descend EVALUATION_FUEL (pattern_matches e) sample_schema) sample_payload sample_schema \<lparr>search_budget = b, hit = h\<rparr> = (Inr False, t)"
proof -
  have "fst (is_valid (descend EVALUATION_FUEL (pattern_matches e) sample_schema) sample_payload sample_schema \<lparr>search_budget = b, hit = h\<rparr>) = Inr True"
    by code_simp
  then show "\<exists>t. is_valid (descend EVALUATION_FUEL (pattern_matches e) sample_schema) sample_payload sample_schema \<lparr>search_budget = b, hit = h\<rparr> = (Inr True, t)"
    by (metis prod.collapse)
  have "fst (has_errors (descend EVALUATION_FUEL (pattern_matches e) sample_schema) sample_payload sample_schema \<lparr>search_budget = b, hit = h\<rparr>) = Inr False"
    by code_simp
  then show "\<exists>t. has_errors (descend EVALUATION_FUEL (pattern_matches e) sample_schema) sample_payload sample_schema \<lparr>search_budget = b, hit = h\<rparr> = (Inr False, t)"
    by (metis prod.collapse)
qed

text \<open>
  \<open>depth_within\<close> answers whether a payload nests at most the limit of levels below its root.
\<close>

theorem depth_within_iff: "depth_within v limit \<longleftrightarrow> nesting v \<le> limit"
  by (rule depth_within_nesting)

text \<open>
  C7 Against a schema whose references expand to at most 32 levels, as admission demands, an evaluation on the given
  fuel ends, never for lack of fuel: an accepted payload is an object, nests at most 32 levels and conforms to the
  schema; a payload refused as invalid does not conform; any other refusal is of the payload's shape, or is an evaluation
  that could not complete; and the budget is only spent.
\<close>

theorem validation_refines:
  assumes "budget_valid e b" "value_ok schema" "expand schema = Some ex" "depth ex \<le> 32"
    and "validate_payload_in EVALUATION_FUEL (pattern_matches e) schema payload b = (result, b')"
  shows "budget_valid e b' \<and> remaining b' \<le> remaining b \<and>
    (case result of
       Inr _ \<Rightarrow> is_object payload \<and> nesting payload \<le> 32 \<and>
         conforms EVALUATION_FUEL (engine_answer e) schema payload schema
     | Inl NotAnObject \<Rightarrow> \<not> is_object payload
     | Inl TooDeep \<Rightarrow> 32 < nesting payload
     | Inl Invalid \<Rightarrow> \<not> conforms EVALUATION_FUEL (engine_answer e) schema payload schema
     | Inl (Pattern _) \<Rightarrow> True
     | Inl Arithmetic \<Rightarrow> True
     | Inl Unsupported \<Rightarrow> True
     | Inl Out_of_fuel \<Rightarrow> False)"
  using matching.validate_outcome [OF assms(1,2) expand_ranked [OF assms(3,4)] assms(5)]
  by (auto simp: depth_within_nesting MAX_PAYLOAD_DEPTH_def split: sum.splits payload_error.splits)

theorem validation_refines_witness:
  "is_object sample_payload \<and> nesting sample_payload \<le> 32 \<and>
    conforms EVALUATION_FUEL (engine_answer sample_engine) sample_schema sample_payload sample_schema"
proof -
  obtain b' where "validate_payload_in EVALUATION_FUEL (pattern_matches sample_engine) sample_schema sample_payload fresh_budget
      = (Inr (), b')" using sample_accepted by blast
  from validation_refines [OF budget_valid_fresh sample_schema_ok sample_schema_expand _ this] show ?thesis by simp
qed

text \<open>
  The two probes agree: where both complete, on whatever budgets, \<open>is_valid\<close>, which stops at the first error, accepts
  exactly when \<open>has_errors\<close>, which collects them all, finds none.
\<close>

theorem probes_agree:
  assumes "value_ok schema" "expand schema = Some ex" "depth ex \<le> 32"
    and "budget_valid e (search_budget s)" "budget_valid e (search_budget t)"
    and "is_valid (descend EVALUATION_FUEL (pattern_matches e) schema) instance schema s = (Inr valid, s')"
    and "has_errors (descend EVALUATION_FUEL (pattern_matches e) schema) instance schema t = (Inr errors, t')"
  shows "valid \<longleftrightarrow> \<not> errors"
proof -
  have good: "sound_schema EVALUATION_FUEL schema schema"
    using expand_ranked [OF assms(2,3)] assms(1) by (simp add: sound_schema_def)
  note ev = matching.evaluates_descend [OF assms(1), of e EVALUATION_FUEL]
  have "valid = conforms EVALUATION_FUEL (engine_answer e) schema instance schema"
    using matching.evaluates_is_valid [OF ev good] assms(4,6) unfolding matching.yields_def matching.outcome_def by blast
  moreover have "errors = (\<not> conforms EVALUATION_FUEL (engine_answer e) schema instance schema)"
    using matching.evaluates_has_errors [OF ev good] assms(5,7) unfolding matching.yields_def matching.outcome_def by blast
  ultimately show ?thesis by simp
qed

theorem probes_agree_witness:
  "\<exists>valid errors t t'. is_valid (descend EVALUATION_FUEL (pattern_matches sample_engine) sample_schema) sample_payload sample_schema
        \<lparr>search_budget = fresh_budget, hit = False\<rparr> = (Inr valid, t) \<and>
      has_errors (descend EVALUATION_FUEL (pattern_matches sample_engine) sample_schema) sample_payload sample_schema
        \<lparr>search_budget = fresh_budget, hit = True\<rparr> = (Inr errors, t') \<and> (valid \<longleftrightarrow> \<not> errors)"
proof -
  let ?s = "\<lparr>search_budget = fresh_budget, hit = False\<rparr>" and ?t = "\<lparr>search_budget = fresh_budget, hit = True\<rparr>"
  obtain t t' where
    runs: "is_valid (descend EVALUATION_FUEL (pattern_matches sample_engine) sample_schema) sample_payload sample_schema ?s = (Inr True, t)"
      "has_errors (descend EVALUATION_FUEL (pattern_matches sample_engine) sample_schema) sample_payload sample_schema ?t = (Inr False, t')"
    using sample_probes by blast
  from probes_agree [OF sample_schema_ok sample_schema_expand _ _ _ runs] runs budget_valid_fresh show ?thesis by auto
qed

text \<open>
  An accepted payload of an object schema that closes its properties holds every required member, no member the schema
  does not declare, and in each declared one a value that conforms to its subschema.
\<close>

theorem accepted_payload_closed:
  assumes "budget_valid e b" "value_ok schema" "expand schema = Some ex" "depth ex \<le> 32"
    and "validate_payload_in EVALUATION_FUEL (pattern_matches e) schema payload b = (Inr (), b')"
    and "get schema ''additionalProperties'' = Some (Bool False)" "get schema ''patternProperties'' = None"
    and "get schema ''properties'' = Some (Object declared)" "get schema ''required'' = Some (Array names)"
  shows "fst ` set (members payload) \<subseteq> fst ` set declared \<and>
    (\<forall>name. String name \<in> set names \<longrightarrow> get payload name \<noteq> None) \<and>
    (\<forall>name s v. (name, s) \<in> set declared \<longrightarrow> get payload name = Some v \<longrightarrow>
       conforms (EVALUATION_FUEL - 1) (engine_answer e) schema v s)"
proof -
  let ?V = "conforms 33 (engine_answer e) schema" and ?ev = "evaluated_set (Suc 33) (conforms 33 (engine_answer e) schema) schema"
  note ok = accepted_conforms [OF assms(1-5)]
  have fuel: "EVALUATION_FUEL = Suc 33" by (simp add: EVALUATION_FUEL_def)
  have holds: "keyword_holds (engine_answer e) schema ?V ?ev kw v payload schema" if "get schema kw = Some v" for kw v
    using conforms_keyword [of 33 "engine_answer e" schema payload schema kw v] that ok(2) by (simp add: fuel)
  have "undeclared (engine_answer e) payload schema = []" using holds [OF assms(6)] ok(1) by (simp add: keyword_holds_def)
  then have "fst ` set (members payload) \<subseteq> fst ` set declared"
    using assms(7,8) by (auto simp: undeclared_def filter_empty_conv map_of_eq_None_iff image_iff)
  moreover have "String name \<in> set names \<Longrightarrow> get payload name \<noteq> None" for name
    using holds [OF assms(9)] ok(1) by (auto simp: keyword_holds_def assert_holds_def list_all_iff present_def)
  moreover have "?V v s" if "(name, s) \<in> set declared" "get payload name = Some v" for name s v
    using holds [OF assms(8)] ok(1) that by (auto simp: keyword_holds_def list_all_iff)
  ultimately show ?thesis by (simp add: fuel)
qed

theorem accepted_payload_closed_witness:
  "fst ` set (members sample_payload) \<subseteq> {''n''} \<and> get sample_payload ''n'' \<noteq> None"
proof -
  obtain b' where run: "validate_payload_in EVALUATION_FUEL (pattern_matches sample_engine) sample_schema sample_payload fresh_budget
      = (Inr (), b')" using sample_accepted by blast
  have members: "get sample_schema ''additionalProperties'' = Some (Bool False)" "get sample_schema ''patternProperties'' = None"
    "get sample_schema ''properties'' = Some (Object [(''n'', Object [(''minimum'', Number (Integer 1))])])"
    "get sample_schema ''required'' = Some (Array [String ''n''])"
    by (simp_all add: sample_schema_def)
  from accepted_payload_closed [OF budget_valid_fresh sample_schema_ok sample_schema_expand _ run members]
  show ?thesis by simp
qed

end
