(* ===== verification/Encode.thy ===== *)
theory Encode
  imports Numbers "HOL-Library.Multiset"
begin

text \<open>
  Python's \<open>json.dumps\<close> (\<open>protocol/team/http/src/python/json.rs\<close>) and the schema crate's length of it
  (\<open>protocol/action-schema/src/size.rs\<close>), which computes the length without writing the text.  Both read Rust's
  \<open>{:e}\<close>, the shortest decimal digits that read back as the float, which \<open>shortest\<close> computes by search.
\<close>

section \<open>Shortest digits\<close>

text \<open>The power of ten of the leading digit: \<open>10 ^ e \<le> v < 10 ^ (e + 1)\<close>, searched from an estimate.\<close>

definition pow10 :: "int \<Rightarrow> rat" where
  "pow10 e = (if 0 \<le> e then of_int (10 ^ nat e) else 1 / of_int (10 ^ nat (- e)))"

fun decade :: "nat \<Rightarrow> int \<Rightarrow> rat \<Rightarrow> int" where
  "decade 0 e v = e"
| "decade (Suc n) e v = (if v < pow10 e then decade n (e - 1) v else if pow10 (e + 1) \<le> v then decade n (e + 1) v else e)"

text \<open>The nearest decimal of \<open>k\<close> digits that rounds to the float again, if one of the two neighbours does.\<close>

definition near :: "f64 \<Rightarrow> rat \<Rightarrow> int \<Rightarrow> nat \<Rightarrow> int option" where
  "near f v e k =
     (let scale = pow10 (e - int k + 1); low = \<lfloor>v / scale\<rfloor>; high = low + 1;
          low_ok = f64_round (of_int low * scale) = f; high_ok = f64_round (of_int high * scale) = f
      in if low_ok \<and> (\<not> high_ok \<or> v - of_int low * scale \<le> of_int high * scale - v) then Some low
         else if high_ok then Some high
         else None)"

fun search :: "nat \<Rightarrow> f64 \<Rightarrow> rat \<Rightarrow> int \<Rightarrow> nat \<Rightarrow> int \<times> nat" where
  "search 0 f v e k = (\<lfloor>v / pow10 (e - int k + 1)\<rfloor>, k)"
| "search (Suc n) f v e k = (case near f v e k of Some m \<Rightarrow> (m, k) | None \<Rightarrow> search n f v e (k + 1))"

definition strip_zeros :: "string \<Rightarrow> string" where
  "strip_zeros s = rev (dropWhile (\<lambda>ch. ch = CHR ''0'') (rev s))"

text \<open>\<open>format!("{:e}", float.abs())\<close> split at \<open>e\<close>: the mantissa's digits and the exponent.\<close>

definition shortest :: "f64 \<Rightarrow> string \<times> int" where
  "shortest f =
     (let v = \<bar>f64_val f\<bar>; f = f64_round_abs v
      in if v = 0 then (''0'', 0)
         else let e = decade 700 0 v; (m, k) = search 17 f v e 1; digits = dec_of_int m
              in (case strip_zeros digits of [] \<Rightarrow> ''0'' | kept \<Rightarrow> kept, e + int (length digits) - int k))"


section \<open>The text of a number\<close>

definition zeros :: "nat \<Rightarrow> string" where
  "zeros n = replicate n (CHR ''0'')"

text \<open>\<open>{:02}\<close> of a count, and \<open>{:+03}\<close> of an integer: the sign, then at least two digits.\<close>

definition pad2 :: "nat \<Rightarrow> string" where
  "pad2 n = zeros (2 - length (dec_of_nat n)) @ dec_of_nat n"

definition signed_pad3 :: "int \<Rightarrow> string" where
  "signed_pad3 i =
     (let digits = dec_of_nat (nat \<bar>i\<bar>)
      in (if i < 0 then CHR ''-'' else CHR ''+'') # zeros (3 - (1 + length digits)) @ digits)"

definition sign_of :: "f64 \<Rightarrow> string" where
  "sign_of f = (if f64_negative f then ''-'' else [])"

definition positional :: "string \<Rightarrow> int \<Rightarrow> string" where
  "positional digits exponent =
     (let point = exponent + 1; amount = int (length digits)
      in if point \<le> 0 then ''0.'' @ zeros (nat \<bar>point\<bar>) @ digits
         else if point \<ge> amount then digits @ zeros (nat \<bar>point - amount\<bar>) @ ''.0''
         else take (nat \<bar>point\<bar>) digits @ ''.'' @ drop (nat \<bar>point\<bar>) digits)"

definition float_repr :: "f64 \<Rightarrow> string" where
  "float_repr f =
     (let (digits, exponent) = shortest f
      in sign_of f @
         (if -4 \<le> exponent \<and> exponent < 16 then positional digits exponent
          else let first = take 1 digits; rest = drop 1 digits;
                   fraction = (if rest = [] then [] else ''.'' @ rest);
                   exponent_sign = (if exponent < 0 then ''-'' else ''+'')
               in first @ fraction @ ''e'' @ exponent_sign @ pad2 (nat \<bar>exponent\<bar>)))"

text \<open>The schema crate's own reproduction.\<close>

definition python_float_repr :: "f64 \<Rightarrow> string" where
  "python_float_repr f =
     (let (digits, exponent) = shortest f; point = exponent + 1; amount = int (length digits)
      in sign_of f @
         (if -4 < point \<and> point \<le> 16
          then (if point \<le> 0 then ''0.'' @ zeros (nat \<bar>point\<bar>) @ digits
                else if point \<ge> amount then digits @ zeros (nat \<bar>point - amount\<bar>) @ ''.0''
                else take (nat \<bar>point\<bar>) digits @ ''.'' @ drop (nat \<bar>point\<bar>) digits)
          else let first = take 1 digits; rest = drop 1 digits;
                   fraction = (if rest = [] then [] else ''.'' @ rest)
               in first @ fraction @ ''e'' @ signed_pad3 (point - 1)))"

fun number_text :: "number \<Rightarrow> string" where
  "number_text (Integer i) = dec_of_int i"
| "number_text (BigInt digits) = digits"
| "number_text (Float f) = float_repr f"

section \<open>The text of a string\<close>

definition utf16 :: "nat \<Rightarrow> nat list" where
  "utf16 point =
     (if point < 0x10000 then [point]
      else [0xD800 + (point - 0x10000) div 0x400, 0xDC00 + (point - 0x10000) mod 0x400])"

definition hex_char :: "nat \<Rightarrow> char" where
  "hex_char d = (if d < 10 then char_of (48 + d) else char_of (87 + d))"

text \<open>\<open>{unit:04x}\<close> of a unit below \<open>0x10000\<close>.\<close>

definition hex4 :: "nat \<Rightarrow> string" where
  "hex4 unit =
     [hex_char (unit div 4096 mod 16), hex_char (unit div 256 mod 16), hex_char (unit div 16 mod 16), hex_char (unit mod 16)]"

definition escape_char :: char where
  "escape_char = CHR 0x5C"

definition push_escape :: "nat \<Rightarrow> string" where
  "push_escape unit = escape_char # CHR ''u'' # hex4 unit"

definition write_char :: "bool \<Rightarrow> string \<Rightarrow> string" where
  "write_char ascii ch =
     (let point = code_point ch
      in if ch = [CHR 0x22] then [escape_char, CHR 0x22]
         else if ch = [escape_char] then [escape_char, escape_char]
         else if ch = [CHR 0x0A] then [escape_char, CHR ''n'']
         else if ch = [CHR 0x0D] then [escape_char, CHR ''r'']
         else if ch = [CHR 0x09] then [escape_char, CHR ''t'']
         else if ch = [CHR 0x08] then [escape_char, CHR ''b'']
         else if ch = [CHR 0x0C] then [escape_char, CHR ''f'']
         else if point \<le> 0x1F then push_escape point
         else if 0x20 \<le> point \<and> point \<le> 0x7E then ch
         else if \<not> ascii then ch
         else concat (map push_escape (utf16 point)))"

definition write_string :: "string \<Rightarrow> bool \<Rightarrow> string" where
  "write_string s ascii = CHR 0x22 # concat (map (write_char ascii) (chars s)) @ [CHR 0x22]"

section \<open>The text of a value\<close>

record options =
  ensure_ascii :: bool
  sort_keys :: bool
  compact :: bool

definition CANONICAL :: options where
  "CANONICAL = \<lparr>ensure_ascii = False, sort_keys = True, compact = True\<rparr>"

definition item_separator :: "options \<Rightarrow> string" where
  "item_separator opts = (if compact opts then '','' else '', '')"

fun joined :: "string \<Rightarrow> string list \<Rightarrow> string" where
  "joined sep [] = []"
| "joined sep [x] = x"
| "joined sep (x # xs) = x @ sep @ joined sep xs"

text \<open>\<open>sort_by\<close> on the names, stable; the members are written before they are sorted here, which is the same text.\<close>

fun dumps :: "options \<Rightarrow> json \<Rightarrow> string" where
  "dumps opts Null = ''null''"
| "dumps opts (Bool b) = (if b then ''true'' else ''false'')"
| "dumps opts (Number n) = number_text n"
| "dumps opts (String s) = write_string s (ensure_ascii opts)"
| "dumps opts (Array items) = ''['' @ joined (item_separator opts) (map (dumps opts) items) @ '']''"
| "dumps opts (Object ms) =
     (let written = map (\<lambda>m. (fst m, dumps opts (snd m))) ms;
          ordered = (if sort_keys opts then sort_key fst written else written)
      in ''{'' @ joined (item_separator opts)
           (map (\<lambda>m. write_string (fst m) (ensure_ascii opts) @ (if compact opts then '':'' else '': '') @ snd m) ordered)
         @ ''}'')"

definition canonical :: "json \<Rightarrow> string" where
  "canonical v = dumps CANONICAL v"

section \<open>The length without the text\<close>

definition char_len :: "string \<Rightarrow> nat" where
  "char_len ch =
     (let point = code_point ch
      in if ch \<in> {[CHR 0x22], [escape_char], [CHR 0x0A], [CHR 0x0D], [CHR 0x09], [CHR 0x08], [CHR 0x0C]} then 2
         else if 0x20 \<le> point \<and> point \<le> 0x7E then 1
         else if 0x10000 \<le> point then 12
         else 6)"

definition string_len :: "string \<Rightarrow> nat" where
  "string_len s = 2 + sum_list (map char_len (chars s))"

fun number_len :: "number \<Rightarrow> nat" where
  "number_len (Integer i) = length (dec_of_int i)"
| "number_len (BigInt digits) = length digits"
| "number_len (Float f) = length (python_float_repr f)"

fun encoded_len :: "json \<Rightarrow> nat" where
  "encoded_len Null = 4"
| "encoded_len (Bool b) = (if b then 4 else 5)"
| "encoded_len (Number n) = number_len n"
| "encoded_len (String s) = string_len s"
| "encoded_len (Array items) = 2 + (length items - 1) + sum_list (map encoded_len items)"
| "encoded_len (Object ms) =
     2 + (length ms - 1) + sum_list (map (\<lambda>m. string_len (fst m) + 1 + encoded_len (snd m)) ms)"

section \<open>Agreement\<close>

lemma signed_pad3_pad2: "signed_pad3 i = (if i < 0 then ''-'' else ''+'') @ pad2 (nat \<bar>i\<bar>)"
  by (simp add: signed_pad3_def pad2_def Let_def)

lemma float_reprs_agree: "python_float_repr f = float_repr f"
proof (cases "shortest f")
  case (Pair digits exponent)
  have range: "(-4 < exponent + 1 \<and> exponent + 1 \<le> 16) = (-4 \<le> exponent \<and> exponent < 16)" by auto
  show ?thesis
    by (simp only: python_float_repr_def float_repr_def positional_def Pair Let_def prod.case range signed_pad3_pad2) simp
qed

lemma length_joined: "length (joined [a] xs) = (length xs - 1) + sum_list (map length xs)"
  by (induction "[a]" xs rule: joined.induct) auto

lemma code_point_single: "code_point [a] = of_char a"
  by simp

text \<open>A character the writer copies when it must escape is one byte: printable ASCII is no prefix of another character.\<close>

definition well_formed :: "string \<Rightarrow> bool" where
  "well_formed s \<longleftrightarrow> (\<forall>ch\<in>set (chars s). length ch = 1 \<or> 0x80 \<le> code_point ch)"

lemma length_write_char:
  assumes "length ch = 1 \<or> 0x80 \<le> code_point ch"
  shows "length (write_char True ch) = char_len ch"
proof -
  have "length (concat (map push_escape (utf16 p))) = (if p < 0x10000 then 6 else 12)" for p
    by (simp add: utf16_def push_escape_def hex4_def)
  moreover have "length (push_escape p) = 6" for p by (simp add: push_escape_def hex4_def)
  ultimately show ?thesis using assms by (auto simp: write_char_def char_len_def Let_def)
qed

lemma length_write_string: "well_formed s \<Longrightarrow> length (write_string s True) = string_len s"
proof -
  assume "well_formed s"
  then have "map (\<lambda>ch. length (write_char True ch)) (chars s) = map char_len (chars s)"
    by (simp add: well_formed_def length_write_char)
  then have "sum_list (map (\<lambda>ch. length (write_char True ch)) (chars s)) = sum_list (map char_len (chars s))"
    by (rule arg_cong)
  then show ?thesis by (simp add: write_string_def string_len_def length_concat comp_def)
qed

text \<open>Every text of a value is a well-formed Rust \<open>String\<close>.\<close>

fun texts_ok :: "json \<Rightarrow> bool" where
  "texts_ok (String s) = well_formed s"
| "texts_ok (Array vs) = (\<forall>v\<in>set vs. texts_ok v)"
| "texts_ok (Object ms) = (\<forall>m\<in>set ms. well_formed (fst m) \<and> texts_ok (snd m))"
| "texts_ok _ = True"

definition ASCII_COMPACT :: options where
  "ASCII_COMPACT = \<lparr>ensure_ascii = True, sort_keys = False, compact = True\<rparr>"

lemma encoded_len_dumps: "texts_ok v \<Longrightarrow> length (dumps ASCII_COMPACT v) = encoded_len v"
proof (induction v rule: encoded_len.induct)
  case (3 n)
  then show ?case by (cases n) (simp_all add: float_reprs_agree)
next
  case (5 items)
  have "map (length \<circ> dumps ASCII_COMPACT) items = map encoded_len items" using 5 by simp
  then show ?case by (simp add: length_joined item_separator_def ASCII_COMPACT_def del: map_eq_conv)
next
  case (6 ms)
  have "map (\<lambda>m. length (write_string (fst m) True) + 1 + length (dumps ASCII_COMPACT (snd m))) ms
      = map (\<lambda>m. string_len (fst m) + 1 + encoded_len (snd m)) ms"
    using 6 by (auto simp: length_write_string)
  then have "sum_list (map (\<lambda>m. length (write_string (fst m) True) + 1 + length (dumps ASCII_COMPACT (snd m))) ms)
      = sum_list (map (\<lambda>m. string_len (fst m) + 1 + encoded_len (snd m)) ms)" by (rule arg_cong)
  then show ?case
    by (simp add: length_joined item_separator_def ASCII_COMPACT_def Let_def comp_def add.assoc del: map_eq_conv)
qed (simp_all add: length_write_string ASCII_COMPACT_def)

section \<open>Canonical text\<close>

text \<open>The same value up to the order of members, at any depth.\<close>

inductive reordered :: "json \<Rightarrow> json \<Rightarrow> bool" where
  refl: "reordered v v"
| array: "list_all2 reordered vs ws \<Longrightarrow> reordered (Array vs) (Array ws)"
| object: "list_all2 (\<lambda>m n. fst m = fst n \<and> reordered (snd m) (snd n)) ms ns \<Longrightarrow> mset ns = mset ks \<Longrightarrow>
    reordered (Object ms) (Object ks)"

lemma sort_key_mset:
  assumes "distinct (map fst xs)" "mset xs = mset ys"
  shows "sort_key fst xs = sort_key fst ys"
proof (rule map_sorted_distinct_set_unique)
  have "mset (map fst xs) = mset (map fst ys)" using assms(2) by simp
  then have "distinct (map fst ys)" using assms(1) mset_eq_imp_distinct_iff by blast
  then show "distinct (map fst (sort_key fst ys))" "distinct (map fst (sort_key fst xs))"
    using assms(1) by (simp_all add: distinct_map)
  show "set (sort_key fst xs) = set (sort_key fst ys)" using mset_eq_setD [OF assms(2)] by simp
  then show "inj_on fst (set (sort_key fst xs) \<union> set (sort_key fst ys))"
    using assms(1) by (simp add: distinct_map)
qed simp_all

lemma reordered_dumps: "reordered v w \<Longrightarrow> value_ok v \<Longrightarrow> sort_keys opts \<Longrightarrow> dumps opts v = dumps opts w"
proof (induction rule: reordered.induct)
  case (array vs ws)
  have "map (dumps opts) vs = map (dumps opts) ws"
    using array by (auto simp: list_all2_conv_all_nth intro!: nth_equalityI)
  then show ?case by simp
next
  case (object ms ns ks)
  let ?w = "\<lambda>m. (fst m, dumps opts (snd m))"
  have ok: "value_ok (snd (ms ! i))" if "i < length ms" for i using object.prems(1) that by auto
  have written: "map ?w ms = map ?w ns"
    using object.hyps object.IH ok object.prems(2) by (auto simp: list_all2_conv_all_nth intro!: nth_equalityI)
  have "distinct (map fst (map ?w ns))"
    using object.prems(1) unfolding written [symmetric] by (simp add: comp_def)
  moreover have "mset (map ?w ns) = mset (map ?w ks)" using object.hyps by simp
  ultimately have "sort_key fst (map ?w ns) = sort_key fst (map ?w ks)" by (rule sort_key_mset)
  then have "sort_key fst (map ?w ms) = sort_key fst (map ?w ks)" using written by simp
  then show ?case using object.prems(2) by (simp add: Let_def)
qed simp

section \<open>Properties\<close>

text \<open>
  C8 The schema crate's length, computed without writing anything, is the length of the text Python's compact
  \<open>json.dumps\<close> with ASCII escapes writes, floats included.
\<close>

theorem encoded_len_exact:
  assumes "texts_ok v"
  shows "encoded_len v = length (dumps ASCII_COMPACT v)"
  using encoded_len_dumps [OF assms] by simp

theorem encoded_len_exact_witness:
  "(let v = Object [(''a'', Array [Null, String [CHR 0x0A]]), (''b'', Number (Integer (-5)))]
    in encoded_len v = length (dumps ASCII_COMPACT v) \<and> encoded_len v = 24)"
proof -
  let ?v = "Object [(''a'', Array [Null, String [CHR 0x0A]]), (''b'', Number (Integer (-5)))]"
  have "texts_ok ?v" by code_simp
  moreover have "encoded_len ?v = 24" by code_simp
  ultimately show ?thesis using encoded_len_exact [of ?v] by (simp only: Let_def)
qed

text \<open>
  The canonical text of a value does not depend on the order of members, at any depth.
\<close>

theorem canonical_order_free:
  assumes "value_ok v" "reordered v w"
  shows "canonical v = canonical w"
  using reordered_dumps [OF assms(2,1)] by (simp add: canonical_def CANONICAL_def)

theorem canonical_order_free_witness:
  "canonical (Object [(''b'', Null), (''a'', Bool True)]) = canonical (Object [(''a'', Bool True), (''b'', Null)])"
proof -
  have "reordered (Object [(''b'', Null), (''a'', Bool True)]) (Object [(''a'', Bool True), (''b'', Null)])"
    by (rule reordered.object [of _ "[(''b'', Null), (''a'', Bool True)]"]) (simp_all add: reordered.refl)
  then show ?thesis by (intro canonical_order_free) simp_all
qed

end
