(* ===== verification/Admission.thy ===== *)
theory Admission
  imports Validity Encode "HOL-Library.AList"
begin

text \<open>
  The one admission predicate of an Action's schema (\<open>protocol/action-schema/src/admission.rs\<close>): the root, the value and
  byte bounds, the walk that admits each subschema and its patterns, the reference expansion and the closed objects.
  Validity against the Draft 2020-12 meta-schema (\<open>meta.rs\<close>) is the parameter \<open>meta_valid\<close>, the pattern syntax the
  parameter \<open>parse\<close>.  The map of preparations is an association list whose order no result depends on.
\<close>

section \<open>The refusals and limits\<close>

datatype refusal =
    Not_an_object | Too_large | Invalid_schema | Reference | Dialect | Nested_identifier | Unevaluated_properties
  | Pattern_refused | Preparation | Too_deep | Cycle | Expanded | Open_object | Boolean_subschema

definition MAX_NODES :: nat where "MAX_NODES = 4096"
definition MAX_BYTES :: nat where "MAX_BYTES = 128 * 1024"
definition MAX_EXPANDED_SUBSCHEMAS :: nat where "MAX_EXPANDED_SUBSCHEMAS = 4096"
definition MAX_SUBSCHEMA_DEPTH :: nat where "MAX_SUBSCHEMA_DEPTH = 32"

definition DRAFT_2020_12 :: string where
  "DRAFT_2020_12 = ''https://json-schema.org/draft/2020-12/schema''"

lemmas schema_limits = MAX_NODES_def MAX_BYTES_def MAX_EXPANDED_SUBSCHEMAS_def MAX_SUBSCHEMA_DEPTH_def

section \<open>Each subschema\<close>

definition local_reference :: "string \<Rightarrow> bool" where
  "local_reference reference \<longleftrightarrow> reference = ''#'' \<or>
     list_ex (\<lambda>prefix.
         case strip_prefix prefix reference of
           Some name \<Rightarrow> name \<noteq> [] \<and> CHR ''/'' \<notin> set name \<and> CHR ''%'' \<notin> set name
         | None \<Rightarrow> False)
       [''#/$defs/'', ''#/definitions/'']"

definition node_admitted :: "json \<Rightarrow> bool \<Rightarrow> refusal + unit" where
  "node_admitted node nested =
     (let reference_admitted =
            (case get node ''$ref'' of None \<Rightarrow> True | Some (String reference) \<Rightarrow> local_reference reference | Some _ \<Rightarrow> False)
      in if \<not> reference_admitted \<or> get node ''$dynamicRef'' \<noteq> None then Inl Reference
         else if (case get node ''$schema'' of None \<Rightarrow> False | Some dialect \<Rightarrow> dialect \<noteq> String DRAFT_2020_12) then Inl Dialect
         else if nested \<and> get node ''$id'' \<noteq> None then Inl Nested_identifier
         else if get node ''unevaluatedProperties'' \<noteq> None then Inl Unevaluated_properties
         else Inr ())"

type_synonym preparations = "(string \<times> nat) list"

definition node_patterns :: "json \<Rightarrow> string list" where
  "node_patterns node =
     (case get node ''pattern'' of Some (String pattern) \<Rightarrow> [pattern] | _ \<Rightarrow> [])
     @ (case get node ''patternProperties'' of None \<Rightarrow> [] | Some table \<Rightarrow> map fst (members table))"

fun record_patterns :: "(string \<Rightarrow> ast option) \<Rightarrow> string list \<Rightarrow> preparations \<Rightarrow> refusal + preparations" where
  "record_patterns parse [] preparations = Inr preparations"
| "record_patterns parse (pattern # patterns) preparations =
     (case pattern_preparation parse pattern of
        None \<Rightarrow> Inl Pattern_refused
      | Some preparation \<Rightarrow> record_patterns parse patterns (AList.update pattern preparation preparations))"

definition patterns_admitted :: "(string \<Rightarrow> ast option) \<Rightarrow> json \<Rightarrow> preparations \<Rightarrow> refusal + preparations" where
  "patterns_admitted parse node preparations = record_patterns parse (node_patterns node) preparations"

definition legacy :: "json \<Rightarrow> json list" where
  "legacy node = (case get node ''dependencies'' of None \<Rightarrow> [] | Some table \<Rightarrow> map snd (members table))"

section \<open>The walk\<close>

text \<open>
  Every keyword the walk descends through names a member of its own, so what a node pushes holds fewer values than the
  node: both loops of this theory end by the number of values still to visit.
\<close>

lemma keyword_sum:
  "distinct ks \<Longrightarrow> sum_list (map f (List.map_filter (map_of ms) ks)) \<le> sum_list (map (\<lambda>m. f (snd m)) ms)" for f :: "json \<Rightarrow> nat"
proof (induction ms)
  case Nil
  have "List.map_filter (map_of []) ks = ([] :: json list)" by (induction ks) (simp_all add: List.map_filter_simps)
  then show ?case by simp
next
  case (Cons m ms)
  obtain n v where m: "m = (n, v)" by (cases m)
  have skip: "List.map_filter (map_of ((n, v) # ms)) ks = List.map_filter (map_of ms) ks" if "n \<notin> set ks" for ks
    using that by (induction ks) (auto simp: List.map_filter_simps split: option.split)
  have "sum_list (map f (List.map_filter (map_of (m # ms)) ks))
      \<le> f v + sum_list (map f (List.map_filter (map_of ms) ks))" using Cons.prems
  proof (induction ks)
    case (Cons k ks)
    then show ?case using skip [of ks] by (cases "k = n") (auto simp: m List.map_filter_simps fun_upd_def split: option.splits)
  qed (simp add: List.map_filter_simps)
  then show ?case using Cons m by (simp add: fun_upd_def)
qed

lemma keywords_below:
  "distinct ks \<Longrightarrow> sum_list (map node_count (List.map_filter (get v) ks)) < node_count v"
proof (cases v)
  case (Object ms)
  assume "distinct ks"
  then show ?thesis using keyword_sum [of ks node_count ms] Object
    by (simp add: get.simps(1) [abs_def] less_Suc_eq_le)
qed (auto simp: List.map_filter_def)

lemma sum_elements: "sum_list (map node_count (concat (map elements vs))) \<le> sum_list (map node_count vs)"
proof (induction vs)
  case (Cons v vs)
  have "sum_list (map node_count (elements v)) \<le> node_count v" by (cases v) auto
  then show ?case using Cons by simp
qed simp

lemma sum_members: "sum_list (map node_count (concat (map (\<lambda>m. map snd (members m)) vs))) \<le> sum_list (map node_count vs)"
proof (induction vs)
  case (Cons v vs)
  have "sum_list (map node_count (map snd (members v))) \<le> node_count v" by (cases v) (auto simp: comp_def)
  then show ?case using Cons by simp
qed simp

lemma applied_legacy_below: "sum_list (map node_count (applied v)) + sum_list (map node_count (legacy v)) < node_count v"
proof -
  let ?ks = "APPLICATORS @ LIST_APPLICATORS @ MAP_APPLICATORS @ [''dependencies'']"
  have split: "List.map_filter f (xs @ ys) = List.map_filter f xs @ List.map_filter f ys" for f :: "string \<Rightarrow> json option" and xs ys
    by (induction xs) (auto simp: List.map_filter_simps split: option.splits)
  have d: "distinct ?ks" by code_simp
  have "legacy v = concat (map (\<lambda>m. map snd (members m)) (List.map_filter (get v) [''dependencies'']))"
    by (auto simp: legacy_def List.map_filter_simps split: option.splits)
  then show ?thesis
    using keywords_below [OF d, of v] sum_elements [of "List.map_filter (get v) LIST_APPLICATORS"]
      sum_members [of "List.map_filter (get v) MAP_APPLICATORS"] sum_members [of "List.map_filter (get v) [''dependencies'']"]
    by (simp add: applied_def split)
qed

function walked_loop ::
    "(string \<Rightarrow> ast option) \<Rightarrow> preparations \<Rightarrow> (json \<times> nat \<times> bool) list \<Rightarrow> refusal + preparations" where
  "walked_loop parse preparations [] = Inr preparations"
| "walked_loop parse preparations ((node, level, is_applied) # pending) =
     (if \<not> is_object node then walked_loop parse preparations pending
      else if level > MAX_SUBSCHEMA_DEPTH then Inl Too_deep
      else case (if is_applied then node_admitted node (0 < level) else Inr ()) of
             Inl refusal \<Rightarrow> Inl refusal
           | Inr _ \<Rightarrow>
               (case patterns_admitted parse node preparations of
                  Inl refusal \<Rightarrow> Inl refusal
                | Inr preparations \<Rightarrow>
                    walked_loop parse preparations
                      (rev (map (\<lambda>child. (child, level + 1, False)) (legacy node))
                       @ rev (map (\<lambda>child. (child, level + 1, is_applied)) (applied node)) @ pending)))"
  by pat_completeness auto
termination
proof (relation "measure (\<lambda>(parse, preparations, pending). sum_list (map (\<lambda>p. node_count (fst p)) pending))", goal_cases)
  case (3 parse preparations node level is_applied pending x2 x2a)
  then show ?case using applied_legacy_below [of node] by (simp add: sum_list_rev comp_def flip: rev_map)
qed simp_all

definition walked :: "(string \<Rightarrow> ast option) \<Rightarrow> json \<Rightarrow> refusal + preparations" where
  "walked parse schema = walked_loop parse [] [(schema, 0, True)]"

section \<open>Closed objects\<close>

definition CLOSED_APPLICATORS :: "string list" where
  "CLOSED_APPLICATORS =
     [''additionalProperties'', ''propertyNames'', ''items'', ''contains'', ''not'', ''if'', ''then'', ''else'']"

definition CLOSED_MAP_APPLICATORS :: "string list" where
  "CLOSED_MAP_APPLICATORS = [''properties'', ''patternProperties'', ''dependentSchemas'', ''$defs'', ''definitions'']"

definition OBJECT_KEYWORDS :: "string list" where
  "OBJECT_KEYWORDS =
     [''properties'', ''patternProperties'', ''additionalProperties'', ''required'', ''minProperties'', ''maxProperties'',
      ''dependentRequired'', ''dependentSchemas'', ''propertyNames'']"

definition permits_object :: "json \<Rightarrow> bool" where
  "permits_object node =
     (let untyped = list_ex (\<lambda>keyword. get node keyword \<noteq> None) OBJECT_KEYWORDS
      in case get node ''type'' of
           Some (String kind) \<Rightarrow> kind = ''object''
         | Some (Array kinds) \<Rightarrow> list_ex (\<lambda>kind. kind = String ''object'') kinds
         | None \<Rightarrow> untyped
         | Some Null \<Rightarrow> untyped
         | Some _ \<Rightarrow> False)"

definition closed_child :: "json \<Rightarrow> string \<Rightarrow> json option" where
  "closed_child node keyword =
     (case get node keyword of
        None \<Rightarrow> None
      | Some child \<Rightarrow>
          if child = Null \<or> keyword = ''additionalProperties'' \<and> child = Bool False then None else Some child)"

definition closed_children :: "json \<Rightarrow> json list" where
  "closed_children node =
     List.map_filter (closed_child node) CLOSED_APPLICATORS
     @ concat (map elements (List.map_filter (get node) LIST_APPLICATORS))
     @ concat (map (\<lambda>table. map snd (members table)) (List.map_filter (get node) CLOSED_MAP_APPLICATORS))"

lemma closed_children_below: "sum_list (map node_count (closed_children v)) < node_count v"
proof -
  let ?ks = "CLOSED_APPLICATORS @ LIST_APPLICATORS @ CLOSED_MAP_APPLICATORS"
  have split: "List.map_filter f (xs @ ys) = List.map_filter f xs @ List.map_filter f ys" for f :: "string \<Rightarrow> json option" and xs ys
    by (induction xs) (auto simp: List.map_filter_simps split: option.splits)
  have d: "distinct ?ks" by code_simp
  have fewer: "sum_list (map node_count (List.map_filter (closed_child v) ks)) \<le> sum_list (map node_count (List.map_filter (get v) ks))" for ks
    by (induction ks) (auto simp: List.map_filter_simps closed_child_def split: option.splits)
  show ?thesis
    using keywords_below [OF d, of v] sum_elements [of "List.map_filter (get v) LIST_APPLICATORS"]
      sum_members [of "List.map_filter (get v) CLOSED_MAP_APPLICATORS"] fewer [of CLOSED_APPLICATORS]
    by (simp add: closed_children_def split)
qed

function closed_loop :: "json list \<Rightarrow> refusal + unit" where
  "closed_loop [] = Inr ()"
| "closed_loop (node # pending) =
     (case node of
        Bool _ \<Rightarrow> Inl Boolean_subschema
      | Object _ \<Rightarrow>
          if permits_object node \<and> get node ''additionalProperties'' \<noteq> Some (Bool False) then Inl Open_object
          else closed_loop (rev (closed_children node) @ pending)
      | _ \<Rightarrow> Inl Invalid_schema)"
  by pat_completeness auto
termination
proof (relation "measure (\<lambda>pending. sum_list (map node_count pending))", goal_cases)
  case (2 node pending ms)
  then show ?case using closed_children_below [of node] by (simp add: sum_list_rev flip: rev_map)
qed simp

definition closed :: "json \<Rightarrow> refusal + unit" where
  "closed schema = closed_loop [schema]"

section \<open>Admission\<close>

definition admit_schema :: "(string \<Rightarrow> ast option) \<Rightarrow> (json \<Rightarrow> bool) \<Rightarrow> json \<Rightarrow> refusal + unit" where
  "admit_schema parse meta_valid schema =
     (if get schema ''type'' \<noteq> Some (String ''object'') then Inl Not_an_object
      else if \<not> nodes_within schema MAX_NODES then Inl Too_large
      else if \<not> meta_valid schema then Inl Invalid_schema
      else if encoded_len schema > MAX_BYTES then Inl Too_large
      else case walked parse schema of
             Inl refusal \<Rightarrow> Inl refusal
           | Inr preparations \<Rightarrow>
               if foldl sat_add 0 (map snd preparations) > MAX_PREPARATION_WORK then Inl Preparation
               else case expand schema of
                      None \<Rightarrow> Inl Cycle
                    | Some expansion \<Rightarrow>
                        if subschemas expansion > MAX_EXPANDED_SUBSCHEMAS then Inl Expanded
                        else if depth expansion > MAX_SUBSCHEMA_DEPTH then Inl Too_deep
                        else closed schema)"


section \<open>What the walk admits\<close>

text \<open>The positions the walk visits, each with its level and whether it is applied or only a legacy dependency's.\<close>

definition descends :: "json \<times> nat \<times> bool \<Rightarrow> json \<times> nat \<times> bool \<Rightarrow> bool" where
  "descends p q \<longleftrightarrow>
     q \<in> (\<lambda>child. (child, fst (snd p) + 1, False)) ` set (legacy (fst p)) \<union>
         (\<lambda>child. (child, fst (snd p) + 1, snd (snd p))) ` set (applied (fst p))"

definition position_admitted :: "(string \<Rightarrow> ast option) \<Rightarrow> json \<times> nat \<times> bool \<Rightarrow> bool" where
  "position_admitted parse p \<longleftrightarrow>
     (is_object (fst p) \<longrightarrow> fst (snd p) \<le> MAX_SUBSCHEMA_DEPTH \<and>
       (snd (snd p) \<longrightarrow> node_admitted (fst p) (0 < fst (snd p)) = Inr ()) \<and>
       (\<forall>x\<in>set (node_patterns (fst p)). pattern_preparation parse x \<noteq> None))"

definition reached_patterns :: "(json \<times> nat \<times> bool) set \<Rightarrow> string set" where
  "reached_patterns ps = (\<Union>q\<in>reach_from descends ps. set (node_patterns (fst q)))"

lemma get_not_object: "\<not> is_object v \<Longrightarrow> get v k = None"
  using get_is_object by (cases "get v k") auto

lemma not_object_bare: "\<not> is_object v \<Longrightarrow> applied v = []" "\<not> is_object v \<Longrightarrow> legacy v = []" "\<not> is_object v \<Longrightarrow> node_patterns v = []"
  by (simp_all add: applied_def legacy_def node_patterns_def get_not_object List.map_filter_def)

lemma descends_leaf: "\<not> is_object (fst p) \<Longrightarrow> {q. descends p q} = {}"
  by (simp add: descends_def not_object_bare)

lemma descends_pushed:
  "{q. descends (node, level, a) q} = set (rev (map (\<lambda>child. (child, level + 1, False)) (legacy node))
      @ rev (map (\<lambda>child. (child, level + 1, a)) (applied node)))"
  by (auto simp: descends_def)

lemma record_patterns_iff:
  "(\<exists>r. record_patterns parse xs ps = Inr r) \<longleftrightarrow> (\<forall>x\<in>set xs. pattern_preparation parse x \<noteq> None)"
  by (induction xs arbitrary: ps) (auto split: option.splits)

text \<open>What the table of preparations holds: each of a set of patterns once, with its preparation.\<close>

definition table_of :: "(string \<Rightarrow> ast option) \<Rightarrow> string set \<Rightarrow> preparations \<Rightarrow> bool" where
  "table_of parse X ps \<longleftrightarrow> distinct (map fst ps) \<and> fst ` set ps = X \<and>
     (\<forall>m\<in>set ps. pattern_preparation parse (fst m) = Some (snd m))"

lemma update_members: "m \<in> set (AList.update k v ps) \<Longrightarrow> m = (k, v) \<or> m \<in> set ps"
  by (induction ps) (auto split: if_splits)

lemma table_of_record: "record_patterns parse xs ps = Inr r \<Longrightarrow> table_of parse X ps \<Longrightarrow> table_of parse (X \<union> set xs) r"
proof (induction xs arbitrary: ps X)
  case (Cons x xs)
  then obtain n where n: "pattern_preparation parse x = Some n" "record_patterns parse xs (AList.update x n ps) = Inr r"
    by (auto split: option.splits)
  have "table_of parse (insert x X) (AList.update x n ps)"
    using Cons.prems(2) n(1) update_members
    by (fastforce simp: table_of_def AList.distinct_update AList.dom_update)
  from Cons.IH [OF n(2) this] show ?case by simp
qed simp

lemma walked_loop_iff:
  "(\<exists>r. walked_loop parse ps pending = Inr r) \<longleftrightarrow> (\<forall>q\<in>reach_from descends (set pending). position_admitted parse q)"
proof (induction parse ps pending rule: walked_loop.induct)
  case (2 parse ps node level a pending)
  show ?case
  proof (cases "is_object node")
    case False
    then show ?thesis using 2(1) by (simp add: reach_from_insert descends_leaf position_admitted_def)
  next
    case obj: True
    let ?more = "rev (map (\<lambda>child. (child, level + 1, False)) (legacy node))
      @ rev (map (\<lambda>child. (child, level + 1, a)) (applied node))"
    have reach: "reach_from descends (set ((node, level, a) # pending)) = insert (node, level, a) (reach_from descends (set (?more @ pending)))"
      by (simp only: list.set reach_from_insert descends_pushed set_append Un_assoc)
    have head: "position_admitted parse (node, level, a) \<longleftrightarrow> \<not> MAX_SUBSCHEMA_DEPTH < level \<and>
        (if a then node_admitted node (0 < level) else Inr ()) = Inr () \<and> (\<exists>r. patterns_admitted parse node ps = Inr r)"
      using obj by (auto simp: position_admitted_def patterns_admitted_def record_patterns_iff)
    show ?thesis
    proof (cases "position_admitted parse (node, level, a)")
      case False
      then have "\<not> (\<exists>r. walked_loop parse ps ((node, level, a) # pending) = Inr r)"
        using obj unfolding head by (auto split: sum.splits if_splits)
      then show ?thesis using False unfolding reach by blast
    next
      case True
      then obtain r where r: "\<not> MAX_SUBSCHEMA_DEPTH < level"
        "(if a then node_admitted node (0 < level) else Inr ()) = Inr ()" "patterns_admitted parse node ps = Inr r"
        unfolding head by blast
      have step: "walked_loop parse ps ((node, level, a) # pending) = walked_loop parse r (?more @ pending)"
        using obj r by simp
      show ?thesis using 2(2) [OF _ r(1) r(2) r(3)] obj True unfolding step reach by simp
    qed
  qed
qed simp

lemma walked_loop_table:
  "walked_loop parse ps pending = Inr r \<Longrightarrow> table_of parse X ps \<Longrightarrow> table_of parse (X \<union> reached_patterns (set pending)) r"
proof (induction parse ps pending arbitrary: X rule: walked_loop.induct)
  case (1 parse ps)
  then show ?case by (simp add: reached_patterns_def)
next
  case (2 parse ps node level a pending)
  show ?case
  proof (cases "is_object node")
    case False
    then have "reached_patterns (set ((node, level, a) # pending)) = reached_patterns (set pending)"
      by (simp add: reached_patterns_def reach_from_insert descends_leaf not_object_bare)
    then show ?thesis using 2(1) [of X] 2(3,4) False by simp
  next
    case True
    let ?more = "rev (map (\<lambda>child. (child, level + 1, False)) (legacy node))
      @ rev (map (\<lambda>child. (child, level + 1, a)) (applied node))"
    have reach: "reached_patterns (set ((node, level, a) # pending)) = set (node_patterns node) \<union> reached_patterns (set (?more @ pending))"
      by (simp only: reached_patterns_def list.set reach_from_insert descends_pushed set_append Un_assoc UN_insert fst_conv)
    obtain r' where r': "\<not> MAX_SUBSCHEMA_DEPTH < level"
        "(if a then node_admitted node (0 < level) else Inr ()) = Inr ()" "patterns_admitted parse node ps = Inr r'"
      and rest: "walked_loop parse r' (rev (map (\<lambda>child. (child, level + 1, False)) (legacy node))
        @ rev (map (\<lambda>child. (child, level + 1, a)) (applied node)) @ pending) = Inr r"
      using 2(3) True by (auto split: if_splits sum.splits)
    have "table_of parse (X \<union> set (node_patterns node)) r'"
      using table_of_record r'(3) 2(4) by (simp add: patterns_admitted_def)
    then show ?thesis using 2(2) [OF _ r'(1) r'(2) r'(3) rest, of "X \<union> set (node_patterns node)"] True unfolding reach by (simp add: Un_assoc)
  qed
qed

section \<open>What closed objects are\<close>

definition closes :: "json \<Rightarrow> json \<Rightarrow> bool" where
  "closes p q \<longleftrightarrow> q \<in> set (closed_children p)"

definition node_closed :: "json \<Rightarrow> bool" where
  "node_closed node \<longleftrightarrow> is_object node \<and> (permits_object node \<longrightarrow> get node ''additionalProperties'' = Some (Bool False))"

lemma closed_loop_iff: "closed_loop pending = Inr () \<longleftrightarrow> (\<forall>q\<in>reach_from closes (set pending). node_closed q)"
proof (induction pending rule: closed_loop.induct)
  case (2 node pending)
  have reach: "reach_from closes (set (node # pending)) = insert node (reach_from closes (set (rev (closed_children node) @ pending)))"
  proof -
    have "{q. closes node q} = set (closed_children node)" by (simp add: closes_def)
    then show ?thesis by (simp only: list.set reach_from_insert set_append set_rev)
  qed
  show ?case
  proof (cases "node_closed node")
    case False
    then have "closed_loop (node # pending) \<noteq> Inr ()" by (cases node) (auto simp: node_closed_def is_object_def)
    then show ?thesis using False unfolding reach by blast
  next
    case True
    then obtain ms where node: "node = Object ms" by (auto simp: node_closed_def is_object_iff)
    have ok: "\<not> (permits_object node \<and> get node ''additionalProperties'' \<noteq> Some (Bool False))"
      using True by (auto simp: node_closed_def)
    have "closed_loop (node # pending) = closed_loop (rev (closed_children node) @ pending)"
      using ok by (auto simp: node)
    then show ?thesis using 2 [OF node ok] True unfolding reach by simp
  qed
qed simp

section \<open>What admission says\<close>

lemma table_sum: "table_of parse X ps \<Longrightarrow> sum_list (map snd ps) = (\<Sum>x\<in>X. the (pattern_preparation parse x))"
proof -
  assume t: "table_of parse X ps"
  then have "map snd ps = map (\<lambda>x. the (pattern_preparation parse x)) (map fst ps)"
    by (auto simp: table_of_def)
  moreover have "distinct (map fst ps)" "set (map fst ps) = X" using t by (simp_all add: table_of_def)
  ultimately show ?thesis by (simp only: sum_list_distinct_conv_sum_set)
qed

definition schema_patterns :: "json \<Rightarrow> string set" where
  "schema_patterns schema = reached_patterns {(schema, 0, True)}"

lemma walked_table: "walked parse schema = Inr r \<Longrightarrow> table_of parse (schema_patterns schema) r"
  using walked_loop_table [of parse "[]" "[(schema, 0, True)]" r "{}"]
  by (simp add: walked_def schema_patterns_def table_of_def)

lemma walked_iff: "(\<exists>r. walked parse schema = Inr r) \<longleftrightarrow> (\<forall>q\<in>reach_from descends {(schema, 0, True)}. position_admitted parse q)"
  using walked_loop_iff [of parse "[]" "[(schema, 0, True)]"] by (simp add: walked_def)

lemma closed_iff: "closed schema = Inr () \<longleftrightarrow> (\<forall>q\<in>reach_from closes {schema}. node_closed q)"
  using closed_loop_iff [of "[schema]"] by (simp add: closed_def)

lemma unit_sum: "r = Inr () \<longleftrightarrow> (\<exists>u. r = Inr u)" for r :: "'a + unit"
  by auto

lemma admit_schema_cases:
  "admit_schema parse meta_valid schema = Inr () \<longleftrightarrow>
    get schema ''type'' = Some (String ''object'') \<and> node_count schema \<le> MAX_NODES \<and> meta_valid schema \<and>
    encoded_len schema \<le> MAX_BYTES \<and>
    (\<exists>r. walked parse schema = Inr r \<and> foldl sat_add 0 (map snd r) \<le> MAX_PREPARATION_WORK) \<and>
    (\<exists>e. expand schema = Some e \<and> subschemas e \<le> MAX_EXPANDED_SUBSCHEMAS \<and> depth e \<le> MAX_SUBSCHEMA_DEPTH) \<and>
    closed schema = Inr ()"
proof -
  have "nodes_within schema MAX_NODES \<longleftrightarrow> node_count schema \<le> MAX_NODES"
    using nodes_loop_count [of MAX_NODES 0 "[schema]"] by (simp add: nodes_within_def)
  then show ?thesis
    by (cases "walked parse schema"; cases "expand schema") (auto simp: admit_schema_def)
qed

lemma preparations_within: "walked parse schema = Inr r \<Longrightarrow>
  foldl sat_add 0 (map snd r) \<le> MAX_PREPARATION_WORK \<longleftrightarrow>
  (\<Sum>x\<in>schema_patterns schema. the (pattern_preparation parse x)) \<le> MAX_PREPARATION_WORK"
  using table_sum [OF walked_table [of parse schema r]]
  by (auto simp: foldl_sat_add u64_max_def MAX_PREPARATION_WORK_def MAX_PATTERN_WORK_def min_def)

lemma schema_pattern_prepared:
  assumes "walked parse schema = Inr r" "x \<in> schema_patterns schema"
  shows "pattern_preparation parse x \<noteq> None"
proof -
  have "x \<in> fst ` set r" using walked_table [OF assms(1)] assms(2) by (simp add: table_of_def)
  then obtain m where "m \<in> set r" "fst m = x" by blast
  then show ?thesis using walked_table [OF assms(1)] by (auto simp: table_of_def)
qed

lemma finite_schema_patterns:
  assumes "walked parse schema = Inr r"
  shows "finite (schema_patterns schema)"
proof -
  have "schema_patterns schema = fst ` set r" using walked_table [OF assms] by (simp add: table_of_def)
  then show ?thesis by simp
qed

section \<open>Properties\<close>

text \<open>Two admitted schemas for the witnesses, the second with a pattern.\<close>

definition patterned_schema :: json where
  "patterned_schema =
     Object [(''type'', String ''object''), (''patternProperties'', Object [(''a{1,3}'', Object [(''type'', String ''string'')])]),
       (''additionalProperties'', Bool False)]"

lemma sample_sizes: "encoded_len sample_schema = 96" "node_count sample_schema = 8"
  "encoded_len patterned_schema = 95" "node_count patterned_schema = 6"
  by code_simp+

lemma sample_walked: "walked sample_parse sample_schema = Inr []" "closed sample_schema = Inr ()" "closed patterned_schema = Inr ()"
  by code_simp+

lemma patterned_expand: "expand patterned_schema = Some \<lparr>subschemas = 3, depth = 1\<rparr>"
  by code_simp

lemma patterned_walked: "walked sample_parse patterned_schema = Inr [(''a{1,3}'', 76800)]"
proof -
  let ?leaf = "Object [(''type'', String ''string'')]"
  have top: "node_admitted patterned_schema False = Inr ()" "node_patterns patterned_schema = [''a{1,3}'']"
    "legacy patterned_schema = []" "applied patterned_schema = [Bool False, ?leaf]" "is_object patterned_schema"
    by code_simp+
  have leaf: "node_admitted ?leaf True = Inr ()" "node_patterns ?leaf = []" "legacy ?leaf = []" "applied ?leaf = []"
    "is_object ?leaf" "\<not> is_object (Bool False)"
    by code_simp+
  have "pattern_preparation sample_parse ''a{1,3}'' = Some 76800" using sample_costs by (simp add: pattern_preparation_def)
  then show ?thesis by (simp add: walked_def patterns_admitted_def top leaf MAX_SUBSCHEMA_DEPTH_def)
qed

lemma sample_admitted: "admit_schema sample_parse (\<lambda>_. True) sample_schema = Inr ()"
  unfolding admit_schema_cases using sample_sizes sample_walked sample_schema_expand
  by (simp add: schema_limits sample_schema_def [THEN arg_cong [where f = "\<lambda>s. get s ''type''"]])

lemma patterned_admitted: "admit_schema sample_parse (\<lambda>_. True) patterned_schema = Inr ()"
  unfolding admit_schema_cases using sample_sizes sample_walked patterned_walked patterned_expand
  by (simp add: schema_limits patterned_schema_def [THEN arg_cong [where f = "\<lambda>s. get s ''type''"]]
      foldl_sat_add u64_max_def MAX_PREPARATION_WORK_def MAX_PATTERN_WORK_def)

section \<open>The rules of admission\<close>

text \<open>
  The rules as the document of the schema dialect states them, by the keywords a subschema may stand under: each subschema with its
  level below the root and whether it applies (the legacy \<open>dependencies\<close> apply nothing), the patterns it states, the references
  and identifiers it may declare, and the positions at which every object must be closed.
\<close>

inductive stands_at :: "json \<Rightarrow> json \<Rightarrow> nat \<Rightarrow> bool \<Rightarrow> bool" for schema where
  root_stands: "stands_at schema schema 0 True"
| under_keyword: "stands_at schema node level live \<Longrightarrow> get node keyword = Some child \<Longrightarrow>
    keyword \<in> {''additionalProperties'', ''contains'', ''contentSchema'', ''else'', ''if'', ''items'', ''not'', ''propertyNames'',
      ''then'', ''unevaluatedItems'', ''unevaluatedProperties''} \<Longrightarrow> stands_at schema child (level + 1) live"
| in_list: "stands_at schema node level live \<Longrightarrow> get node keyword = Some (Array listed) \<Longrightarrow>
    keyword \<in> {''allOf'', ''anyOf'', ''oneOf'', ''prefixItems''} \<Longrightarrow> child \<in> set listed \<Longrightarrow> stands_at schema child (level + 1) live"
| in_table: "stands_at schema node level live \<Longrightarrow> get node keyword = Some (Object table) \<Longrightarrow>
    keyword \<in> {''$defs'', ''definitions'', ''dependentSchemas'', ''patternProperties'', ''properties''} \<Longrightarrow> (entry, child) \<in> set table \<Longrightarrow>
    stands_at schema child (level + 1) live"
| legacy_dependency: "stands_at schema node level live \<Longrightarrow> get node ''dependencies'' = Some (Object table) \<Longrightarrow> (entry, child) \<in> set table \<Longrightarrow>
    stands_at schema child (level + 1) False"

inductive closed_position :: "json \<Rightarrow> json \<Rightarrow> bool" for schema where
  root_closed: "closed_position schema schema"
| closed_keyword: "closed_position schema node \<Longrightarrow> get node keyword = Some child \<Longrightarrow> child \<noteq> Null \<Longrightarrow>
    keyword \<in> {''propertyNames'', ''items'', ''contains'', ''not'', ''if'', ''then'', ''else''} \<or>
      keyword = ''additionalProperties'' \<and> child \<noteq> Bool False \<Longrightarrow> closed_position schema child"
| closed_list: "closed_position schema node \<Longrightarrow> get node keyword = Some (Array listed) \<Longrightarrow>
    keyword \<in> {''allOf'', ''anyOf'', ''oneOf'', ''prefixItems''} \<Longrightarrow> child \<in> set listed \<Longrightarrow> closed_position schema child"
| closed_table: "closed_position schema node \<Longrightarrow> get node keyword = Some (Object table) \<Longrightarrow>
    keyword \<in> {''properties'', ''patternProperties'', ''dependentSchemas'', ''$defs'', ''definitions''} \<Longrightarrow> (entry, child) \<in> set table \<Longrightarrow>
    closed_position schema child"

inductive_cases stands_atE: "stands_at schema node level live"
inductive_cases closed_positionE: "closed_position schema node"

definition states_pattern :: "json \<Rightarrow> string \<Rightarrow> bool" where
  "states_pattern node words \<longleftrightarrow> get node ''pattern'' = Some (String words) \<or>
     (\<exists>table child. get node ''patternProperties'' = Some (Object table) \<and> (words, child) \<in> set table)"

definition names_definition :: "string \<Rightarrow> bool" where
  "names_definition target \<longleftrightarrow> target = ''#'' \<or>
     (\<exists>name. (target = ''#/$defs/'' @ name \<or> target = ''#/definitions/'' @ name) \<and> name \<noteq> [] \<and> set name \<inter> {CHR ''/'', CHR ''%''} = {})"

definition keeps_rules :: "json \<Rightarrow> nat \<Rightarrow> bool" where
  "keeps_rules node level \<longleftrightarrow>
     (\<forall>v. get node ''$ref'' = Some v \<longrightarrow> (\<exists>target. v = String target \<and> names_definition target)) \<and> get node ''$dynamicRef'' = None \<and>
     (\<forall>v. get node ''$schema'' = Some v \<longrightarrow> v = String ''https://json-schema.org/draft/2020-12/schema'') \<and>
     (get node ''$id'' = None \<or> level = 0) \<and> get node ''unevaluatedProperties'' = None"

text \<open>A subschema may describe an object when its type admits one, or when it has no type and uses a keyword of objects.\<close>

definition may_describe_object :: "json \<Rightarrow> bool" where
  "may_describe_object node \<longleftrightarrow>
     get node ''type'' = Some (String ''object'') \<or>
     (\<exists>kinds. get node ''type'' = Some (Array kinds) \<and> String ''object'' \<in> set kinds) \<or>
     get node ''type'' \<in> {None, Some Null} \<and>
     (\<exists>keyword\<in>{''properties'', ''patternProperties'', ''additionalProperties'', ''required'', ''minProperties'', ''maxProperties'',
        ''dependentRequired'', ''dependentSchemas'', ''propertyNames''}. get node keyword \<noteq> None)"

lemma map_filter_member: "x \<in> set (List.map_filter f ks) \<longleftrightarrow> (\<exists>k\<in>set ks. f k = Some x)"
  by (induction ks) (auto simp: List.map_filter_simps split: option.splits)

lemma keyword_member:
  "x \<in> set (concat (map f (List.map_filter (get node) ks))) \<longleftrightarrow> (\<exists>k\<in>set ks. \<exists>v. get node k = Some v \<and> x \<in> set (f v))"
  by (induction ks) (auto simp: List.map_filter_simps split: option.splits)

lemma listed_in: "x \<in> set (elements v) \<longleftrightarrow> (\<exists>vs. v = Array vs \<and> x \<in> set vs)"
  by (cases v) auto

lemma tabled_in: "x \<in> set (map snd (members v)) \<longleftrightarrow> (\<exists>ms e. v = Object ms \<and> (e, x) \<in> set ms)"
  by (cases v) force+

lemma keyword_sets:
  "set APPLICATORS = {''additionalProperties'', ''contains'', ''contentSchema'', ''else'', ''if'', ''items'', ''not'', ''propertyNames'',
      ''then'', ''unevaluatedItems'', ''unevaluatedProperties''}"
  "set LIST_APPLICATORS = {''allOf'', ''anyOf'', ''oneOf'', ''prefixItems''}"
  "set MAP_APPLICATORS = {''$defs'', ''definitions'', ''dependentSchemas'', ''patternProperties'', ''properties''}"
  "set CLOSED_APPLICATORS = insert ''additionalProperties'' {''propertyNames'', ''items'', ''contains'', ''not'', ''if'', ''then'', ''else''}"
  "set CLOSED_MAP_APPLICATORS = {''properties'', ''patternProperties'', ''dependentSchemas'', ''$defs'', ''definitions''}"
  by (simp_all only: APPLICATORS_def LIST_APPLICATORS_def MAP_APPLICATORS_def CLOSED_APPLICATORS_def CLOSED_MAP_APPLICATORS_def list.set)

lemma in_applied:
  "child \<in> set (applied node) \<longleftrightarrow> (\<exists>k\<in>set APPLICATORS. get node k = Some child) \<or>
     (\<exists>k\<in>set LIST_APPLICATORS. \<exists>vs. get node k = Some (Array vs) \<and> child \<in> set vs) \<or>
     (\<exists>k\<in>set MAP_APPLICATORS. \<exists>ms e. get node k = Some (Object ms) \<and> (e, child) \<in> set ms)"
  unfolding applied_def set_append Un_iff map_filter_member keyword_member listed_in tabled_in by blast

lemma in_legacy: "child \<in> set (legacy node) \<longleftrightarrow> (\<exists>ms e. get node ''dependencies'' = Some (Object ms) \<and> (e, child) \<in> set ms)"
  by (cases "get node ''dependencies''") (simp_all add: legacy_def tabled_in del: set_map)

lemma in_closed_children:
  "child \<in> set (closed_children node) \<longleftrightarrow>
     (\<exists>k\<in>set CLOSED_APPLICATORS. get node k = Some child \<and> child \<noteq> Null \<and> \<not> (k = ''additionalProperties'' \<and> child = Bool False)) \<or>
     (\<exists>k\<in>set LIST_APPLICATORS. \<exists>vs. get node k = Some (Array vs) \<and> child \<in> set vs) \<or>
     (\<exists>k\<in>set CLOSED_MAP_APPLICATORS. \<exists>ms e. get node k = Some (Object ms) \<and> (e, child) \<in> set ms)"
proof -
  have "closed_child node k = Some child \<longleftrightarrow> get node k = Some child \<and> child \<noteq> Null \<and> \<not> (k = ''additionalProperties'' \<and> child = Bool False)" for k
    by (cases "get node k") (simp_all add: closed_child_def, blast?)
  then show ?thesis
    unfolding closed_children_def set_append Un_iff map_filter_member keyword_member listed_in tabled_in by blast
qed

lemma stands_at_descends: "stands_at schema node level live \<longleftrightarrow> descends\<^sup>*\<^sup>* (schema, 0, True) (node, level, live)"
proof
  have down: "descends (node, level, live) (child, level + 1, live)" if "child \<in> set (applied node)" for node child :: json and level live
    using that by (simp add: descends_def)
  show "descends\<^sup>*\<^sup>* (schema, 0, True) (node, level, live)" if "stands_at schema node level live"
    using that
  proof (induction rule: stands_at.induct)
    case (under_keyword node level live k child)
    then have "k \<in> set APPLICATORS" unfolding keyword_sets by blast
    then have "child \<in> set (applied node)" unfolding in_applied using under_keyword by blast
    then show ?case using under_keyword.IH down by (blast intro: rtranclp.rtrancl_into_rtrancl)
  next
    case (in_list node level live k listed child)
    then have "k \<in> set LIST_APPLICATORS" unfolding keyword_sets by blast
    then have "child \<in> set (applied node)" unfolding in_applied using in_list by blast
    then show ?case using in_list.IH down by (blast intro: rtranclp.rtrancl_into_rtrancl)
  next
    case (in_table node level live k ms e child)
    then have "k \<in> set MAP_APPLICATORS" unfolding keyword_sets by blast
    then have "child \<in> set (applied node)" unfolding in_applied using in_table by blast
    then show ?case using in_table.IH down by (blast intro: rtranclp.rtrancl_into_rtrancl)
  next
    case (legacy_dependency node level live ms e child)
    then have "child \<in> set (legacy node)" unfolding in_legacy by blast
    then have "descends (node, level, live) (child, level + 1, False)" by (simp add: descends_def)
    then show ?case using legacy_dependency.IH by (rule rtranclp.rtrancl_into_rtrancl [rotated])
  qed simp
  assume "descends\<^sup>*\<^sup>* (schema, 0, True) (node, level, live)"
  then show "stands_at schema node level live"
  proof (induction "(node, level, live)" arbitrary: node level live rule: rtranclp_induct)
    case base
    then show ?case by (simp add: root_stands)
  next
    case (step p)
    obtain above upper flag where p: "p = (above, upper, flag)" by (cases p)
    have stands: "stands_at schema above upper flag" using step(3) p by blast
    from step(2) consider "node \<in> set (legacy above)" "level = upper + 1" "\<not> live"
      | "node \<in> set (applied above)" "level = upper + 1" "live = flag"
      by (auto simp: p descends_def)
    then show ?case
    proof cases
      case 1
      then show ?thesis using legacy_dependency [OF stands] by (auto simp: in_legacy)
    next
      case 2
      have "stands_at schema node (upper + 1) flag"
        using 2(1) under_keyword [OF stands, folded keyword_sets] in_list [OF stands, folded keyword_sets] in_table [OF stands, folded keyword_sets]
        unfolding in_applied by blast
      then show ?thesis using 2(2,3) by simp
    qed
  qed
qed

lemma closed_position_closes: "closed_position schema node \<longleftrightarrow> closes\<^sup>*\<^sup>* schema node"
proof
  show "closes\<^sup>*\<^sup>* schema node" if "closed_position schema node"
    using that
  proof (induction rule: closed_position.induct)
    case (closed_keyword node k child)
    then have "k \<in> set CLOSED_APPLICATORS" "\<not> (k = ''additionalProperties'' \<and> child = Bool False)" unfolding keyword_sets by auto
    then have "closes node child" unfolding closes_def in_closed_children using closed_keyword by blast
    then show ?case using closed_keyword.IH by (rule rtranclp.rtrancl_into_rtrancl [rotated])
  next
    case (closed_list node k listed child)
    then have "k \<in> set LIST_APPLICATORS" unfolding keyword_sets by blast
    then have "closes node child" unfolding closes_def in_closed_children using closed_list by blast
    then show ?case using closed_list.IH by (rule rtranclp.rtrancl_into_rtrancl [rotated])
  next
    case (closed_table node k ms e child)
    then have "k \<in> set CLOSED_MAP_APPLICATORS" unfolding keyword_sets by blast
    then have "closes node child" unfolding closes_def in_closed_children using closed_table by blast
    then show ?case using closed_table.IH by (rule rtranclp.rtrancl_into_rtrancl [rotated])
  qed simp
  assume "closes\<^sup>*\<^sup>* schema node"
  then show "closed_position schema node"
  proof (induction rule: rtranclp_induct)
    case (step above node)
    have "closed_position schema node" if "k \<in> set CLOSED_APPLICATORS" "get above k = Some node" "node \<noteq> Null"
        "\<not> (k = ''additionalProperties'' \<and> node = Bool False)" for k
    proof (rule closed_keyword [OF step(3) that(2,3)])
      have "k = ''additionalProperties'' \<or> k \<in> {''propertyNames'', ''items'', ''contains'', ''not'', ''if'', ''then'', ''else''}"
        using that(1) unfolding keyword_sets by (rule insertE) (rule disjI1, assumption, rule disjI2, assumption)
      then show "k \<in> {''propertyNames'', ''items'', ''contains'', ''not'', ''if'', ''then'', ''else''} \<or>
          k = ''additionalProperties'' \<and> node \<noteq> Bool False"
        using that(4) by argo
    qed
    then show ?case
      using step(2) closed_list [OF step(3), folded keyword_sets] closed_table [OF step(3), folded keyword_sets]
      unfolding closes_def in_closed_children by blast
  qed (rule root_closed)
qed

lemma states_pattern_iff: "states_pattern node words \<longleftrightarrow> words \<in> set (node_patterns node)"
proof -
  have "words \<in> fst ` set (members v) \<longleftrightarrow> (\<exists>ms child. v = Object ms \<and> (words, child) \<in> set ms)" for v
    by (cases v) force+
  then show ?thesis by (auto simp: states_pattern_def node_patterns_def split: option.splits json.splits)
qed

lemma names_definition_iff: "local_reference target \<longleftrightarrow> names_definition target"
  by (auto simp: local_reference_def names_definition_def strip_prefix_Some split: option.splits)

lemma keeps_rules_iff: "node_admitted node (0 < level) = Inr () \<longleftrightarrow> keeps_rules node level"
  by (auto simp: node_admitted_def keeps_rules_def names_definition_iff DRAFT_2020_12_def Let_def split: option.splits json.splits)

lemma may_describe_object_iff: "permits_object node \<longleftrightarrow> may_describe_object node"
proof -
  have "list_ex (\<lambda>k. get node k \<noteq> None) OBJECT_KEYWORDS \<longleftrightarrow> (\<exists>k\<in>{''properties'', ''patternProperties'', ''additionalProperties'',
      ''required'', ''minProperties'', ''maxProperties'', ''dependentRequired'', ''dependentSchemas'', ''propertyNames''}. get node k \<noteq> None)"
    unfolding list_ex_iff OBJECT_KEYWORDS_def list.set ..
  then show ?thesis
    unfolding permits_object_def may_describe_object_def Let_def by (auto simp: list_ex_iff split: option.splits json.splits)
qed

lemma admitted_positions:
  "(\<forall>q\<in>reach_from descends {(schema, 0, True)}. position_admitted parse q) \<longleftrightarrow>
   (\<forall>node level live. stands_at schema node level live \<and> is_object node \<longrightarrow>
      level \<le> 32 \<and> (live \<longrightarrow> keeps_rules node level) \<and> (\<forall>words. states_pattern node words \<longrightarrow> pattern_preparation parse words \<noteq> None))"
  by (auto simp: reach_from_def stands_at_descends position_admitted_def keeps_rules_iff states_pattern_iff MAX_SUBSCHEMA_DEPTH_def)

lemma stated_patterns: "schema_patterns schema = {words. \<exists>node level live. stands_at schema node level live \<and> states_pattern node words}"
  unfolding schema_patterns_def reached_patterns_def reach_from_def stands_at_descends states_pattern_iff
  by (simp add: set_eq_iff split_paired_Ex)

lemma closed_positions:
  "(\<forall>q\<in>reach_from closes {schema}. node_closed q) \<longleftrightarrow> (\<forall>node. closed_position schema node \<longrightarrow>
     is_object node \<and> (may_describe_object node \<longrightarrow> get node ''additionalProperties'' = Some (Bool False)))"
  by (auto simp: reach_from_def closed_position_closes node_closed_def may_describe_object_iff)

text \<open>
  C9 Admission decides exactly this conjunction: the root is an object schema, valid under the meta-schema, within 4096 values
  and 128 KiB; every subschema lies at most 32 levels down, keeps the reference, dialect, identifier and
  \<open>unevaluatedProperties\<close> rules where it applies, and states only admitted patterns; the preparations of the distinct
  patterns sum to at most half the matching budget; the references expand without a cycle within 4096 subschemas and 32
  levels; and every subschema at a closed position is an object that is closed where it may describe one.
\<close>

theorem admission_exact:
  "admit_schema parse meta_valid schema = Inr () \<longleftrightarrow>
    get schema ''type'' = Some (String ''object'') \<and> node_count schema \<le> 4096 \<and> meta_valid schema \<and>
    encoded_len schema \<le> 128 * 1024 \<and>
    (\<forall>node level live. stands_at schema node level live \<and> is_object node \<longrightarrow>
       level \<le> 32 \<and> (live \<longrightarrow> keeps_rules node level) \<and> (\<forall>words. states_pattern node words \<longrightarrow> pattern_preparation parse words \<noteq> None)) \<and>
    (\<Sum>words | \<exists>node level live. stands_at schema node level live \<and> states_pattern node words.
       the (pattern_preparation parse words)) \<le> 2 ^ 26 \<and>
    (\<exists>e. expands schema ([], schema) e \<and> subschemas e \<le> 4096 \<and> depth e \<le> 32) \<and>
    (\<forall>node. closed_position schema node \<longrightarrow>
       is_object node \<and> (may_describe_object node \<longrightarrow> get node ''additionalProperties'' = Some (Bool False)))"
proof -
  have limits: "MAX_NODES = 4096" "MAX_BYTES = 128 * 1024" "MAX_PREPARATION_WORK = 2 ^ 26" "MAX_EXPANDED_SUBSCHEMAS = 4096" "MAX_SUBSCHEMA_DEPTH = 32"
    by (simp_all add: schema_limits MAX_PREPARATION_WORK_def MAX_PATTERN_WORK_def)
  show ?thesis
    unfolding admit_schema_cases closed_iff expand_expands closed_positions admitted_positions [symmetric] walked_iff [symmetric]
      stated_patterns [symmetric]
    using preparations_within [of parse schema] unfolding limits by blast
qed

theorem admission_exact_witness:
  "keeps_rules sample_schema 0 \<and> get sample_schema ''additionalProperties'' = Some (Bool False)"
proof -
  have "stands_at sample_schema sample_schema 0 True" "closed_position sample_schema sample_schema"
    by (rule root_stands, rule root_closed)
  moreover have "is_object sample_schema" "may_describe_object sample_schema"
    by (simp_all add: sample_schema_def is_object_def may_describe_object_def)
  ultimately show ?thesis using iffD1 [OF admission_exact sample_admitted] by blast
qed

text \<open>
  A payload accepted under an admitted schema is an object that nests at most 32 levels and conforms to the schema, and
  each of its members is declared under \<open>properties\<close> or matches a name of \<open>patternProperties\<close>: admission's closing
  rule is what makes the acceptance closed.
\<close>

theorem admitted_payload_closed:
  assumes "admit_schema parse meta_valid schema = Inr ()" "value_ok schema" "budget_valid e b"
    and "validate_payload_in EVALUATION_FUEL (pattern_matches e) schema payload b = (Inr (), b')"
  shows "is_object payload \<and> conforms EVALUATION_FUEL (engine_answer e) schema payload schema \<and>
    undeclared (engine_answer e) payload schema = []"
proof -
  obtain ex where ex: "expand schema = Some ex" "depth ex \<le> 32"
    and cl: "\<forall>q\<in>reach_from closes {schema}. node_closed q" and ty: "get schema ''type'' = Some (String ''object'')"
    using assms(1) unfolding admit_schema_cases closed_iff by (auto simp: MAX_SUBSCHEMA_DEPTH_def)
  note ok = accepted_conforms [OF assms(3,2) ex assms(4)]
  have "schema \<in> reach_from closes {schema}" by (simp add: reach_from_def)
  then have ap: "get schema ''additionalProperties'' = Some (Bool False)"
    using cl ty by (auto simp: node_closed_def permits_object_def)
  have "conforms (Suc 33) (engine_answer e) schema payload schema" using ok(2) by (simp add: EVALUATION_FUEL_def)
  from conforms_keyword [OF this ap] show ?thesis using ok by (simp add: keyword_holds_def)
qed

theorem admitted_payload_closed_witness: "undeclared (engine_answer sample_engine) sample_payload sample_schema = []"
proof -
  obtain b' where run: "validate_payload_in EVALUATION_FUEL (pattern_matches sample_engine) sample_schema sample_payload fresh_budget
      = (Inr (), b')" using sample_accepted by blast
  from admitted_payload_closed [OF sample_admitted sample_schema_ok budget_valid_fresh run] show ?thesis by simp
qed

text \<open>
  C10 A fresh budget prepares any distinct patterns of an admitted schema that the engine compiles, and keeps at least half
  of itself for the searches: the bound admission sets on preparations is the one the matcher needs.
\<close>

theorem admitted_patterns_prepare:
  assumes "admit_schema (parse_pattern e) meta_valid schema = Inr ()"
    and "distinct patterns" "set patterns \<subseteq> schema_patterns schema" "\<forall>x\<in>set patterns. compile e x \<noteq> None"
  shows "\<exists>b. prepare_all e patterns fresh_budget = (Inr (), b) \<and> MAX_PREPARATION_WORK \<le> remaining b"
proof -
  obtain r where r: "walked (parse_pattern e) schema = Inr r" "foldl sat_add 0 (map snd r) \<le> MAX_PREPARATION_WORK"
    using assms(1) unfolding admit_schema_cases by blast
  let ?prep = "\<lambda>x. the (pattern_preparation (parse_pattern e) x)"
  let ?bound = "\<lambda>x. fst (the (pattern_costs (parse_pattern e) x))"
  have costs: "prepared fresh_budget x = None \<and> compile e x \<noteq> None \<and> pattern_costs (parse_pattern e) x = Some (?bound x, ?prep x)"
    if "x \<in> set patterns" for x
  proof -
    from that assms(3) have "x \<in> schema_patterns schema" by blast
    from schema_pattern_prepared [OF r(1) this] show ?thesis
      using that assms(4) by (cases "pattern_costs (parse_pattern e) x") (auto simp: pattern_preparation_def fresh_budget_def)
  qed
  have "sum_list (map ?prep patterns) = (\<Sum>x\<in>set patterns. ?prep x)" by (rule sum_list_distinct_conv_sum_set) fact
  also have "\<dots> \<le> (\<Sum>x\<in>schema_patterns schema. ?prep x)"
    by (rule sum_mono2) (use finite_schema_patterns [OF r(1)] assms(3) in auto)
  also have "\<dots> \<le> MAX_PREPARATION_WORK" using preparations_within [OF r(1)] r(2) by simp
  finally have half: "sum_list (map ?prep patterns) \<le> MAX_PREPARATION_WORK" .
  then have fits: "sum_list (map ?prep patterns) \<le> remaining fresh_budget"
    by (simp add: fresh_budget_def pattern_constants MAX_PREPARATION_WORK_def MAX_PATTERN_WORK_def)
  have "\<forall>x\<in>set patterns. prepared fresh_budget x = None \<and> compile e x \<noteq> None \<and>
      pattern_costs (parse_pattern e) x = Some (?bound x, ?prep x)" using costs by blast
  from prepare_all_affordable [OF assms(2) this fits] half show ?thesis
    by (auto simp: fresh_budget_def MAX_PREPARATION_WORK_def MAX_PATTERN_WORK_def)
qed

lemma patterned_admitted_engine: "admit_schema (parse_pattern sample_engine) (\<lambda>_. True) patterned_schema = Inr ()"
  using patterned_admitted by (simp add: sample_engine_def)

lemma patterned_patterns: "schema_patterns patterned_schema = {''a{1,3}''}"
  using walked_table [OF patterned_walked] by (simp add: table_of_def)

theorem admitted_patterns_prepare_witness:
  "\<exists>b. prepare_all sample_engine [''a{1,3}''] fresh_budget = (Inr (), b) \<and> MAX_PREPARATION_WORK \<le> remaining b"
  by (rule admitted_patterns_prepare [where e = sample_engine, OF patterned_admitted_engine]) (simp_all add: patterned_patterns sample_compile)

end
