(* ===== verification/Conversation.thy ===== *)
theory Conversation
  imports Encode "HOL-Library.Monad_Syntax"
begin

text \<open>
  A conversation as the Brain keeps it (\<open>runtime/src/conversation.rs\<close>) and its form as strict JSON.  The contract of an
  encoder and its reader is the locale \<open>codec\<close>: what is encoded reads back, and the reader accepts nothing but an
  encoding, up to the order of members.
\<close>

section \<open>Messages\<close>

record tool_call =
  call_id :: string
  call_name :: string
  call_arguments :: json

record invalid_call =
  invalid_id :: string
  invalid_name :: string
  invalid_arguments :: string

record assistant_message =
  turn_id :: string
  turn_text :: string
  turn_calls :: "tool_call list"
  turn_invalid_calls :: "invalid_call list"
  turn_refusal :: bool
  turn_truncated :: bool
  turn_provider :: string
  turn_raw :: "json option"
  turn_attempts :: nat

record tool_message =
  result_id :: string
  result_call_id :: string
  result_name :: string
  result_content :: string
  result_error :: bool

datatype message =
    User string string
  | Assistant assistant_message
  | Tool tool_message

fun message_id :: "message \<Rightarrow> string" where
  "message_id (User ident _) = ident"
| "message_id (Assistant turn) = turn_id turn"
| "message_id (Tool result) = result_id result"

fun assistant :: "message \<Rightarrow> assistant_message option" where
  "assistant (Assistant turn) = Some turn"
| "assistant _ = None"

fun tool :: "message \<Rightarrow> tool_message option" where
  "tool (Tool result) = Some result"
| "tool _ = None"

section \<open>To JSON\<close>

definition call_value :: "tool_call \<Rightarrow> json" where
  "call_value call =
     object [(''id'', String (call_id call)), (''name'', String (call_name call)), (''arguments'', call_arguments call)]"

definition invalid_value :: "invalid_call \<Rightarrow> json" where
  "invalid_value call =
     object [(''id'', String (invalid_id call)), (''name'', String (invalid_name call)),
       (''arguments'', String (invalid_arguments call))]"

definition assistant_value :: "assistant_message \<Rightarrow> json" where
  "assistant_value turn =
     object
       [(''role'', String ''assistant''),
        (''id'', String (turn_id turn)),
        (''text'', String (turn_text turn)),
        (''calls'', Array (map call_value (turn_calls turn))),
        (''invalid_calls'', Array (map invalid_value (turn_invalid_calls turn))),
        (''refusal'', Bool (turn_refusal turn)),
        (''truncated'', Bool (turn_truncated turn)),
        (''provider'', String (turn_provider turn)),
        (''raw'', case turn_raw turn of Some raw \<Rightarrow> raw | None \<Rightarrow> Null),
        (''attempts'', uint_json (turn_attempts turn))]"

fun message_value :: "message \<Rightarrow> json" where
  "message_value (User ident words) =
     object [(''role'', String ''user''), (''id'', String ident), (''text'', String words)]"
| "message_value (Assistant turn) = assistant_value turn"
| "message_value (Tool result) =
     object
       [(''role'', String ''tool''),
        (''id'', String (result_id result)),
        (''call_id'', String (result_call_id result)),
        (''name'', String (result_name result)),
        (''content'', String (result_content result)),
        (''error'', Bool (result_error result))]"

section \<open>From JSON\<close>

definition ASSISTANT_FIELDS :: "string list" where
  "ASSISTANT_FIELDS =
     [''role'', ''id'', ''text'', ''calls'', ''invalid_calls'', ''refusal'', ''truncated'', ''provider'', ''raw'', ''attempts'']"

definition call_from :: "json \<Rightarrow> tool_call option" where
  "call_from v = do {
     arguments \<leftarrow> get v ''arguments'';
     _ \<leftarrow> if has_exactly v [''id'', ''name'', ''arguments''] then Some () else None;
     _ \<leftarrow> if is_object arguments then Some () else None;
     ident \<leftarrow> str_of v ''id'';
     name \<leftarrow> str_of v ''name'';
     Some \<lparr>call_id = ident, call_name = name, call_arguments = arguments\<rparr> }"

definition invalid_from :: "json \<Rightarrow> invalid_call option" where
  "invalid_from v = do {
     _ \<leftarrow> if has_exactly v [''id'', ''name'', ''arguments''] then Some () else None;
     ident \<leftarrow> str_of v ''id'';
     name \<leftarrow> str_of v ''name'';
     arguments \<leftarrow> str_of v ''arguments'';
     Some \<lparr>invalid_id = ident, invalid_name = name, invalid_arguments = arguments\<rparr> }"

definition assistant_from :: "json \<Rightarrow> assistant_message option" where
  "assistant_from v =
     (if \<not> has_exactly v ASSISTANT_FIELDS then None
      else do {
        call_values \<leftarrow> array_of v ''calls'';
        calls \<leftarrow> opt_all call_from call_values;
        invalid_values \<leftarrow> array_of v ''invalid_calls'';
        invalid_calls \<leftarrow> opt_all invalid_from invalid_values;
        raw \<leftarrow> get v ''raw'';
        let raw = (case raw of Null \<Rightarrow> None | _ \<Rightarrow> Some raw);
        ident \<leftarrow> str_of v ''id'';
        words \<leftarrow> str_of v ''text'';
        refusal \<leftarrow> bool_of v ''refusal'';
        truncated \<leftarrow> bool_of v ''truncated'';
        provider \<leftarrow> str_of v ''provider'';
        attempts \<leftarrow> u64_of v ''attempts'';
        attempts \<leftarrow> if attempts < 2 ^ 32 \<and> 1 \<le> attempts then Some attempts else None;
        Some \<lparr>turn_id = ident, turn_text = words, turn_calls = calls, turn_invalid_calls = invalid_calls,
          turn_refusal = refusal, turn_truncated = truncated, turn_provider = provider, turn_raw = raw,
          turn_attempts = attempts\<rparr> })"

definition message_from :: "json \<Rightarrow> message option" where
  "message_from v = do {
     role \<leftarrow> str_of v ''role'';
     if role = ''user'' \<and> has_exactly v [''role'', ''id'', ''text''] then do {
       ident \<leftarrow> str_of v ''id'';
       words \<leftarrow> str_of v ''text'';
       Some (User ident words) }
     else if role = ''assistant'' then map_option Assistant (assistant_from v)
     else if role = ''tool'' \<and> has_exactly v [''role'', ''id'', ''call_id'', ''name'', ''content'', ''error''] then do {
       ident \<leftarrow> str_of v ''id'';
       call \<leftarrow> str_of v ''call_id'';
       name \<leftarrow> str_of v ''name'';
       content \<leftarrow> str_of v ''content'';
       err \<leftarrow> bool_of v ''error'';
       Some (Tool \<lparr>result_id = ident, result_call_id = call, result_name = name, result_content = content, result_error = err\<rparr>) }
     else None }"

definition conversation_value :: "message list \<Rightarrow> json" where
  "conversation_value messages = Array (map message_value messages)"

fun conversation_from :: "json \<Rightarrow> message list option" where
  "conversation_from (Array items) = opt_all message_from items"
| "conversation_from _ = None"

section \<open>The contract of an encoder and its reader\<close>

locale codec =
  fixes encode :: "'a \<Rightarrow> json" and decode :: "json \<Rightarrow> 'a option" and admissible :: "'a \<Rightarrow> bool"
  assumes reads_back: "admissible x \<Longrightarrow> decode (encode x) = Some x"
    and reads_only: "decode v = Some x \<Longrightarrow> value_ok v \<Longrightarrow> admissible x \<and> reordered v (encode x)"
begin

lemma reads_list_back: "list_all admissible xs \<Longrightarrow> opt_all decode (map encode xs) = Some xs"
  by (rule opt_all_map) (simp add: reads_back list_all_iff)

lemma reads_list_only:
  "opt_all decode vs = Some xs \<Longrightarrow> \<forall>v\<in>set vs. value_ok v \<Longrightarrow> list_all admissible xs \<and> reordered (Array vs) (Array (map encode xs))"
proof -
  assume read: "opt_all decode vs = Some xs" and ok: "\<forall>v\<in>set vs. value_ok v"
  note len = opt_all_length [OF read]
  have each: "admissible (xs ! i) \<and> reordered (vs ! i) (encode (xs ! i))" if "i < length vs" for i
    using reads_only [of "vs ! i" "xs ! i"] opt_all_nth [OF read, of i] ok that len by simp
  then have "list_all2 reordered vs (map encode xs)" using len by (simp add: list_all2_conv_all_nth)
  then show ?thesis using each len by (auto simp: list_all_length intro: reordered.array)
qed

lemma canonical_read: "decode v = Some x \<Longrightarrow> value_ok v \<Longrightarrow> canonical v = canonical (encode x)"
  using reads_only reordered_dumps [of v "encode x" CANONICAL] by (simp add: canonical_def CANONICAL_def)

end

text \<open>A reader that checks the exact names and every member has read the encoding up to the order of members.\<close>

lemma reordered_record:
  assumes fields: "has_exactly v (map fst ks)" "value_ok v" "distinct (map fst ks)"
    and each: "\<And>k c. (k, c) \<in> set ks \<Longrightarrow> \<exists>d. get v k = Some d \<and> reordered d c"
  shows "reordered v (object ks)"
proof -
  obtain ms where v: "v = Object ms" using fields(1) by (auto simp: has_exactly_def split: json.splits)
  then have ms: "distinct (map fst ms)" "set (map fst ms) = set (map fst ks)"
    using fields has_exactly_names [OF fields] by simp_all
  let ?h = "\<lambda>m. (fst m, the (map_of ks (fst m)))"
  have "fst (?h m) = fst m \<and> reordered (snd m) (snd (?h m))" if "m \<in> set ms" for m
  proof -
    have "fst m \<in> set (map fst ks)" using that ms(2) by (metis image_eqI list.set_map)
    then obtain c where c: "map_of ks (fst m) = Some c" "(fst m, c) \<in> set ks"
      by (metis map_of_eq_None_iff map_of_SomeD list.set_map option.exhaust)
    moreover have "get v (fst m) = Some (snd m)" using v ms(1) that by simp
    ultimately show ?thesis using each [OF c(2)] by simp
  qed
  then have "list_all2 (\<lambda>m n. fst m = fst n \<and> reordered (snd m) (snd n)) ms (map ?h ms)"
    by (auto simp: list_all2_conv_all_nth)
  moreover have "mset (map ?h ms) = mset ks"
  proof (rule set_eq_iff_mset_eq_distinct [THEN iffD1])
    have "map fst (map ?h ms) = map fst ms" by simp
    then show "distinct (map ?h ms)" using ms(1) distinct_map by metis
    show "distinct ks" using fields(3) distinct_map by blast
    have "set (map ?h ms) = (\<lambda>k. (k, the (map_of ks k))) ` set (map fst ms)" by auto
    also have "\<dots> = (\<lambda>k. (k, the (map_of ks k))) ` fst ` set ks" using ms(2) by simp
    also have "\<dots> = set ks"
    proof -
      have "(\<lambda>m. (fst m, the (map_of ks (fst m)))) ` set ks = (\<lambda>m. m) ` set ks"
        by (rule image_cong) (use fields(3) in \<open>auto simp: map_of_is_SomeI\<close>)
      then show ?thesis by (simp add: image_image)
    qed
    finally show "set (map ?h ms) = set ks" .
  qed
  ultimately show ?thesis unfolding v object_def by (rule reordered.object)
qed

section \<open>Calls\<close>

text \<open>What a stored conversation may hold: object arguments, a positive 32-bit count of attempts and no null raw form.\<close>

definition call_ok :: "tool_call \<Rightarrow> bool" where
  "call_ok call \<longleftrightarrow> is_object (call_arguments call)"

definition turn_ok :: "assistant_message \<Rightarrow> bool" where
  "turn_ok turn \<longleftrightarrow> list_all call_ok (turn_calls turn) \<and> turn_raw turn \<noteq> Some Null \<and>
     1 \<le> turn_attempts turn \<and> turn_attempts turn < 2 ^ 32"

definition message_ok :: "message \<Rightarrow> bool" where
  "message_ok message \<longleftrightarrow> (case message of Assistant turn \<Rightarrow> turn_ok turn | _ \<Rightarrow> True)"

interpretation calls: codec call_value call_from call_ok
proof
  fix call assume "call_ok call"
  then show "call_from (call_value call) = Some call"
    by (simp add: call_from_def call_value_def json_readers call_ok_def)
next
  fix v call assume read: "call_from v = Some call" and ok: "value_ok v"
  then have "has_exactly v [''id'', ''name'', ''arguments'']" "get v ''id'' = Some (String (call_id call))"
    "get v ''name'' = Some (String (call_name call))" "get v ''arguments'' = Some (call_arguments call)" "call_ok call"
    by (auto simp: call_from_def read_some call_ok_def split: if_splits)
  then show "call_ok call \<and> reordered v (call_value call)"
    unfolding call_value_def using ok by (auto intro!: reordered_record intro: reordered.refl)
qed

interpretation invalid_calls: codec invalid_value invalid_from "\<lambda>_. True"
proof
  fix call show "invalid_from (invalid_value call) = Some call"
    by (simp add: invalid_from_def invalid_value_def json_readers)
next
  fix v call assume read: "invalid_from v = Some call" and ok: "value_ok v"
  then have "has_exactly v [''id'', ''name'', ''arguments'']" "get v ''id'' = Some (String (invalid_id call))"
    "get v ''name'' = Some (String (invalid_name call))" "get v ''arguments'' = Some (String (invalid_arguments call))"
    by (auto simp: invalid_from_def read_some split: if_splits)
  then show "True \<and> reordered v (invalid_value call)"
    unfolding invalid_value_def using ok by (auto intro!: reordered_record intro: reordered.refl)
qed

section \<open>Turns, messages and conversations\<close>

lemma turn_reads_back:
  assumes ok: "turn_ok turn"
  shows "assistant_from (assistant_value turn) = Some turn"
proof -
  from ok have lists: "opt_all call_from (map call_value (turn_calls turn)) = Some (turn_calls turn)"
      "opt_all invalid_from (map invalid_value (turn_invalid_calls turn)) = Some (turn_invalid_calls turn)"
    by (simp_all add: calls.reads_list_back invalid_calls.reads_list_back turn_ok_def list_all_iff)
  have raw: "(case (case turn_raw turn of Some raw \<Rightarrow> raw | None \<Rightarrow> Null) of Null \<Rightarrow> None
      | _ \<Rightarrow> Some (case turn_raw turn of Some raw \<Rightarrow> raw | None \<Rightarrow> Null)) = turn_raw turn"
    using ok by (auto simp: turn_ok_def split: option.splits json.splits)
  have attempts: "turn_attempts turn < 2 ^ 32" "1 \<le> turn_attempts turn" "turn_attempts turn < 2 ^ 63"
    using ok by (simp_all add: turn_ok_def)
  show "assistant_from (assistant_value turn) = Some turn"
    using attempts raw by (simp add: assistant_from_def assistant_value_def ASSISTANT_FIELDS_def json_readers lists uint_json_def Let_def)
qed

lemma turn_reads_only:
  assumes read: "assistant_from v = Some turn" and ok: "value_ok v" and role: "get v ''role'' = Some (String ''assistant'')"
  shows "turn_ok turn \<and> reordered v (assistant_value turn)"
proof -
  from read have fields: "has_exactly v ASSISTANT_FIELDS" by (simp add: assistant_from_def split: if_splits)
  obtain call_values invalid_values raw where
    got: "get v ''calls'' = Some (Array call_values)" "opt_all call_from call_values = Some (turn_calls turn)"
      "get v ''invalid_calls'' = Some (Array invalid_values)" "opt_all invalid_from invalid_values = Some (turn_invalid_calls turn)"
      "get v ''raw'' = Some raw" "turn_raw turn = (case raw of Null \<Rightarrow> None | _ \<Rightarrow> Some raw)"
      "get v ''id'' = Some (String (turn_id turn))" "get v ''text'' = Some (String (turn_text turn))"
      "get v ''refusal'' = Some (Bool (turn_refusal turn))" "get v ''truncated'' = Some (Bool (turn_truncated turn))"
      "get v ''provider'' = Some (String (turn_provider turn))"
      "get v ''attempts'' = Some (Number (Integer (int (turn_attempts turn))))"
      "turn_attempts turn < 2 ^ 32" "1 \<le> turn_attempts turn"
    using read fields by (auto simp: assistant_from_def read_some Let_def split: if_splits)
  have "\<forall>c\<in>set call_values. value_ok c" "\<forall>c\<in>set invalid_values. value_ok c"
    using value_ok_get [OF ok got(1)] value_ok_get [OF ok got(3)] by simp_all
  with got(2,4) have lists: "list_all call_ok (turn_calls turn)" "reordered (Array call_values) (Array (map call_value (turn_calls turn)))"
      "reordered (Array invalid_values) (Array (map invalid_value (turn_invalid_calls turn)))"
    using calls.reads_list_only invalid_calls.reads_list_only by blast+
  have raw: "(case turn_raw turn of Some r \<Rightarrow> r | None \<Rightarrow> Null) = raw" "turn_raw turn \<noteq> Some Null"
    using got(6) by (simp_all split: json.splits)
  have attempts: "uint_json (turn_attempts turn) = Number (Integer (int (turn_attempts turn)))"
    using got(13) by (simp add: uint_json_def)
  have names: "ASSISTANT_FIELDS = map fst (members (assistant_value turn))"
    by (simp add: ASSISTANT_FIELDS_def assistant_value_def object_def)
  have "reordered v (object (members (assistant_value turn)))"
  proof (rule reordered_record)
    show "has_exactly v (map fst (members (assistant_value turn)))" using fields names by simp
    show "distinct (map fst (members (assistant_value turn)))" by (simp flip: names) (simp add: ASSISTANT_FIELDS_def)
    fix k c assume "(k, c) \<in> set (members (assistant_value turn))"
    then show "\<exists>d. get v k = Some d \<and> reordered d c"
      using role got(1,3,5,7-12) lists(2,3) by (auto simp: assistant_value_def object_def raw attempts intro: reordered.refl)
  qed (rule ok)
  moreover have "object (members (assistant_value turn)) = assistant_value turn" by (simp add: assistant_value_def object_def)
  moreover have "turn_ok turn" using got(13,14) lists(1) raw(2) by (simp add: turn_ok_def)
  ultimately show ?thesis by simp
qed

interpretation messages: codec message_value message_from message_ok
proof
  fix message assume ok: "message_ok message"
  show "message_from (message_value message) = Some message"
  proof (cases message)
    case (Assistant turn)
    have role: "str_of (assistant_value turn) ''role'' = Some ''assistant''" by (simp add: assistant_value_def json_readers)
    show ?thesis using turn_reads_back [of turn] ok by (simp add: message_from_def Assistant role message_ok_def)
  qed (simp_all add: message_from_def json_readers)
next
  fix v message assume read: "message_from v = Some message" and ok: "value_ok v"
  then obtain role where role: "get v ''role'' = Some (String role)" by (auto simp: message_from_def read_some)
  consider (User) ident words where "role = ''user''" "has_exactly v [''role'', ''id'', ''text'']" "message = User ident words"
      "get v ''id'' = Some (String ident)" "get v ''text'' = Some (String words)"
    | (Assistant) turn where "role = ''assistant''" "assistant_from v = Some turn" "message = Assistant turn"
    | (Tool) ident call name content err where "role = ''tool''"
      "has_exactly v [''role'', ''id'', ''call_id'', ''name'', ''content'', ''error'']" "get v ''id'' = Some (String ident)"
      "get v ''call_id'' = Some (String call)" "get v ''name'' = Some (String name)" "get v ''content'' = Some (String content)"
      "get v ''error'' = Some (Bool err)"
      "message = Tool \<lparr>result_id = ident, result_call_id = call, result_name = name, result_content = content, result_error = err\<rparr>"
    using read role by (auto simp: message_from_def read_some split: if_splits)
  then show "message_ok message \<and> reordered v (message_value message)"
  proof cases
    case Assistant
    then show ?thesis using turn_reads_only [OF _ ok] role by (simp add: message_ok_def)
  next
    case User
    then show ?thesis using ok role
      by (auto simp: message_ok_def intro!: reordered_record intro: reordered.refl)
  next
    case Tool
    then show ?thesis using ok role
      by (auto simp: message_ok_def intro!: reordered_record intro: reordered.refl)
  qed
qed

interpretation conversations: codec conversation_value conversation_from "list_all message_ok"
proof
  fix messages assume "list_all message_ok messages"
  then show "conversation_from (conversation_value messages) = Some messages"
    by (simp add: conversation_value_def messages.reads_list_back)
next
  fix v messages assume read: "conversation_from v = Some messages" and ok: "value_ok v"
  then obtain items where v: "v = Array items" "opt_all message_from items = Some messages" by (cases v) simp_all
  then show "list_all message_ok messages \<and> reordered v (conversation_value messages)"
    using messages.reads_list_only [OF v(2)] ok by (simp add: conversation_value_def)
qed

section \<open>Properties\<close>

definition sample_conversation :: "message list" where
  "sample_conversation =
     [User ''u'' ''Hello'',
      Assistant \<lparr>turn_id = ''a'', turn_text = [], turn_calls = [\<lparr>call_id = ''c'', call_name = ''tool'', call_arguments = Object [(''x'', Number (Integer 1))]\<rparr>],
        turn_invalid_calls = [\<lparr>invalid_id = ''d'', invalid_name = ''tool'', invalid_arguments = ''{''\<rparr>], turn_refusal = False,
        turn_truncated = False, turn_provider = ''openai'', turn_raw = Some (Array []), turn_attempts = 1\<rparr>,
      Tool \<lparr>result_id = ''t'', result_call_id = ''c'', result_name = ''tool'', result_content = ''ok'', result_error = False\<rparr>]"

lemma sample_conversation_ok: "list_all message_ok sample_conversation"
  by (simp add: sample_conversation_def message_ok_def turn_ok_def call_ok_def is_object_def)

text \<open>
  C11 A stored conversation reads back: decoding the encoding of any conversation whose turns are well formed gives it
  again, messages, calls, raw provider items and attempt counts included.
\<close>

theorem conversation_round_trip:
  assumes "list_all message_ok messages"
  shows "conversation_from (conversation_value messages) = Some messages"
  by (rule conversations.reads_back) (rule assms)

theorem conversation_round_trip_witness: "conversation_from (conversation_value sample_conversation) = Some sample_conversation"
  by (rule conversation_round_trip) (rule sample_conversation_ok)

text \<open>
  C12 The reader accepts nothing else: whatever strict JSON it reads as a conversation is the encoding of that
  conversation up to the order of members, so writing it again keeps its canonical text, and the conversation is well
  formed.
\<close>

theorem conversation_reads_only_encodings:
  assumes "conversation_from v = Some messages" "value_ok v"
  shows "list_all message_ok messages \<and> reordered v (conversation_value messages) \<and>
    canonical v = canonical (conversation_value messages)"
  using conversations.reads_only [OF assms] conversations.canonical_read [OF assms] by simp

theorem conversation_reads_only_encodings_witness:
  "\<exists>messages. conversation_from (Array [Object [(''text'', String ''hi''), (''id'', String ''u''), (''role'', String ''user'')]]) = Some messages \<and>
    canonical (Array [Object [(''text'', String ''hi''), (''id'', String ''u''), (''role'', String ''user'')]])
      = canonical (conversation_value messages)"
proof -
  have "conversation_from (Array [Object [(''text'', String ''hi''), (''id'', String ''u''), (''role'', String ''user'')]])
      = Some [User ''u'' ''hi'']" by code_simp
  from conversation_reads_only_encodings [OF this] this show ?thesis by simp
qed

end
