(* ===== verification/PyText.thy ===== *)
theory PyText
  imports Prelude
begin

text \<open>
  Python's \<open>str\<close> operations that need no generated table beyond the white space one
  (\<open>protocol/team/http/src/python/text.rs\<close>): lengths in code points and the stripping of white space or of given
  characters.
\<close>

definition WHITESPACE :: "nat list" where
  "WHITESPACE =
     [0x9, 0xA, 0xB, 0xC, 0xD, 0x1C, 0x1D, 0x1E, 0x1F, 0x20, 0x85,
      0xA0, 0x1680, 0x2000, 0x2001, 0x2002, 0x2003, 0x2004, 0x2005, 0x2006,
      0x2007, 0x2008, 0x2009, 0x200A, 0x2028, 0x2029, 0x202F, 0x205F, 0x3000]"

definition py_len :: "string \<Rightarrow> nat" where
  "py_len s = length (chars s)"

text \<open>The table is sorted, so its binary search is membership.\<close>

definition isspace :: "string \<Rightarrow> bool" where
  "isspace ch \<longleftrightarrow> code_point ch \<in> set WHITESPACE"

definition trim_end :: "(string \<Rightarrow> bool) \<Rightarrow> string list \<Rightarrow> string list" where
  "trim_end p cs = rev (dropWhile p (rev cs))"

definition strip :: "string \<Rightarrow> string" where
  "strip s = concat (trim_end isspace (dropWhile isspace (chars s)))"

definition rstrip :: "string \<Rightarrow> string" where
  "rstrip s = concat (trim_end isspace (chars s))"

definition strip_chars :: "string \<Rightarrow> string \<Rightarrow> string" where
  "strip_chars s cs = concat (trim_end (\<lambda>ch. ch \<in> set (chars cs)) (dropWhile (\<lambda>ch. ch \<in> set (chars cs)) (chars s)))"

lemma WHITESPACE_sorted: "sorted WHITESPACE" "distinct WHITESPACE"
  by (simp_all add: WHITESPACE_def)

end
