(* ===== verification/History.thy ===== *)
theory History
  imports Conversation PyText
begin

text \<open>
  The conversation a chat turn carries to its model (\<open>runtime/src/budget.rs\<close>): history split into exchanges, the newest
  whole ones kept within the count, the history budget and the model's window, and older Action results omitted a batch
  at a time.  Token counts are natural numbers, saturating where the code saturates.
\<close>

section \<open>Bounds\<close>

definition BRIDGE_ID_PREFIX :: string where "BRIDGE_ID_PREFIX = ''shimpz-context-''"
definition MAX_HISTORY_EXCHANGES :: nat where "MAX_HISTORY_EXCHANGES = 24"
definition HISTORY_BUDGET_TOKENS :: nat where "HISTORY_BUDGET_TOKENS = 128000"
definition MODEL_WINDOW_TOKENS :: nat where "MODEL_WINDOW_TOKENS = 1000000"
definition OUTPUT_RESERVE_TOKENS :: nat where "OUTPUT_RESERVE_TOKENS = 128000"
definition BYTES_PER_TOKEN :: nat where "BYTES_PER_TOKEN = 3"
definition KEEP_RESULT_EXCHANGES :: nat where "KEEP_RESULT_EXCHANGES = 2"
definition OMIT_RESULTS_TRIGGER_TOKENS :: nat where "OMIT_RESULTS_TRIGGER_TOKENS = 8000"

definition OMITTED_RESULT :: string where
  "OMITTED_RESULT =
     ''[Earlier Action result omitted to save context. This note does not say whether '' @
     ''the call ran or what it changed; the reply that ended that exchange does. Never repeat a change to recover this '' @
     ''result. If the current request needs its data, read it again.]''"

datatype fit_error = Window | State

record limits =
  max_exchanges :: nat
  max_history :: nat
  max_window :: nat
  omit_trigger :: nat

definition LIMITS :: limits where
  "LIMITS = \<lparr>max_exchanges = MAX_HISTORY_EXCHANGES, max_history = HISTORY_BUDGET_TOKENS,
     max_window = MODEL_WINDOW_TOKENS, omit_trigger = OMIT_RESULTS_TRIGGER_TOKENS\<rparr>"

section \<open>Token estimates\<close>

definition COMPACT :: options where
  "COMPACT = \<lparr>ensure_ascii = False, sort_keys = False, compact = True\<rparr>"

definition div_ceil :: "nat \<Rightarrow> nat \<Rightarrow> nat" where
  "div_ceil n d = n div d + (if n mod d = 0 then 0 else 1)"

definition estimated_tokens :: "json \<Rightarrow> nat" where
  "estimated_tokens v = div_ceil (length (dumps COMPACT v)) BYTES_PER_TOKEN"

definition estimate_value :: "assistant_message \<Rightarrow> json" where
  "estimate_value turn =
     object
       [(''content'', case turn_raw turn of Some raw \<Rightarrow> raw | None \<Rightarrow> String (turn_text turn)),
        (''tool_calls'', Array (map (\<lambda>call. object
           [(''name'', String (call_name call)), (''args'', call_arguments call), (''id'', String (call_id call)),
            (''type'', String ''tool_call'')]) (turn_calls turn))),
        (''invalid_tool_calls'', Array (map (\<lambda>call. object
           [(''name'', String (invalid_name call)), (''args'', String (invalid_arguments call)), (''id'', String (invalid_id call)),
            (''error'', Null), (''type'', String ''invalid_tool_call'')]) (turn_invalid_calls turn)))]"

fun estimate_message :: "message \<Rightarrow> json" where
  "estimate_message (User _ words) = object [(''content'', String words)]"
| "estimate_message (Tool result) = object [(''content'', String (result_content result))]"
| "estimate_message (Assistant turn) = estimate_value turn"

definition message_tokens :: "message \<Rightarrow> nat" where
  "message_tokens message = estimated_tokens (estimate_message message)"

definition fixed_tokens :: "string \<Rightarrow> json list \<Rightarrow> nat" where
  "fixed_tokens system tools = foldl (\<lambda>sum tool. sat_add sum (estimated_tokens tool)) (estimated_tokens (String system)) tools"

section \<open>Exchanges\<close>

fun is_user :: "message \<Rightarrow> bool" where
  "is_user (User _ _) = True"
| "is_user _ = False"

fun bridge :: "message \<Rightarrow> bool" where
  "bridge (User ident _) = starts_with BRIDGE_ID_PREFIX ident"
| "bridge _ = False"

text \<open>The scan for the starts, the most recent start first.\<close>

fun exchange_starts :: "message list \<Rightarrow> nat \<Rightarrow> message list \<Rightarrow> nat list \<Rightarrow> fit_error + nat list" where
  "exchange_starts messages index [] starts = Inr (rev starts)"
| "exchange_starts messages index (message # rest) starts =
     (if message_id message = [] then Inl State
      else let joins = (case starts of [] \<Rightarrow> False | start # _ \<Rightarrow> index - start = 1 \<and> bridge (messages ! start))
           in if is_user message \<and> \<not> joins then exchange_starts messages (index + 1) rest (index # starts)
              else if starts = [] then Inl State
              else exchange_starts messages (index + 1) rest starts)"

definition exchanges :: "message list \<Rightarrow> fit_error + message list list" where
  "exchanges messages =
     (case exchange_starts messages 0 messages [] of
        Inl err \<Rightarrow> Inl err
      | Inr starts \<Rightarrow>
          Inr (map (\<lambda>(start, stop). take (stop - start) (drop start messages)) (zip starts (drop 1 starts @ [length messages]))))"

definition truncated :: "message \<Rightarrow> bool" where
  "truncated message = (case assistant message of Some turn \<Rightarrow> turn_truncated turn | None \<Rightarrow> False)"

definition final_reply :: "message \<Rightarrow> string" where
  "final_reply message =
     (case assistant message of
        Some turn \<Rightarrow>
          if turn_calls turn = [] \<and> turn_invalid_calls turn = [] \<and> \<not> turn_truncated turn then strip (turn_text turn) else []
      | None \<Rightarrow> [])"

definition completed :: "message list \<Rightarrow> bool" where
  "completed exchange \<longleftrightarrow> (case rev exchange of [] \<Rightarrow> False | message # _ \<Rightarrow> final_reply message \<noteq> [])"

section \<open>The window\<close>

definition window_within :: "limits \<Rightarrow> nat \<Rightarrow> nat \<Rightarrow> fit_error + unit" where
  "window_within bounds fixed conversation =
     (let needed = sat_add (sat_add fixed conversation) OUTPUT_RESERVE_TOKENS
      in if needed > max_window bounds then Inl Window else Inr ())"

definition ensure_window :: "nat \<Rightarrow> nat \<Rightarrow> fit_error + unit" where
  "ensure_window fixed conversation = window_within LIMITS fixed conversation"

section \<open>What a new turn forgets\<close>

text \<open>The walk from the newest exchange: the groups still to visit, newest first, and the flags of those visited.\<close>

fun keep_newest :: "limits \<Rightarrow> nat \<Rightarrow> nat \<Rightarrow> (message \<Rightarrow> bool) \<Rightarrow> (nat \<times> message list) list \<Rightarrow> nat \<Rightarrow> nat \<Rightarrow> bool list \<Rightarrow> bool list" where
  "keep_newest bounds fixed current forgotten [] kept_count used kept = kept"
| "keep_newest bounds fixed current forgotten ((index, exchange) # groups) kept_count used kept =
     (if \<not> completed exchange \<or> list_ex forgotten exchange
      then keep_newest bounds fixed current forgotten groups kept_count used kept
      else let size = sum_list (map message_tokens exchange); new_total = sat_add used size
           in if kept_count = max_exchanges bounds \<or> new_total > max_history bounds
                 \<or> window_within bounds (sat_add fixed new_total) current \<noteq> Inr ()
              then kept
              else keep_newest bounds fixed current forgotten groups (kept_count + 1) new_total (kept[index := True]))"

definition drop_within :: "limits \<Rightarrow> message list \<Rightarrow> nat \<Rightarrow> nat \<Rightarrow> (message \<Rightarrow> bool) \<Rightarrow> fit_error + string list" where
  "drop_within bounds history fixed current forgotten =
     (case window_within bounds fixed current of
        Inl err \<Rightarrow> Inl err
      | Inr _ \<Rightarrow>
          (case exchanges history of
             Inl err \<Rightarrow> Inl err
           | Inr groups \<Rightarrow>
               let kept = keep_newest bounds fixed current forgotten (rev (enumerate 0 groups)) 0 0 (replicate (length groups) False)
               in Inr (concat (map (\<lambda>(exchange, _). map message_id exchange) (filter (\<lambda>(_, keep). \<not> keep) (zip groups kept))))))"

definition history_to_drop :: "message list \<Rightarrow> nat \<Rightarrow> nat \<Rightarrow> (message \<Rightarrow> bool) \<Rightarrow> fit_error + string list" where
  "history_to_drop history fixed current forgotten = drop_within LIMITS history fixed current forgotten"

section \<open>Omitted results\<close>

definition placeholder_of :: "tool_message \<Rightarrow> tool_message" where
  "placeholder_of result = result\<lparr>result_content := OMITTED_RESULT\<rparr>"

fun omit_loop :: "(tool_message \<Rightarrow> bool) \<Rightarrow> message list \<Rightarrow> tool_message list \<Rightarrow> nat \<Rightarrow> tool_message list \<times> nat" where
  "omit_loop action_result [] placeholders saved = (placeholders, saved)"
| "omit_loop action_result (message # rest) placeholders saved =
     (case tool message of
        None \<Rightarrow> omit_loop action_result rest placeholders saved
      | Some result \<Rightarrow>
          if \<not> action_result result then omit_loop action_result rest placeholders saved
          else let placeholder = placeholder_of result;
                   gain = message_tokens message - message_tokens (Tool placeholder)
               in if gain > 0 then omit_loop action_result rest (placeholders @ [placeholder]) (sat_add saved gain)
                  else omit_loop action_result rest placeholders saved)"

definition omit_within ::
    "limits \<Rightarrow> message list \<Rightarrow> (tool_message \<Rightarrow> bool) \<Rightarrow> (message \<Rightarrow> bool) \<Rightarrow> fit_error + tool_message list" where
  "omit_within bounds history action_result forgotten =
     (case exchanges history of
        Inl err \<Rightarrow> Inl err
      | Inr groups \<Rightarrow>
          let done = filter (\<lambda>exchange. completed exchange \<and> \<not> list_ex forgotten exchange) groups;
              older = take (length done - KEEP_RESULT_EXCHANGES) done;
              (placeholders, saved) = omit_loop action_result (concat older) [] 0
          in Inr (if saved \<ge> omit_trigger bounds then placeholders else []))"

definition results_to_omit :: "message list \<Rightarrow> (tool_message \<Rightarrow> bool) \<Rightarrow> (message \<Rightarrow> bool) \<Rightarrow> fit_error + tool_message list" where
  "results_to_omit history action_result forgotten = omit_within LIMITS history action_result forgotten"


section \<open>The split into exchanges\<close>

text \<open>
  The scan as structural recursions: the starts it finds and the exchanges they cut, each carrying whether the message
  before is a bridge that opened an exchange.
\<close>

fun starts_from :: "bool \<Rightarrow> nat \<Rightarrow> message list \<Rightarrow> nat list" where
  "starts_from after index [] = []"
| "starts_from after index (m # ms) =
     (if is_user m \<and> \<not> after then index # starts_from (bridge m) (Suc index) ms else starts_from False (Suc index) ms)"

fun cut :: "bool \<Rightarrow> message list \<Rightarrow> message list \<times> message list list" where
  "cut after [] = ([], [])"
| "cut after (m # ms) =
     (if is_user m \<and> \<not> after then (case cut (bridge m) ms of (body, later) \<Rightarrow> ([], (m # body) # later))
      else (case cut False ms of (body, later) \<Rightarrow> (m # body, later)))"

lemma scan_starts:
  assumes "starts \<noteq> []" "\<forall>s\<in>set starts. s < index" "messages = pre @ rest" "length pre = index"
    "after \<longleftrightarrow> index - hd starts = 1 \<and> bridge (messages ! hd starts)" "\<forall>m\<in>set rest. message_id m \<noteq> []"
  shows "exchange_starts messages index rest starts = Inr (rev starts @ starts_from after index rest)"
  using assms
proof (induction rest arbitrary: index starts pre after)
  case (Cons m ms)
  have m: "messages ! index = m" using Cons.prems(3,4) by (simp add: nth_append)
  have joins: "(case starts of [] \<Rightarrow> False | start # _ \<Rightarrow> index - start = 1 \<and> bridge (messages ! start)) = after"
    using Cons.prems(1,5) by (cases starts) simp_all
  show ?case
  proof (cases "is_user m \<and> \<not> after")
    case True
    have "exchange_starts messages (Suc index) ms (index # starts) = Inr (rev (index # starts) @ starts_from (bridge m) (Suc index) ms)"
      using Cons.prems m by (intro Cons.IH [where pre = "pre @ [m]"]) auto
    then show ?thesis using True Cons.prems(1,6) joins by simp
  next
    case False
    have "exchange_starts messages (Suc index) ms starts = Inr (rev starts @ starts_from False (Suc index) ms)"
    proof (rule Cons.IH [where pre = "pre @ [m]"])
      have "hd starts < index" using Cons.prems(1,2) by simp
      then have "Suc index - hd starts \<noteq> 1" by linarith
      then show "False = (Suc index - hd starts = 1 \<and> bridge (messages ! hd starts))" by simp
    qed (use Cons.prems in auto)
    then show ?thesis using False Cons.prems(1,6) joins by auto
  qed
qed simp

lemma cut_slices:
  assumes "messages = pre @ ms" "length pre = index" "s \<le> index"
  shows "map (\<lambda>(start, stop). take (stop - start) (drop start messages))
      (zip (s # starts_from after index ms) (starts_from after index ms @ [length messages]))
    = (drop s pre @ fst (cut after ms)) # snd (cut after ms)"
  using assms
proof (induction ms arbitrary: pre index s after)
  case (Cons m ms)
  have first: "take (index - s) (drop s messages) = drop s pre" using Cons.prems by simp
  show ?case
  proof (cases "is_user m \<and> \<not> after")
    case True
    have "map (\<lambda>(start, stop). take (stop - start) (drop start messages))
        (zip (index # starts_from (bridge m) (Suc index) ms) (starts_from (bridge m) (Suc index) ms @ [length messages]))
      = (drop index (pre @ [m]) @ fst (cut (bridge m) ms)) # snd (cut (bridge m) ms)"
      using Cons.prems by (intro Cons.IH) simp_all
    then show ?thesis using True Cons.prems(2) first by (cases "cut (bridge m) ms") simp
  next
    case False
    have "map (\<lambda>(start, stop). take (stop - start) (drop start messages))
        (zip (s # starts_from False (Suc index) ms) (starts_from False (Suc index) ms @ [length messages]))
      = (drop s (pre @ [m]) @ fst (cut False ms)) # snd (cut False ms)"
      using Cons.prems by (intro Cons.IH) simp_all
    then show ?thesis using False Cons.prems(2,3) by (cases "cut False ms") auto
  qed
qed simp

lemma scan_unnamed: "\<exists>m\<in>set rest. message_id m = [] \<Longrightarrow> exchange_starts messages index rest starts = Inl State"
  by (induction rest arbitrary: index starts) (auto simp: Let_def)

lemma exchanges_cut:
  assumes "\<forall>m\<in>set messages. message_id m \<noteq> []" "messages = [] \<or> is_user (hd messages)"
  shows "exchanges messages = Inr (snd (cut False messages))"
proof (cases messages)
  case (Cons m ms)
  have user: "is_user m" using assms(2) Cons by simp
  have "exchange_starts messages 1 ms [0] = Inr (rev [0] @ starts_from (bridge m) 1 ms)"
    using assms(1) Cons by (intro scan_starts [where pre = "[m]"]) auto
  then have starts: "exchange_starts messages 0 messages [] = Inr (0 # starts_from (bridge m) 1 ms)"
    using user assms(1) Cons by simp
  show ?thesis
    using cut_slices [of messages "[m]" ms 1 0 "bridge m"] user unfolding exchanges_def starts by (cases "cut (bridge m) ms") (simp add: Cons)
qed (simp add: exchanges_def)

lemma exchanges_refused:
  assumes "(\<exists>m\<in>set messages. message_id m = []) \<or> messages \<noteq> [] \<and> \<not> is_user (hd messages)"
  shows "exchanges messages = Inl State"
proof (cases "\<exists>m\<in>set messages. message_id m = []")
  case True
  then show ?thesis by (simp add: exchanges_def scan_unnamed)
next
  case False
  then show ?thesis using assms by (cases messages) (auto simp: exchanges_def)
qed

text \<open>What an exchange is: it opens with a user message, and holds another only right after a bridge.\<close>

definition exchange_shape :: "message list \<Rightarrow> bool" where
  "exchange_shape ms \<longleftrightarrow> ms \<noteq> [] \<and> is_user (hd ms) \<and>
     (\<forall>i. 0 < i \<and> i < length ms \<and> is_user (ms ! i) \<longrightarrow> i = 1 \<and> bridge (hd ms))"

lemma cut_body:
  "\<not> after \<Longrightarrow> \<not> list_ex is_user (fst (cut after ms))"
  "i < length (fst (cut True ms)) \<Longrightarrow> is_user (fst (cut True ms) ! i) \<Longrightarrow> i = 0"
proof -
  have plain: "\<not> list_ex is_user (fst (cut False ms))" for ms
    by (induction ms) (auto simp: split_beta)
  then show "\<not> after \<Longrightarrow> \<not> list_ex is_user (fst (cut after ms))" by simp
  show "i < length (fst (cut True ms)) \<Longrightarrow> is_user (fst (cut True ms) ! i) \<Longrightarrow> i = 0"
    using plain by (cases ms; cases i) (auto simp: split_beta list_ex_length)
qed

lemma cut_concat: "fst (cut after ms) @ concat (snd (cut after ms)) = ms"
  by (induction after ms rule: cut.induct) (auto simp: split_beta)

lemma cut_shape: "e \<in> set (snd (cut after ms)) \<Longrightarrow> exchange_shape e"
proof (induction after ms rule: cut.induct)
  case (2 after m ms)
  show ?case
  proof (cases "is_user m \<and> \<not> after")
    case True
    have "exchange_shape (m # fst (cut (bridge m) ms))"
      unfolding exchange_shape_def
    proof (intro conjI allI impI)
      fix i assume i: "0 < i \<and> i < length (m # fst (cut (bridge m) ms)) \<and> is_user ((m # fst (cut (bridge m) ms)) ! i)"
      then have j: "i - 1 < length (fst (cut (bridge m) ms))" "is_user (fst (cut (bridge m) ms) ! (i - 1))" by auto
      have "\<not> (\<exists>k<length (fst (cut False ms)). is_user (fst (cut False ms) ! k))"
        using cut_body(1) [of False ms] by (simp add: list_ex_length)
      with j have b: "bridge m" by (cases "bridge m") auto
      with j have "i - 1 = 0" by (intro cut_body(2)) simp_all
      then show "i = 1" "bridge (hd (m # fst (cut (bridge m) ms)))" using i b by simp_all
    qed (use True in simp_all)
    then show ?thesis using 2 True by (auto simp: split_beta)
  qed (use 2 in \<open>auto simp: split_beta\<close>)
qed simp

text \<open>A bridge never stands alone before another exchange.\<close>

lemma cut_bridge: "bridge m \<Longrightarrow> ms \<noteq> [] \<Longrightarrow> fst (cut True ms) \<noteq> []"
  by (cases ms) (auto simp: split_beta)

lemma cut_joined: "Suc i < length (snd (cut after ms)) \<Longrightarrow> length (snd (cut after ms) ! i) = 1 \<Longrightarrow> \<not> bridge (hd (snd (cut after ms) ! i))"
proof (induction after ms arbitrary: i rule: cut.induct)
  case (2 after m ms)
  show ?case
  proof (cases "is_user m \<and> \<not> after")
    case True
    show ?thesis
    proof (cases i)
      case 0
      then have "ms \<noteq> []" using 2(3) True by (auto simp: split_beta)
      then show ?thesis using 2(3,4) 0 True cut_bridge [of m ms] by (cases "bridge m") (auto simp: split_beta)
    qed (use 2 True in \<open>auto simp: split_beta\<close>)
  qed (use 2 in \<open>auto simp: split_beta\<close>)
qed simp

section \<open>The run of exchanges that is kept\<close>

lemma sat_add_le_iff: "w < u64_max \<Longrightarrow> sat_add a b \<le> w \<longleftrightarrow> a + b \<le> w"
  by (simp add: sat_add_def min_def)

lemma window_within_iff:
  "max_window bounds < u64_max \<Longrightarrow>
    window_within bounds (sat_add fixed extra) conversation = Inr () \<longleftrightarrow>
    fixed + extra + conversation + OUTPUT_RESERVE_TOKENS \<le> max_window bounds"
proof -
  assume w: "max_window bounds < u64_max"
  have "window_within bounds (sat_add fixed extra) conversation = Inr () \<longleftrightarrow>
      sat_add (sat_add (sat_add fixed extra) conversation) OUTPUT_RESERVE_TOKENS \<le> max_window bounds"
    by (simp add: window_within_def Let_def not_less)
  also have "\<dots> \<longleftrightarrow> fixed + extra + conversation + OUTPUT_RESERVE_TOKENS \<le> max_window bounds"
    using w by (auto simp: sat_add_def min_def)
  finally show ?thesis .
qed

definition eligible :: "(message \<Rightarrow> bool) \<Rightarrow> message list \<Rightarrow> bool" where
  "eligible forgotten exchange \<longleftrightarrow> completed exchange \<and> \<not> list_ex forgotten exchange"

definition exchange_tokens :: "message list list \<Rightarrow> nat" where
  "exchange_tokens es = sum_list (map (\<lambda>e. sum_list (map message_tokens e)) es)"

text \<open>Whether a run of exchanges fits every limit at once.\<close>

definition run_fits :: "limits \<Rightarrow> nat \<Rightarrow> nat \<Rightarrow> message list list \<Rightarrow> bool" where
  "run_fits bounds fixed current es \<longleftrightarrow>
     length es \<le> max_exchanges bounds \<and> exchange_tokens es \<le> max_history bounds \<and>
     fixed + exchange_tokens es + current + OUTPUT_RESERVE_TOKENS \<le> max_window bounds"

definition kept_flags :: "(message \<Rightarrow> bool) \<Rightarrow> message list list \<Rightarrow> nat \<Rightarrow> bool list" where
  "kept_flags forgotten es k = map (\<lambda>(i, e). k \<le> i \<and> eligible forgotten e) (enumerate 0 es)"

lemma rev_enumerate_Suc: "k < length es \<Longrightarrow> rev (enumerate 0 (take (Suc k) es)) = (k, es ! k) # rev (enumerate 0 (take k es))"
  by (simp add: take_Suc_conv_app_nth enumerate_append_eq)

lemma kept_flags_step:
  assumes "k < length es"
  shows "kept_flags forgotten es k = (if eligible forgotten (es ! k) then (kept_flags forgotten es (Suc k))[k := True]
     else kept_flags forgotten es (Suc k))"
  using assms by (intro nth_equalityI) (auto simp: kept_flags_def nth_enumerate_eq nth_list_update le_Suc_eq Suc_le_eq)

lemma keep_newest_run:
  assumes "k \<le> length es" "max_history bounds < u64_max" "max_window bounds < u64_max"
    and "run_fits bounds fixed current (filter (eligible forgotten) (drop k es))"
  shows "\<exists>c\<le>k. keep_newest bounds fixed current forgotten (rev (enumerate 0 (take k es)))
        (length (filter (eligible forgotten) (drop k es))) (exchange_tokens (filter (eligible forgotten) (drop k es)))
        (kept_flags forgotten es k) = kept_flags forgotten es c \<and>
      run_fits bounds fixed current (filter (eligible forgotten) (drop c es)) \<and>
      (c = 0 \<or> eligible forgotten (es ! (c - 1)) \<and>
        \<not> run_fits bounds fixed current (filter (eligible forgotten) (drop (c - 1) es)))"
  using assms(1,4)
proof (induction k)
  case (Suc k)
  let ?kept = "filter (eligible forgotten) (drop (Suc k) es)"
  have k: "k < length es" using Suc.prems by simp
  have split: "drop k es = es ! k # drop (Suc k) es" using k by (rule Cons_nth_drop_Suc [symmetric])
  show ?case
  proof (cases "eligible forgotten (es ! k)")
    case False
    then have same: "filter (eligible forgotten) (drop k es) = ?kept" "kept_flags forgotten es k = kept_flags forgotten es (Suc k)"
      using split kept_flags_step [OF k] by simp_all
    have "\<not> completed (es ! k) \<or> list_ex forgotten (es ! k)" using False by (simp add: eligible_def)
    then have skip: "keep_newest bounds fixed current forgotten (rev (enumerate 0 (take (Suc k) es))) n u flags
        = keep_newest bounds fixed current forgotten (rev (enumerate 0 (take k es))) n u flags" for n u flags
      by (simp add: rev_enumerate_Suc [OF k])
    from Suc.IH Suc.prems k show ?thesis unfolding same skip by (meson Suc_leD le_SucI)
  next
    case True
    let ?new = "exchange_tokens ?kept + sum_list (map message_tokens (es ! k))"
    have kept: "filter (eligible forgotten) (drop k es) = es ! k # ?kept" using split True by simp
    have grown: "length (filter (eligible forgotten) (drop k es)) = Suc (length ?kept)"
      "exchange_tokens (filter (eligible forgotten) (drop k es)) = ?new"
      by (simp_all add: kept exchange_tokens_def)
    have sat: "sat_add (exchange_tokens ?kept) (sum_list (map message_tokens (es ! k))) > max_history bounds \<longleftrightarrow> ?new > max_history bounds"
      using sat_add_le_iff [OF assms(2)] by (simp add: not_le [symmetric])
    have exact: "?new \<le> max_history bounds \<Longrightarrow> sat_add (exchange_tokens ?kept) (sum_list (map message_tokens (es ! k))) = ?new"
      using assms(2) by (simp add: sat_add_def)
    have stops: "run_fits bounds fixed current (filter (eligible forgotten) (drop k es)) \<longleftrightarrow>
        \<not> (length ?kept = max_exchanges bounds \<or> sat_add (exchange_tokens ?kept) (sum_list (map message_tokens (es ! k))) > max_history bounds
          \<or> window_within bounds (sat_add fixed (sat_add (exchange_tokens ?kept) (sum_list (map message_tokens (es ! k))))) current \<noteq> Inr ())"
      using Suc.prems(2) sat exact window_within_iff [OF assms(3), of fixed ?new current]
      unfolding run_fits_def grown by auto
    have go: "completed (es ! k)" "\<not> list_ex forgotten (es ! k)" using True by (simp_all add: eligible_def)
    show ?thesis
    proof (cases "run_fits bounds fixed current (filter (eligible forgotten) (drop k es))")
      case False
      then show ?thesis using stops go True Suc.prems k by (intro exI [of _ "Suc k"]) (simp add: rev_enumerate_Suc [OF k] Let_def)
    next
      case fits: True
      then have "?new \<le> max_history bounds" unfolding run_fits_def grown by simp
      note exact = exact [OF this]
      have flags: "(kept_flags forgotten es (Suc k))[k := True] = kept_flags forgotten es k" using kept_flags_step [OF k] True by simp
      have "keep_newest bounds fixed current forgotten (rev (enumerate 0 (take (Suc k) es))) (length ?kept) (exchange_tokens ?kept)
          (kept_flags forgotten es (Suc k))
        = keep_newest bounds fixed current forgotten (rev (enumerate 0 (take k es)))
          (length (filter (eligible forgotten) (drop k es))) (exchange_tokens (filter (eligible forgotten) (drop k es)))
          (kept_flags forgotten es k)"
        using stops fits go unfolding grown by (simp add: rev_enumerate_Suc [OF k] Let_def exact flags)
      then show ?thesis using Suc.IH [OF _ fits] k by (auto intro: le_SucI)
    qed
  qed
qed simp

lemma zip_kept_flags:
  "c \<le> length es \<Longrightarrow> concat (map (\<lambda>(e, _). map message_id e) (filter (\<lambda>(_, keep). \<not> keep) (zip es (kept_flags forgotten es c))))
    = map message_id (concat (take c es @ filter (\<lambda>e. \<not> eligible forgotten e) (drop c es)))"
proof -
  have "concat (map (\<lambda>(e, _). map message_id e) (filter (\<lambda>(_, keep). \<not> keep)
        (zip fs (map (\<lambda>(i, e). c \<le> i \<and> eligible forgotten e) (enumerate n fs)))))
      = map message_id (concat (take (c - n) fs @ filter (\<lambda>e. \<not> eligible forgotten e) (drop (c - n) fs)))" for fs n
  proof (induction fs arbitrary: n)
    case (Cons f fs)
    have IH: "concat (map (\<lambda>(e, _). map message_id e) (filter (\<lambda>(_, keep). \<not> keep)
        (zip fs (map (\<lambda>(i, e). c \<le> i \<and> eligible forgotten e) (enumerate (Suc n) fs)))))
      = map message_id (concat (take (c - Suc n) fs @ filter (\<lambda>e. \<not> eligible forgotten e) (drop (c - Suc n) fs)))"
      by (rule Cons.IH)
    show ?case
    proof (cases "c \<le> n")
      case True
      then show ?thesis using IH by simp
    next
      case False
      then obtain j where "c - n = Suc j" "c - Suc n = j" by (metis Suc_diff_Suc not_le)
      then show ?thesis using IH False by simp
    qed
  qed simp
  from this [of es 0] show ?thesis by (simp add: kept_flags_def)
qed

lemma drop_within_run:
  assumes bounds: "max_history bounds < u64_max" "max_window bounds < u64_max"
    and dropped: "drop_within bounds history fixed current forgotten = Inr names"
  obtains es c where "exchanges history = Inr es" "c \<le> length es"
    "names = map message_id (concat (take c es @ filter (\<lambda>e. \<not> eligible forgotten e) (drop c es)))"
    "run_fits bounds fixed current (filter (eligible forgotten) (drop c es))"
    "c = 0 \<or> eligible forgotten (es ! (c - 1)) \<and> \<not> run_fits bounds fixed current (filter (eligible forgotten) (drop (c - 1) es))"
proof -
  obtain es where win: "window_within bounds fixed current = Inr ()" and es: "exchanges history = Inr es"
    and names: "names = concat (map (\<lambda>(exchange, _). map message_id exchange) (filter (\<lambda>(_, keep). \<not> keep)
      (zip es (keep_newest bounds fixed current forgotten (rev (enumerate 0 es)) 0 0 (replicate (length es) False)))))"
    using dropped by (auto simp: drop_within_def Let_def split: sum.splits)
  have "sat_add (sat_add fixed current) OUTPUT_RESERVE_TOKENS \<le> max_window bounds"
    using win by (simp add: window_within_def Let_def not_less split: if_splits)
  then have "fixed + current + OUTPUT_RESERVE_TOKENS \<le> max_window bounds"
    using bounds(2) by (auto simp: sat_add_def min_def split: if_splits)
  then have start: "run_fits bounds fixed current (filter (eligible forgotten) (drop (length es) es))"
    by (simp add: run_fits_def exchange_tokens_def)
  have flags: "kept_flags forgotten es (length es) = replicate (length es) False"
    by (intro nth_equalityI) (simp_all add: kept_flags_def nth_enumerate_eq)
  obtain c where c: "c \<le> length es" "keep_newest bounds fixed current forgotten (rev (enumerate 0 es)) 0 0 (replicate (length es) False)
        = kept_flags forgotten es c"
      "run_fits bounds fixed current (filter (eligible forgotten) (drop c es))"
      "c = 0 \<or> eligible forgotten (es ! (c - 1)) \<and> \<not> run_fits bounds fixed current (filter (eligible forgotten) (drop (c - 1) es))"
    using keep_newest_run [OF _ bounds start] by (auto simp: exchange_tokens_def flags)
  show thesis by (rule that [OF es c(1) _ c(3,4)]) (simp only: names c(2) zip_kept_flags [OF c(1)])
qed

section \<open>What omission saves\<close>

definition gain :: "tool_message \<Rightarrow> nat" where
  "gain result = message_tokens (Tool result) - message_tokens (Tool (placeholder_of result))"

definition omittable :: "(tool_message \<Rightarrow> bool) \<Rightarrow> message list \<Rightarrow> tool_message list" where
  "omittable action_result ms = filter (\<lambda>r. action_result r \<and> 0 < gain r) (List.map_filter tool ms)"

definition replaced :: "(tool_message \<Rightarrow> bool) \<Rightarrow> message list \<Rightarrow> message list" where
  "replaced action_result ms =
     map (\<lambda>m. case tool m of
            Some r \<Rightarrow> if action_result r \<and> 0 < gain r then Tool (placeholder_of r) else m
          | None \<Rightarrow> m) ms"

lemma tool_Some: "tool m = Some r \<longleftrightarrow> m = Tool r"
  by (cases m) auto

lemma omit_loop_omittable:
  "omit_loop action_result ms ps saved =
    (ps @ map placeholder_of (omittable action_result ms), foldl sat_add saved (map gain (omittable action_result ms)))"
  by (induction action_result ms ps saved rule: omit_loop.induct)
    (auto simp: omittable_def List.map_filter_simps Let_def gain_def tool_Some split: option.splits)

lemma gain_placeholder [simp]: "gain (placeholder_of r) = 0"
  by (simp add: gain_def placeholder_of_def)

lemma replaced_tokens:
  "sum_list (map message_tokens (replaced action_result ms)) + sum_list (map gain (omittable action_result ms))
    = sum_list (map message_tokens ms)"
  by (induction ms) (auto simp: replaced_def omittable_def List.map_filter_simps gain_def tool_Some split: option.splits)

lemma replaced_settled: "omittable action_result (replaced action_result ms) = []"
  by (induction ms) (auto simp: replaced_def omittable_def List.map_filter_simps tool_Some split: option.splits)

section \<open>Properties\<close>

text \<open>Two histories for the witnesses: a bridged exchange before an unfinished one, and one long Action result.\<close>

definition reply_message :: "string \<Rightarrow> string \<Rightarrow> message" where
  "reply_message ident words =
     Assistant \<lparr>turn_id = ident, turn_text = words, turn_calls = [], turn_invalid_calls = [], turn_refusal = False,
       turn_truncated = False, turn_provider = ''openai'', turn_raw = None, turn_attempts = 1\<rparr>"

definition sample_history :: "message list" where
  "sample_history =
     [User ''shimpz-context-1'' ''quoted'', User ''h1'' ''a'', reply_message ''a1'' ''r'', User ''h2'' ''b'']"

definition result_history :: "string \<Rightarrow> message list" where
  "result_history content =
     [User ''h1'' ''a'', Tool \<lparr>result_id = ''t1'', result_call_id = ''c1'', result_name = ''n'', result_content = content, result_error = False\<rparr>,
      reply_message ''a1'' ''r'', User ''h2'' ''b'', reply_message ''a2'' ''r'', User ''h3'' ''c'', reply_message ''a3'' ''r'']"

lemmas limit_values = LIMITS_def MAX_HISTORY_EXCHANGES_def HISTORY_BUDGET_TOKENS_def MODEL_WINDOW_TOKENS_def
  OUTPUT_RESERVE_TOKENS_def OMIT_RESULTS_TRIGGER_TOKENS_def KEEP_RESULT_EXCHANGES_def u64_max_def

lemma reply_completed [simp]: "completed [m, reply_message ident ''r'']" "completed [m, n, reply_message ident ''r'']"
  by (simp_all add: completed_def final_reply_def reply_message_def strip_def trim_end_def isspace_def WHITESPACE_def)

lemma sample_dropped: "history_to_drop sample_history 0 1 (\<lambda>_. False) = Inr [''h2'']"
proof -
  let ?one = "[User ''shimpz-context-1'' ''quoted'', User ''h1'' ''a'', reply_message ''a1'' ''r'']" and ?two = "[User ''h2'' ''b'']"
  have split: "exchanges sample_history = Inr [?one, ?two]" by code_simp
  have "\<not> completed ?two" by (simp add: completed_def final_reply_def)
  moreover have "sum_list (map message_tokens ?one) = 31" by code_simp
  ultimately show ?thesis
    by (simp add: history_to_drop_def drop_within_def split window_within_def limit_values sat_add_def Let_def)
qed

lemma chars_plain: "chars (replicate n (CHR ''a'')) = replicate n ''a''"
proof (induction n)
  case (Suc n)
  have "takeWhile continuation (replicate n (CHR ''a'')) = []" "dropWhile continuation (replicate n (CHR ''a'')) = replicate n (CHR ''a'')"
    by (cases n; simp add: continuation_def)+
  then show ?case using Suc by simp
qed simp

lemma plain_tokens: "estimated_tokens (object [(''content'', String (replicate n (CHR ''a'')))]) = div_ceil (n + 14) 3"
proof -
  have "length (concat (map (write_char False) (replicate n ''a''))) = n"
    by (simp add: write_char_def escape_char_def Let_def length_concat sum_list_replicate)
  then have "length (write_string (replicate n (CHR ''a'')) False) = n + 2"
    by (simp add: write_string_def chars_plain)
  moreover have "length (write_string ''content'' False) = 9" by code_simp
  ultimately show ?thesis by (simp add: estimated_tokens_def object_def COMPACT_def BYTES_PER_TOKEN_def Let_def add.commute)
qed

lemma tool_reply [simp]: "tool (reply_message ident words) = None"
  by (simp add: reply_message_def)

lemma result_omitted:
  "\<exists>placeholders. results_to_omit (result_history (replicate 30000 (CHR ''a''))) (\<lambda>_. True) (\<lambda>_. False) = Inr placeholders \<and> placeholders \<noteq> []"
proof -
  let ?big = "replicate 30000 (CHR ''a'')"
  let ?r = "\<lparr>result_id = ''t1'', result_call_id = ''c1'', result_name = ''n'', result_content = ?big, result_error = False\<rparr>"
  let ?one = "[User ''h1'' ''a'', Tool ?r, reply_message ''a1'' ''r'']"
  have split: "exchanges (result_history content) = Inr
      [[User ''h1'' ''a'', Tool \<lparr>result_id = ''t1'', result_call_id = ''c1'', result_name = ''n'', result_content = content, result_error = False\<rparr>,
        reply_message ''a1'' ''r''], [User ''h2'' ''b'', reply_message ''a2'' ''r''], [User ''h3'' ''c'', reply_message ''a3'' ''r'']]" for content
    by (simp add: exchanges_def result_history_def reply_message_def)
  have "estimated_tokens (object [(''content'', String OMITTED_RESULT)]) = 89" by code_simp
  then have small: "message_tokens (Tool (placeholder_of ?r)) = 89"
    by (simp add: message_tokens_def placeholder_of_def)
  have big: "message_tokens (Tool ?r) = 10005"
    by (simp add: message_tokens_def plain_tokens div_ceil_def)
  show ?thesis
    by (simp add: results_to_omit_def omit_within_def split limit_values Let_def omit_loop_omittable omittable_def List.map_filter_simps
        gain_def small big sat_add_def)
qed

text \<open>
  C13 The split of history: it is refused exactly when a message has no id or the history does not start with a user message.
  Otherwise the exchanges concatenate to the history, each opens with a user message and holds another only right after a
  bridge that opens it, and no bridge stands alone before a later exchange.
\<close>

theorem exchanges_partition:
  "(exchanges messages = Inl State \<longleftrightarrow> (\<exists>m\<in>set messages. message_id m = []) \<or> messages \<noteq> [] \<and> \<not> is_user (hd messages)) \<and>
   (case exchanges messages of
      Inr es \<Rightarrow> concat es = messages \<and> (\<forall>e\<in>set es. exchange_shape e) \<and>
        (\<forall>i. Suc i < length es \<and> length (es ! i) = 1 \<longrightarrow> \<not> bridge (hd (es ! i)))
    | Inl err \<Rightarrow> err = State)"
proof (cases "(\<exists>m\<in>set messages. message_id m = []) \<or> messages \<noteq> [] \<and> \<not> is_user (hd messages)")
  case True
  then show ?thesis using exchanges_refused [OF True] by simp
next
  case False
  then have ok: "\<forall>m\<in>set messages. message_id m \<noteq> []" "messages = [] \<or> is_user (hd messages)" by auto
  have "fst (cut False messages) = []" using ok(2) by (cases messages) (auto simp: split_beta)
  then show ?thesis
    using False exchanges_cut [OF ok] cut_concat [of False messages] cut_shape [of _ False messages] cut_joined [of _ False messages] by simp
qed

theorem exchanges_partition_witness:
  "exchange_shape [User ''shimpz-context-1'' ''quoted'', User ''h1'' ''a'', reply_message ''a1'' ''r''] \<and>
   exchanges [User ''h1'' ''a'', reply_message [] ''r''] = Inl State"
proof -
  have "exchanges sample_history
      = Inr [[User ''shimpz-context-1'' ''quoted'', User ''h1'' ''a'', reply_message ''a1'' ''r''], [User ''h2'' ''b'']]" by code_simp
  moreover have "message_id (reply_message [] ''r'') = []" by code_simp
  ultimately show ?thesis
    using exchanges_partition [of sample_history] exchanges_partition [of "[User ''h1'' ''a'', reply_message [] ''r'']"] by simp
qed

text \<open>
  C14 What a new turn forgets: the ids of everything before one cut, and after it of every exchange that is unfinished or
  holds a forgotten message.  What is kept is a run of at most 24 exchanges within 128,000 estimated tokens that leaves
  the window room for the prompt, the current message and the reply, and it is the longest: keeping the newest exchange
  before the cut too would break a limit.
\<close>

theorem history_fits:
  assumes "history_to_drop history fixed current forgotten = Inr names"
  shows "\<exists>es c. exchanges history = Inr es \<and> c \<le> length es \<and>
    names = map message_id (concat (take c es @ filter (\<lambda>e. \<not> eligible forgotten e) (drop c es))) \<and>
    (let kept = filter (eligible forgotten) (drop c es)
     in length kept \<le> 24 \<and> exchange_tokens kept \<le> 128000 \<and> fixed + exchange_tokens kept + current + 128000 \<le> 1000000) \<and>
    (c = 0 \<or> eligible forgotten (es ! (c - 1)) \<and>
      \<not> run_fits LIMITS fixed current (filter (eligible forgotten) (drop (c - 1) es)))"
proof -
  have bounds: "max_history LIMITS < u64_max" "max_window LIMITS < u64_max" by (simp_all add: limit_values)
  from drop_within_run [OF bounds assms [unfolded history_to_drop_def]] obtain es c where
    "exchanges history = Inr es" "c \<le> length es"
    "names = map message_id (concat (take c es @ filter (\<lambda>e. \<not> eligible forgotten e) (drop c es)))"
    "run_fits LIMITS fixed current (filter (eligible forgotten) (drop c es))"
    "c = 0 \<or> eligible forgotten (es ! (c - 1)) \<and> \<not> run_fits LIMITS fixed current (filter (eligible forgotten) (drop (c - 1) es))"
    by blast
  then show ?thesis by (intro exI [of _ es] exI [of _ c]) (simp add: run_fits_def limit_values)
qed

theorem history_fits_witness:
  "\<exists>es c. exchanges sample_history = Inr es \<and>
    [''h2''] = map message_id (concat (take c es @ filter (\<lambda>e. \<not> eligible (\<lambda>_. False) e) (drop c es)))"
  using history_fits [OF sample_dropped] by (elim exE conjE) (intro exI conjI)

text \<open>
  Omitting older Action results is worth it and settles: when any is omitted, the placeholders stand for results of
  completed exchanges before the two newest, replacing them saves at least 8,000 estimated tokens, and nothing in the
  replaced history would be omitted again.
\<close>

theorem omission_saves:
  assumes "results_to_omit history action_result forgotten = Inr placeholders" "placeholders \<noteq> []"
  shows "\<exists>es older. exchanges history = Inr es \<and>
    older = concat (take (length (filter (eligible forgotten) es) - 2) (filter (eligible forgotten) es)) \<and>
    placeholders = map placeholder_of (omittable action_result older) \<and>
    sum_list (map message_tokens (replaced action_result older)) + 8000 \<le> sum_list (map message_tokens older) \<and>
    omittable action_result (replaced action_result older) = []"
proof -
  obtain es where es: "exchanges history = Inr es"
    using assms(1) by (auto simp: results_to_omit_def omit_within_def split: sum.splits)
  let ?older = "concat (take (length (filter (eligible forgotten) es) - 2) (filter (eligible forgotten) es))"
  have "placeholders = map placeholder_of (omittable action_result ?older)"
    "8000 \<le> foldl sat_add 0 (map gain (omittable action_result ?older))"
    using assms es by (auto simp: results_to_omit_def omit_within_def omit_loop_omittable Let_def limit_values
        eligible_def [abs_def] split: if_splits)
  moreover from this(2) have "8000 \<le> sum_list (map gain (omittable action_result ?older))"
    by (simp add: foldl_sat_add)
  ultimately show ?thesis
    using es replaced_tokens [of action_result ?older] replaced_settled [of action_result ?older] by fastforce
qed

theorem omission_saves_witness:
  "\<exists>older. sum_list (map message_tokens (replaced (\<lambda>_. True) older)) + 8000 \<le> sum_list (map message_tokens older)"
proof -
  from result_omitted obtain placeholders where
    run: "results_to_omit (result_history (replicate 30000 (CHR ''a''))) (\<lambda>_. True) (\<lambda>_. False) = Inr placeholders"
      "placeholders \<noteq> []" by blast
  from omission_saves [OF run] show ?thesis by blast
qed

end
