(* ===== verification/Egress.thy ===== *)
theory Egress
  imports Json
begin

text \<open>
  The Brain's only internet route (\<open>egress/src/policy.rs\<close>, \<open>egress/src/lib.rs\<close>): the provider policy read from the packaged
  model catalog, and the profile that admits a CONNECT.  The catalog file and the strict reader are parameters, and so
  are the neutral transport's CONNECT parser and refusals.  A \<open>BTreeSet\<close> is a set.
\<close>

section \<open>The catalog's fields\<close>

definition DECISION_HOSTS :: "string list" where
  "DECISION_HOSTS = [''api.typesafe.ai'']"

definition MAX_CATALOG_BYTES :: nat where
  "MAX_CATALOG_BYTES = 256 * 1024"

datatype policy_error = Policy_error string

definition exact_object :: "json \<Rightarrow> string list \<Rightarrow> string \<Rightarrow> policy_error + (string \<times> json) list" where
  "exact_object v fields complaint =
     (case v of
        Object ms \<Rightarrow> if set (map fst ms) \<noteq> set fields then Inl (Policy_error complaint) else Inr ms
      | _ \<Rightarrow> Inl (Policy_error complaint))"

definition field :: "(string \<times> json) list \<Rightarrow> string \<Rightarrow> json" where
  "field ms name = (case find (\<lambda>m. fst m = name) ms of Some m \<Rightarrow> snd m | None \<Rightarrow> Null)"

definition bounded_text :: "json \<Rightarrow> nat \<Rightarrow> string \<Rightarrow> policy_error + string" where
  "bounded_text v maximum complaint =
     (case v of
        String words \<Rightarrow> if 1 \<le> length (chars words) \<and> length (chars words) \<le> maximum then Inr words else Inl (Policy_error complaint)
      | _ \<Rightarrow> Inl (Policy_error complaint))"

definition edge :: "char \<Rightarrow> bool" where
  "edge b \<longleftrightarrow> ascii_lower b \<or> ascii_digit b"

text \<open>One label of lowercase letters, digits and inner hyphens; a host is one or more joined by dots.\<close>

definition label :: "string \<Rightarrow> bool" where
  "label s \<longleftrightarrow> 1 \<le> length s \<and> length s \<le> 63 \<and> edge (hd s) \<and> edge (last s) \<and> list_all (\<lambda>b. edge b \<or> b = CHR ''-'') s"

definition host :: "string \<Rightarrow> bool" where
  "host s \<longleftrightarrow> list_all label (split_on (CHR ''.'') s)"

definition identifier_text :: "string \<Rightarrow> bool" where
  "identifier_text s \<longleftrightarrow>
     (case s of [] \<Rightarrow> False | b # _ \<Rightarrow> edge b) \<and> list_all (\<lambda>b. edge b \<or> b \<in> set ''._-'') s"

definition provider_endpoint :: "json \<Rightarrow> policy_error + string" where
  "provider_endpoint v =
     (case exact_object v [''host'', ''path''] ''provider endpoint is invalid'' of
        Inl err \<Rightarrow> Inl err
      | Inr endpoint \<Rightarrow>
          (case bounded_text (field endpoint ''host'') 253 ''provider host is invalid'' of
             Inl err \<Rightarrow> Inl err
           | Inr host_name \<Rightarrow>
               (case bounded_text (field endpoint ''path'') 256 ''provider path is invalid'' of
                  Inl err \<Rightarrow> Inl err
                | Inr path \<Rightarrow>
                    if \<not> host host_name \<or> \<not> starts_with ''/'' path then Inl (Policy_error ''provider endpoint is invalid'')
                    else Inr host_name)))"

definition price :: "json \<Rightarrow> bool" where
  "price v \<longleftrightarrow> (case v of Number (Integer i) \<Rightarrow> 0 \<le> i \<and> i \<le> 10000000 | _ \<Rightarrow> False)"

definition is_bool :: "json \<Rightarrow> bool" where
  "is_bool v \<longleftrightarrow> (case v of Bool _ \<Rightarrow> True | _ \<Rightarrow> False)"

definition MODEL_FIELDS :: "string list" where
  "MODEL_FIELDS = [''chat'', ''id'', ''input_usd_per_million_cents'', ''output_usd_per_million_cents'', ''title'']"

definition model_id :: "json \<Rightarrow> string set \<Rightarrow> policy_error + string" where
  "model_id v seen =
     (case exact_object v MODEL_FIELDS ''provider model is invalid'' of
        Inl err \<Rightarrow> Inl err
      | Inr model \<Rightarrow>
          if \<not> is_bool (field model ''chat'') then Inl (Policy_error ''model chat admission is invalid'')
          else case bounded_text (field model ''id'') 128 ''model id is invalid'' of
                 Inl err \<Rightarrow> Inl err
               | Inr ident \<Rightarrow>
                   if \<not> identifier_text ident \<or> ident \<in> seen then Inl (Policy_error ''model id is invalid'')
                   else case bounded_text (field model ''title'') 120 ''model title is invalid'' of
                          Inl err \<Rightarrow> Inl err
                        | Inr _ \<Rightarrow>
                            if \<not> price (field model ''input_usd_per_million_cents'')
                              \<or> \<not> price (field model ''output_usd_per_million_cents'')
                            then Inl (Policy_error ''model price is invalid'')
                            else Inr ident)"

fun model_ids_loop :: "json list \<Rightarrow> string set \<Rightarrow> policy_error + string set" where
  "model_ids_loop [] ids = Inr ids"
| "model_ids_loop (model # models) ids =
     (case model_id model ids of
        Inl err \<Rightarrow> Inl err
      | Inr ident \<Rightarrow> model_ids_loop models (insert ident ids))"

definition model_ids :: "json \<Rightarrow> policy_error + string set" where
  "model_ids v =
     (case v of
        Array models \<Rightarrow>
          if \<not> (1 \<le> length models \<and> length models \<le> 128) then Inl (Policy_error ''provider models are invalid'')
          else model_ids_loop models {}
      | _ \<Rightarrow> Inl (Policy_error ''provider models are invalid''))"

definition names_member :: "json \<Rightarrow> string set \<Rightarrow> bool" where
  "names_member v names \<longleftrightarrow> (case v of String words \<Rightarrow> words \<in> names | _ \<Rightarrow> False)"

definition PROVIDER_FIELDS :: "string list" where
  "PROVIDER_FIELDS = [''credential_validation'', ''default_model'', ''id'', ''models'', ''title'']"

definition provider :: "json \<Rightarrow> string set \<Rightarrow> policy_error + string \<times> string" where
  "provider v seen =
     (case exact_object v PROVIDER_FIELDS ''provider is invalid'' of
        Inl err \<Rightarrow> Inl err
      | Inr ms \<Rightarrow>
          (case bounded_text (field ms ''id'') 128 ''provider id is invalid'' of
             Inl err \<Rightarrow> Inl err
           | Inr ident \<Rightarrow>
               if \<not> identifier_text ident \<or> ident \<in> seen then Inl (Policy_error ''provider id is invalid'')
               else case bounded_text (field ms ''title'') 80 ''provider title is invalid'' of
                      Inl err \<Rightarrow> Inl err
                    | Inr _ \<Rightarrow>
                        (case model_ids (field ms ''models'') of
                           Inl err \<Rightarrow> Inl err
                         | Inr models \<Rightarrow>
                             if \<not> names_member (field ms ''default_model'') models
                             then Inl (Policy_error ''provider default model is invalid'')
                             else case provider_endpoint (field ms ''credential_validation'') of
                                    Inl err \<Rightarrow> Inl err
                                  | Inr endpoint \<Rightarrow> Inr (ident, endpoint))))"

definition schema_one :: "json \<Rightarrow> bool" where
  "schema_one v \<longleftrightarrow>
     (case v of Number (Integer i) \<Rightarrow> i = 1 | Number (Float f) \<Rightarrow> f = 0x3FF0000000000000 | _ \<Rightarrow> False)"

section \<open>The catalog file\<close>

record metadata =
  is_file :: bool
  nlink :: nat
  file_len :: nat

record catalog_file =
  file_metadata :: "metadata option"
  file_bytes :: "string option"

definition catalog_bytes :: "catalog_file \<Rightarrow> policy_error + string" where
  "catalog_bytes file =
     (case file_metadata file of
        None \<Rightarrow> Inl (Policy_error ''provider catalog is unavailable'')
      | Some meta \<Rightarrow>
          if \<not> is_file meta \<or> nlink meta \<noteq> 1 \<or> \<not> (1 \<le> file_len meta \<and> file_len meta \<le> MAX_CATALOG_BYTES)
          then Inl (Policy_error ''provider catalog metadata is invalid'')
          else case file_bytes file of
                 None \<Rightarrow> Inl (Policy_error ''provider catalog is unavailable'')
               | Some bytes \<Rightarrow> Inr bytes)"

fun provider_loop :: "json list \<Rightarrow> string set \<Rightarrow> string set \<Rightarrow> policy_error + string set \<times> string set" where
  "provider_loop [] ids hosts = Inr (ids, hosts)"
| "provider_loop (v # vs) ids hosts =
     (case provider v ids of
        Inl err \<Rightarrow> Inl err
      | Inr (ident, endpoint) \<Rightarrow> provider_loop vs (insert ident ids) (insert endpoint hosts))"

definition load_provider_hosts :: "(string \<Rightarrow> json option) \<Rightarrow> catalog_file \<Rightarrow> policy_error + string set" where
  "load_provider_hosts parse file =
     (case catalog_bytes file of
        Inl err \<Rightarrow> Inl err
      | Inr bytes \<Rightarrow>
          (case parse bytes of
             None \<Rightarrow> Inl (Policy_error ''provider catalog is invalid'')
           | Some catalog \<Rightarrow>
               (case exact_object catalog [''default_provider'', ''providers'', ''schema''] ''provider catalog is invalid'' of
                  Inl err \<Rightarrow> Inl err
                | Inr ms \<Rightarrow>
                    if \<not> schema_one (field ms ''schema'') then Inl (Policy_error ''provider catalog schema is invalid'')
                    else case field ms ''providers'' of
                           Array providers \<Rightarrow>
                             if \<not> (1 \<le> length providers \<and> length providers \<le> 16)
                             then Inl (Policy_error ''provider catalog providers are invalid'')
                             else (case provider_loop providers {} {} of
                                     Inl err \<Rightarrow> Inl err
                                   | Inr (ids, hosts) \<Rightarrow>
                                       if \<not> names_member (field ms ''default_provider'') ids
                                       then Inl (Policy_error ''provider catalog default is invalid'')
                                       else Inr hosts)
                         | _ \<Rightarrow> Inl (Policy_error ''provider catalog providers are invalid''))))"

section \<open>The profile\<close>

definition ALLOWED_PORT :: nat where
  "ALLOWED_PORT = 443"

datatype startup = Startup_policy | Startup_custody | Startup_listen

record brain =
  allowed :: "string set"

definition new_brain :: "string set \<Rightarrow> startup + brain" where
  "new_brain hosts = (if hosts = {} \<or> ''*'' \<in> hosts then Inl Startup_policy else Inr \<lparr>allowed = hosts\<rparr>)"

definition strip_suffix_dot :: "string \<Rightarrow> string" where
  "strip_suffix_dot s = (case rev s of b # rest \<Rightarrow> if b = CHR ''.'' then rev rest else s | [] \<Rightarrow> s)"

definition permitted :: "brain \<Rightarrow> string \<Rightarrow> nat \<Rightarrow> bool" where
  "permitted profile name port \<longleftrightarrow> port = ALLOWED_PORT \<and> strip_suffix_dot (map to_lower name) \<in> allowed profile"

record target =
  target_host :: string
  target_port :: nat

text \<open>\<open>connect\<close> is the transport's CONNECT parser, \<open>rejected\<close> its refusal of a target with status 403.\<close>

definition admit :: "(string \<Rightarrow> 'd + target) \<Rightarrow> (target \<Rightarrow> 'd) \<Rightarrow> brain \<Rightarrow> string \<Rightarrow> 'd + target" where
  "admit connect rejected profile request =
     (case connect request of
        Inl decision \<Rightarrow> Inl decision
      | Inr t \<Rightarrow> if \<not> permitted profile (target_host t) (target_port t) then Inl (rejected t) else Inr t)"

text \<open>Startup: the policy, the audit custody, the profile and the listener, in that order.\<close>

definition start :: "(string \<Rightarrow> json option) \<Rightarrow> catalog_file \<Rightarrow> bool \<Rightarrow> bool \<Rightarrow> startup + brain" where
  "start parse file custody listens =
     (case load_provider_hosts parse file of
        Inl _ \<Rightarrow> Inl Startup_policy
      | Inr providers \<Rightarrow>
          if \<not> custody then Inl Startup_custody
          else case new_brain (providers \<union> set DECISION_HOSTS) of
                 Inl err \<Rightarrow> Inl err
               | Inr profile \<Rightarrow> if \<not> listens then Inl Startup_listen else Inr profile)"


section \<open>What a policy admits\<close>

lemma field_get: "field ms name = (case get (Object ms) name of Some v \<Rightarrow> v | None \<Rightarrow> Null)"
  by (induction ms) (auto simp: field_def)

lemma provider_endpoint_host: "provider_endpoint v = Inr h \<Longrightarrow> get v ''host'' = Some (String h) \<and> host h \<and> length (chars h) \<le> 253"
  by (auto simp: provider_endpoint_def exact_object_def bounded_text_def field_get
      split: sum.splits json.splits if_splits option.splits)

text \<open>The endpoint host and the id a provider entry names.\<close>

definition entry_host :: "json \<Rightarrow> string" where
  "entry_host v = (case get v ''credential_validation'' of
     Some endpoint \<Rightarrow> the (str_of endpoint ''host'') | None \<Rightarrow> [])"

definition entry_id :: "json \<Rightarrow> string" where
  "entry_id v = the (str_of v ''id'')"

lemma provider_entry:
  assumes "provider v seen = Inr (ident, endpoint)"
  shows "ident = entry_id v \<and> ident \<notin> seen \<and> identifier_text ident \<and> endpoint = entry_host v \<and> host endpoint \<and> length (chars endpoint) \<le> 253"
proof -
  obtain ms models where v: "v = Object ms" and ident: "bounded_text (field ms ''id'') 128 ''provider id is invalid'' = Inr ident"
    "identifier_text ident" "ident \<notin> seen" and e: "provider_endpoint (field ms ''credential_validation'') = Inr endpoint"
    using assms by (auto simp: provider_def exact_object_def split: sum.splits json.splits if_splits)
  have "get v ''id'' = Some (String ident)"
    using ident(1) by (auto simp: v bounded_text_def field_get split: json.splits if_splits option.splits)
  moreover obtain c where "get v ''credential_validation'' = Some c" "provider_endpoint c = Inr endpoint"
    using e by (auto simp: v field_get provider_endpoint_def exact_object_def split: option.splits)
  ultimately show ?thesis using ident(2,3) provider_endpoint_host [of c endpoint]
    by (simp add: entry_id_def entry_host_def str_of_def)
qed

lemma provider_loop_entries:
  "provider_loop vs ids hosts = Inr (ids', hosts') \<Longrightarrow>
    ids' = ids \<union> entry_id ` set vs \<and> hosts' = hosts \<union> entry_host ` set vs \<and>
    distinct (map entry_id vs) \<and> entry_id ` set vs \<inter> ids = {} \<and>
    (\<forall>v\<in>set vs. host (entry_host v) \<and> length (chars (entry_host v)) \<le> 253)"
proof (induction vs ids hosts rule: provider_loop.induct)
  case (2 v vs ids hosts)
  obtain ident endpoint where p: "provider v ids = Inr (ident, endpoint)"
    and rest: "provider_loop vs (insert ident ids) (insert endpoint hosts) = Inr (ids', hosts')"
    using 2(2) by (auto split: sum.splits)
  show ?case using 2(1) [OF p] provider_entry [OF p] rest by auto
qed simp

lemma star_no_host: "\<not> host ''*''"
  by code_simp

lemma load_entries:
  assumes "load_provider_hosts parse file = Inr hosts"
  obtains bytes catalog providers where "file_bytes file = Some bytes" "parse bytes = Some catalog"
    "get catalog ''providers'' = Some (Array providers)" "1 \<le> length providers" "length providers \<le> 16"
    "hosts = entry_host ` set providers" "distinct (map entry_id providers)"
    "\<forall>h\<in>hosts. host h \<and> length (chars h) \<le> 253"
proof -
  obtain bytes catalog ms providers ids where src: "catalog_bytes file = Inr bytes" and parsed: "parse bytes = Some catalog"
    and ms: "catalog = Object ms" and ps: "field ms ''providers'' = Array providers"
      "1 \<le> length providers" "length providers \<le> 16" and loop: "provider_loop providers {} {} = Inr (ids, hosts)"
    using assms by (auto simp: load_provider_hosts_def exact_object_def split: sum.splits json.splits if_splits option.splits)
  have bytes: "file_bytes file = Some bytes"
    using src by (auto simp: catalog_bytes_def split: option.splits if_splits)
  have "get catalog ''providers'' = Some (Array providers)"
    using ps(1) by (auto simp: ms field_get split: option.splits)
  then show thesis using that [OF bytes parsed _ ps(2,3)] provider_loop_entries [OF loop] by auto
qed

section \<open>Properties\<close>

text \<open>A catalog of one provider for the witnesses.\<close>

definition sample_provider :: json where
  "sample_provider =
     Object
       [(''id'', String ''openai''), (''title'', String ''OpenAI''), (''default_model'', String ''gpt-6''),
        (''models'', Array [Object
           [(''id'', String ''gpt-6''), (''title'', String ''GPT 6''), (''chat'', Bool True),
            (''input_usd_per_million_cents'', Number (Integer 100)), (''output_usd_per_million_cents'', Number (Integer 400))]]),
        (''credential_validation'', Object [(''host'', String ''api.openai.com''), (''path'', String ''/v1/models'')])]"

definition sample_catalog :: json where
  "sample_catalog =
     Object [(''schema'', Number (Integer 1)), (''default_provider'', String ''openai''), (''providers'', Array [sample_provider])]"

definition sample_file :: catalog_file where
  "sample_file = \<lparr>file_metadata = Some \<lparr>is_file = True, nlink = 1, file_len = 400\<rparr>, file_bytes = Some []\<rparr>"

lemma sample_loads: "load_provider_hosts (\<lambda>_. Some sample_catalog) sample_file = Inr {''api.openai.com''}"
proof -
  have "provider sample_provider {} = Inr (''openai'', ''api.openai.com'')" by code_simp
  then show ?thesis
    by (simp add: load_provider_hosts_def catalog_bytes_def sample_file_def MAX_CATALOG_BYTES_def sample_catalog_def exact_object_def
        field_get schema_one_def names_member_def insert_commute)
qed

text \<open>
  C15 A policy that loads lists at least one and at most sixteen providers, no id twice, and its hosts are exactly their
  endpoint hosts: each a dotted name of lowercase letter, digit and hyphen labels, of at most 253 characters, so never a
  wildcard.
\<close>

theorem policy_hosts_valid:
  assumes "load_provider_hosts parse file = Inr hosts"
  shows "\<exists>bytes catalog providers. file_bytes file = Some bytes \<and> parse bytes = Some catalog \<and>
      get catalog ''providers'' = Some (Array providers) \<and> 1 \<le> length providers \<and> length providers \<le> 16 \<and>
      distinct (map entry_id providers) \<and> hosts = entry_host ` set providers \<and>
      (\<forall>h\<in>hosts. host h \<and> length (chars h) \<le> 253 \<and> h \<noteq> ''*'')"
proof -
  obtain bytes catalog providers where "file_bytes file = Some bytes" "parse bytes = Some catalog"
    "get catalog ''providers'' = Some (Array providers)" "1 \<le> length providers" "length providers \<le> 16"
    "hosts = entry_host ` set providers" "distinct (map entry_id providers)" "\<forall>h\<in>hosts. host h \<and> length (chars h) \<le> 253"
    by (rule load_entries [OF assms])
  then show ?thesis using star_no_host by blast
qed

theorem policy_hosts_valid_witness:
  "\<exists>providers. get sample_catalog ''providers'' = Some (Array providers) \<and> {''api.openai.com''} = entry_host ` set providers"
  using policy_hosts_valid [OF sample_loads] by (metis option.inject)

text \<open>
  C16 Once the proxy starts, a CONNECT passes exactly when it asks for port 443 of a catalog host or of the decision host,
  spelled in any case with at most one trailing dot; and it starts exactly when the policy loads, the audit custody holds
  and the listener binds: the profile's own refusal of an empty or wildcard allowlist is never reached.
\<close>

theorem egress_exact:
  assumes "load_provider_hosts parse file = Inr hosts" "connect request = Inr t"
  shows "start parse file custody listens =
      (if \<not> custody then Inl Startup_custody else if \<not> listens then Inl Startup_listen
       else Inr \<lparr>allowed = insert ''api.typesafe.ai'' hosts\<rparr>) \<and>
    (\<forall>profile. start parse file custody listens = Inr profile \<longrightarrow>
      (admit connect rejected profile request = Inr t \<longleftrightarrow>
        target_port t = 443 \<and> strip_suffix_dot (map to_lower (target_host t)) \<in> insert ''api.typesafe.ai'' hosts))"
proof -
  obtain providers where "hosts = entry_host ` set providers" "\<forall>h\<in>hosts. host h \<and> length (chars h) \<le> 253"
    by (rule load_entries [OF assms(1)])
  then have "''*'' \<notin> insert ''api.typesafe.ai'' hosts" using star_no_host by auto
  then have new: "new_brain (hosts \<union> set DECISION_HOSTS) = Inr \<lparr>allowed = insert ''api.typesafe.ai'' hosts\<rparr>"
    by (simp add: new_brain_def DECISION_HOSTS_def)
  then have started: "start parse file custody listens =
      (if \<not> custody then Inl Startup_custody else if \<not> listens then Inl Startup_listen
       else Inr \<lparr>allowed = insert ''api.typesafe.ai'' hosts\<rparr>)"
    by (simp add: start_def assms(1))
  then show ?thesis using assms(2) by (auto simp: admit_def permitted_def ALLOWED_PORT_def)
qed

theorem egress_exact_witness:
  "admit (\<lambda>_. Inr \<lparr>target_host = ''API.openai.com.'', target_port = 443\<rparr>) (\<lambda>t. ()) \<lparr>allowed = {''api.typesafe.ai'', ''api.openai.com''}\<rparr> []
    = Inr \<lparr>target_host = ''API.openai.com.'', target_port = 443\<rparr>"
proof -
  let ?t = "\<lparr>target_host = ''API.openai.com.'', target_port = 443\<rparr>"
  have "strip_suffix_dot (map to_lower (target_host ?t)) = ''api.openai.com''" by code_simp
  moreover have "(\<lambda>_. Inr ?t :: unit + target) [] = Inr ?t" by simp
  ultimately show ?thesis
    using egress_exact [OF sample_loads, of "\<lambda>_. Inr ?t :: unit + target" "[]" ?t True True "\<lambda>_. ()"] by simp
qed

end
