(* ===== verification/PyValue.thy ===== *)
theory PyValue
  imports Equality
begin

text \<open>
  Python's view of a decoded JSON value (\<open>protocol/team/http/src/python/value.rs\<close>): type tests, equality across booleans,
  integers and floats, and the checks on members, numbers and decimal digit strings the validators repeat.
\<close>

section \<open>Members and types\<close>

definition py_object :: "json \<Rightarrow> (string \<times> json) list option" where
  "py_object v = (case v of Object ms \<Rightarrow> Some ms | _ \<Rightarrow> None)"

definition py_array :: "json \<Rightarrow> json list option" where
  "py_array v = (case v of Array vs \<Rightarrow> Some vs | _ \<Rightarrow> None)"

definition py_string :: "json \<Rightarrow> string option" where
  "py_string v = (case v of String s \<Rightarrow> Some s | _ \<Rightarrow> None)"

definition exact_members :: "(string \<times> json) list \<Rightarrow> string list \<Rightarrow> bool" where
  "exact_members ms fields \<longleftrightarrow> length ms = length fields \<and> list_all (\<lambda>m. fst m \<in> set fields) ms"

definition py_exact_object :: "json \<Rightarrow> string list \<Rightarrow> (string \<times> json) list option" where
  "py_exact_object v fields = (case py_object v of Some ms \<Rightarrow> if exact_members ms fields then Some ms else None | None \<Rightarrow> None)"

definition py_field :: "(string \<times> json) list \<Rightarrow> string \<Rightarrow> json" where
  "py_field ms name = (case find (\<lambda>m. fst m = name) ms of Some m \<Rightarrow> snd m | None \<Rightarrow> Null)"

definition small_int :: "json \<Rightarrow> int option" where
  "small_int v = (case v of Number (Integer i) \<Rightarrow> Some i | _ \<Rightarrow> None)"

definition is_int :: "json \<Rightarrow> bool" where
  "is_int v \<longleftrightarrow> (case v of Number (Integer _) \<Rightarrow> True | Number (BigInt _) \<Rightarrow> True | _ \<Rightarrow> False)"

definition whole :: "json \<Rightarrow> int \<Rightarrow> int \<Rightarrow> bool" where
  "whole v low high \<longleftrightarrow> (case small_int v of Some i \<Rightarrow> low \<le> i \<and> i \<le> high | None \<Rightarrow> False)"

definition is_int_like :: "json \<Rightarrow> bool" where
  "is_int_like v \<longleftrightarrow> (case v of Bool _ \<Rightarrow> True | _ \<Rightarrow> False) \<or> is_int v"

section \<open>Equality\<close>

datatype numeric_key = Numeric_Integer int | Numeric_Big string | Numeric_Float f64

definition numeric_of :: "json \<Rightarrow> numeric_key option" where
  "numeric_of v =
     (case v of
        Bool flag \<Rightarrow> Some (Numeric_Integer (if flag then 1 else 0))
      | Number (Integer i) \<Rightarrow> Some (Numeric_Integer i)
      | Number (BigInt digits) \<Rightarrow> Some (Numeric_Big digits)
      | Number (Float f) \<Rightarrow> Some (Numeric_Float f)
      | _ \<Rightarrow> None)"

text \<open>\<open>format!("{:.0}", float + 0.0)\<close> of a whole float: its exact integer, and zero without a sign.\<close>

definition whole_float_text :: "f64 \<Rightarrow> string option" where
  "whole_float_text f = (if fract_zero f then Some (dec_of_int (floor_integral f)) else None)"

fun numbers_equal :: "numeric_key \<Rightarrow> numeric_key \<Rightarrow> bool" where
  "numbers_equal (Numeric_Integer a) (Numeric_Integer b) = (a = b)"
| "numbers_equal (Numeric_Big a) (Numeric_Big b) = (a = b)"
| "numbers_equal (Numeric_Float a) (Numeric_Float b) = (partial_cmp a b = Some Equal)"
| "numbers_equal (Numeric_Integer _) (Numeric_Big _) = False"
| "numbers_equal (Numeric_Big _) (Numeric_Integer _) = False"
| "numbers_equal (Numeric_Integer i) (Numeric_Float f) =
     (case whole_float_text f of Some words \<Rightarrow> words = dec_of_int i | None \<Rightarrow> False)"
| "numbers_equal (Numeric_Float f) (Numeric_Integer i) =
     (case whole_float_text f of Some words \<Rightarrow> words = dec_of_int i | None \<Rightarrow> False)"
| "numbers_equal (Numeric_Big digits) (Numeric_Float f) =
     (case whole_float_text f of Some words \<Rightarrow> words = digits | None \<Rightarrow> False)"
| "numbers_equal (Numeric_Float f) (Numeric_Big digits) =
     (case whole_float_text f of Some words \<Rightarrow> words = digits | None \<Rightarrow> False)"

function py_eq :: "json \<Rightarrow> json \<Rightarrow> bool" where
  "py_eq left right =
     (case (numeric_of left, numeric_of right) of
        (Some a, Some b) \<Rightarrow> numbers_equal a b
      | _ \<Rightarrow>
          (case (left, right) of
             (Null, Null) \<Rightarrow> True
           | (String a, String b) \<Rightarrow> a = b
           | (Array as, Array bs) \<Rightarrow> length as = length bs \<and> list_all (\<lambda>p. py_eq (fst p) (snd p)) (zip as bs)
           | (Object as, Object bs) \<Rightarrow>
               length as = length bs \<and>
               list_all (\<lambda>m. case find (\<lambda>n. fst n = fst m) bs of Some n \<Rightarrow> py_eq (snd m) (snd n) | None \<Rightarrow> False) as
           | _ \<Rightarrow> False))"
  by pat_completeness auto
termination
  by (relation "measure (\<lambda>(l, r). node_count l)")
    (auto simp del: node_count.simps intro: node_count_elem node_count_member dest: set_zip_leftD)

declare py_eq.simps [simp del]

definition eq_int :: "json \<Rightarrow> int \<Rightarrow> bool" where
  "eq_int v i = py_eq v (Number (Integer i))"

definition eq_str :: "json \<Rightarrow> string \<Rightarrow> bool" where
  "eq_str v s \<longleftrightarrow> py_string v = Some s"

section \<open>Sorted names\<close>

definition sorted_unique :: "string list \<Rightarrow> string list" where
  "sorted_unique xs = remdups_adj (sort xs)"

fun strictly_sorted :: "string list \<Rightarrow> bool" where
  "strictly_sorted (a # b # xs) = (cmp a b = Less \<and> strictly_sorted (b # xs))"
| "strictly_sorted _ = True"

section \<open>Decimal digits\<close>

definition natural_digits :: "json \<Rightarrow> string option" where
  "natural_digits v =
     (case v of
        Number (Integer i) \<Rightarrow> if 0 \<le> i then Some (dec_of_int i) else None
      | Number (BigInt digits) \<Rightarrow> if \<not> starts_with ''-'' digits then Some digits else None
      | _ \<Rightarrow> None)"

definition natural_cmp :: "string \<Rightarrow> string \<Rightarrow> ordering" where
  "natural_cmp left right = then_cmp (cmp (length left) (length right)) (cmp left right)"

text \<open>The subtraction from the least digit, the digits of both strings reversed.\<close>

fun sub_digits :: "string \<Rightarrow> string \<Rightarrow> nat \<Rightarrow> string" where
  "sub_digits [] right borrow = []"
| "sub_digits (d # left) right borrow =
     (let subtrahend = (case right of [] \<Rightarrow> 0 | b # _ \<Rightarrow> digit_val b) + borrow;
          minuend = digit_val d;
          borrow = (if minuend < subtrahend then 1 else 0)
      in digit_char (minuend + borrow * 10 - subtrahend) # sub_digits left (tl right) borrow)"

text \<open>The pops of leading zeros, which stand last until the digits are reversed.\<close>

fun drop_zeros :: "string \<Rightarrow> string" where
  "drop_zeros (z # d # ds) = (if z = CHR ''0'' then drop_zeros (d # ds) else z # d # ds)"
| "drop_zeros ds = ds"

definition natural_sub :: "string \<Rightarrow> string \<Rightarrow> string" where
  "natural_sub left right = drop_zeros (rev (sub_digits (rev left) (rev right) 0))"

section \<open>Equality is equality of values\<close>

text \<open>Python's booleans are the integers 0 and 1; everything else is itself.\<close>

fun unboxed :: "json \<Rightarrow> json" where
  "unboxed (Bool b) = Number (Integer (if b then 1 else 0))"
| "unboxed (Array vs) = Array (map unboxed vs)"
| "unboxed (Object ms) = Object (map (\<lambda>m. (fst m, unboxed (snd m))) ms)"
| "unboxed v = v"

lemma value_ok_unboxed: "value_ok v \<Longrightarrow> value_ok (unboxed v)"
  by (induction v rule: unboxed.induct) (auto simp: comp_def in_i64_def)

lemma dec_of_int_inj: "dec_of_int i = dec_of_int j \<longleftrightarrow> i = j"
  by (metis int_of_dec_of_int option.inject)

lemma numeric_of_Some: "numeric_of v = Some k \<longleftrightarrow> (\<exists>n. unboxed v = Number n \<and>
    (case n of Integer i \<Rightarrow> k = Numeric_Integer i | BigInt s \<Rightarrow> k = Numeric_Big s | Float f \<Rightarrow> k = Numeric_Float f))"
  by (cases v) (auto simp: numeric_of_def split: number.splits)

lemma float_text:
  assumes "f64_finite f"
  shows "(case whole_float_text f of Some words \<Rightarrow> words = dec_of_int i | None \<Rightarrow> False) \<longleftrightarrow> of_int i = f64_val f"
proof (cases "fract_zero f")
  case True
  then have "of_int (floor_integral f) = f64_val f" using assms by (simp add: fract_zero_val)
  then show ?thesis using True by (auto simp: whole_float_text_def dec_of_int_inj)
next
  case False
  then have "of_int i \<noteq> f64_val f" using assms by (auto simp: fract_zero_def dest: sym)
  then show ?thesis using False by (simp add: whole_float_text_def)
qed

lemma big_int: "number_ok (BigInt s) \<Longrightarrow> \<exists>i. s = dec_of_int i \<and> number_val (BigInt s) = of_int i \<and> \<not> in_i64 i"
  by (auto simp: number_val_def split: option.splits)

lemma number_val_equal:
  assumes ok: "number_ok m" "number_ok n"
    and a: "case m of Integer i \<Rightarrow> a = Numeric_Integer i | BigInt s \<Rightarrow> a = Numeric_Big s | Float f \<Rightarrow> a = Numeric_Float f"
    and b: "case n of Integer i \<Rightarrow> b = Numeric_Integer i | BigInt s \<Rightarrow> b = Numeric_Big s | Float f \<Rightarrow> b = Numeric_Float f"
  shows "number_val m = number_val n \<longleftrightarrow> numbers_equal a b"
proof -
  have val: "number_val (Integer i) = of_int i" "number_val (Float f) = f64_val f" for i f by (simp_all add: number_val_def)
  show ?thesis
  proof (cases m)
    case (Integer i)
    show ?thesis
    proof (cases n)
      case (BigInt s)
      then show ?thesis using ok a b Integer big_int [of s] by (auto simp: val)
    next
      case (Float f)
      then show ?thesis using ok a b Integer float_text [of f i] by (simp add: val)
    qed (use a b Integer in \<open>simp add: val\<close>)
  next
    case (BigInt s)
    then obtain i where i: "s = dec_of_int i" "number_val (BigInt s) = of_int i" "\<not> in_i64 i" using big_int ok(1) by blast
    show ?thesis
    proof (cases n)
      case (Integer j)
      then show ?thesis using ok a b BigInt i by (auto simp: val)
    next
      case (BigInt t)
      then obtain j where "t = dec_of_int j" "number_val (BigInt t) = of_int j" using big_int ok(2) by blast
      then show ?thesis using a b \<open>m = BigInt s\<close> BigInt i by (simp add: dec_of_int_inj)
    next
      case (Float f)
      then show ?thesis using ok a b BigInt i float_text [of f i] by (simp add: val)
    qed
  next
    case (Float f)
    then have f: "f64_finite f" using ok(1) by simp
    show ?thesis
    proof (cases n)
      case (Integer j)
      then show ?thesis using a b Float float_text [OF f, of j] by (auto simp: val)
    next
      case (BigInt t)
      then obtain j where "t = dec_of_int j" "number_val (BigInt t) = of_int j" using big_int ok(2) by blast
      then show ?thesis using a b Float BigInt float_text [OF f, of j] by (auto simp: val)
    next
      case (Float g)
      then have "f64_finite g" using ok(2) by simp
      then show ?thesis using a b f \<open>m = Float f\<close> Float by (simp add: val partial_cmp_def finite_not_nan)
    qed
  qed
qed

lemma numbers_equal_value:
  assumes "numeric_of v = Some a" "numeric_of w = Some b" "value_ok v" "value_ok w"
  shows "numbers_equal a b \<longleftrightarrow> json_equal (unboxed v) (unboxed w)"
proof -
  obtain m n where m: "unboxed v = Number m" "case m of Integer i \<Rightarrow> a = Numeric_Integer i | BigInt s \<Rightarrow> a = Numeric_Big s | Float f \<Rightarrow> a = Numeric_Float f"
    and n: "unboxed w = Number n" "case n of Integer i \<Rightarrow> b = Numeric_Integer i | BigInt s \<Rightarrow> b = Numeric_Big s | Float f \<Rightarrow> b = Numeric_Float f"
    using assms(1,2) unfolding numeric_of_Some by blast
  have ok: "number_ok m" "number_ok n" using value_ok_unboxed [OF assms(3)] value_ok_unboxed [OF assms(4)] m n by simp_all
  have "json_equal (unboxed v) (unboxed w) \<longleftrightarrow> number_val m = number_val n" using m n ok by (simp add: number_equal_val)
  also have "\<dots> \<longleftrightarrow> numbers_equal a b" by (rule number_val_equal [OF ok m(2) n(2)])
  finally show ?thesis by simp
qed


lemma find_named: "find (\<lambda>n. fst n = k) ms = map_option (Pair k) (map_of ms k)"
  by (induction ms) auto

lemma py_eq_json_equal: "value_ok v \<Longrightarrow> value_ok w \<Longrightarrow> py_eq v w \<longleftrightarrow> json_equal (unboxed v) (unboxed w)"
proof (induction v arbitrary: w rule: measure_induct_rule [of node_count])
  case (less v)
  show ?case
  proof (cases "numeric_of v = None \<or> numeric_of w = None")
    case False
    then obtain a b where ab: "numeric_of v = Some a" "numeric_of w = Some b" by auto
    then show ?thesis using numbers_equal_value [OF ab less.prems] by (subst py_eq.simps) simp
  next
    case plain: True
    consider (lists) as bs where "v = Array as" "w = Array bs" | (objects) as bs where "v = Object as" "w = Object bs"
      | (other) "\<not> (\<exists>as bs. v = Array as \<and> w = Array bs)" "\<not> (\<exists>as bs. v = Object as \<and> w = Object bs)" by blast
    then show ?thesis
    proof cases
      case (lists as bs)
      show ?thesis
      proof (cases "length as = length bs")
        case True
        have "py_eq (as ! i) (bs ! i) \<longleftrightarrow> json_equal (unboxed (as ! i)) (unboxed (bs ! i))" if "i < length as" for i
        proof -
          have "node_count (as ! i) < node_count v" using that lists by (simp add: node_count_elem del: node_count.simps)
          moreover have "value_ok (as ! i)" "value_ok (bs ! i)" using less.prems lists that True by auto
          ultimately show ?thesis by (rule less.IH)
        qed
        then show ?thesis using lists True by (subst py_eq.simps) (simp add: numeric_of_def list_all_zip list_all_length)
      qed (use lists in \<open>subst py_eq.simps, simp add: numeric_of_def\<close>)
    next
      case (objects as bs)
      have "(case find (\<lambda>n. fst n = fst m) bs of Some n \<Rightarrow> py_eq (snd m) (snd n) | None \<Rightarrow> False) \<longleftrightarrow>
          list_ex (\<lambda>n. fst n = fst m \<and> json_equal (unboxed (snd m)) (snd n)) (map (\<lambda>m. (fst m, unboxed (snd m))) bs)"
        if m: "m \<in> set as" and len: "length as = length bs" for m
      proof (cases "map_of bs (fst m)")
        case None
        then have "fst m \<notin> fst ` set bs" by (simp add: map_of_eq_None_iff)
        then have "\<not> (\<exists>n\<in>set bs. fst n = fst m)" by (auto simp: image_iff)
        then show ?thesis using None by (simp add: find_named list_ex_iff)
      next
        case (Some c)
        then have c: "(fst m, c) \<in> set bs" by (rule map_of_SomeD)
        have "py_eq (snd m) c \<longleftrightarrow> json_equal (unboxed (snd m)) (unboxed c)"
        proof (rule less.IH)
          show "node_count (snd m) < node_count v" using m objects node_count_member [of "fst m" "snd m" as] by (simp del: node_count.simps)
          show "value_ok (snd m)" "value_ok c" using less.prems objects m c by force+
        qed
        moreover have "n \<in> set bs \<Longrightarrow> fst n = fst m \<Longrightarrow> snd n = c" for n
          using Some less.prems(2) objects by (cases n) (auto dest: map_of_is_SomeI)
        ultimately have "py_eq (snd m) c \<longleftrightarrow> (\<exists>n\<in>set bs. fst n = fst m \<and> json_equal (unboxed (snd m)) (unboxed (snd n)))"
          using c by (metis fst_conv snd_conv)
        then show ?thesis by (simp add: find_named Some list_ex_iff)
      qed
      then show ?thesis using objects by (subst py_eq.simps) (auto simp: numeric_of_def list_all_iff)
    next
      case other
      then show ?thesis using plain by (subst py_eq.simps) (cases v; cases w; auto simp: numeric_of_def split: number.splits)
    qed
  qed
qed


section \<open>Sorted names\<close>

lemma strictly_sorted_iff: "strictly_sorted xs \<longleftrightarrow> sorted xs \<and> distinct xs"
proof -
  have "strictly_sorted xs \<longleftrightarrow> sorted_wrt (<) xs"
    by (induction xs rule: strictly_sorted.induct) (auto dest: less_trans)
  then show ?thesis by (simp add: strict_sorted_iff)
qed

lemma remdups_adj_sorted_distinct: "sorted xs \<Longrightarrow> distinct (remdups_adj xs)" for xs :: "'a::linorder list"
proof (induction xs rule: remdups_adj.induct)
  case (3 x y xs)
  then show ?case by (cases "x = y") fastforce+
qed simp_all

lemma sorted_unique_props: "sorted (sorted_unique xs)" "distinct (sorted_unique xs)" "set (sorted_unique xs) = set xs"
  by (simp_all add: sorted_unique_def sorted_remdups_adj remdups_adj_sorted_distinct)

section \<open>Decimal digit strings\<close>

text \<open>The value of a digit string, least digit first.\<close>

fun low_value :: "string \<Rightarrow> nat" where
  "low_value [] = 0"
| "low_value (d # ds) = digit_val d + 10 * low_value ds"

lemma low_value_snoc: "low_value (ds @ [d]) = low_value ds + 10 ^ length ds * digit_val d"
  by (induction ds) (simp_all add: algebra_simps)

lemma low_value_rev: "low_value (rev s) = nat_of_dec s"
proof (induction s rule: rev_induct)
  case (snoc c s)
  then show ?case by (simp add: nat_of_dec_snoc)
qed (simp add: nat_of_dec_def)

lemma digit_val_less: "ascii_digit c \<Longrightarrow> digit_val c < 10"
  by (auto simp: ascii_digit_def digit_val_def less_eq_char_def)

lemma digit_char_val: "ascii_digit c \<Longrightarrow> digit_char (digit_val c) = c"
  by (auto simp: ascii_digit_def digit_val_def digit_char_def less_eq_char_def)

lemma low_value_less: "list_all ascii_digit ds \<Longrightarrow> low_value ds < 10 ^ length ds"
  by (induction ds) (auto dest!: digit_val_less)

definition canonical_digits :: "string \<Rightarrow> bool" where
  "canonical_digits s \<longleftrightarrow> list_all ascii_digit s \<and> s \<noteq> [] \<and> (hd s = CHR ''0'' \<longrightarrow> length s = 1)"

lemma dec_of_nat_low:
  assumes "list_all ascii_digit ds" "ds \<noteq> []" "last ds = CHR ''0'' \<longrightarrow> length ds = 1"
  shows "dec_of_nat (low_value ds) = rev ds"
  using assms
proof (induction ds)
  case (Cons d ds)
  show ?case
  proof (cases "ds = []")
    case True
    then show ?thesis using Cons.prems digit_val_less [of d] digit_char_val [of d] by (subst dec_of_nat.simps) simp
  next
    case False
    have "digit_val (last ds) \<noteq> 0"
    proof
      assume "digit_val (last ds) = 0"
      moreover have "ascii_digit (last ds)" using Cons.prems False by (simp add: list_all_iff)
      ultimately have "last ds = digit_char 0" using digit_char_val by metis
      moreover have "digit_char 0 = CHR ''0''" by code_simp
      ultimately show False using Cons.prems False by simp
    qed
    moreover have "low_value ds = low_value (butlast ds) + 10 ^ length (butlast ds) * digit_val (last ds)"
      using low_value_snoc [of "butlast ds" "last ds"] False by simp
    ultimately have pos: "0 < low_value ds" by simp
    have "dec_of_nat (low_value ds) = rev ds" using Cons False by simp
    then show ?thesis using Cons.prems pos digit_val_less [of d] digit_char_val [of d]
      by (subst dec_of_nat.simps) auto
  qed
qed simp

lemma canonical_dec: "canonical_digits s \<Longrightarrow> dec_of_nat (nat_of_dec s) = s"
  using dec_of_nat_low [of "rev s"] by (simp add: canonical_digits_def low_value_rev last_rev)

lemma length_dec_mono: "m \<le> n \<Longrightarrow> length (dec_of_nat m) \<le> length (dec_of_nat n)"
proof (induction n arbitrary: m rule: less_induct)
  case (less n)
  show ?case
  proof (cases "m < 10")
    case True
    then show ?thesis by (subst (1) dec_of_nat.simps) (simp add: Suc_le_eq)
  next
    case False
    then have "length (dec_of_nat (m div 10)) \<le> length (dec_of_nat (n div 10))" using less by (intro less.IH) (auto intro: div_le_mono)
    then show ?thesis using False less.prems by (subst (1 2) dec_of_nat.simps) simp
  qed
qed

lemma nat_of_dec_Cons: "nat_of_dec (c # cs) = digit_val c * 10 ^ length cs + nat_of_dec cs"
  using low_value_snoc [of "rev cs" c] by (simp flip: low_value_rev add: mult.commute)

lemma nat_of_dec_less: "list_all ascii_digit s \<Longrightarrow> nat_of_dec s < 10 ^ length s"
  using low_value_less [of "rev s"] by (simp add: low_value_rev)

lemma digit_val_order: "ascii_digit c \<Longrightarrow> ascii_digit d \<Longrightarrow> c < d \<longleftrightarrow> digit_val c < digit_val d"
  by (auto simp: ascii_digit_def digit_val_def less_char_def less_eq_char_def)

lemma lexord_value:
  "length xs = length ys \<Longrightarrow> list_all ascii_digit xs \<Longrightarrow> list_all ascii_digit ys \<Longrightarrow> xs < ys \<longleftrightarrow> nat_of_dec xs < nat_of_dec ys"
proof (induction xs ys rule: list_induct2)
  case (Cons x xs y ys)
  let ?p = "10 ^ length xs :: nat"
  have small: "nat_of_dec xs < ?p" "nat_of_dec ys < ?p" using nat_of_dec_less [of xs] nat_of_dec_less [of ys] Cons by simp_all
  have steps: "digit_val a * ?p + m < digit_val b * ?p + n" if "digit_val a < digit_val b" "m < ?p" for a b m n
  proof -
    have "Suc (digit_val a) * ?p \<le> digit_val b * ?p" using that(1) by (intro mult_right_mono) simp_all
    then show ?thesis using that(2) by simp
  qed
  have order: "x < y \<longleftrightarrow> digit_val x < digit_val y" "y < x \<longleftrightarrow> digit_val y < digit_val x"
    using Cons.prems digit_val_order [of x y] digit_val_order [of y x] by simp_all
  show ?case
  proof (cases x y rule: linorder_cases)
    case less
    then show ?thesis using steps [of x y] small order Cons.hyps by (simp add: nat_of_dec_Cons)
  next
    case equal
    then show ?thesis using Cons by (simp add: nat_of_dec_Cons)
  next
    case greater
    then have "nat_of_dec (y # ys) < nat_of_dec (x # xs)" using steps [of y x] small order Cons.hyps by (simp add: nat_of_dec_Cons)
    moreover have "\<not> x # xs < y # ys" using greater by auto
    ultimately show ?thesis by simp
  qed
qed simp

lemma natural_cmp_dec: "natural_cmp (dec_of_nat m) (dec_of_nat n) = cmp m n"
proof -
  have shorter: "i < j" if "length (dec_of_nat i) < length (dec_of_nat j)" for i j
    using that length_dec_mono [of j i] by (meson leI not_le)
  show ?thesis
  proof (cases "length (dec_of_nat m)" "length (dec_of_nat n)" rule: linorder_cases)
    case equal
    have "dec_of_nat i < dec_of_nat j \<longleftrightarrow> i < j" if "length (dec_of_nat i) = length (dec_of_nat j)" for i j
      using lexord_value [OF that dec_of_nat_digits dec_of_nat_digits] by simp
    moreover have "dec_of_nat m = dec_of_nat n \<longleftrightarrow> m = n" by (metis nat_of_dec_of_nat)
    ultimately have "cmp (dec_of_nat m) (dec_of_nat n) = cmp m n" using equal by (simp add: cmp_def)
    then show ?thesis using equal by (simp add: natural_cmp_def cmp_def)
  next
    case less
    then show ?thesis using shorter by (simp add: natural_cmp_def cmp_def)
  next
    case greater
    then show ?thesis using shorter [of n m] by (simp add: natural_cmp_def cmp_def)
  qed
qed

section \<open>Subtraction\<close>

lemma sub_digits_length [simp]: "length (sub_digits ls rs b) = length ls"
  by (induction ls rs b rule: sub_digits.induct) (simp_all add: Let_def)

text \<open>One pass: the digits written, the subtrahend and the borrow in add up to the minuend and the borrow out.\<close>

lemma sub_digits_value:
  "list_all ascii_digit ls \<Longrightarrow> list_all ascii_digit rs \<Longrightarrow> length rs \<le> length ls \<Longrightarrow> b \<le> 1 \<Longrightarrow>
    \<exists>c\<le>1. low_value (sub_digits ls rs b) + low_value rs + b = low_value ls + c * 10 ^ length ls \<and>
      list_all ascii_digit (sub_digits ls rs b)"
proof (induction ls rs b rule: sub_digits.induct)
  case (2 d ls rs b)
  let ?s = "(case rs of [] \<Rightarrow> 0 | r # _ \<Rightarrow> digit_val r) + b"
  let ?b = "if digit_val d < ?s then 1 else 0 :: nat"
  have d: "digit_val d < 10" using 2 digit_val_less by simp
  have s: "?s \<le> 10" using 2 digit_val_less by (cases rs) fastforce+
  have tail: "low_value rs = ?s - b + 10 * low_value (tl rs)" by (cases rs) simp_all
  obtain c where c: "c \<le> 1" "low_value (sub_digits ls (tl rs) ?b) + low_value (tl rs) + ?b = low_value ls + c * 10 ^ length ls"
    "list_all ascii_digit (sub_digits ls (tl rs) ?b)"
  proof -
    have "list_all ascii_digit ls" "list_all ascii_digit (tl rs)" "length (tl rs) \<le> length ls" "?b \<le> 1"
      using 2(2-) by (cases rs; simp)+
    from 2(1) [OF refl refl refl this] show thesis using that by blast
  qed
  define x where "x = digit_val d + ?b * 10 - ?s"
  have x: "x < 10" "x + ?s = digit_val d + ?b * 10"
    using d s by (cases "digit_val d < ?s"; simp add: x_def)+
  have step: "sub_digits (d # ls) rs b = digit_char x # sub_digits ls (tl rs) ?b"
    by (simp add: Let_def x_def)
  define q where "q = c * 10 ^ length ls"
  have "c * 10 ^ length (d # ls) = 10 * q" by (simp add: q_def)
  moreover have "low_value (sub_digits ls (tl rs) ?b) + low_value (tl rs) + ?b = low_value ls + q" using c(2) by (simp add: q_def)
  ultimately have "low_value (sub_digits (d # ls) rs b) + low_value rs + b = low_value (d # ls) + c * 10 ^ length (d # ls)"
    unfolding step tail using x by (simp del: power_Suc length_Cons)
  moreover have "list_all ascii_digit (sub_digits (d # ls) rs b)" unfolding step using c(3) x(1) by simp
  ultimately show ?case using c(1) by blast
qed auto

lemma drop_zeros_value: "list_all ascii_digit s \<Longrightarrow> s \<noteq> [] \<Longrightarrow> canonical_digits (drop_zeros s) \<and> nat_of_dec (drop_zeros s) = nat_of_dec s"
proof (induction s rule: drop_zeros.induct)
  case (1 z d ds)
  have "digit_val (CHR ''0'') = 0" by code_simp
  then show ?case using 1 by (auto simp: canonical_digits_def nat_of_dec_Cons)
qed (auto simp: canonical_digits_def)

lemma natural_sub_dec:
  assumes "n \<le> m"
  shows "natural_sub (dec_of_nat m) (dec_of_nat n) = dec_of_nat (m - n)"
proof -
  let ?l = "rev (dec_of_nat m)" and ?r = "rev (dec_of_nat n)"
  obtain c where c: "c \<le> 1" "low_value (sub_digits ?l ?r 0) + low_value ?r + 0 = low_value ?l + c * 10 ^ length ?l"
    "list_all ascii_digit (sub_digits ?l ?r 0)"
    using sub_digits_value [of ?l ?r 0] length_dec_mono [OF assms] dec_of_nat_digits by (auto simp: list_all_iff)
  have vals: "low_value ?r = n" "low_value ?l = m" by (simp_all add: low_value_rev)
  have "low_value (sub_digits ?l ?r 0) < 10 ^ length ?l" using low_value_less [OF c(3)] by simp
  then have "c = 0" using c(1,2) assms vals by (cases c) auto
  then have "low_value (sub_digits ?l ?r 0) = m - n" using c(2) vals by simp
  then have "nat_of_dec (rev (sub_digits ?l ?r 0)) = m - n" by (simp flip: low_value_rev)
  moreover have "list_all ascii_digit (rev (sub_digits ?l ?r 0))" "rev (sub_digits ?l ?r 0) \<noteq> []"
    using c(3) sub_digits_length [of ?l ?r 0] by (auto simp: list_all_iff simp del: sub_digits_length)
  ultimately show ?thesis
    using drop_zeros_value canonical_dec unfolding natural_sub_def by metis
qed

section \<open>Properties\<close>

text \<open>
  Python's \<open>==\<close> on decoded values is JSON Schema equality once booleans are read as the integers 0 and 1, so on such
  values it is an equivalence: reflexive, symmetric and transitive, floats and big integers included.
\<close>

theorem py_eq_equivalence:
  assumes "value_ok u" "value_ok v" "value_ok w"
  shows "(py_eq v w \<longleftrightarrow> json_equal (unboxed v) (unboxed w)) \<and> py_eq v v \<and> (py_eq v w \<longrightarrow> py_eq w v) \<and>
    (py_eq u v \<longrightarrow> py_eq v w \<longrightarrow> py_eq u w)"
proof -
  have "py_eq x y \<longleftrightarrow> Equality.key (unboxed x) = Equality.key (unboxed y)" if "value_ok x" "value_ok y" for x y
    using py_eq_json_equal [OF that] json_equal_key value_ok_unboxed that by blast
  then show ?thesis using py_eq_json_equal assms by simp
qed

theorem py_eq_equivalence_witness:
  "py_eq (Array [Bool True]) (Array [Number (Float 0x3FF0000000000000)]) \<and> py_eq (Array [Number (Float 0x3FF0000000000000)]) (Array [Bool True])"
proof -
  have "py_eq (Array [Bool True]) (Array [Number (Float 0x3FF0000000000000)])" by code_simp
  moreover have "value_ok (Array [Bool True])" "value_ok (Array [Number (Float 0x3FF0000000000000)])" by code_simp+
  ultimately show ?thesis using py_eq_equivalence [of Null "Array [Bool True]" "Array [Number (Float 0x3FF0000000000000)]"] by simp
qed

text \<open>
  Arithmetic on digit strings is exact at any length: comparing two canonical strings orders their numbers, and
  subtracting the smaller gives the canonical digits of the difference.
\<close>

theorem natural_arithmetic:
  assumes "canonical_digits left" "canonical_digits right"
  shows "natural_cmp left right = cmp (nat_of_dec left) (nat_of_dec right) \<and>
    (nat_of_dec right \<le> nat_of_dec left \<longrightarrow>
      natural_sub left right = dec_of_nat (nat_of_dec left - nat_of_dec right))"
  using natural_cmp_dec [of "nat_of_dec left" "nat_of_dec right"] natural_sub_dec [of "nat_of_dec right" "nat_of_dec left"]
    canonical_dec [OF assms(1)] canonical_dec [OF assms(2)] by simp

theorem natural_arithmetic_witness:
  "natural_cmp ''1000'' ''999'' = Greater \<and> natural_sub ''1000'' ''999'' = ''1''"
proof -
  have "canonical_digits ''1000''" "canonical_digits ''999''" by code_simp+
  moreover have "nat_of_dec ''1000'' = 1000" "nat_of_dec ''999'' = 999" "dec_of_nat 1 = ''1''" by code_simp+
  ultimately show ?thesis using natural_arithmetic [of "''1000''" "''999''"] by simp
qed

lemma strictly_sorted_exact: "strictly_sorted xs \<longleftrightarrow> sorted_unique xs = xs"
proof
  assume "strictly_sorted xs"
  then have "sorted xs" "distinct xs" by (simp_all add: strictly_sorted_iff)
  then show "sorted_unique xs = xs" by (simp add: sorted_unique_def sorted_sort_id remdups_adj_distinct)
next
  assume "sorted_unique xs = xs"
  then show "strictly_sorted xs" using sorted_unique_props [of xs] by (simp add: strictly_sorted_iff)
qed

end
