(* ===== verification/Base64.thy ===== *)
theory Base64
  imports Prelude "HOL-Library.Word"
begin

text \<open>
  The base64 forms of the protocol (\<open>protocol/team/http/src/python/base64.rs\<close>): padded encoding in an alphabet and the
  decoding of what precedes the padding.  Groups and the decoder's buffer are 32-bit words, the buffer losing its high
  bits as the code's does.
\<close>

unbundle bit_operations_syntax

definition STANDARD :: string where
  "STANDARD = ''ABCDEFGHIJKLMNOPQRSTUVWXYZabcdefghijklmnopqrstuvwxyz0123456789+/''"

definition URL_SAFE :: string where
  "URL_SAFE = ''ABCDEFGHIJKLMNOPQRSTUVWXYZabcdefghijklmnopqrstuvwxyz0123456789-_''"

type_synonym bytes = "8 word list"

fun byte_chunks :: "bytes \<Rightarrow> bytes list" where
  "byte_chunks [] = []"
| "byte_chunks [a] = [[a]]"
| "byte_chunks [a, b] = [[a, b]]"
| "byte_chunks (a # b # c # rest) = [a, b, c] # byte_chunks rest"

definition group_of :: "bytes \<Rightarrow> 32 word" where
  "group_of chunk = foldl (\<lambda>g (index, b). g + push_bit (16 - 8 * index) (ucast b)) 0 (enumerate 0 chunk)"

definition encode_chunk :: "string \<Rightarrow> bytes \<Rightarrow> string" where
  "encode_chunk alphabet chunk =
     map (\<lambda>index. if index \<le> length chunk
                  then alphabet ! unat (drop_bit (18 - 6 * index) (group_of chunk) AND 0x3F)
                  else CHR ''='') [0..<4]"

definition base64_encode :: "bytes \<Rightarrow> string \<Rightarrow> string" where
  "base64_encode bs alphabet = concat (map (encode_chunk alphabet) (byte_chunks bs))"

text \<open>\<open>position\<close>: the first index of a character in the alphabet.\<close>

fun position_from :: "nat \<Rightarrow> string \<Rightarrow> char \<Rightarrow> nat option" where
  "position_from i [] ch = None"
| "position_from i (a # as) ch = (if a = ch then Some i else position_from (i + 1) as ch)"

fun decode_loop :: "string \<Rightarrow> string \<Rightarrow> 32 word \<Rightarrow> nat \<Rightarrow> bytes \<Rightarrow> bytes option" where
  "decode_loop alphabet [] buffer bits bs = Some bs"
| "decode_loop alphabet (ch # rest) buffer bits bs =
     (case position_from 0 alphabet ch of
        None \<Rightarrow> None
      | Some sextet \<Rightarrow>
          let buffer = push_bit 6 buffer + of_nat sextet; bits = bits + 6
          in if bits \<ge> 8
             then decode_loop alphabet rest buffer (bits - 8) (bs @ [ucast (drop_bit (bits - 8) buffer AND 0xFF)])
             else decode_loop alphabet rest buffer bits bs)"

definition base64_decode :: "string \<Rightarrow> string \<Rightarrow> bytes option" where
  "base64_decode s alphabet = decode_loop alphabet (takeWhile (\<lambda>ch. ch \<noteq> CHR ''='') s) 0 0 []"

section \<open>Round trip\<close>

lemma position_from_nth: "distinct alphabet \<Longrightarrow> i < length alphabet \<Longrightarrow> position_from k alphabet (alphabet ! i) = Some (k + i)"
proof (induction alphabet arbitrary: i k)
  case (Cons a as)
  then show ?case by (cases i) (auto simp: nth_Cons' in_set_conv_nth)
qed simp

lemma sextet_bit: "s < 64 \<Longrightarrow> bit (of_nat s :: 32 word) n \<Longrightarrow> n < 6"
proof -
  assume s: "s < 64" and b: "bit (of_nat s :: 32 word) n"
  have "take_bit 6 (of_nat s :: 32 word) = of_nat (take_bit 6 s)" by (simp add: take_bit_of_nat)
  also have "take_bit 6 s = s" using s by (simp add: take_bit_eq_mod)
  finally show ?thesis using b by (metis bit_take_bit_iff)
qed

lemma push_add: "s < 64 \<Longrightarrow> push_bit 6 w + of_nat s = push_bit 6 w OR (of_nat s :: 32 word)"
proof -
  assume s: "s < 64"
  have "push_bit 6 w AND of_nat s = 0"
    by (rule bit_word_eqI) (auto simp: bit_and_iff bit_push_bit_iff dest!: sextet_bit [OF s])
  then show ?thesis by (rule disjunctive_add_eq_or)
qed

definition sextet :: "bytes \<Rightarrow> nat \<Rightarrow> nat" where
  "sextet chunk index = unat (drop_bit (18 - 6 * index) (group_of chunk) AND 0x3F)"

lemma mask6: "(0x3F :: 32 word) = mask 6" "(0xFF :: 32 word) = mask 8"
  by (simp_all add: mask_eq_exp_minus_1)

lemma sextet_less: "sextet chunk index < 64"
proof -
  have "drop_bit (18 - 6 * index) (group_of chunk) AND 0x3F = take_bit 6 (drop_bit (18 - 6 * index) (group_of chunk))"
    by (simp only: mask6 take_bit_eq_mask)
  also have "unat \<dots> < 64"
    using take_bit_nat_less_exp [of 6 "unat (drop_bit (18 - 6 * index) (group_of chunk))"] by (simp add: unsigned_take_bit_eq)
  finally show ?thesis by (simp add: sextet_def)
qed

lemma bit_sextet: "bit (of_nat (sextet chunk index) :: 32 word) n \<longleftrightarrow> n < 6 \<and> bit (group_of chunk) (18 - 6 * index + n)"
proof -
  have "of_nat (sextet chunk index) = take_bit 6 (drop_bit (18 - 6 * index) (group_of chunk))"
    by (simp only: sextet_def mask6 take_bit_eq_mask) simp
  then show ?thesis by (simp add: bit_take_bit_iff bit_drop_bit_eq add.commute)
qed

lemma bit_byte: "bit (b :: 8 word) n \<Longrightarrow> n < 8"
  using bit_imp_le_length [of b n] by simp

lemma bit_shifted: "bit (push_bit k (ucast (b :: 8 word)) :: 32 word) n \<longleftrightarrow> k \<le> n \<and> n < 32 \<and> bit b (n - k)"
  using bit_byte [of b "n - k"] by (auto simp: bit_push_bit_iff bit_unsigned_iff)

lemma group_or:
  "group_of [a] = push_bit 16 (ucast a)"
  "group_of [a, b] = push_bit 16 (ucast a) OR push_bit 8 (ucast b)"
  "group_of [a, b, c] = push_bit 16 (ucast a) OR push_bit 8 (ucast b) OR ucast c"
proof -
  have ab: "push_bit 16 (ucast a) + push_bit 8 (ucast b) = push_bit 16 (ucast a) OR (push_bit 8 (ucast b) :: 32 word)"
    by (intro disjunctive_add_eq_or bit_word_eqI) (auto simp: bit_and_iff bit_shifted dest!: bit_byte)
  moreover have "(push_bit 16 (ucast a) OR push_bit 8 (ucast b)) + ucast c = (push_bit 16 (ucast a) OR push_bit 8 (ucast b)) OR (ucast c :: 32 word)"
    by (intro disjunctive_add_eq_or bit_word_eqI)
      (auto simp: bit_and_iff bit_or_iff bit_shifted bit_unsigned_iff dest!: bit_byte)
  ultimately show "group_of [a] = push_bit 16 (ucast a)"
    "group_of [a, b] = push_bit 16 (ucast a) OR push_bit 8 (ucast b)"
    "group_of [a, b, c] = push_bit 16 (ucast a) OR push_bit 8 (ucast b) OR ucast c"
    by (simp_all add: group_of_def or.assoc)
qed


text \<open>The three bytes read back from the sextets of a group, whatever the buffer held.\<close>

definition shift_in :: "32 word \<Rightarrow> nat \<Rightarrow> 32 word" where
  "shift_in buffer s = push_bit 6 buffer OR of_nat s"

lemma bit_shift_in: "bit (shift_in buffer (sextet chunk index)) n \<longleftrightarrow> n < 32 \<and>
    (if n < 6 then bit (group_of chunk) (18 - 6 * index + n) else bit buffer (n - 6))"
  by (auto simp: shift_in_def bit_or_iff bit_push_bit_iff bit_sextet dest: bit_imp_le_length)

lemma eight: "n < 8 \<longleftrightarrow> n = 0 \<or> n = 1 \<or> n = 2 \<or> n = 3 \<or> n = 4 \<or> n = 5 \<or> n = 6 \<or> n = 7" for n :: nat
  by arith

lemma bit_read: "bit (ucast (drop_bit k w AND 0xFF :: 32 word) :: 8 word) n \<longleftrightarrow> n < 8 \<and> bit w (k + n)"
  by (auto simp: bit_unsigned_iff bit_and_iff bit_drop_bit_eq mask6 bit_mask_iff)

lemma first_byte:
  assumes "\<And>n. n < 8 \<Longrightarrow> bit (group_of chunk) (16 + n) = bit (a :: 8 word) n"
  shows "ucast (drop_bit 4 (shift_in (shift_in buffer (sextet chunk 0)) (sextet chunk 1)) AND 0xFF) = a"
proof (rule bit_word_eqI)
  fix n assume "n < LENGTH(8)"
  then have n: "n < 8" by simp
  then show "bit (ucast (drop_bit 4 (shift_in (shift_in buffer (sextet chunk 0)) (sextet chunk 1)) AND 0xFF) :: 8 word) n = bit a n"
    using assms [OF n] unfolding eight bit_read bit_shift_in by (elim disjE) (simp_all add: numeral_2_eq_2)
qed

lemma second_byte:
  assumes "\<And>n. n < 8 \<Longrightarrow> bit (group_of chunk) (8 + n) = bit (b :: 8 word) n"
  shows "ucast (drop_bit 2 (shift_in (shift_in buffer (sextet chunk 1)) (sextet chunk 2)) AND 0xFF) = b"
proof (rule bit_word_eqI)
  fix n assume "n < LENGTH(8)"
  then have n: "n < 8" by simp
  then show "bit (ucast (drop_bit 2 (shift_in (shift_in buffer (sextet chunk 1)) (sextet chunk 2)) AND 0xFF) :: 8 word) n = bit b n"
    using assms [OF n] unfolding eight bit_read bit_shift_in by (elim disjE) (simp_all add: numeral_2_eq_2)
qed

lemma third_byte:
  assumes "\<And>n. n < 8 \<Longrightarrow> bit (group_of chunk) n = bit (c :: 8 word) n"
  shows "ucast (drop_bit 0 (shift_in (shift_in buffer (sextet chunk 2)) (sextet chunk 3)) AND 0xFF) = c"
proof (rule bit_word_eqI)
  fix n assume "n < LENGTH(8)"
  then have n: "n < 8" by simp
  then show "bit (ucast (drop_bit 0 (shift_in (shift_in buffer (sextet chunk 2)) (sextet chunk 3)) AND 0xFF) :: 8 word) n = bit c n"
    using assms [OF n] unfolding eight bit_read bit_shift_in by (elim disjE) (simp_all add: numeral_2_eq_2)
qed

lemmas group_bit_simps = group_or bit_or_iff bit_shifted bit_unsigned_iff

lemma bit_high: "8 \<le> n \<Longrightarrow> \<not> bit (b :: 8 word) n"
  using bit_byte [of b n] by auto

lemma first_bits: "length tail \<le> 2 \<Longrightarrow> n < 8 \<Longrightarrow> bit (group_of (a # tail)) (16 + n) = bit a n"
proof -
  assume "length tail \<le> 2" and n: "n < 8"
  then consider "tail = []" | b where "tail = [b]" | b c where "tail = [b, c]"
    by (cases tail; cases "tl tail") auto
  then show ?thesis by cases (use n in \<open>auto simp: group_bit_simps bit_high\<close>)
qed

lemma second_bits: "length tail \<le> 1 \<Longrightarrow> n < 8 \<Longrightarrow> bit (group_of (a # b # tail)) (8 + n) = bit b n"
  by (cases tail) (auto simp: group_bit_simps bit_high)

lemma third_bits: "n < 8 \<Longrightarrow> bit (group_of [a, b, c]) n = bit c n"
  by (auto simp: group_bit_simps bit_high)

lemma decode_step:
  assumes "distinct alphabet" "length alphabet = 64"
  shows "decode_loop alphabet (alphabet ! sextet chunk index # rest) buffer bits bs =
    (let buffer = shift_in buffer (sextet chunk index)
     in if 2 \<le> bits then decode_loop alphabet rest buffer (bits - 2) (bs @ [ucast (drop_bit (bits - 2) buffer AND 0xFF)])
        else decode_loop alphabet rest buffer (bits + 6) bs)"
  using assms sextet_less [of chunk index] by (simp add: position_from_nth push_add shift_in_def Let_def)

lemma decode_full:
  assumes "distinct alphabet" "length alphabet = 64"
  shows "\<exists>buffer'. decode_loop alphabet (encode_chunk alphabet [a, b, c] @ rest) buffer 0 bs = decode_loop alphabet rest buffer' 0 (bs @ [a, b, c])"
proof -
  let ?g = "[a, b, c]"
  have enc: "encode_chunk alphabet ?g = map (\<lambda>i. alphabet ! sextet ?g i) [0, 1, 2, 3]"
    by (simp add: encode_chunk_def sextet_def upt_rec)
  let ?b1 = "shift_in buffer (sextet ?g 0)" let ?b2 = "shift_in ?b1 (sextet ?g 1)"
  let ?b3 = "shift_in ?b2 (sextet ?g 2)" let ?b4 = "shift_in ?b3 (sextet ?g 3)"
  have "ucast (drop_bit 4 ?b2 AND 0xFF) = a" by (rule first_byte) (rule first_bits, simp_all)
  moreover have "ucast (drop_bit 2 ?b3 AND 0xFF) = b" by (rule second_byte) (rule second_bits, simp_all)
  moreover have "ucast (drop_bit 0 ?b4 AND 0xFF) = c" by (rule third_byte) (rule third_bits)
  ultimately have "decode_loop alphabet (encode_chunk alphabet ?g @ rest) buffer 0 bs = decode_loop alphabet rest ?b4 0 (bs @ ?g)"
    unfolding enc by (simp add: decode_step [OF assms] Let_def del: decode_loop.simps(2))
  then show ?thesis by blast
qed

lemma decode_one:
  assumes "distinct alphabet" "length alphabet = 64"
  shows "decode_loop alphabet (take 2 (encode_chunk alphabet [a])) buffer 0 bs = Some (bs @ [a])"
proof -
  have enc: "take 2 (encode_chunk alphabet [a]) = map (\<lambda>i. alphabet ! sextet [a] i) [0, 1]"
    by (simp add: encode_chunk_def sextet_def upt_rec)
  have "ucast (drop_bit 4 (shift_in (shift_in buffer (sextet [a] 0)) (sextet [a] 1)) AND 0xFF) = a"
    by (rule first_byte) (rule first_bits, simp_all)
  then show ?thesis unfolding enc by (simp add: decode_step [OF assms] Let_def del: decode_loop.simps(2))
qed

lemma decode_two:
  assumes "distinct alphabet" "length alphabet = 64"
  shows "decode_loop alphabet (take 3 (encode_chunk alphabet [a, b])) buffer 0 bs = Some (bs @ [a, b])"
proof -
  have enc: "take 3 (encode_chunk alphabet [a, b]) = map (\<lambda>i. alphabet ! sextet [a, b] i) [0, 1, 2]"
    by (simp add: encode_chunk_def sextet_def upt_rec)
  let ?b2 = "shift_in (shift_in buffer (sextet [a, b] 0)) (sextet [a, b] 1)"
  have "ucast (drop_bit 4 ?b2 AND 0xFF) = a" by (rule first_byte) (rule first_bits, simp_all)
  moreover have "ucast (drop_bit 2 (shift_in ?b2 (sextet [a, b] 2)) AND 0xFF) = b" by (rule second_byte) (rule second_bits, simp_all)
  ultimately show ?thesis unfolding enc by (simp add: decode_step [OF assms] Let_def del: decode_loop.simps(2))
qed


section \<open>Properties\<close>

lemma alphabets: "distinct STANDARD" "length STANDARD = 64" "CHR ''='' \<notin> set STANDARD"
  "distinct URL_SAFE" "length URL_SAFE = 64" "CHR ''='' \<notin> set URL_SAFE"
  by (simp_all add: STANDARD_def URL_SAFE_def)

lemma encode_chunk_nth:
  "encode_chunk alphabet chunk = map (\<lambda>i. if i \<le> length chunk then alphabet ! sextet chunk i else CHR ''='') [0, 1, 2, 3]"
  by (simp add: encode_chunk_def sextet_def upt_rec)

lemma round_trip:
  assumes "distinct alphabet" "length alphabet = 64" "CHR ''='' \<notin> set alphabet"
  shows "decode_loop alphabet (takeWhile (\<lambda>ch. ch \<noteq> CHR ''='') (base64_encode bs alphabet)) buffer 0 out = Some (out @ bs)"
proof -
  have member: "alphabet ! sextet chunk i \<noteq> CHR ''=''" for chunk i
    using sextet_less [of chunk i] assms(2,3) by (metis nth_mem)
  note simps = base64_encode_def encode_chunk_nth member
  show ?thesis
  proof (induction bs arbitrary: buffer out rule: byte_chunks.induct)
    case (4 a b c rest)
    have "takeWhile (\<lambda>ch. ch \<noteq> CHR ''='') (base64_encode (a # b # c # rest) alphabet)
        = encode_chunk alphabet [a, b, c] @ takeWhile (\<lambda>ch. ch \<noteq> CHR ''='') (base64_encode rest alphabet)"
      by (simp add: simps)
    then show ?case using decode_full [OF assms(1,2), of a b c _ buffer out] 4 by (metis append.assoc append_Cons append_Nil)
  next
    case (2 a)
    have "takeWhile (\<lambda>ch. ch \<noteq> CHR ''='') (base64_encode [a] alphabet) = take 2 (encode_chunk alphabet [a])"
      by (simp add: simps)
    then show ?case using decode_one [OF assms(1,2)] by simp
  next
    case (3 a b)
    have "takeWhile (\<lambda>ch. ch \<noteq> CHR ''='') (base64_encode [a, b] alphabet) = take 3 (encode_chunk alphabet [a, b])"
      by (simp add: simps)
    then show ?case using decode_two [OF assms(1,2)] by simp
  qed (simp add: base64_encode_def)
qed

text \<open>
  C17 Decoding undoes encoding: the bytes of any length come back from their padded text, in the standard and in the
  URL-safe alphabet.
\<close>

theorem base64_round_trip:
  "base64_decode (base64_encode bs STANDARD) STANDARD = Some bs \<and>
    base64_decode (base64_encode bs URL_SAFE) URL_SAFE = Some bs"
  using round_trip [OF alphabets(1,2,3), of bs 0 "[]"] round_trip [OF alphabets(4,5,6), of bs 0 "[]"]
  by (simp add: base64_decode_def)

end
