(* ===== verification/Websocket.thy ===== *)
theory Websocket
  imports PyText PyValue Encode
begin

text \<open>
  The bounded frame primitives and Origin canonicalization of the chat protocol
  (\<open>protocol/team/http/src/websocket/mod.rs\<close>).  The generated category table and the regular expression engine are
  parameters: \<open>category\<close> of a character, and \<open>full\<close>, whether a pattern matches a whole text; \<open>parse\<close> is the strict reader.
\<close>

section \<open>Frame errors\<close>

definition HEX_ID_PATTERN :: string where
  "HEX_ID_PATTERN = ''[0-9a-f]{32}'' @ [escape_char] @ ''Z''"

definition MAX_HUMAN_TEXT_CHARS :: nat where "MAX_HUMAN_TEXT_CHARS = 16000"
definition MAX_HUMAN_CHOICES :: nat where "MAX_HUMAN_CHOICES = 32"
definition MAX_HUMAN_CHOICE_CHARS :: nat where "MAX_HUMAN_CHOICE_CHARS = 128"

record frame_error =
  error_status :: nat
  error_detail :: string
  close_code :: nat

definition frame_refusal :: "nat \<Rightarrow> string \<Rightarrow> nat \<Rightarrow> frame_error" where
  "frame_refusal status detail code = \<lparr>error_status = status, error_detail = detail, close_code = code\<rparr>"

datatype invalid_text = Invalid_text

section \<open>The parts of a URL\<close>

text \<open>\<open>str::split_once\<close> and \<open>str::rsplit_once\<close> at one character.\<close>

fun split_once :: "char \<Rightarrow> string \<Rightarrow> (string \<times> string) option" where
  "split_once d [] = None"
| "split_once d (c # cs) = (if c = d then Some ([], cs) else map_option (\<lambda>(a, b). (c # a, b)) (split_once d cs))"

definition rsplit_once :: "char \<Rightarrow> string \<Rightarrow> (string \<times> string) option" where
  "rsplit_once d s = map_option (\<lambda>(a, b). (rev b, rev a)) (split_once d (rev s))"

record authority =
  userinfo :: "(string \<times> string option) option"
  auth_host :: string
  auth_port :: "string option"

definition authority_of :: "string \<Rightarrow> authority" where
  "authority_of netloc =
     (let (user, hostinfo) =
            (case rsplit_once (CHR ''@'') netloc of
               Some (user, hostinfo) \<Rightarrow>
                 (Some (case split_once (CHR '':'') user of None \<Rightarrow> (user, None) | Some (name, password) \<Rightarrow> (name, Some password)),
                  hostinfo)
             | None \<Rightarrow> (None, netloc));
          (host, port) = (case split_once (CHR '':'') hostinfo of Some parts \<Rightarrow> parts | None \<Rightarrow> (hostinfo, []))
      in \<lparr>userinfo = user, auth_host = host, auth_port = (if port \<noteq> [] then Some port else None)\<rparr>)"

definition port_of :: "string option \<Rightarrow> unit + nat option" where
  "port_of words =
     (case words of
        None \<Rightarrow> Inr None
      | Some words \<Rightarrow>
          if \<not> list_all ascii_digit words then Inl ()
          else let digits = dropWhile (\<lambda>c. c = CHR ''0'') words
               in if length digits > 5 then Inl ()
                  else let port = (if digits = [] then 0 else nat_of_dec digits)
                       in if port > 65535 then Inl () else Inr (Some port))"

definition scheme_of :: "string \<Rightarrow> string \<times> string" where
  "scheme_of url =
     (case split_once (CHR '':'') url of
        Some (scheme, rest) \<Rightarrow>
          if (case scheme of first # _ \<Rightarrow> ascii_alpha first | [] \<Rightarrow> False) \<and>
             list_all (\<lambda>b. ascii_alpha b \<or> ascii_digit b \<or> b \<in> set ''+-.'') scheme
          then (map to_lower scheme, rest) else ([], url)
      | None \<Rightarrow> ([], url))"

definition graphic :: "char \<Rightarrow> bool" where
  "graphic b \<longleftrightarrow> CHR ''!'' \<le> b \<and> b \<le> CHR ''~''"

definition canonical_origin :: "string option \<Rightarrow> string option" where
  "canonical_origin value =
     (case value of
        None \<Rightarrow> None
      | Some url \<Rightarrow>
          if \<not> list_all graphic url \<or> list_ex (\<lambda>c. c \<in> set ''[]?#'') url then None
          else let (scheme, rest) = scheme_of url
               in case strip_prefix ''//'' rest of
                    None \<Rightarrow> None
                  | Some netloc \<Rightarrow>
                      if CHR ''/'' \<in> set netloc then None
                      else let parts = authority_of netloc;
                               admitted = (scheme = ''http'' \<or> scheme = ''https'') \<and>
                                 (case port_of (auth_port parts) of Inr _ \<Rightarrow> True | Inl _ \<Rightarrow> False) \<and>
                                 auth_host parts \<noteq> [] \<and> userinfo parts = None
                           in if admitted then Some (scheme @ ''://'' @ map to_lower netloc) else None)"

section \<open>Text and frames\<close>

definition public_text :: "(string \<Rightarrow> string) \<Rightarrow> json \<Rightarrow> nat \<Rightarrow> invalid_text + string" where
  "public_text category v maximum =
     (case py_string v of
        None \<Rightarrow> Inl Invalid_text
      | Some words \<Rightarrow>
          let admitted = words \<noteq> [] \<and> strip words = words \<and> py_len words \<le> maximum \<and>
                \<not> list_ex (\<lambda>ch. let c = category ch in starts_with ''C'' c \<or> c = ''Zl'' \<or> c = ''Zp'') (chars words)
          in if admitted then Inr words else Inl Invalid_text)"

definition lookup :: "(string \<times> json) list \<Rightarrow> string \<Rightarrow> json option" where
  "lookup ms name = map_option snd (find (\<lambda>m. fst m = name) ms)"

definition decode_bounded_json_frame :: "(string \<Rightarrow> json option) \<Rightarrow> (string \<times> json) list \<Rightarrow> int \<Rightarrow> frame_error + json" where
  "decode_bounded_json_frame parse message max_bytes =
     (if Option.bind (lookup message ''type'') py_string \<noteq> Some ''websocket.receive''
      then Inl (frame_refusal 400 ''invalid WebSocket frame'' 1007)
      else case (lookup message ''text'', lookup message ''bytes'') of
             (Some (String words), bytes) \<Rightarrow>
               if bytes \<noteq> None \<and> bytes \<noteq> Some Null then Inl (frame_refusal 415 ''WebSocket frame must be text JSON'' 1003)
               else if int (length words) > max_bytes then Inl (frame_refusal 413 ''WebSocket frame too large'' 1009)
               else (case parse words of
                       None \<Rightarrow> Inl (frame_refusal 400 ''WebSocket frame must be valid unique-key JSON'' 1007)
                     | Some v \<Rightarrow>
                         if py_object v = None then Inl (frame_refusal 400 ''WebSocket JSON must be an object'' 1007)
                         else Inr v)
           | _ \<Rightarrow> Inl (frame_refusal 415 ''WebSocket frame must be text JSON'' 1003))"

definition safe_status :: "json \<Rightarrow> int" where
  "safe_status v = (case small_int v of Some status \<Rightarrow> if 400 \<le> status \<and> status \<le> 599 then status else 502 | None \<Rightarrow> 502)"

definition control :: "string \<Rightarrow> bool" where
  "control ch \<longleftrightarrow> code_point ch \<le> 0x1F \<or> code_point ch = 0x7F"

definition error_terminal :: "json \<Rightarrow> string \<Rightarrow> string \<Rightarrow> int \<Rightarrow> json" where
  "error_terminal status detail fallback_detail max_detail_chars =
     (let len = int (py_len detail);
          safe = 0 < len \<and> len \<le> max_detail_chars \<and> \<not> list_ex control (chars detail)
      in Object [(''type'', String ''error''), (''status'', Number (Integer (safe_status status))),
           (''detail'', String (if safe then detail else fallback_detail))])"

section \<open>Challenges and human responses\<close>

definition is_full_value :: "(string \<Rightarrow> string \<Rightarrow> bool) \<Rightarrow> string \<Rightarrow> json \<Rightarrow> bool" where
  "is_full_value full pattern v = (case v of String words \<Rightarrow> full pattern words | _ \<Rightarrow> False)"

definition valid_challenge_id :: "(string \<Rightarrow> string \<Rightarrow> bool) \<Rightarrow> json \<Rightarrow> bool" where
  "valid_challenge_id full v = is_full_value full HEX_ID_PATTERN v"

definition challenge_identity :: "(string \<Rightarrow> string \<Rightarrow> bool) \<Rightarrow> json \<Rightarrow> string \<Rightarrow> (string \<times> string) option" where
  "challenge_identity full v expected_team_id =
     (case py_object v of
        None \<Rightarrow> None
      | Some ms \<Rightarrow>
          (case (lookup ms ''challenge_id'', lookup ms ''turn_id'') of
             (Some challenge, Some turn) \<Rightarrow>
               if Option.bind (lookup ms ''team_id'') py_string = Some expected_team_id \<and>
                 valid_challenge_id full challenge \<and> py_eq turn challenge
               then Some (the_or [] (py_string challenge), the_or [] (py_string turn)) else None
           | _ \<Rightarrow> None))"

fun distinct_choices :: "string list \<Rightarrow> string list \<Rightarrow> bool" where
  "distinct_choices earlier [] = True"
| "distinct_choices earlier (choice # choices) =
     (choice \<notin> set earlier \<and> distinct_choices (earlier @ [choice]) choices)"

definition human_value :: "json \<Rightarrow> bool" where
  "human_value v =
     (case v of
        Bool b \<Rightarrow> b
      | String words \<Rightarrow> py_len words \<le> MAX_HUMAN_TEXT_CHARS
      | Array items \<Rightarrow>
          let choices = List.map_filter py_string items
          in length items \<le> MAX_HUMAN_CHOICES \<and> length choices = length items \<and>
             list_all (\<lambda>choice. py_len choice \<le> MAX_HUMAN_CHOICE_CHARS) choices \<and> distinct_choices [] choices
      | _ \<Rightarrow> False)"

definition canonical_human_response :: "(string \<Rightarrow> string \<Rightarrow> bool) \<Rightarrow> json \<Rightarrow> frame_error + json" where
  "canonical_human_response full v =
     (let refused = frame_refusal 400 ''invalid human response frame'' 1007
      in case py_object v of
           None \<Rightarrow> Inl refused
         | Some ms \<Rightarrow>
             (case Option.bind (get v ''decision'') py_string of
                Some decision \<Rightarrow>
                  if decision \<noteq> ''submit'' \<and> decision \<noteq> ''deny'' then Inl refused
                  else if Option.bind (get v ''type'') py_string \<noteq> Some ''human-response''
                       \<or> \<not> (case get v ''challenge_id'' of Some c \<Rightarrow> valid_challenge_id full c | None \<Rightarrow> False)
                  then Inl refused
                  else let admitted =
                             (if decision = ''submit''
                              then exact_members ms [''type'', ''challenge_id'', ''decision'', ''value''] \<and> human_value (py_field ms ''value'')
                              else exact_members ms [''type'', ''challenge_id'', ''decision''])
                       in if admitted then Inr v else Inl refused
              | None \<Rightarrow> Inl refused))"


section \<open>Lowercasing a URL\<close>

lemma of_char_lower: "ascii_upper c \<Longrightarrow> (of_char (to_lower c) :: nat) = of_char c + 32 \<and> 65 \<le> (of_char c :: nat) \<and> (of_char c :: nat) \<le> 90"
  by (auto simp: to_lower_def ascii_upper_def less_eq_char_def)

lemma to_lower_upper: "ascii_upper c \<Longrightarrow> ascii_lower (to_lower c)"
  using of_char_lower [of c] by (simp add: ascii_lower_def less_eq_char_def)

lemma to_lower_other: "\<not> ascii_alpha d \<Longrightarrow> to_lower c = d \<longleftrightarrow> c = d"
  using to_lower_upper [of c] by (auto simp: ascii_alpha_def to_lower_def split: if_splits)

lemma to_lower_idem [simp]: "to_lower (to_lower c) = to_lower c"
proof (cases "ascii_upper c")
  case True
  then have "\<not> ascii_upper (to_lower c)" using of_char_lower [OF True] by (simp add: ascii_upper_def less_eq_char_def)
  then show ?thesis by (simp add: to_lower_def)
qed (simp add: to_lower_def)

lemma split_once_map: "(\<And>c. f c = d \<longleftrightarrow> c = d) \<Longrightarrow>
    split_once d (map f s) = map_option (\<lambda>(a, b). (map f a, map f b)) (split_once d s)"
  by (induction s) (auto simp: option.map_comp comp_def split_beta intro!: option.map_cong)

lemma rsplit_once_map: "(\<And>c. f c = d \<longleftrightarrow> c = d) \<Longrightarrow>
    rsplit_once d (map f s) = map_option (\<lambda>(a, b). (map f a, map f b)) (rsplit_once d s)"
  unfolding rsplit_once_def by (simp add: rev_map split_once_map option.map_comp comp_def split_beta)

lemma split_once_prefix: "CHR '':'' \<notin> set s \<Longrightarrow> split_once (CHR '':'') (s @ CHR '':'' # rest) = Some (s, rest)"
  by (induction s) auto

lemma split_once_set: "split_once d s = Some (a, b) \<Longrightarrow> set b \<subseteq> set s"
  by (induction s arbitrary: a) (auto split: if_splits)

lemma ascii_digit_lower: "ascii_digit c \<Longrightarrow> to_lower c = c"
  by (auto simp: to_lower_def ascii_digit_def ascii_upper_def less_eq_char_def)

lemma digit_to_lower: "ascii_digit (to_lower c) \<longleftrightarrow> ascii_digit c"
proof (cases "ascii_upper c")
  case True
  then show ?thesis using of_char_lower [OF True] by (auto simp: ascii_digit_def less_eq_char_def)
qed (simp add: to_lower_def)

lemma port_of_lower: "port_of (map_option (map to_lower) words) = port_of words"
proof (cases words)
  case (Some w)
  show ?thesis
  proof (cases "list_all ascii_digit w")
    case True
    then have "map to_lower w = w" by (induction w) (auto simp: ascii_digit_lower)
    then show ?thesis using Some by simp
  next
    case False
    then have "\<not> list_all ascii_digit (map to_lower w)" by (simp add: list_all_iff digit_to_lower)
    then show ?thesis using Some False by (simp add: port_of_def)
  qed
qed (simp add: port_of_def)

lemma authority_of_lower:
  "authority_of (map to_lower netloc) =
    (let a = authority_of netloc
     in \<lparr>userinfo = map_option (map_prod (map to_lower) (map_option (map to_lower))) (userinfo a),
         auth_host = map to_lower (auth_host a), auth_port = map_option (map to_lower) (auth_port a)\<rparr>)"
proof -
  have at: "to_lower c = CHR ''@'' \<longleftrightarrow> c = CHR ''@''" "to_lower c = CHR '':'' \<longleftrightarrow> c = CHR '':''" for c
    by (simp_all add: to_lower_other ascii_alpha_def ascii_lower_def ascii_upper_def less_eq_char_def)
  show ?thesis
    by (cases "rsplit_once (CHR ''@'') netloc")
      (auto simp: authority_of_def rsplit_once_map split_once_map at Let_def split: option.splits)
qed

lemma graphic_lower: "graphic c \<Longrightarrow> graphic (to_lower c)"
  using of_char_lower [of c] by (cases "ascii_upper c") (auto simp: graphic_def to_lower_def less_eq_char_def)

lemma plain_lower: "c \<notin> set ''[]?#/'' \<Longrightarrow> to_lower c \<notin> set ''[]?#/''"
proof -
  have "\<forall>d\<in>set ''[]?#/''. \<not> ascii_alpha d" by (simp add: ascii_alpha_def ascii_lower_def ascii_upper_def less_eq_char_def)
  then show "c \<notin> set ''[]?#/'' \<Longrightarrow> to_lower c \<notin> set ''[]?#/''" using to_lower_other by metis
qed

section \<open>Properties\<close>

text \<open>
  A canonical Origin is \<open>http\<close> or \<open>https\<close> with a non-empty, lowercase authority without userinfo, brackets, path,
  query or fragment, and it is its own canonical form, so comparing canonical forms is stable.
\<close>

theorem canonical_origin_stable:
  assumes "canonical_origin (Some url) = Some origin"
  shows "canonical_origin (Some origin) = Some origin \<and>
    (\<exists>scheme netloc. (scheme = ''http'' \<or> scheme = ''https'') \<and> origin = scheme @ ''://'' @ netloc \<and>
      map to_lower netloc = netloc \<and> auth_host (authority_of netloc) \<noteq> [] \<and> userinfo (authority_of netloc) = None \<and>
      set netloc \<inter> set ''[]?#/'' = {})"
proof -
  obtain scheme rest netloc where s: "scheme_of url = (scheme, rest)" and rest: "strip_prefix ''//'' rest = Some netloc"
    and url: "list_all graphic url" "\<not> list_ex (\<lambda>c. c \<in> set ''[]?#'') url" and slash: "CHR ''/'' \<notin> set netloc"
    and scheme: "scheme = ''http'' \<or> scheme = ''https''" and port: "\<exists>p. port_of (auth_port (authority_of netloc)) = Inr p"
    and host: "auth_host (authority_of netloc) \<noteq> []" "userinfo (authority_of netloc) = None"
    and origin: "origin = scheme @ ''://'' @ map to_lower netloc"
    using assms by (auto simp: canonical_origin_def Let_def split: if_splits prod.splits option.splits sum.splits)
  let ?low = "map to_lower netloc"
  have "set netloc \<subseteq> set url"
  proof -
    have "set rest \<subseteq> set url"
      using s by (auto simp: scheme_of_def split: option.splits if_splits dest!: split_once_set)
    then show ?thesis using rest by (auto simp: strip_prefix_Some)
  qed
  then have net: "list_all graphic netloc" "\<forall>c\<in>set netloc. c \<notin> set ''[]?#/''"
    using url slash by (auto simp: list_all_iff list_ex_iff)
  then have low: "list_all graphic ?low" "\<forall>c\<in>set ?low. c \<notin> set ''[]?#/''"
    using graphic_lower plain_lower by (auto simp: list_all_iff simp del: set_simps)
  have "list_all graphic scheme" "list_all graphic ''://''" "\<forall>c\<in>set (scheme @ ''://''). c \<notin> set ''[]?#''"
    using scheme by (auto simp: graphic_def less_eq_char_def)
  moreover have "set ''[]?#'' \<subseteq> set ''[]?#/''" by auto
  moreover have "set origin = set (scheme @ ''://'') \<union> set ?low" unfolding origin by auto
  ultimately have "list_all graphic origin" "\<forall>c\<in>set origin. c \<notin> set ''[]?#''"
    using low by (simp add: origin, blast)
  then have chars_ok: "list_all graphic origin" "\<not> list_ex (\<lambda>c. c \<in> set ''[]?#'') origin"
    unfolding list_ex_iff by blast+
  have alpha: "ascii_alpha c" if "c \<in> set ''https''" for c
    using that by (auto simp: ascii_alpha_def ascii_lower_def ascii_upper_def less_eq_char_def)
  have scheme_read: "scheme_of origin = (scheme, ''//'' @ ?low)"
  proof -
    have colon: "CHR '':'' \<notin> set scheme" using scheme by auto
    have letters: "\<forall>c\<in>set scheme. c \<in> set ''https''" using scheme by auto
    have "map to_lower scheme = scheme"
      using scheme by (auto simp: to_lower_def ascii_upper_def less_eq_char_def)
    moreover have "(case scheme of first # _ \<Rightarrow> ascii_alpha first | [] \<Rightarrow> False)" using scheme alpha [of "CHR ''h''"] by auto
    moreover have "list_all (\<lambda>b. ascii_alpha b \<or> ascii_digit b \<or> b \<in> set ''+-.'') scheme" unfolding list_all_iff using letters alpha by blast
    moreover have "split_once (CHR '':'') origin = Some (scheme, ''//'' @ ?low)"
      using split_once_prefix [OF colon, of "''//'' @ ?low"] by (simp add: origin)
    ultimately show ?thesis by (simp add: scheme_of_def)
  qed
  have parts: "authority_of ?low = \<lparr>userinfo = None, auth_host = map to_lower (auth_host (authority_of netloc)),
      auth_port = map_option (map to_lower) (auth_port (authority_of netloc))\<rparr>"
    using host(2) by (simp add: authority_of_lower Let_def)
  have strip: "strip_prefix ''//'' (''//'' @ ?low) = Some ?low" by (simp add: strip_prefix_Some)
  have slash_low: "CHR ''/'' \<notin> set ?low" using low(2) by auto
  have again: "map to_lower ?low = ?low" by simp
  have "canonical_origin (Some origin) = Some (scheme @ ''://'' @ ?low)"
    using chars_ok scheme port host(1) slash_low
    by (auto simp: canonical_origin_def scheme_read strip parts port_of_lower Let_def)
  then have stable: "canonical_origin (Some origin) = Some origin" by (simp only: origin)
  have clean: "set ?low \<inter> set ''[]?#/'' = {}" using low(2) by blast
  have "auth_host (authority_of ?low) \<noteq> []" "userinfo (authority_of ?low) = None"
    using host(1) by (simp_all add: parts)
  with scheme origin again clean stable show ?thesis by (intro conjI exI [of _ scheme] exI [of _ ?low])
qed

lemma plain_origin: "canonical_origin (Some ''HTTPS://Example.com'') = Some ''https://example.com''"
  by code_simp

theorem canonical_origin_stable_witness:
  "canonical_origin (Some ''https://example.com'') = Some ''https://example.com''"
  using canonical_origin_stable [OF plain_origin] by blast

lemma distinct_choices_iff: "distinct_choices earlier cs \<longleftrightarrow> distinct cs \<and> set cs \<inter> set earlier = {}"
  by (induction cs arbitrary: earlier) auto

lemma filter_strings:
  "length (List.map_filter py_string items) = length items \<longleftrightarrow> items = map String (List.map_filter py_string items)"
proof -
  have "length (List.map_filter py_string items) \<le> length items" for items by (induction items) (auto simp: List.map_filter_simps split: option.splits)
  then have "length (List.map_filter py_string items) \<noteq> Suc (length items)" for items by (metis Suc_n_not_le_n)
  then show ?thesis
    by (induction items) (auto simp: List.map_filter_simps py_string_def split: option.splits json.splits)
qed

text \<open>What a human may answer: an approval, bounded text, or bounded distinct choices.\<close>

definition bounded_answer :: "json \<Rightarrow> bool" where
  "bounded_answer v \<longleftrightarrow> v = Bool True \<or> (\<exists>s. v = String s \<and> py_len s \<le> 16000) \<or>
     (\<exists>cs. v = Array (map String cs) \<and> length cs \<le> 32 \<and> distinct cs \<and> (\<forall>c\<in>set cs. py_len c \<le> 128))"

lemma human_value_iff: "human_value v \<longleftrightarrow> bounded_answer v"
proof (cases v)
  case (Array items)
  let ?cs = "List.map_filter py_string items"
  have strings: "List.map_filter py_string (map String cs) = cs" for cs
    by (induction cs) (simp_all add: List.map_filter_simps py_string_def)
  have "human_value v \<longleftrightarrow> length items \<le> 32 \<and> items = map String ?cs \<and> (\<forall>c\<in>set ?cs. py_len c \<le> 128) \<and> distinct ?cs"
    by (auto simp: human_value_def Array filter_strings [symmetric] distinct_choices_iff list_all_iff Let_def
        MAX_HUMAN_CHOICES_def MAX_HUMAN_CHOICE_CHARS_def)
  also have "\<dots> \<longleftrightarrow> bounded_answer v"
    unfolding bounded_answer_def Array using strings by (auto intro: exI [of _ ?cs]) (metis length_map)+
  finally show ?thesis .
qed (auto simp: human_value_def bounded_answer_def MAX_HUMAN_TEXT_CHARS_def)

lemma guarded_conj: "(S \<Longrightarrow> A = B) \<Longrightarrow> (d \<and> S \<and> A) = (d \<and> S \<and> B)"
  by blast

lemma exact_members_names:
  assumes "value_ok (Object ms)" "distinct names"
  shows "exact_members ms names \<longleftrightarrow> set (map fst ms) = set names"
proof
  assume "exact_members ms names"
  then have "length (map fst ms) = length names" "set (map fst ms) \<subseteq> set names"
    by (auto simp: exact_members_def list_all_iff)
  moreover have "distinct (map fst ms)" using assms(1) by simp
  ultimately show "set (map fst ms) = set names" using assms(2) by (metis card_subset_eq distinct_card List.finite_set)
next
  assume same: "set (map fst ms) = set names"
  have "distinct (map fst ms)" using assms(1) by simp
  then have "length (map fst ms) = length names" using same assms(2) by (metis distinct_card)
  then show "exact_members ms names" using same by (auto simp: exact_members_def list_all_iff)
qed

lemma py_field_get: "get (Object ms) name = Some v \<Longrightarrow> py_field ms name = v"
  by (induction ms) (auto simp: py_field_def split: if_splits)

lemma py_string_Some: "py_string v = Some s \<longleftrightarrow> v = String s"
  by (cases v) (simp_all add: py_string_def)

lemma bind_py_string: "Option.bind r py_string = Some s \<longleftrightarrow> r = Some (String s)"
  by (cases r) (simp_all add: py_string_Some)

text \<open>The closed frames of a human response: an answer of the challenge, or a refusal to answer.\<close>

definition response_frame :: "(string \<Rightarrow> string \<Rightarrow> bool) \<Rightarrow> json \<Rightarrow> bool" where
  "response_frame full v \<longleftrightarrow>
     get v ''type'' = Some (String ''human-response'') \<and>
     (\<exists>c. get v ''challenge_id'' = Some (String c) \<and> full HEX_ID_PATTERN c) \<and>
     (get v ''decision'' = Some (String ''deny'') \<and>
        set (map fst (members v)) = {''type'', ''challenge_id'', ''decision''} \<or>
      get v ''decision'' = Some (String ''submit'') \<and>
        set (map fst (members v)) = {''type'', ''challenge_id'', ''decision'', ''value''} \<and>
        (\<exists>a. get v ''value'' = Some a \<and> bounded_answer a))"

text \<open>
  A human response is admitted exactly when it is one of the closed frames, and then as it came: the challenge id
  matches the identifier pattern, a denial carries nothing more, and a submission carries an approval, bounded text or
  bounded distinct choices.  Anything else is the one refusal.
\<close>

theorem human_response_closed:
  assumes "value_ok v"
  shows "canonical_human_response full v =
    (if response_frame full v then Inr v else Inl (frame_refusal 400 ''invalid human response frame'' 1007))"
proof (cases v)
  case (Object ms)
  let ?decision = "Option.bind (get v ''decision'') py_string"
  have challenge: "(case get v ''challenge_id'' of Some c \<Rightarrow> valid_challenge_id full c | None \<Rightarrow> False) \<longleftrightarrow>
      (\<exists>c. get v ''challenge_id'' = Some (String c) \<and> full HEX_ID_PATTERN c)"
    by (auto simp: valid_challenge_id_def is_full_value_def split: option.splits json.splits)
  have deny: "exact_members ms [''type'', ''challenge_id'', ''decision''] \<longleftrightarrow>
      set (map fst (members v)) = {''type'', ''challenge_id'', ''decision''}"
    using exact_members_names [of ms "[''type'', ''challenge_id'', ''decision'']"] assms Object by simp
  have submit: "exact_members ms [''type'', ''challenge_id'', ''decision'', ''value''] \<longleftrightarrow>
      set (map fst (members v)) = {''type'', ''challenge_id'', ''decision'', ''value''}"
    using exact_members_names [of ms "[''type'', ''challenge_id'', ''decision'', ''value'']"] assms Object by simp
  have answer: "human_value (py_field ms ''value'') \<longleftrightarrow> (\<exists>a. get v ''value'' = Some a \<and> bounded_answer a)"
    if "set (map fst (members v)) = {''type'', ''challenge_id'', ''decision'', ''value''}"
  proof -
    have "''value'' \<in> fst ` set ms" using that Object by simp
    then obtain a where "get v ''value'' = Some a" using Object by (metis get.simps(1) map_of_eq_None_iff option.exhaust)
    then show ?thesis using py_field_get [of ms "''value''" a] Object human_value_iff by auto
  qed
  have py: "py_object v = Some ms" by (simp add: py_object_def Object)
  have frame: "response_frame full v \<longleftrightarrow>
      get v ''type'' = Some (String ''human-response'') \<and>
      (case get v ''challenge_id'' of Some c \<Rightarrow> valid_challenge_id full c | None \<Rightarrow> False) \<and>
      (get v ''decision'' = Some (String ''deny'') \<and> exact_members ms [''type'', ''challenge_id'', ''decision''] \<or>
       get v ''decision'' = Some (String ''submit'') \<and> exact_members ms [''type'', ''challenge_id'', ''decision'', ''value''] \<and>
         human_value (py_field ms ''value''))"
  proof -
    let ?S = "set (map fst (members v)) = {''type'', ''challenge_id'', ''decision'', ''value''}"
    have "(d \<and> ?S \<and> human_value (py_field ms ''value'')) = (d \<and> ?S \<and> (\<exists>a. get v ''value'' = Some a \<and> bounded_answer a))" for d
      by (rule guarded_conj, rule answer)
    then show ?thesis unfolding response_frame_def challenge deny submit by (simp only:)
  qed
  show ?thesis
  proof (cases ?decision)
    case None
    then have "get v ''decision'' \<noteq> Some (String s)" for s using bind_py_string [of "get v ''decision''" s] by auto
    then have "\<not> response_frame full v" unfolding frame by blast
    then show ?thesis by (simp add: canonical_human_response_def py None Let_def)
  next
    case (Some decision)
    then have d: "get v ''decision'' = Some (String decision)" by (simp add: bind_py_string)
    consider "decision = ''submit''" | "decision = ''deny''" | "decision \<noteq> ''submit''" "decision \<noteq> ''deny''" by blast
    then show ?thesis
      by cases (simp_all add: canonical_human_response_def frame py py_string_def d Let_def bind_py_string)
  qed
qed (simp_all add: canonical_human_response_def py_object_def response_frame_def Let_def)

definition sample_denial :: json where
  "sample_denial = Object [(''type'', String ''human-response''), (''challenge_id'', String ''c''), (''decision'', String ''deny'')]"

theorem human_response_closed_witness: "canonical_human_response (\<lambda>_ _. True) sample_denial = Inr sample_denial"
proof -
  have "response_frame (\<lambda>_ _. True) sample_denial"
    unfolding response_frame_def sample_denial_def by (intro conjI disjI1) simp_all
  then show ?thesis using human_response_closed [of sample_denial "\<lambda>_ _. True"] by (simp add: sample_denial_def)
qed

end
