(* ===== verification/Datetime.thy ===== *)
theory Datetime
  imports PyText "HOL-Library.Signed_Division"
begin

unbundle bit_operations_syntax

text \<open>
  \<open>datetime.fromisoformat\<close> (\<open>protocol/team/http/src/python/datetime.rs\<close>).  Every \<open>i32\<close> and \<open>i64\<close> of the parser stays far
  inside its width (a field has at most six digits), so they are \<^typ>\<open>int\<close>; \<open>/\<close> and \<open>%\<close> truncate, as in Rust.  The byte
  buffer reads as NUL past its end.
\<close>

section \<open>The calendar\<close>

definition MIN_YEAR :: int where "MIN_YEAR = 1"
definition MAX_YEAR :: int where "MAX_YEAR = 9999"
definition DAY_MICROSECONDS :: int where "DAY_MICROSECONDS = 86400000000"
definition DAYS_IN_400_YEARS :: int where "DAYS_IN_400_YEARS = 146097"

record date_time =
  dt_year :: int
  dt_month :: int
  dt_day :: int
  dt_hour :: int
  dt_minute :: int
  dt_second :: int
  dt_microsecond :: int
  dt_offset :: "int option"

datatype invalid_isoformat = Invalid_Isoformat

definition is_leap :: "int \<Rightarrow> bool" where
  "is_leap year \<longleftrightarrow> year smod 4 = 0 \<and> (year smod 100 \<noteq> 0 \<or> year smod 400 = 0)"

definition days_in_month :: "int \<Rightarrow> int \<Rightarrow> int" where
  "days_in_month year month =
     (if month = 2 then if is_leap year then 29 else 28
      else if month \<in> {4, 6, 9, 11} then 30 else 31)"

definition days_before_year :: "int \<Rightarrow> int" where
  "days_before_year year =
     (let previous = year - 1 in previous * 365 + previous sdiv 4 - previous sdiv 100 + previous sdiv 400)"

definition days_before_month :: "int \<Rightarrow> int \<Rightarrow> int" where
  "days_before_month year month = foldl (\<lambda>days current. days + days_in_month year current) 0 [1..month - 1]"

definition ymd_to_ord :: "int \<Rightarrow> int \<Rightarrow> int \<Rightarrow> int" where
  "ymd_to_ord year month day = days_before_year year + days_before_month year month + day"

definition days_in_year :: "int \<Rightarrow> int" where
  "days_in_year year = (if is_leap year then 366 else 365)"

lemma days_in_month_positive: "0 < days_in_month year month"
  by (simp add: days_in_month_def)

lemma days_in_year_positive: "0 < days_in_year year"
  by (simp add: days_in_year_def)

text \<open>The two loops of \<open>ord_to_ymd\<close> subtract whole years, then whole months.\<close>

function year_loop :: "int \<Rightarrow> int \<Rightarrow> int \<times> int" where
  "year_loop year rest =
     (if rest \<ge> days_in_year year then year_loop (year + 1) (rest - days_in_year year) else (year, rest))"
  by pat_completeness auto
termination
  by (relation "measure (\<lambda>(year, rest). nat rest)") (auto simp: days_in_year_def split: if_splits)

function month_loop :: "int \<Rightarrow> int \<Rightarrow> int \<Rightarrow> int \<times> int" where
  "month_loop year month rest =
     (if rest \<ge> days_in_month year month
      then month_loop year (month + 1) (rest - days_in_month year month) else (month, rest))"
  by pat_completeness auto
termination
proof (relation "measure (\<lambda>(year, month, rest). nat rest)")
  fix year month rest :: int
  assume "days_in_month year month \<le> rest"
  then show "((year, month + 1, rest - days_in_month year month), (year, month, rest)) \<in> measure (\<lambda>(year, month, rest). nat rest)"
    using days_in_month_positive [of year month] by simp
qed simp

declare year_loop.simps [simp del] month_loop.simps [simp del]

definition ord_to_ymd :: "int \<Rightarrow> int \<times> int \<times> int" where
  "ord_to_ymd ordinal =
     (let offset = ordinal - 1;
          (year, rest) = year_loop (offset sdiv DAYS_IN_400_YEARS * 400 + 1) (offset smod DAYS_IN_400_YEARS);
          (month, rest) = month_loop year 1 rest
      in (year, month, rest + 1))"

definition weekday :: "int \<Rightarrow> int \<Rightarrow> int \<Rightarrow> int" where
  "weekday year month day = (ymd_to_ord year month day + 6) smod 7"

definition iso_to_ymd :: "int \<Rightarrow> int \<Rightarrow> int \<Rightarrow> (int \<times> int \<times> int) option" where
  "iso_to_ymd year week day =
     (if \<not> (MIN_YEAR \<le> year \<and> year \<le> MAX_YEAR) then None
      else if (week \<le> 0 \<or> week \<ge> 53) \<and>
        (let first = weekday year 1 1 in \<not> (week = 53 \<and> (first = 3 \<or> first = 2 \<and> is_leap year))) then None
      else if \<not> (1 \<le> day \<and> day \<le> 7) then None
      else let first_day = ymd_to_ord year 1 1;
               first_weekday = (first_day + 6) smod 7;
               week1_monday = first_day - first_weekday + (if first_weekday > 3 then 7 else 0)
           in Some (ord_to_ymd (week1_monday + (week - 1) * 7 + day - 1)))"

section \<open>The buffer\<close>

definition at :: "string \<Rightarrow> nat \<Rightarrow> char" where
  "at b i = (if i < length b then b ! i else CHR 0x00)"

fun digits :: "string \<Rightarrow> nat \<Rightarrow> nat \<Rightarrow> int \<Rightarrow> (nat \<times> int) option" where
  "digits b i 0 v = Some (i, v)"
| "digits b i (Suc n) v =
     (if ascii_digit (at b i) then digits b (Suc i) n (v * 10 + int (digit_val (at b i))) else None)"

function digit_end :: "string \<Rightarrow> nat \<Rightarrow> nat" where
  "digit_end b i = (if ascii_digit (at b i) then digit_end b (Suc i) else i)"
  by pat_completeness auto
termination
proof (relation "measure (\<lambda>(b, i). length b - i)")
  fix b i
  assume "ascii_digit (at b i)"
  moreover have "\<not> ascii_digit (CHR 0x00)" by (simp add: ascii_digit_def less_eq_char_def)
  ultimately have "i < length b" by (auto simp: at_def split: if_splits)
  then show "((b, Suc i), (b, i)) \<in> measure (\<lambda>(b, i). length b - i)" by simp
qed simp

declare digit_end.simps [simp del]

definition separator :: "string \<Rightarrow> nat \<Rightarrow> nat option" where
  "separator b len =
     (if len = 7 then Some 7
      else if at b 4 = CHR ''-''
      then if at b 5 \<noteq> CHR ''W'' then Some 10
           else if at b 8 = CHR ''-''
           then if len = 9 then None else Some (if ascii_digit (at b 10) then 8 else 10)
           else Some 8
      else if at b 4 \<noteq> CHR ''W'' then Some 8
      else let i = digit_end b 7 in if i < 9 then Some i else if even i then Some 7 else Some 8)"

section \<open>The date and the time\<close>

definition parse_date :: "string \<Rightarrow> nat \<Rightarrow> (int \<times> int \<times> int) option" where
  "parse_date b len =
     (case digits b 0 4 0 of
        None \<Rightarrow> None
      | Some (p, year) \<Rightarrow>
          let separated = (at b p = CHR ''-'');
              p = p + of_bool separated
          in if at b p = CHR ''W''
             then (case digits b (p + 1) 2 0 of
                     None \<Rightarrow> None
                   | Some (p, week) \<Rightarrow>
                       if p < len
                       then (case digits b (p + of_bool separated) 1 0 of
                               None \<Rightarrow> None
                             | Some (_, day) \<Rightarrow> iso_to_ymd year week day)
                       else iso_to_ymd year week 1)
             else (case digits b p 2 0 of
                     None \<Rightarrow> None
                   | Some (p, month) \<Rightarrow>
                       if separated \<and> at b p \<noteq> CHR ''-'' then None
                       else (case digits b (p + of_bool separated) 2 0 of
                               None \<Rightarrow> None
                             | Some (_, day) \<Rightarrow> Some (year, month, day))))"

record clock =
  clock_fields :: "int list"
  trailing :: bool

text \<open>The loop of \<open>parse_clock\<close> over the indices 0, 1 and 2: it returns, refuses, or goes on to the fraction.\<close>

datatype clock_step = Refused_Clock | Finished clock | Fraction "int list" nat

fun clock_loop :: "string \<Rightarrow> nat \<Rightarrow> nat list \<Rightarrow> nat \<Rightarrow> bool \<Rightarrow> int list \<Rightarrow> clock_step" where
  "clock_loop b stop [] position separated parts = Fraction parts position"
| "clock_loop b stop (i # indices) position separated parts =
     (case digits b position 2 (parts ! i) of
        None \<Rightarrow> Refused_Clock
      | Some (position, v) \<Rightarrow>
          let parts = parts[i := v];
              character = at b position;
              position = position + 1;
              separated = (if i = 0 then character = CHR '':'' else separated)
          in if position \<ge> stop then Finished \<lparr>clock_fields = parts, trailing = (character \<noteq> CHR 0x00)\<rparr>
             else if separated \<and> character = CHR '':''
             then if i = 2 then Refused_Clock else clock_loop b stop indices position separated parts
             else if character = CHR ''.'' \<or> character = CHR '',''
             then if i < 2 then Refused_Clock else Fraction parts position
             else if separated then Refused_Clock
             else clock_loop b stop indices (position - 1) separated parts)"

definition fraction_scale :: "int list" where
  "fraction_scale = [1, 100000, 10000, 1000, 100, 10]"

definition parse_clock :: "string \<Rightarrow> nat \<Rightarrow> nat \<Rightarrow> clock option" where
  "parse_clock b start stop =
     (case clock_loop b stop [0, 1, 2] start True [0, 0, 0, 0] of
        Refused_Clock \<Rightarrow> None
      | Finished clock \<Rightarrow> Some clock
      | Fraction parts position \<Rightarrow>
          let remaining = stop - position;
              n = min remaining 6
          in case digits b position n (parts ! 3) of
               None \<Rightarrow> None
             | Some (position, v) \<Rightarrow>
                 let parts = parts[3 := (if n < 6 then v * fraction_scale ! n else v)]
                 in Some \<lparr>clock_fields = parts, trailing = (at b (digit_end b position) \<noteq> CHR 0x00)\<rparr>)"

definition parse_time :: "string \<Rightarrow> nat \<Rightarrow> nat \<Rightarrow> (int list \<times> (int \<times> int) option) option" where
  "parse_time b start stop =
     (let zone = the_or stop (find (\<lambda>i. at b i = CHR ''Z'' \<or> at b i = CHR ''+'' \<or> at b i = CHR ''-'') [start..<stop])
      in case parse_clock b start zone of
           None \<Rightarrow> None
         | Some clock \<Rightarrow>
             if zone = stop then (if \<not> trailing clock then Some (clock_fields clock, None) else None)
             else if at b zone = CHR ''Z''
             then (if at b (zone + 1) = CHR 0x00 then Some (clock_fields clock, Some (0, 0)) else None)
             else let sign = (if at b zone = CHR ''-'' then - 1 else 1)
                  in case parse_clock b (zone + 1) stop of
                       None \<Rightarrow> None
                     | Some offset \<Rightarrow>
                         if trailing offset then None
                         else let hours = clock_fields offset ! 0; minutes = clock_fields offset ! 1;
                                  seconds = clock_fields offset ! 2; microseconds = clock_fields offset ! 3
                              in Some (clock_fields clock,
                                   Some (sign * (hours * 3600 + minutes * 60 + seconds), sign * microseconds)))"

section \<open>\<open>fromisoformat\<close>\<close>

definition char_width :: "char \<Rightarrow> nat" where
  "char_width c =
     (let byte = (of_char c :: 8 word)
      in if byte AND 0x80 = 0 then 1 else if byte AND 0xF0 = 0xE0 then 3 else if byte AND 0xF0 = 0xF0 then 4 else 2)"

definition iso_parts :: "string \<Rightarrow> ((int \<times> int \<times> int) \<times> int list \<times> (int \<times> int) option) option" where
  "iso_parts s =
     (if py_len s < 7 then None
      else case separator s (length s) of
             None \<Rightarrow> None
           | Some split \<Rightarrow>
               (case parse_date s split of
                  None \<Rightarrow> None
                | Some date \<Rightarrow>
                    if length s \<le> split then Some (date, [0, 0, 0, 0], None)
                    else map_option (\<lambda>time. (date, time)) (parse_time s (split + char_width (at s split)) (length s))))"

definition next_midnight :: "int \<Rightarrow> int \<Rightarrow> int \<Rightarrow> int list \<Rightarrow> invalid_isoformat + int \<times> int \<times> int \<times> int" where
  "next_midnight year month day clock =
     (let hour = clock ! 0; minute = clock ! 1; second = clock ! 2; microsecond = clock ! 3
      in if hour \<noteq> 24 \<or> month > 12 \<or> day > days_in_month year month then Inr (year, month, day, hour)
         else if minute \<noteq> 0 \<or> second \<noteq> 0 \<or> microsecond \<noteq> 0 then Inl Invalid_Isoformat
         else if day < days_in_month year month then Inr (year, month, day + 1, 0)
         else if month < 12 then Inr (year, month + 1, 1, 0)
         else Inr (year + 1, 1, 1, 0))"

definition fromisoformat :: "string \<Rightarrow> invalid_isoformat + date_time" where
  "fromisoformat s =
     (case iso_parts s of
        None \<Rightarrow> Inl Invalid_Isoformat
      | Some ((year, month, day), clock, zone) \<Rightarrow>
          let offset = map_option (\<lambda>(seconds, microseconds).
                if seconds = 0 then 0 else seconds * 1000000 + microseconds) zone
          in if (case offset of Some offset \<Rightarrow> offset \<le> - DAY_MICROSECONDS \<or> offset \<ge> DAY_MICROSECONDS | None \<Rightarrow> False)
             then Inl Invalid_Isoformat
             else let minute = clock ! 1; second = clock ! 2; microsecond = clock ! 3
                  in case next_midnight year month day clock of
                       Inl e \<Rightarrow> Inl e
                     | Inr (year, month, day, hour) \<Rightarrow>
                         let valid = (MIN_YEAR \<le> year \<and> year \<le> MAX_YEAR) \<and> (1 \<le> month \<and> month \<le> 12) \<and>
                               (1 \<le> day \<and> day \<le> days_in_month year month) \<and> (0 \<le> hour \<and> hour \<le> 23) \<and>
                               (0 \<le> minute \<and> minute \<le> 59) \<and> (0 \<le> second \<and> second \<le> 59) \<and>
                               (0 \<le> microsecond \<and> microsecond \<le> 999999)
                         in if \<not> valid then Inl Invalid_Isoformat
                            else Inr \<lparr>dt_year = year, dt_month = month, dt_day = day, dt_hour = hour, dt_minute = minute,
                                   dt_second = second, dt_microsecond = microsecond, dt_offset = offset\<rparr>)"


section \<open>Ordinals\<close>

lemma sdiv_nonneg: "0 \<le> a \<Longrightarrow> 0 < b \<Longrightarrow> a sdiv b = a div b" for a b :: int
  by (cases "a = 0") (simp_all add: signed_divide_int_eq_divide_int)

lemma smod_nonneg: "0 \<le> a \<Longrightarrow> 0 < b \<Longrightarrow> a smod b = a mod b" for a b :: int
  by (simp add: smod_mod_positive)

lemma div_pred: "0 < n \<Longrightarrow> y div n = (y - 1) div n + of_bool (n dvd y)" for y n :: int
proof -
  assume n: "0 < n"
  show ?thesis
  proof (cases "n dvd y")
    case True
    then obtain k where "y = n * k" by (rule dvdE)
    moreover have "(n * k - 1) div n = k - 1"
    proof -
      have "(n * k - 1) div n = (n * (k - 1) + (n - 1)) div n" by (simp add: algebra_simps)
      also have "\<dots> = k - 1" using n by simp
      finally show ?thesis .
    qed
    ultimately show ?thesis using n by simp
  next
    case False
    then have r: "0 < y mod n" using n by (simp add: dvd_eq_mod_eq_0 order_less_le)
    have "y - 1 = n * (y div n) + (y mod n - 1)" by simp
    then have "(y - 1) div n = y div n + (y mod n - 1) div n" using n by (metis div_mult_self2 add.commute less_irrefl)
    moreover have "(y mod n - 1) div n = 0" using r n pos_mod_bound [of n y] by (intro div_pos_pos_trivial) linarith+
    ultimately show ?thesis using False by simp
  qed
qed

lemma is_leap_dvd: "0 \<le> y \<Longrightarrow> is_leap y \<longleftrightarrow> 4 dvd y \<and> (\<not> 100 dvd y \<or> 400 dvd y)"
  by (simp add: is_leap_def smod_nonneg dvd_eq_mod_eq_0)

lemma leap_count:
  "(c \<longrightarrow> b) \<Longrightarrow> (b \<longrightarrow> a) \<Longrightarrow>
    (if a \<and> (\<not> b \<or> c) then 366 else 365 :: int) = 365 + of_bool a - of_bool b + of_bool c"
  by (cases a; cases b; cases c) simp_all

lemma days_before_year_div:
  "1 \<le> y \<Longrightarrow> days_before_year y = (y - 1) * 365 + (y - 1) div 4 - (y - 1) div 100 + (y - 1) div 400"
  by (simp add: days_before_year_def Let_def sdiv_nonneg)

lemma days_before_year_Suc: "1 \<le> y \<Longrightarrow> days_before_year (y + 1) = days_before_year y + days_in_year y"
proof -
  assume y: "1 \<le> y"
  have chain: "400 dvd y \<Longrightarrow> 100 dvd y" "100 dvd y \<Longrightarrow> 4 dvd y"
    by (erule dvd_trans [rotated], simp)+
  have leap: "is_leap y \<longleftrightarrow> 4 dvd y \<and> (\<not> 100 dvd y \<or> 400 dvd y)" using y by (intro is_leap_dvd) simp
  have "days_in_year y = 365 + of_bool (4 dvd y) - of_bool (100 dvd y) + of_bool (400 dvd y)"
    unfolding days_in_year_def leap by (rule leap_count) (use chain in blast)+
  moreover have "days_before_year (y + 1) = y * 365 + y div 4 - y div 100 + y div 400"
    using days_before_year_div [of "y + 1"] y by simp
  ultimately show ?thesis
    using days_before_year_div [OF y] div_pred [of 4 y] div_pred [of 100 y] div_pred [of 400 y] by simp
qed

lemma days_before_month_Suc: "1 \<le> m \<Longrightarrow> days_before_month y (m + 1) = days_before_month y m + days_in_month y m"
  by (simp add: days_before_month_def upto_rec2)

lemma days_before_month_one [simp]: "days_before_month y 1 = 0"
  by (simp add: days_before_month_def)

lemma days_before_month_all: "days_before_month y 13 = days_in_year y"
proof -
  have "[1..12 :: int] = [1, 2, 3, 4, 5, 6, 7, 8, 9, 10, 11, 12]" by code_simp
  then show ?thesis by (simp add: days_before_month_def days_in_month_def days_in_year_def)
qed

lemma days_before_month_mono: "1 \<le> m \<Longrightarrow> m \<le> n \<Longrightarrow> days_before_month y m \<le> days_before_month y n"
proof -
  assume m: "1 \<le> m"
  have "days_before_month y m \<le> days_before_month y (m + int k)" for k
  proof (induction k)
    case (Suc k)
    have "days_before_month y (m + int (Suc k)) = days_before_month y (m + int k) + days_in_month y (m + int k)"
      using days_before_month_Suc [of "m + int k" y] m by (simp add: algebra_simps)
    then show ?case using Suc days_in_month_positive [of y "m + int k"] by simp
  qed simp
  from this [of "nat (n - m)"] show "m \<le> n \<Longrightarrow> ?thesis" by simp
qed

lemma days_before_year_mono: "1 \<le> y \<Longrightarrow> y \<le> z \<Longrightarrow> days_before_year y \<le> days_before_year z"
proof -
  assume y: "1 \<le> y"
  have "days_before_year y \<le> days_before_year (y + int k)" for k
  proof (induction k)
    case (Suc k)
    have "days_before_year (y + int (Suc k)) = days_before_year (y + int k) + days_in_year (y + int k)"
      using days_before_year_Suc [of "y + int k"] y by (simp add: algebra_simps)
    then show ?case using Suc days_in_year_positive [of "y + int k"] by simp
  qed simp
  from this [of "nat (z - y)"] show "y \<le> z \<Longrightarrow> ?thesis" by simp
qed

definition valid_date :: "int \<Rightarrow> int \<Rightarrow> int \<Rightarrow> bool" where
  "valid_date y m d \<longleftrightarrow> 1 \<le> y \<and> 1 \<le> m \<and> m \<le> 12 \<and> 1 \<le> d \<and> d \<le> days_in_month y m"

lemma month_bounds: "valid_date y m d \<Longrightarrow> days_before_month y m + d \<le> days_in_year y \<and> 1 \<le> days_before_month y m + d"
  using days_before_month_mono [of "m + 1" 13 y] days_before_month_mono [of 1 m y] days_before_month_Suc [of m y]
  by (simp add: valid_date_def days_before_month_all)

lemma ymd_to_ord_less_month:
  "valid_date y m d \<Longrightarrow> valid_date y n e \<Longrightarrow> m < n \<Longrightarrow> ymd_to_ord y m d < ymd_to_ord y n e"
  using days_before_month_mono [of "m + 1" n y] days_before_month_Suc [of m y] by (simp add: valid_date_def ymd_to_ord_def)

lemma ymd_to_ord_less_year:
  "valid_date y m d \<Longrightarrow> valid_date z n e \<Longrightarrow> y < z \<Longrightarrow> ymd_to_ord y m d < ymd_to_ord z n e"
  using month_bounds [of y m d] month_bounds [of z n e] days_before_year_mono [of "y + 1" z] days_before_year_Suc [of y]
  by (simp add: valid_date_def ymd_to_ord_def)

lemma ymd_to_ord_inj:
  assumes "valid_date y m d" "valid_date z n e" "ymd_to_ord y m d = ymd_to_ord z n e"
  shows "(y, m, d) = (z, n, e)"
proof -
  have "y = z"
    using ymd_to_ord_less_year [OF assms(1,2)] ymd_to_ord_less_year [OF assms(2,1)] assms(3) by (cases y z rule: linorder_cases) simp_all
  moreover have "m = n"
    using ymd_to_ord_less_month [of y m d n e] ymd_to_ord_less_month [of y n e m d] assms \<open>y = z\<close>
    by (cases m n rule: linorder_cases) simp_all
  ultimately show ?thesis using assms(3) by (simp add: ymd_to_ord_def)
qed

lemma year_loop_result:
  "1 \<le> y \<Longrightarrow> 0 \<le> r \<Longrightarrow> year_loop y r = (z, s) \<Longrightarrow>
    1 \<le> z \<and> 0 \<le> s \<and> s < days_in_year z \<and> days_before_year z + s = days_before_year y + r"
proof (induction y r rule: year_loop.induct)
  case (1 y r)
  show ?case
  proof (cases "r \<ge> days_in_year y")
    case True
    then show ?thesis using 1 days_before_year_Suc [of y] by (simp add: year_loop.simps [of y r])
  next
    case False
    then show ?thesis using 1 by (auto simp: year_loop.simps [of y r])
  qed
qed

lemma month_loop_result:
  "1 \<le> m \<Longrightarrow> 0 \<le> r \<Longrightarrow> month_loop y m r = (n, s) \<Longrightarrow>
    1 \<le> n \<and> 0 \<le> s \<and> s < days_in_month y n \<and> days_before_month y n + s = days_before_month y m + r"
proof (induction y m r rule: month_loop.induct)
  case (1 y m r)
  show ?case
  proof (cases "r \<ge> days_in_month y m")
    case True
    then show ?thesis using 1 days_before_month_Suc [of m y] by (simp add: month_loop.simps [of y m r])
  next
    case False
    then show ?thesis using 1 by (auto simp: month_loop.simps [of y m r])
  qed
qed

lemma ord_to_ymd_sound:
  assumes "1 \<le> ordinal" "ord_to_ymd ordinal = (y, m, d)"
  shows "valid_date y m d \<and> ymd_to_ord y m d = ordinal"
proof -
  define q where "q = (ordinal - 1) div 146097"
  define r where "r = (ordinal - 1) mod 146097"
  have q: "0 \<le> q" and r: "0 \<le> r" using assms(1) by (simp_all add: q_def r_def pos_imp_zdiv_nonneg_iff)
  obtain z s where years: "year_loop (q * 400 + 1) r = (z, s)" by fastforce
  obtain n t where months: "month_loop z 1 s = (n, t)" by fastforce
  have result: "(y, m, d) = (z, n, t + 1)"
    using assms years months by (simp add: ord_to_ymd_def DAYS_IN_400_YEARS_def sdiv_nonneg smod_nonneg q_def r_def)
  have "days_before_year (q * 400 + 1) = q * 146097"
    using q by (simp add: days_before_year_div)
  then have year: "1 \<le> z" "0 \<le> s" "s < days_in_year z" "days_before_year z + s = ordinal - 1"
    using year_loop_result [OF _ r years] q mult_div_mod_eq [of 146097 "ordinal - 1"] by (simp_all add: q_def r_def)
  have month: "1 \<le> n" "0 \<le> t" "t < days_in_month z n" "days_before_month z n + t = s"
    using month_loop_result [OF _ year(2) months] by simp_all
  have "n \<le> 12"
  proof (rule ccontr)
    assume "\<not> n \<le> 12"
    then have "days_in_year z \<le> days_before_month z n"
      using days_before_month_mono [of 13 n z] by (simp add: days_before_month_all)
    then show False using month year(3) by simp
  qed
  then show ?thesis using result year month by (simp add: valid_date_def ymd_to_ord_def)
qed

text \<open>
  The proleptic Gregorian ordinal is a bijection: a valid date is read back from its ordinal, and every ordinal from
  1 on is the ordinal of the valid date it is read as.
\<close>

theorem ordinal_round_trip:
  assumes "valid_date y m d" "1 \<le> ordinal"
  shows "ord_to_ymd (ymd_to_ord y m d) = (y, m, d) \<and>
    (case ord_to_ymd ordinal of (y, m, d) \<Rightarrow> valid_date y m d \<and> ymd_to_ord y m d = ordinal)"
proof -
  have "days_before_year 1 = 0" by (simp add: days_before_year_div)
  then have "1 \<le> ymd_to_ord y m d"
    using month_bounds [OF assms(1)] days_before_year_mono [of 1 y] assms(1) by (simp add: ymd_to_ord_def valid_date_def)
  then have "ord_to_ymd (ymd_to_ord y m d) = (y, m, d)"
    using ord_to_ymd_sound [of "ymd_to_ord y m d"] ymd_to_ord_inj [OF _ assms(1)] by (metis prod_cases3)
  then show ?thesis using ord_to_ymd_sound [OF assms(2)] by (simp split: prod.split)
qed

theorem ordinal_round_trip_witness: "ord_to_ymd (ymd_to_ord 2024 2 29) = (2024, 2, 29)"
proof -
  have "valid_date 2024 2 29" by code_simp
  then show ?thesis using ordinal_round_trip [of 2024 2 29 1] by simp
qed

section \<open>Reading fixed text\<close>

text \<open>The buffer holds a text at a position.\<close>

fun written :: "string \<Rightarrow> nat \<Rightarrow> string \<Rightarrow> bool" where
  "written b p [] \<longleftrightarrow> True"
| "written b p (c # s) \<longleftrightarrow> at b p = c \<and> written b (p + 1) s"

lemma written_append: "written b p (s @ t) \<longleftrightarrow> written b p s \<and> written b (p + length s) t"
  by (induction s arbitrary: p) simp_all

lemma written_prefix: "written (pre @ s @ post) (length pre) s"
proof (induction s arbitrary: pre)
  case (Cons c s)
  show ?case using Cons [of "pre @ [c]"] by (simp add: at_def nth_append)
qed simp

lemma written_whole: "written s 0 s"
  using written_prefix [of "[]" s "[]"] by simp

lemma at_end [simp]: "length b \<le> i \<Longrightarrow> at b i = CHR 0x00"
  by (simp add: at_def)

lemma written_none: "written b p s \<Longrightarrow> (\<And>c. c \<in> set s \<Longrightarrow> \<not> P c) \<Longrightarrow> p \<le> i \<Longrightarrow> i < p + length s \<Longrightarrow> \<not> P (at b i)"
proof (induction s arbitrary: p)
  case (Cons c s)
  show ?case using Cons.prems Cons.IH [of "p + 1"] by (cases "i = p") auto
qed simp

text \<open>A number in a fixed width.\<close>

fun fixed :: "nat \<Rightarrow> nat \<Rightarrow> string" where
  "fixed 0 n = []"
| "fixed (Suc w) n = fixed w (n div 10) @ [digit_char (n mod 10)]"

lemma length_fixed [simp]: "length (fixed w n) = w"
  by (induction w arbitrary: n) simp_all

lemma fixed_digits: "c \<in> set (fixed w n) \<Longrightarrow> ascii_digit c"
  by (induction w arbitrary: n) auto

lemma digits_snoc: "digits b p (Suc n) v =
    (case digits b p n v of None \<Rightarrow> None | Some (q, u) \<Rightarrow>
       if ascii_digit (at b q) then Some (q + 1, u * 10 + int (digit_val (at b q))) else None)"
proof (induction n arbitrary: p v)
  case (Suc n)
  show ?case
    by (subst digits.simps, subst (2) digits.simps) (simp only: Suc option.case split: if_splits, simp)
qed simp

lemma digits_fixed: "written b p (fixed w n) \<Longrightarrow> n < 10 ^ w \<Longrightarrow> digits b p w 0 = Some (p + w, int n)"
proof (induction w arbitrary: n)
  case (Suc w)
  have "n div 10 < 10 ^ w" using Suc.prems(2) by (simp add: less_mult_imp_div_less mult.commute)
  then have "digits b p w 0 = Some (p + w, int (n div 10))" using Suc by (simp add: written_append)
  moreover have "at b (p + w) = digit_char (n mod 10)" using Suc.prems(1) by (simp add: written_append)
  moreover have "int (n div 10) * 10 + int (n mod 10) = int n" by (simp add: zdiv_int zmod_int)
  ultimately show ?case by (simp add: digits_snoc del: digits.simps)
qed simp

lemma digits_2: "written b p (fixed 2 n) \<Longrightarrow> n < 100 \<Longrightarrow> digits b p 2 0 = Some (Suc (Suc p), int n)"
  using digits_fixed [of b p 2 n] by simp

declare digits.simps [simp del]

text \<open>The clock forms \<open>isoformat\<close> writes.\<close>

definition minutes_text :: "nat \<Rightarrow> nat \<Rightarrow> string" where
  "minutes_text h m = fixed 2 h @ '':'' @ fixed 2 m"

definition seconds_text :: "nat \<Rightarrow> nat \<Rightarrow> nat \<Rightarrow> nat \<Rightarrow> string" where
  "seconds_text h m s us = minutes_text h m @ '':'' @ fixed 2 s @ (if us = 0 then [] else ''.'' @ fixed 6 us)"

lemma parse_minutes:
  assumes "written b p (minutes_text h m)" "h < 100" "m < 100"
  shows "parse_clock b p (p + 5) = Some \<lparr>clock_fields = [int h, int m, 0, 0], trailing = (at b (p + 5) \<noteq> CHR 0x00)\<rparr>"
proof -
  have w: "written b p (fixed 2 h)" "at b (Suc (Suc p)) = CHR '':''" "written b (Suc (Suc (Suc p))) (fixed 2 m)"
    using assms(1) by (simp_all add: minutes_text_def written_append add.assoc)
  note d = digits_2 [OF w(1) assms(2)] digits_2 [OF w(3) assms(3)]
  have five: "p + 5 = Suc (Suc (Suc (Suc (Suc p))))" by simp
  show ?thesis
    unfolding five using w(2) by (simp add: parse_clock_def d Let_def)
qed

lemma parse_seconds:
  assumes "written b p (seconds_text h m s us)" "h < 100" "m < 100" "s < 100" "us < 10 ^ 6"
    and stop: "stop = p + length (seconds_text h m s us)" and after: "\<not> ascii_digit (at b stop)"
  shows "parse_clock b p stop = Some \<lparr>clock_fields = [int h, int m, int s, int us], trailing = (at b stop \<noteq> CHR 0x00)\<rparr>"
proof -
  have w: "written b p (fixed 2 h)" "at b (Suc (Suc p)) = CHR '':''" "written b (Suc (Suc (Suc p))) (fixed 2 m)"
      "at b (Suc (Suc (Suc (Suc (Suc p))))) = CHR '':''" "written b (Suc (Suc (Suc (Suc (Suc (Suc p)))))) (fixed 2 s)"
    using assms(1) by (simp_all add: seconds_text_def minutes_text_def written_append add.assoc)
  note d = digits_2 [OF w(1) assms(2)] digits_2 [OF w(3) assms(3)] digits_2 [OF w(5) assms(4)]
  show ?thesis
  proof (cases "us = 0")
    case True
    then have "stop = p + 8" using stop by (simp add: seconds_text_def minutes_text_def)
    then have "stop = Suc (Suc (Suc (Suc (Suc (Suc (Suc (Suc p)))))))" by simp
    then show ?thesis using w True by (simp add: parse_clock_def d Let_def)
  next
    case False
    define q where "q = Suc (Suc (Suc (Suc (Suc (Suc (Suc (Suc p)))))))"
    have stop: "stop = q + 7" using stop False by (simp add: seconds_text_def minutes_text_def q_def)
    have f: "at b q = CHR ''.''" "written b (Suc q) (fixed 6 us)"
      using assms(1) False by (simp_all add: seconds_text_def minutes_text_def written_append q_def)
    have "digits b (Suc q) 6 0 = Some (q + 7, int us)" using digits_fixed [OF f(2)] assms(5) by simp
    moreover have "digit_end b stop = stop" using after by (simp add: digit_end.simps)
    moreover have "clock_loop b stop [0, 1, 2] p True [0, 0, 0, 0] = Fraction [int h, int m, int s, 0] (Suc q)"
      using w f(1) by (simp add: d stop Let_def q_def)
    ultimately show ?thesis by (simp add: parse_clock_def stop)
  qed
qed

section \<open>Offsets and whole texts\<close>

definition sign_char :: "char \<Rightarrow> bool" where
  "sign_char c \<longleftrightarrow> c = CHR ''Z'' \<or> c = CHR ''+'' \<or> c = CHR ''-''"

lemma digit_no_sign: "ascii_digit c \<Longrightarrow> \<not> sign_char c \<and> \<not> continuation c"
  by (auto simp: sign_char_def ascii_digit_def less_eq_char_def continuation_def)

lemma plain_chars: "\<not> sign_char (CHR '':'')" "\<not> sign_char (CHR ''.'')" "\<not> ascii_digit (CHR ''+'')" "\<not> ascii_digit (CHR ''-'')"
    "\<not> ascii_digit (CHR 0x00)" "\<not> continuation (CHR '':'')" "\<not> continuation (CHR ''.'')" "\<not> continuation (CHR ''+'')"
    "\<not> continuation (CHR ''-'')" "\<not> continuation (CHR ''T'')"
  by (simp_all add: sign_char_def ascii_digit_def less_eq_char_def continuation_def)

lemma seconds_text_chars: "c \<in> set (seconds_text h m s us) \<Longrightarrow> \<not> sign_char c \<and> \<not> continuation c"
  using digit_no_sign fixed_digits plain_chars by (auto simp: seconds_text_def minutes_text_def split: if_splits)

lemma seconds_text_length: "8 \<le> length (seconds_text h m s us)"
  by (simp add: seconds_text_def minutes_text_def)

lemma find_first:
  assumes "z < stop" "P z" "\<And>i. start \<le> i \<Longrightarrow> i < z \<Longrightarrow> \<not> P i" "start \<le> z"
  shows "find P [start..<stop] = Some z"
proof -
  have "find P [start + k..<stop] = Some z" if "start + k \<le> z" "n = z - (start + k)" for k n
    using that
  proof (induction n arbitrary: k)
    case 0
    then show ?case using assms(1,2) by (simp add: upt_conv_Cons)
  next
    case (Suc n)
    then have less: "start + k < z" "start + k < stop" using assms(1) by simp_all
    then have "\<not> P (start + k)" using assms(3) by simp
    then show ?case using Suc.IH [of "Suc k"] Suc.prems less by (simp add: upt_conv_Cons)
  qed
  from this [of 0] show ?thesis using assms(4) by simp
qed

lemma find_none: "(\<And>i. start \<le> i \<Longrightarrow> i < stop \<Longrightarrow> \<not> P i) \<Longrightarrow> find P [start..<stop] = None"
  by (simp add: find_None_iff)

text \<open>The offset forms: a sign, hours and minutes, and seconds and microseconds where they are not zero.\<close>

definition offset_text :: "int option \<Rightarrow> string" where
  "offset_text offset =
     (case offset of
        None \<Rightarrow> []
      | Some us \<Rightarrow>
          let total = nat \<bar>us\<bar>; seconds = total div 1000000;
              h = seconds div 3600; m = seconds div 60 mod 60; s = seconds mod 60
          in (if us < 0 then CHR ''-'' else CHR ''+'') #
             (if s = 0 \<and> total mod 1000000 = 0 then minutes_text h m else seconds_text h m s (total mod 1000000)))"

text \<open>\<open>datetime.isoformat\<close>, the reference the parser is read against.\<close>

definition isoformat :: "date_time \<Rightarrow> string" where
  "isoformat d =
     fixed 4 (nat (dt_year d)) @ ''-'' @ fixed 2 (nat (dt_month d)) @ ''-'' @ fixed 2 (nat (dt_day d)) @ ''T'' @
     seconds_text (nat (dt_hour d)) (nat (dt_minute d)) (nat (dt_second d)) (nat (dt_microsecond d)) @
     offset_text (dt_offset d)"

definition valid_datetime :: "date_time \<Rightarrow> bool" where
  "valid_datetime d \<longleftrightarrow>
     valid_date (dt_year d) (dt_month d) (dt_day d) \<and> dt_year d \<le> 9999 \<and>
     0 \<le> dt_hour d \<and> dt_hour d \<le> 23 \<and> 0 \<le> dt_minute d \<and> dt_minute d \<le> 59 \<and>
     0 \<le> dt_second d \<and> dt_second d \<le> 59 \<and> 0 \<le> dt_microsecond d \<and> dt_microsecond d \<le> 999999 \<and>
     (case dt_offset d of None \<Rightarrow> True | Some offset \<Rightarrow> \<bar>offset\<bar> < 86400000000)"

lemma time_plain:
  assumes "b = pre @ seconds_text h m s us" "h < 100" "m < 100" "s < 100" "us < 10 ^ 6"
  shows "parse_time b (length pre) (length b) = Some ([int h, int m, int s, int us], None)"
proof -
  have w: "written b (length pre) (seconds_text h m s us)" using written_prefix [of pre _ "[]"] assms(1) by simp
  have "find (\<lambda>i. at b i = CHR ''Z'' \<or> at b i = CHR ''+'' \<or> at b i = CHR ''-'') [length pre..<length b] = None"
    using written_none [OF w, of sign_char] seconds_text_chars assms(1) by (intro find_none) (simp add: sign_char_def)
  moreover have "length b = length pre + length (seconds_text h m s us)" using assms(1) by simp
  ultimately show ?thesis
    using parse_seconds [OF w assms(2-5), of "length b"] by (simp add: parse_time_def Let_def plain_chars)
qed

lemma parse_offset:
  assumes "b = pre @ (if s = 0 \<and> us = 0 then minutes_text h m else seconds_text h m s us)" "h < 100" "m < 100" "s < 100" "us < 10 ^ 6"
  shows "parse_clock b (length pre) (length b) = Some \<lparr>clock_fields = [int h, int m, int s, int us], trailing = False\<rparr>"
proof (cases "s = 0 \<and> us = 0")
  case True
  then have "written b (length pre) (minutes_text h m)" using written_prefix [of pre _ "[]"] assms(1) by simp
  moreover have "length b = length pre + 5" using assms(1) True by (simp add: minutes_text_def)
  ultimately show ?thesis using parse_minutes [of b "length pre" h m] assms True by simp
next
  case False
  then have b: "b = pre @ seconds_text h m s us" using assms(1) by auto
  then have "written b (length pre) (seconds_text h m s us)" using written_prefix [of pre _ "[]"] by simp
  then show ?thesis using parse_seconds [of b "length pre" h m s us "length b"] assms b by (simp add: plain_chars)
qed

lemma time_offset:
  assumes b: "b = pre @ seconds_text h m s us @ sign # rest"
    and rest: "rest = (if s' = 0 \<and> us' = 0 then minutes_text h' m' else seconds_text h' m' s' us')"
    and sign: "sign = CHR ''+'' \<or> sign = CHR ''-''"
    and small: "h < 100" "m < 100" "s < 100" "us < 10 ^ 6" "h' < 100" "m' < 100" "s' < 100" "us' < 10 ^ 6"
  shows "parse_time b (length pre) (length b) = Some ([int h, int m, int s, int us],
    Some ((if sign = CHR ''-'' then - 1 else 1) * (int h' * 3600 + int m' * 60 + int s'),
          (if sign = CHR ''-'' then - 1 else 1) * int us'))"
proof -
  define z where "z = length pre + length (seconds_text h m s us)"
  have w: "written b (length pre) (seconds_text h m s us)" using written_prefix b by simp
  have atz: "at b z = sign" by (simp add: at_def b z_def nth_append)
  have find: "find (\<lambda>i. at b i = CHR ''Z'' \<or> at b i = CHR ''+'' \<or> at b i = CHR ''-'') [length pre..<length b] = Some z"
  proof (rule find_first)
    show "at b z = CHR ''Z'' \<or> at b z = CHR ''+'' \<or> at b z = CHR ''-''" using sign by (auto simp: atz)
    fix i
    assume "length pre \<le> i" "i < z"
    then show "\<not> (at b i = CHR ''Z'' \<or> at b i = CHR ''+'' \<or> at b i = CHR ''-'')"
      using written_none [OF w, of sign_char i] seconds_text_chars by (auto simp: sign_char_def z_def)
  qed (simp_all add: b z_def)
  have "\<not> ascii_digit sign" "sign \<noteq> CHR ''Z''" using sign plain_chars by auto
  then have clock: "parse_clock b (length pre) z = Some \<lparr>clock_fields = [int h, int m, int s, int us], trailing = (sign \<noteq> CHR 0x00)\<rparr>"
    using parse_seconds [OF w small(1-4) z_def] by (simp add: atz)
  have "b = (pre @ seconds_text h m s us @ [sign]) @ rest" by (simp add: b)
  from parse_offset [OF this [unfolded rest] small(5-8)]
  have offset: "parse_clock b (Suc z) (length b) = Some \<lparr>clock_fields = [int h', int m', int s', int us'], trailing = False\<rparr>"
    by (simp add: z_def)
  have "z \<noteq> length b" by (simp add: b z_def)
  then show ?thesis using \<open>sign \<noteq> CHR ''Z''\<close> by (simp add: parse_time_def find clock offset atz Let_def)
qed

lemma py_len_plain: "(\<And>c. c \<in> set s \<Longrightarrow> \<not> continuation c) \<Longrightarrow> py_len s = length s"
proof (induction s)
  case (Cons c s)
  then have "takeWhile continuation s = []" "dropWhile continuation s = s"
    by (cases s; simp)+
  then show ?case using Cons by (simp add: py_len_def)
qed (simp add: py_len_def)

definition date_text :: "int \<Rightarrow> int \<Rightarrow> int \<Rightarrow> string" where
  "date_text y m d = fixed 4 (nat y) @ ''-'' @ fixed 2 (nat m) @ ''-'' @ fixed 2 (nat d) @ ''T''"

lemma length_date_text [simp]: "length (date_text y m d) = 11"
  by (simp add: date_text_def)

lemma date_text_chars: "c \<in> set (date_text y m d) \<Longrightarrow> \<not> continuation c"
  using digit_no_sign fixed_digits plain_chars by (auto simp: date_text_def)

lemma offset_text_chars: "c \<in> set (offset_text offset) \<Longrightarrow> \<not> continuation c"
proof (cases offset)
  case (Some us)
  assume "c \<in> set (offset_text offset)"
  then have "c = CHR ''+'' \<or> c = CHR ''-'' \<or> (\<exists>h m. c \<in> set (minutes_text h m)) \<or> (\<exists>h m s us. c \<in> set (seconds_text h m s us))"
    using Some by (auto simp: offset_text_def Let_def split: if_splits)
  moreover have "c \<in> set (seconds_text h m 0 0)" if "c \<in> set (minutes_text h m)" for h m
    using that by (simp add: seconds_text_def)
  ultimately show ?thesis using seconds_text_chars plain_chars by blast
qed (simp add: offset_text_def)

lemma parse_date_text:
  assumes b: "b = date_text y m d @ rest" and y: "0 \<le> y" "y \<le> 9999" and m: "0 \<le> m" "m < 100" and d: "0 \<le> d" "d < 100"
    and long: "length rest \<noteq> 0"
  shows "separator b (length b) = Some 10" "parse_date b 10 = Some (y, m, d)" "at b 10 = CHR ''T''"
proof -
  have "written b 0 (date_text y m d)" using written_prefix [of "[]" "date_text y m d" rest] b by simp
  then have w: "written b 0 (fixed 4 (nat y))" "at b 4 = CHR ''-''" "written b 5 (fixed 2 (nat m))" "at b 7 = CHR ''-''"
      "written b 8 (fixed 2 (nat d))" and t: "at b 10 = CHR ''T''"
    by (simp_all add: date_text_def written_append del: fixed.simps)
  have n: "nat y < 10 ^ 4" "nat m < 10 ^ 2" "nat d < 10 ^ 2" using y m d by simp_all
  have digits: "digits b 0 4 0 = Some (4, y)" "digits b 5 2 0 = Some (7, m)" "digits b 8 2 0 = Some (10, d)"
    using digits_fixed [OF w(1) n(1)] digits_fixed [OF w(3) n(2)] digits_fixed [OF w(5) n(3)] y m d by simp_all
  have "ascii_digit (at b 5)" using digits(2) by (auto simp: numeral_2_eq_2 digits.simps split: if_splits)
  then have five: "at b 5 \<noteq> CHR ''W''" by (auto simp: ascii_digit_def less_eq_char_def)
  have "length b \<noteq> 7" by (simp add: b)
  then show "separator b (length b) = Some 10" using w(2) five by (simp add: separator_def)
  show "parse_date b 10 = Some (y, m, d)"
    using w(2,4) five by (simp add: parse_date_def digits Let_def)
  show "at b 10 = CHR ''T''" by (rule t)
qed

definition kept_offset :: "int option \<Rightarrow> int option" where
  "kept_offset = map_option (\<lambda>us. if \<bar>us\<bar> < 1000000 then 0 else us)"

lemma clock_seconds: "(seconds div 3600) * 3600 + (seconds div 60 mod 60) * 60 + seconds mod 60 = (seconds :: nat)"
proof -
  have "seconds div 3600 = seconds div 60 div 60" by (simp add: div_mult2_eq [symmetric])
  then show ?thesis using div_mult_mod_eq [of "seconds div 60" 60] div_mult_mod_eq [of seconds 60] by linarith
qed

lemma time_isoformat:
  assumes b: "b = pre @ seconds_text h m s us @ offset_text offset" and small: "h < 100" "m < 100" "s < 100" "us < 10 ^ 6"
    and offset: "case offset of None \<Rightarrow> True | Some offset \<Rightarrow> \<bar>offset\<bar> < 86400000000"
  shows "\<exists>zone. parse_time b (length pre) (length b) = Some ([int h, int m, int s, int us], zone) \<and>
    map_option (\<lambda>(seconds, microseconds). if seconds = 0 then 0 else seconds * 1000000 + microseconds) zone = kept_offset offset"
proof (cases offset)
  case None
  then show ?thesis using time_plain [OF _ small] b by (simp add: offset_text_def kept_offset_def)
next
  case (Some o')
  define total where "total = nat \<bar>o'\<bar>"
  define seconds where "seconds = total div 1000000"
  define sign where "sign = (if o' < 0 then CHR ''-'' else CHR ''+'')"
  have "total < 86400000000" using offset Some by (simp add: total_def)
  then have seconds: "seconds < 86400" by (simp add: seconds_def less_mult_imp_div_less)
  have parts: "seconds div 3600 < 100" "seconds div 60 mod 60 < 100" "seconds mod 60 < 100" "total mod 1000000 < 10 ^ 6"
    using seconds by (simp_all add: less_mult_imp_div_less less_trans [OF mod_less_divisor])
  have "b = pre @ seconds_text h m s us @ sign # (if seconds mod 60 = 0 \<and> total mod 1000000 = 0
      then minutes_text (seconds div 3600) (seconds div 60 mod 60)
      else seconds_text (seconds div 3600) (seconds div 60 mod 60) (seconds mod 60) (total mod 1000000))"
    by (simp add: b Some offset_text_def Let_def sign_def seconds_def total_def)
  from time_offset [OF this refl _ small parts]
  have "parse_time b (length pre) (length b) = Some ([int h, int m, int s, int us],
      Some ((if sign = CHR ''-'' then - 1 else 1) *
              (int (seconds div 3600) * 3600 + int (seconds div 60 mod 60) * 60 + int (seconds mod 60)),
            (if sign = CHR ''-'' then - 1 else 1) * int (total mod 1000000)))"
    by (simp only: sign_def) auto
  moreover have "int (seconds div 3600) * 3600 + int (seconds div 60 mod 60) * 60 + int (seconds mod 60) = int seconds"
    using arg_cong [OF clock_seconds [of seconds], of int] by (simp only: of_nat_add of_nat_mult of_nat_numeral)
  moreover have "int seconds * 1000000 + int (total mod 1000000) = \<bar>o'\<bar>"
  proof -
    have "int (seconds * 1000000 + total mod 1000000) = int total" by (simp only: seconds_def div_mult_mod_eq)
    then show ?thesis by (simp add: total_def)
  qed
  moreover have "seconds = 0 \<longleftrightarrow> \<bar>o'\<bar> < 1000000"
    by (simp add: seconds_def div_eq_0_iff total_def) linarith
  moreover have "(sign = CHR ''-'') = (o' < 0)" by (simp add: sign_def)
  ultimately show ?thesis by (auto simp: kept_offset_def Some)
qed

text \<open>
  C18 Parsing undoes \<open>isoformat\<close>: every valid datetime is read back from its text, field by field, with or without
  microseconds and a UTC offset.  Only an offset of less than one second is read as zero, as in the C parser.
\<close>

theorem iso_round_trip:
  assumes "valid_datetime d"
  shows "fromisoformat (isoformat d) = Inr (d\<lparr>dt_offset := kept_offset (dt_offset d)\<rparr>)"
proof -
  define b where "b = isoformat d"
  define rest where "rest = seconds_text (nat (dt_hour d)) (nat (dt_minute d)) (nat (dt_second d)) (nat (dt_microsecond d)) @
    offset_text (dt_offset d)"
  have b: "b = date_text (dt_year d) (dt_month d) (dt_day d) @ rest" by (simp add: b_def isoformat_def date_text_def rest_def)
  have day: "dt_day d \<le> 31" using assms by (auto simp: valid_datetime_def valid_date_def days_in_month_def split: if_splits)
  have "\<not> continuation c" if "c \<in> set b" for c
    using that date_text_chars seconds_text_chars offset_text_chars by (auto simp: b rest_def)
  then have len: "py_len b = length b" by (rule py_len_plain)
  have "8 \<le> length rest" using seconds_text_length by (simp add: rest_def trans_le_add1)
  then have long: "18 < length b" "length rest \<noteq> 0" by (auto simp: b)
  have date: "separator b (length b) = Some 10" "parse_date b 10 = Some (dt_year d, dt_month d, dt_day d)" "at b 10 = CHR ''T''"
    by (rule parse_date_text [OF b _ _ _ _ _ _ long(2)], use assms day in \<open>simp_all add: valid_datetime_def valid_date_def\<close>)+
  have fields: "0 \<le> dt_hour d" "0 \<le> dt_minute d" "0 \<le> dt_second d" "0 \<le> dt_microsecond d"
    and small_fields: "nat (dt_hour d) < 100" "nat (dt_minute d) < 100" "nat (dt_second d) < 100" "nat (dt_microsecond d) < 10 ^ 6"
    and range: "case dt_offset d of None \<Rightarrow> True | Some offset \<Rightarrow> \<bar>offset\<bar> < 86400000000"
    using assms by (auto simp: valid_datetime_def)
  obtain zone where zone: "parse_time b 11 (length b) = Some ([dt_hour d, dt_minute d, dt_second d, dt_microsecond d], zone)"
      "map_option (\<lambda>(seconds, microseconds). if seconds = 0 then 0 else seconds * 1000000 + microseconds) zone = kept_offset (dt_offset d)"
    using time_isoformat [OF b [unfolded rest_def] small_fields range] fields by auto
  have width: "char_width (CHR ''T'') = 1" by code_simp
  have parts: "iso_parts b = Some ((dt_year d, dt_month d, dt_day d), [dt_hour d, dt_minute d, dt_second d, dt_microsecond d], zone)"
    using long(1) zone(1) by (simp add: iso_parts_def len date width)
  have small: "\<not> (case kept_offset (dt_offset d) of Some offset \<Rightarrow> offset \<le> - DAY_MICROSECONDS \<or> offset \<ge> DAY_MICROSECONDS | None \<Rightarrow> False)"
    using assms by (auto simp: valid_datetime_def kept_offset_def DAY_MICROSECONDS_def split: option.splits)
  have hour: "dt_hour d \<noteq> 24" using assms by (simp add: valid_datetime_def)
  show ?thesis
    using assms small hour
    by (simp add: fromisoformat_def b_def [symmetric] parts zone(2) Let_def next_midnight_def valid_datetime_def valid_date_def
        MIN_YEAR_def MAX_YEAR_def del: case_map_option)
qed

definition sample_datetime :: date_time where
  "sample_datetime = \<lparr>dt_year = 2024, dt_month = 2, dt_day = 29, dt_hour = 23, dt_minute = 5, dt_second = 0,
     dt_microsecond = 120, dt_offset = Some (- 12600000000)\<rparr>"

theorem iso_round_trip_witness:
  "fromisoformat (isoformat sample_datetime) = Inr sample_datetime"
proof -
  have "valid_datetime sample_datetime" by code_simp
  from iso_round_trip [OF this] show ?thesis
    by (simp add: sample_datetime_def kept_offset_def)
qed

section \<open>Midnight\<close>

text \<open>
  Hour 24 with nothing after it, on a valid day, is hour 0 of the day whose ordinal is the next; on any other valid
  time the fields stay as they are.
\<close>

theorem midnight_next_day:
  assumes "valid_date y m d" "dt = [h, minute, second, us]"
  shows "next_midnight y m d dt =
    (if h \<noteq> 24 then Inr (y, m, d, h)
     else if minute = 0 \<and> second = 0 \<and> us = 0
     then (case ord_to_ymd (ymd_to_ord y m d + 1) of (y, m, d) \<Rightarrow> Inr (y, m, d, 0))
     else Inl Invalid_Isoformat)"
proof -
  obtain z n e where next_day: "ord_to_ymd (ymd_to_ord y m d + 1) = (z, n, e)" by (metis prod_cases3)
  have first: "1 \<le> ymd_to_ord y m d + 1"
    using month_bounds [OF assms(1)] days_before_year_mono [of 1 y] assms(1) days_before_year_div [of 1]
    by (simp add: ymd_to_ord_def valid_date_def)
  note sound = ord_to_ymd_sound [OF first next_day]
  have read: "(z, n, e) = (y', m', d')" if "valid_date y' m' d'" "ymd_to_ord y' m' d' = ymd_to_ord y m d + 1" for y' m' d'
    using ymd_to_ord_inj [OF conjunct1 [OF sound] that(1)] sound that(2) by simp
  have date: "1 \<le> y" "1 \<le> m" "m \<le> 12" "1 \<le> d" "d \<le> days_in_month y m" using assms(1) by (simp_all add: valid_date_def)
  consider "d < days_in_month y m" | "d = days_in_month y m" "m < 12" | "d = days_in_month y m" "m = 12"
    using date by linarith
  then show ?thesis
  proof cases
    case 1
    then have "(z, n, e) = (y, m, d + 1)" using date by (intro read) (simp_all add: valid_date_def ymd_to_ord_def)
    then show ?thesis unfolding next_midnight_def assms(2) Let_def next_day using date 1 by simp
  next
    case 2
    then have "(z, n, e) = (y, m + 1, 1)"
      using date days_before_month_Suc [of m y] days_in_month_positive [of y "m + 1"]
      by (intro read) (simp_all add: valid_date_def ymd_to_ord_def)
    then show ?thesis unfolding next_midnight_def assms(2) Let_def next_day using date 2 by simp
  next
    case 3
    then have "(z, n, e) = (y + 1, 1, 1)"
      using date days_before_year_Suc [of y] days_before_month_Suc [of 12 y] days_before_month_all [of y] days_in_month_positive [of "y + 1" 1]
      by (intro read) (simp_all add: valid_date_def ymd_to_ord_def)
    then show ?thesis unfolding next_midnight_def assms(2) Let_def next_day using date 3 by simp
  qed
qed

theorem midnight_next_day_witness: "next_midnight 2023 12 31 [24, 0, 0, 0] = Inr (2024, 1, 1, 0)"
proof -
  have "valid_date 2023 12 31" "ord_to_ymd (ymd_to_ord 2023 12 31 + 1) = (2024, 1, 1)" by code_simp+
  then show ?thesis using midnight_next_day [of 2023 12 31] by simp
qed

text \<open>The day check of hour 24 reads a month below 1 as one of 31 days, so the last day of month 0 passes as midnight of January 1.\<close>

lemma midnight_of_month_zero:
  "map_sum id (\<lambda>d. (dt_year d, dt_month d, dt_day d, dt_hour d)) (fromisoformat ''2024-00-31T24:00'') = Inr (2024, 1, 1, 0)"
  by code_simp

end
