(* ===== verification/Context.thy ===== *)
theory Context
  imports History
begin

text \<open>
  A chat turn's pinned context (\<open>runtime/src/turn/context.rs\<close>) and what its run journals: the input, each Team request and
  each answer (\<open>runtime/src/turn/run.rs\<close>).  A journal value wraps the Brain's own JSON as compact text under one key;
  \<open>parse\<close> is the strict reader that opens it.
\<close>

section \<open>The context\<close>

datatype provider_id = Open_Ai | Anthropic

fun provider_text :: "provider_id \<Rightarrow> string" where
  "provider_text Open_Ai = ''openai''"
| "provider_text Anthropic = ''anthropic''"

definition provider_parse :: "string \<Rightarrow> provider_id option" where
  "provider_parse ident =
     (if ident = ''openai'' then Some Open_Ai else if ident = ''anthropic'' then Some Anthropic else None)"

record action_definition =
  action_id :: string
  summary :: string
  input_schema :: json
  output_schema :: json
  authorization :: bool
  input_files :: "string list"

record assistant_definition =
  assistant_id :: string
  genesis :: string
  actions :: "action_definition list"

record memory =
  topic :: string
  preference :: string

record attachment_pins =
  kinds :: "string list"
  commitment :: string
  attachment_charge :: nat

definition reads_content :: "attachment_pins \<Rightarrow> bool" where
  "reads_content pins = list_ex (\<lambda>kind. kind = ''text'' \<or> kind = ''image'') (kinds pins)"

definition any_attachment :: "attachment_pins \<Rightarrow> bool" where
  "any_attachment pins \<longleftrightarrow> kinds pins \<noteq> []"

record turn_context =
  thread_id :: string
  team_name :: string
  assistants :: "assistant_definition list"
  ctx_provider :: provider_id
  ctx_model :: string
  turn_date :: string
  timezone :: string
  memories :: "memory list option"
  routines :: "json list option"
  routine_question :: "json option"
  routine_mode :: bool
  routine_rerun :: "json list option"
  routine_schedule :: "json option"
  routine_output :: "string option"
  routine_settings_answer :: bool
  routine_selected :: "json option"
  locale_id :: "string option"
  turn_message_id :: "string option"
  attachments :: attachment_pins
  ctx_browser :: bool

section \<open>The context to JSON\<close>

definition optional :: "json option \<Rightarrow> json" where
  "optional v = the_or Null v"

definition optional_list :: "json list option \<Rightarrow> json" where
  "optional_list vs = (case vs of None \<Rightarrow> Null | Some vs \<Rightarrow> Array vs)"

definition optional_text :: "string option \<Rightarrow> json" where
  "optional_text s = (case s of None \<Rightarrow> Null | Some s \<Rightarrow> String s)"

definition action_value :: "action_definition \<Rightarrow> json" where
  "action_value action =
     object
       [(''id'', String (action_id action)),
        (''summary'', String (summary action)),
        (''input_schema'', input_schema action),
        (''output_schema'', output_schema action),
        (''authorization'', Bool (authorization action)),
        (''input_files'', Array (map String (input_files action)))]"

definition assistant_def_value :: "assistant_definition \<Rightarrow> json" where
  "assistant_def_value a =
     object
       [(''id'', String (assistant_id a)),
        (''genesis'', String (genesis a)),
        (''actions'', Array (map action_value (actions a)))]"

definition memory_value :: "memory \<Rightarrow> json" where
  "memory_value memory = object [(''topic'', String (topic memory)), (''preference'', String (preference memory))]"

definition memories_value :: "memory list option \<Rightarrow> json" where
  "memories_value ms = (case ms of None \<Rightarrow> Null | Some ms \<Rightarrow> Array (map memory_value ms))"

definition context_value :: "turn_context \<Rightarrow> json" where
  "context_value ctx =
     object
       [(''thread_id'', String (thread_id ctx)),
        (''team_name'', String (team_name ctx)),
        (''assistants'', Array (map assistant_def_value (assistants ctx))),
        (''provider'', String (provider_text (ctx_provider ctx))),
        (''model'', String (ctx_model ctx)),
        (''turn_date'', String (turn_date ctx)),
        (''timezone'', String (timezone ctx)),
        (''memories'', memories_value (memories ctx)),
        (''routines'', optional_list (routines ctx)),
        (''routine_question'', optional (routine_question ctx)),
        (''routine_mode'', Bool (routine_mode ctx)),
        (''routine_rerun'', optional_list (routine_rerun ctx)),
        (''routine_schedule'', optional (routine_schedule ctx)),
        (''routine_output'', optional_text (routine_output ctx)),
        (''routine_settings_answer'', Bool (routine_settings_answer ctx)),
        (''routine_selected'', optional (routine_selected ctx)),
        (''locale'', optional_text (locale_id ctx)),
        (''turn_message_id'', optional_text (turn_message_id ctx)),
        (''attachment_kinds'', Array (map String (kinds (attachments ctx)))),
        (''attachment_commitment'', String (commitment (attachments ctx))),
        (''attachment_charge'', uint_json (attachment_charge (attachments ctx))),
        (''browser'', Bool (ctx_browser ctx))]"

section \<open>The context from JSON\<close>

definition CONTEXT_FIELDS :: "string list" where
  "CONTEXT_FIELDS =
     [''thread_id'', ''team_name'', ''assistants'', ''provider'', ''model'', ''turn_date'', ''timezone'', ''memories'',
      ''routines'', ''routine_question'', ''routine_mode'', ''routine_rerun'', ''routine_schedule'', ''routine_output'',
      ''routine_settings_answer'', ''routine_selected'', ''locale'', ''turn_message_id'', ''attachment_kinds'',
      ''attachment_commitment'', ''attachment_charge'', ''browser'']"

text \<open>A nullable member: \<^const>\<open>None\<close> where the code returns \<open>Err\<close>.\<close>

definition nullable :: "json \<Rightarrow> string \<Rightarrow> (json \<Rightarrow> 'a option) \<Rightarrow> 'a option option" where
  "nullable v k read =
     (case get v k of
        None \<Rightarrow> None
      | Some Null \<Rightarrow> Some None
      | Some other \<Rightarrow> (case read other of None \<Rightarrow> None | Some x \<Rightarrow> Some (Some x)))"

fun json_list :: "json \<Rightarrow> json list option" where
  "json_list (Array items) = Some items"
| "json_list _ = None"

fun json_string :: "json \<Rightarrow> string option" where
  "json_string (String words) = Some words"
| "json_string _ = None"

fun json_strings :: "json \<Rightarrow> string list option" where
  "json_strings (Array items) = opt_all json_string items"
| "json_strings _ = None"

definition action_from :: "json \<Rightarrow> action_definition option" where
  "action_from v =
     (if \<not> has_exactly v [''id'', ''summary'', ''input_schema'', ''output_schema'', ''authorization'', ''input_files''] then None
      else do {
        ident \<leftarrow> str_of v ''id'';
        words \<leftarrow> str_of v ''summary'';
        input \<leftarrow> get v ''input_schema'';
        output \<leftarrow> get v ''output_schema'';
        auth \<leftarrow> bool_of v ''authorization'';
        files \<leftarrow> get v ''input_files'';
        files \<leftarrow> json_strings files;
        Some \<lparr>action_id = ident, summary = words, input_schema = input, output_schema = output, authorization = auth,
          input_files = files\<rparr> })"

definition assistant_def_from :: "json \<Rightarrow> assistant_definition option" where
  "assistant_def_from v =
     (if \<not> has_exactly v [''id'', ''genesis'', ''actions''] then None
      else do {
        ident \<leftarrow> str_of v ''id'';
        words \<leftarrow> str_of v ''genesis'';
        items \<leftarrow> array_of v ''actions'';
        parsed \<leftarrow> opt_all action_from items;
        Some \<lparr>assistant_id = ident, genesis = words, actions = parsed\<rparr> })"

definition memory_from :: "json \<Rightarrow> memory option" where
  "memory_from v =
     (if \<not> has_exactly v [''topic'', ''preference''] then None
      else do {
        subject \<leftarrow> str_of v ''topic'';
        words \<leftarrow> str_of v ''preference'';
        Some \<lparr>topic = subject, preference = words\<rparr> })"

fun memories_from :: "json \<Rightarrow> memory list option" where
  "memories_from (Array items) = opt_all memory_from items"
| "memories_from _ = None"

definition pins_from :: "json \<Rightarrow> attachment_pins option" where
  "pins_from v = do {
     items \<leftarrow> get v ''attachment_kinds'';
     names \<leftarrow> json_strings items;
     digest \<leftarrow> str_of v ''attachment_commitment'';
     charge \<leftarrow> u64_of v ''attachment_charge'';
     Some \<lparr>kinds = names, commitment = digest, attachment_charge = charge\<rparr> }"

definition context_from :: "json \<Rightarrow> turn_context option" where
  "context_from v =
     (if \<not> has_exactly v CONTEXT_FIELDS then None
      else do {
        listed \<leftarrow> nullable v ''routines'' json_list;
        question \<leftarrow> nullable v ''routine_question'' Some;
        mode \<leftarrow> bool_of v ''routine_mode'';
        rerun \<leftarrow> nullable v ''routine_rerun'' json_list;
        schedule \<leftarrow> nullable v ''routine_schedule'' Some;
        output \<leftarrow> nullable v ''routine_output'' json_string;
        settings \<leftarrow> bool_of v ''routine_settings_answer'';
        selected \<leftarrow> nullable v ''routine_selected'' Some;
        language \<leftarrow> nullable v ''locale'' json_string;
        message \<leftarrow> nullable v ''turn_message_id'' json_string;
        thread \<leftarrow> str_of v ''thread_id'';
        team \<leftarrow> str_of v ''team_name'';
        items \<leftarrow> array_of v ''assistants'';
        scope \<leftarrow> opt_all assistant_def_from items;
        named \<leftarrow> str_of v ''provider'';
        provider \<leftarrow> provider_parse named;
        model \<leftarrow> str_of v ''model'';
        date \<leftarrow> str_of v ''turn_date'';
        zone \<leftarrow> str_of v ''timezone'';
        remembered \<leftarrow> nullable v ''memories'' memories_from;
        pins \<leftarrow> pins_from v;
        browser \<leftarrow> bool_of v ''browser'';
        Some \<lparr>thread_id = thread, team_name = team, assistants = scope, ctx_provider = provider, ctx_model = model,
          turn_date = date, timezone = zone, memories = remembered, routines = listed, routine_question = question,
          routine_mode = mode, routine_rerun = rerun, routine_schedule = schedule, routine_output = output,
          routine_settings_answer = settings, routine_selected = selected, locale_id = language,
          turn_message_id = message, attachments = pins, ctx_browser = browser\<rparr> })"

section \<open>The journal\<close>

record tool_spec =
  spec_name :: string
  description :: string
  spec_schema :: json
  strict_flag :: "bool option"

record turn_input =
  input_context :: turn_context
  input_system :: string
  input_tools :: "tool_spec list"
  input_messages :: "message list"
  turn_start :: nat
  memory_tool :: bool
  routine_tool :: bool
  browser_tool :: bool

definition compact_text :: "json \<Rightarrow> string" where
  "compact_text v = dumps COMPACT v"

text \<open>A journal object with one member, and the value its text holds.\<close>

definition wrapped :: "string \<Rightarrow> json \<Rightarrow> json" where
  "wrapped k v = Object [(k, String (compact_text v))]"

definition unwrap_text :: "(string \<Rightarrow> json option) \<Rightarrow> json \<Rightarrow> string \<Rightarrow> json option" where
  "unwrap_text parse v k = (case get v k of Some (String words) \<Rightarrow> parse words | _ \<Rightarrow> None)"

definition tool_value :: "tool_spec \<Rightarrow> json" where
  "tool_value spec =
     object
       [(''name'', String (spec_name spec)),
        (''description'', String (description spec)),
        (''schema'', spec_schema spec),
        (''strict'', case strict_flag spec of None \<Rightarrow> Null | Some flag \<Rightarrow> Bool flag)]"

definition tool_from :: "json \<Rightarrow> tool_spec option" where
  "tool_from v =
     (if \<not> has_exactly v [''name'', ''description'', ''schema'', ''strict''] then None
      else do {
        strict \<leftarrow> get v ''strict'';
        flag \<leftarrow> (case strict of Null \<Rightarrow> Some None | Bool flag \<Rightarrow> Some (Some flag) | _ \<Rightarrow> None);
        name \<leftarrow> str_of v ''name'';
        words \<leftarrow> str_of v ''description'';
        schema \<leftarrow> get v ''schema'';
        Some \<lparr>spec_name = name, description = words, spec_schema = schema, strict_flag = flag\<rparr> })"

definition input_value :: "turn_input \<Rightarrow> json" where
  "input_value input =
     object
       [(''context'', context_value (input_context input)),
        (''system'', String (input_system input)),
        (''tools'', Array (map tool_value (input_tools input))),
        (''messages'', conversation_value (input_messages input)),
        (''turn_start'', uint_json (turn_start input)),
        (''memory_tool'', Bool (memory_tool input)),
        (''routine_tool'', Bool (routine_tool input)),
        (''browser'', Bool (browser_tool input))]"

definition input_to_json :: "turn_input \<Rightarrow> json" where
  "input_to_json input = wrapped ''turn'' (input_value input)"

definition INPUT_FIELDS :: "string list" where
  "INPUT_FIELDS =
     [''context'', ''system'', ''tools'', ''messages'', ''turn_start'', ''memory_tool'', ''routine_tool'', ''browser'']"

definition input_from_json :: "(string \<Rightarrow> json option) \<Rightarrow> json \<Rightarrow> turn_input option" where
  "input_from_json parse journaled = do {
     v \<leftarrow> unwrap_text parse journaled ''turn'';
     if \<not> has_exactly v INPUT_FIELDS then None
     else do {
       ctx \<leftarrow> get v ''context'';
       ctx \<leftarrow> context_from ctx;
       system \<leftarrow> str_of v ''system'';
       items \<leftarrow> array_of v ''tools'';
       tools \<leftarrow> opt_all tool_from items;
       conversation \<leftarrow> get v ''messages'';
       messages \<leftarrow> conversation_from conversation;
       start \<leftarrow> u64_of v ''turn_start'';
       remembers \<leftarrow> bool_of v ''memory_tool'';
       records \<leftarrow> bool_of v ''routine_tool'';
       browses \<leftarrow> bool_of v ''browser'';
       Some \<lparr>input_context = ctx, input_system = system, input_tools = tools, input_messages = messages,
         turn_start = start, memory_tool = remembers, routine_tool = records, browser_tool = browses\<rparr> } }"

datatype team_request =
    Action_Request (interrupt_id: string) (request_assistant: string) (request_action: string) (request_input: json)
  | Browser_Request (interrupt_id: string) (request_objective: string)

fun request_name :: "team_request \<Rightarrow> string" where
  "request_name (Action_Request _ _ _ _) = ''action''"
| "request_name (Browser_Request _ _) = ''browser''"

fun request_value :: "team_request \<Rightarrow> json" where
  "request_value (Action_Request ident who action input) =
     object [(''interrupt_id'', String ident), (''assistant_id'', String who), (''action'', String action), (''input'', input)]"
| "request_value (Browser_Request ident objective) =
     object [(''interrupt_id'', String ident), (''objective'', String objective)]"

definition request_to_json :: "team_request \<Rightarrow> json" where
  "request_to_json request = wrapped ''request'' (request_value request)"

definition request_from_json :: "(string \<Rightarrow> json option) \<Rightarrow> string \<Rightarrow> json \<Rightarrow> team_request option" where
  "request_from_json parse name journaled = do {
     v \<leftarrow> unwrap_text parse journaled ''request'';
     ident \<leftarrow> str_of v ''interrupt_id'';
     if name = ''action'' \<and> has_exactly v [''interrupt_id'', ''assistant_id'', ''action'', ''input''] then do {
       who \<leftarrow> str_of v ''assistant_id'';
       action \<leftarrow> str_of v ''action'';
       input \<leftarrow> get v ''input'';
       Some (Action_Request ident who action input) }
     else if name = ''browser'' \<and> has_exactly v [''interrupt_id'', ''objective''] then do {
       objective \<leftarrow> str_of v ''objective'';
       Some (Browser_Request ident objective) }
     else None }"

definition result_json :: "json \<Rightarrow> json" where
  "result_json result = wrapped ''result'' result"

definition result_from :: "(string \<Rightarrow> json option) \<Rightarrow> json \<Rightarrow> json option" where
  "result_from parse v = unwrap_text parse v ''result''"

definition answer_json :: "string \<Rightarrow> json option \<Rightarrow> json" where
  "answer_json k v = Object [(k, case v of None \<Rightarrow> Null | Some v \<Rightarrow> String (compact_text v))]"

definition answer_from :: "(string \<Rightarrow> json option) \<Rightarrow> json \<Rightarrow> string \<Rightarrow> json option option" where
  "answer_from parse v k =
     (case get v k of
        Some Null \<Rightarrow> Some None
      | Some (String words) \<Rightarrow> map_option Some (parse words)
      | _ \<Rightarrow> None)"

definition outcome_json :: "json \<Rightarrow> json" where
  "outcome_json v = wrapped ''outcome'' v"

definition outcome_from :: "(string \<Rightarrow> json option) \<Rightarrow> json \<Rightarrow> json option" where
  "outcome_from parse v = unwrap_text parse v ''outcome''"

definition call_json :: "json \<Rightarrow> json" where
  "call_json v = wrapped ''call'' v"

definition call_from_json :: "(string \<Rightarrow> json option) \<Rightarrow> json \<Rightarrow> json option" where
  "call_from_json parse v = unwrap_text parse v ''call''"

section \<open>Round trips\<close>

text \<open>What a journaled context holds: no optional member is itself null, and the charge is a 63-bit count.\<close>

definition context_ok :: "turn_context \<Rightarrow> bool" where
  "context_ok ctx \<longleftrightarrow> routine_question ctx \<noteq> Some Null \<and> routine_schedule ctx \<noteq> Some Null \<and>
     routine_selected ctx \<noteq> Some Null \<and> attachment_charge (attachments ctx) < 2 ^ 63"

definition input_ok :: "turn_input \<Rightarrow> bool" where
  "input_ok input \<longleftrightarrow> context_ok (input_context input) \<and> list_all message_ok (input_messages input) \<and> turn_start input < 2 ^ 63"

lemma provider_parse_text [json_read]: "provider_parse (provider_text p) = Some p"
  by (cases p) (simp_all add: provider_parse_def)

lemma json_strings_map [json_read]: "json_strings (Array (map String xs)) = Some xs"
  by (simp add: opt_all_map)

lemma nullable_list [json_read]: "get v k = Some (optional_list vs) \<Longrightarrow> nullable v k json_list = Some vs"
  by (cases vs) (simp_all add: nullable_def optional_list_def)

lemma nullable_text [json_read]: "get v k = Some (optional_text s) \<Longrightarrow> nullable v k json_string = Some s"
  by (cases s) (simp_all add: nullable_def optional_text_def)

lemma nullable_value [json_read]: "get v k = Some (optional c) \<Longrightarrow> c \<noteq> Some Null \<Longrightarrow> nullable v k Some = Some c"
  by (cases c) (simp_all add: nullable_def optional_def split: json.splits)

lemma action_reads_back: "action_from (action_value action) = Some action"
  by (simp add: action_from_def action_value_def json_readers json_strings_map del: json_strings.simps)

lemma assistant_reads_back: "assistant_def_from (assistant_def_value a) = Some a"
  by (simp add: assistant_def_from_def assistant_def_value_def json_readers opt_all_map action_reads_back)

lemma memory_reads_back: "memory_from (memory_value memory) = Some memory"
  by (simp add: memory_from_def memory_value_def json_readers)

lemma memories_reads_back: "get v k = Some (memories_value ms) \<Longrightarrow> nullable v k memories_from = Some ms"
  by (cases ms) (simp_all add: nullable_def memories_value_def opt_all_map memory_reads_back)

lemma tool_reads_back: "tool_from (tool_value spec) = Some spec"
  by (cases "strict_flag spec") (simp_all add: tool_from_def tool_value_def json_readers)

lemma context_get: "get (context_value ctx) k = map_of
       [(''thread_id'', String (thread_id ctx)),
        (''team_name'', String (team_name ctx)),
        (''assistants'', Array (map assistant_def_value (assistants ctx))),
        (''provider'', String (provider_text (ctx_provider ctx))),
        (''model'', String (ctx_model ctx)),
        (''turn_date'', String (turn_date ctx)),
        (''timezone'', String (timezone ctx)),
        (''memories'', memories_value (memories ctx)),
        (''routines'', optional_list (routines ctx)),
        (''routine_question'', optional (routine_question ctx)),
        (''routine_mode'', Bool (routine_mode ctx)),
        (''routine_rerun'', optional_list (routine_rerun ctx)),
        (''routine_schedule'', optional (routine_schedule ctx)),
        (''routine_output'', optional_text (routine_output ctx)),
        (''routine_settings_answer'', Bool (routine_settings_answer ctx)),
        (''routine_selected'', optional (routine_selected ctx)),
        (''locale'', optional_text (locale_id ctx)),
        (''turn_message_id'', optional_text (turn_message_id ctx)),
        (''attachment_kinds'', Array (map String (kinds (attachments ctx)))),
        (''attachment_commitment'', String (commitment (attachments ctx))),
        (''attachment_charge'', uint_json (attachment_charge (attachments ctx))),
        (''browser'', Bool (ctx_browser ctx))] k"
  by (simp only: context_value_def object_def get.simps)

lemma context_reads_back:
  assumes "context_ok ctx"
  shows "context_from (context_value ctx) = Some ctx"
proof -
  let ?v = "context_value ctx"
  have exact: "has_exactly ?v CONTEXT_FIELDS"
    by (simp add: has_exactly_def context_value_def CONTEXT_FIELDS_def object_def)
  have plain: "str_of ?v ''thread_id'' = Some (thread_id ctx)" "str_of ?v ''team_name'' = Some (team_name ctx)"
      "array_of ?v ''assistants'' = Some (map assistant_def_value (assistants ctx))"
      "str_of ?v ''provider'' = Some (provider_text (ctx_provider ctx))" "str_of ?v ''model'' = Some (ctx_model ctx)"
      "str_of ?v ''turn_date'' = Some (turn_date ctx)" "str_of ?v ''timezone'' = Some (timezone ctx)"
      "bool_of ?v ''routine_mode'' = Some (routine_mode ctx)" "bool_of ?v ''routine_settings_answer'' = Some (routine_settings_answer ctx)"
      "bool_of ?v ''browser'' = Some (ctx_browser ctx)"
    by (simp_all add: read_some context_get)
  have nulls: "nullable ?v ''memories'' memories_from = Some (memories ctx)"
      "nullable ?v ''routines'' json_list = Some (routines ctx)"
      "nullable ?v ''routine_question'' Some = Some (routine_question ctx)"
      "nullable ?v ''routine_rerun'' json_list = Some (routine_rerun ctx)"
      "nullable ?v ''routine_schedule'' Some = Some (routine_schedule ctx)"
      "nullable ?v ''routine_output'' json_string = Some (routine_output ctx)"
      "nullable ?v ''routine_selected'' Some = Some (routine_selected ctx)"
      "nullable ?v ''locale'' json_string = Some (locale_id ctx)"
      "nullable ?v ''turn_message_id'' json_string = Some (turn_message_id ctx)"
    using assms by (simp_all add: memories_reads_back nullable_list nullable_text nullable_value context_get context_ok_def)
  have pins: "pins_from ?v = Some (attachments ctx)"
    using assms by (simp add: pins_from_def str_of_Some [THEN iffD2] u64_of_uint_json context_get context_ok_def json_strings_map
        del: json_strings.simps)
  have scope: "opt_all assistant_def_from (map assistant_def_value (assistants ctx)) = Some (assistants ctx)"
    by (rule opt_all_map) (rule assistant_reads_back)
  show ?thesis by (simp add: context_from_def exact plain nulls pins scope provider_parse_text)
qed

lemma unwrap_wrapped [json_read]: "parse (compact_text v) = Some v \<Longrightarrow> unwrap_text parse (wrapped k v) k = Some v"
  by (simp add: unwrap_text_def wrapped_def)

lemma input_reads_back:
  assumes "input_ok input" "parse (compact_text (input_value input)) = Some (input_value input)"
  shows "input_from_json parse (input_to_json input) = Some input"
proof -
  have parts: "context_from (context_value (input_context input)) = Some (input_context input)"
      "conversation_from (conversation_value (input_messages input)) = Some (input_messages input)"
      "opt_all tool_from (map tool_value (input_tools input)) = Some (input_tools input)"
    using assms(1) by (simp_all add: input_ok_def context_reads_back conversations.reads_back opt_all_map tool_reads_back)
  have "get (input_value input) ''turn_start'' = Some (uint_json (turn_start input))" by (simp add: input_value_def object_def)
  then have start: "u64_of (input_value input) ''turn_start'' = Some (turn_start input)"
    using assms(1) by (simp add: u64_of_uint_json input_ok_def)
  show ?thesis
    unfolding input_from_json_def input_to_json_def unwrap_wrapped [where parse = parse, OF assms(2)]
    using parts start
    by (simp add: str_of_Some [THEN iffD2] bool_of_Some [THEN iffD2] array_of_Some [THEN iffD2])
       (simp add: input_value_def INPUT_FIELDS_def json_readers)
qed

lemma request_reads_back:
  assumes "parse (compact_text (request_value request)) = Some (request_value request)"
  shows "request_from_json parse (request_name request) (request_to_json request) = Some request"
proof -
  show ?thesis
    unfolding request_from_json_def request_to_json_def unwrap_wrapped [where parse = parse, OF assms]
    by (cases request) (simp_all add: json_readers)
qed


text \<open>
  C19 What a run journals reads back: the captured input of a turn, its context, tools and conversation included, and
  every Team request under its own name, wherever the strict reader reads the compact text the encoder wrote.
\<close>

theorem journal_round_trip:
  assumes "input_ok input" "parse (compact_text (input_value input)) = Some (input_value input)"
    and "parse (compact_text (request_value request)) = Some (request_value request)"
  shows "input_from_json parse (input_to_json input) = Some input \<and>
    request_from_json parse (request_name request) (request_to_json request) = Some request"
  using input_reads_back [where parse = parse, OF assms(1,2)] request_reads_back [where parse = parse, OF assms(3)] by (rule conjI)

definition sample_context :: turn_context where
  "sample_context = \<lparr>thread_id = ''t'', team_name = ''Team'',
     assistants = [\<lparr>assistant_id = ''dns'', genesis = ''g'', actions = [\<lparr>action_id = ''list'', summary = ''s'',
       input_schema = Object [], output_schema = Object [], authorization = False, input_files = [''f'']\<rparr>]\<rparr>],
     ctx_provider = Anthropic, ctx_model = ''m'', turn_date = ''2024-02-29'', timezone = ''UTC'',
     memories = Some [\<lparr>topic = ''tone'', preference = ''brief''\<rparr>], routines = None, routine_question = None, routine_mode = False,
     routine_rerun = None, routine_schedule = None, routine_output = None, routine_settings_answer = False,
     routine_selected = None, locale_id = Some ''pt'', turn_message_id = None,
     attachments = \<lparr>kinds = [], commitment = [], attachment_charge = 0\<rparr>, ctx_browser = False\<rparr>"

definition sample_input :: turn_input where
  "sample_input = \<lparr>input_context = sample_context, input_system = ''System'',
     input_tools = [\<lparr>spec_name = ''t'', description = ''d'', spec_schema = Object [], strict_flag = Some False\<rparr>],
     input_messages = [User ''u'' ''Hi''], turn_start = 0, memory_tool = True, routine_tool = False, browser_tool = True\<rparr>"

definition sample_request :: team_request where
  "sample_request = Browser_Request ''i'' ''Find it''"

definition sample_reader :: "string \<Rightarrow> json option" where
  "sample_reader s =
     (if s = compact_text (input_value sample_input) then Some (input_value sample_input)
      else if s = compact_text (request_value sample_request) then Some (request_value sample_request) else None)"

lemma sample_input_ok: "input_ok sample_input"
  by (simp add: input_ok_def context_ok_def sample_input_def sample_context_def message_ok_def)

lemma compact_first: "\<exists>rest. compact_text (Object ((k, v) # ms)) = CHR ''{'' # write_string k False @ rest"
  by (cases ms) (simp_all add: compact_text_def COMPACT_def Let_def)

theorem journal_round_trip_witness:
  "input_from_json sample_reader (input_to_json sample_input) = Some sample_input \<and>
   request_from_json sample_reader ''browser'' (request_to_json sample_request) = Some sample_request"
proof -
  obtain r where r: "compact_text (input_value sample_input) = CHR ''{'' # write_string ''context'' False @ r"
    unfolding input_value_def object_def using compact_first by blast
  obtain q where q: "compact_text (request_value sample_request) = CHR ''{'' # write_string ''interrupt_id'' False @ q"
    unfolding sample_request_def request_value.simps object_def using compact_first by blast
  have heads: "take 2 (write_string ''context'' False) = ''\"c''" "take 2 (write_string ''interrupt_id'' False) = ''\"i''" by code_simp+
  obtain a b where "write_string ''context'' False = ''\"c'' @ a" "write_string ''interrupt_id'' False = ''\"i'' @ b"
    using heads by (metis append_take_drop_id)
  with r q have "compact_text (request_value sample_request) \<noteq> compact_text (input_value sample_input)" by simp
  then show ?thesis
    using journal_round_trip [OF sample_input_ok, of sample_reader sample_request] by (simp add: sample_reader_def sample_request_def)
qed

end
