(* ===== verification/Texts.thy ===== *)
theory Texts
  imports PyText PyValue Encode Websocket
begin

text \<open>
  Text admission over the Unicode tables (\<open>python/text.rs\<close>, \<open>runtime/src/text.rs\<close>) and the one-line, identifier, schedule
  and framing validators built on it (\<open>routine/mod.rs\<close>, \<open>identifiers.rs\<close>, \<open>purpose.rs\<close>, \<open>content.rs\<close>, \<open>preview.rs\<close> of
  \<open>protocol/team/http/src\<close>).  The tables are generated and the normalisation is a third-party crate: they are the record
  \<open>unicode\<close>; \<open>full\<close> is the regular expression engine, whether a declared pattern matches a whole text.
\<close>

record unicode =
  nfc :: "string \<Rightarrow> string"
  category :: "string \<Rightarrow> string"
  casefold :: "string \<Rightarrow> string"

type_synonym matcher = "string \<Rightarrow> string \<Rightarrow> bool"

section \<open>Characters and texts\<close>

definition is_nfc :: "unicode \<Rightarrow> string \<Rightarrow> bool" where
  "is_nfc u s \<longleftrightarrow> nfc u s = s"

definition isprintable_char :: "unicode \<Rightarrow> string \<Rightarrow> bool" where
  "isprintable_char u ch \<longleftrightarrow> ch = '' '' \<or> category u ch ! 0 \<notin> {CHR ''C'', CHR ''Z''}"

definition isprintable :: "unicode \<Rightarrow> string \<Rightarrow> bool" where
  "isprintable u s \<longleftrightarrow> list_all (isprintable_char u) (chars s)"

definition is_word :: "unicode \<Rightarrow> string \<Rightarrow> bool" where
  "is_word u ch \<longleftrightarrow> ch = ''_'' \<or> category u ch ! 0 \<in> {CHR ''L'', CHR ''N''}"

definition LAYOUT :: "string list" where
  "LAYOUT = [[CHR 0x0A], [CHR 0x0D], [CHR 0x09]]"

definition admitted_text :: "unicode \<Rightarrow> string \<Rightarrow> nat \<Rightarrow> bool \<Rightarrow> bool \<Rightarrow> bool" where
  "admitted_text u s maximum blank layout =
     (let len = length (chars s)
      in if \<not> is_nfc u s \<or> strip s \<noteq> s \<or> len < of_bool (\<not> blank) \<or> len > maximum then False
         else if isprintable u s then True
         else let without_layout = concat (filter (\<lambda>ch. ch \<notin> set LAYOUT) (chars s))
              in if layout \<and> isprintable u without_layout then True
                 else \<not> list_ex (\<lambda>ch. starts_with ''C'' (category u ch) \<and>
                        (\<not> layout \<or> category u ch \<noteq> ''Cf'' \<and> ch \<notin> set LAYOUT)) (chars s))"

definition printable_with_layout :: "unicode \<Rightarrow> string \<Rightarrow> bool" where
  "printable_with_layout u s =
     isprintable u (concat (filter (\<lambda>ch. ch \<noteq> [CHR 0x0A] \<and> ch \<noteq> [CHR 0x09]) (chars s)))"

definition hex_digit :: "nat \<Rightarrow> char" where
  "hex_digit d = ''0123456789abcdef'' ! d"

definition hex :: "nat list \<Rightarrow> string" where
  "hex bs = concat (map (\<lambda>b. [hex_digit (b div 16), hex_digit (b mod 16)]) bs)"

text \<open>Other, line separator and paragraph separator characters never stand in a one-line text.\<close>

definition unprinted :: "unicode \<Rightarrow> string \<Rightarrow> bool" where
  "unprinted u ch \<longleftrightarrow> (let c = category u ch in starts_with ''C'' c \<or> c = ''Zl'' \<or> c = ''Zp'')"

section \<open>Routine names, descriptions and schedules\<close>

definition MAX_ROUTINE_NAME_CHARS :: nat where "MAX_ROUTINE_NAME_CHARS = 80"
definition MAX_ROUTINE_DESCRIPTION_CHARS :: nat where "MAX_ROUTINE_DESCRIPTION_CHARS = 600"
definition MIN_CONTINUOUS_GAP_SECONDS :: int where "MIN_CONTINUOUS_GAP_SECONDS = 5"
definition MAX_CONTINUOUS_GAP_SECONDS :: int where "MAX_CONTINUOUS_GAP_SECONDS = 366 * 86400"
definition DAY_SECONDS :: int where "DAY_SECONDS = 86400"
definition SCHEDULE_KINDS :: "string list" where
  "SCHEDULE_KINDS = [''continuous'', ''daily'', ''monthly'', ''weekly'']"
definition TIME_PATTERN :: string where
  "TIME_PATTERN = ''(?:[01][0-9]|2[0-3]):[0-5][0-9]'' @ [escape_char] @ ''Z''"

definition field_of :: "json \<Rightarrow> string \<Rightarrow> json" where
  "field_of v k = the_or Null (get v k)"

definition routine_line :: "unicode \<Rightarrow> json \<Rightarrow> nat \<Rightarrow> string option" where
  "routine_line u v maximum =
     (case py_string v of
        None \<Rightarrow> None
      | Some line \<Rightarrow>
          if 1 \<le> py_len line \<and> py_len line \<le> maximum \<and> is_nfc u line \<and> strip line = line \<and> \<not> list_ex (unprinted u) (chars line)
          then Some line else None)"

definition canonical_name :: "unicode \<Rightarrow> json \<Rightarrow> string option" where
  "canonical_name u v = routine_line u v MAX_ROUTINE_NAME_CHARS"

definition canonical_description :: "unicode \<Rightarrow> json \<Rightarrow> string option" where
  "canonical_description u v = routine_line u v MAX_ROUTINE_DESCRIPTION_CHARS"

definition schedule_fields :: "string \<Rightarrow> string list" where
  "schedule_fields kind =
     (if kind = ''daily'' then [''kind'', ''time'']
      else if kind = ''weekly'' then [''kind'', ''weekday'', ''time'']
      else if kind = ''monthly'' then [''kind'', ''day'', ''time'']
      else [''kind'', ''gap''])"

definition canonical_schedule :: "matcher \<Rightarrow> json \<Rightarrow> json option" where
  "canonical_schedule full v =
     (case Option.bind (get v ''kind'') py_string of
        None \<Rightarrow> None
      | Some kind \<Rightarrow>
          if kind \<notin> set SCHEDULE_KINDS then None
          else case py_exact_object v (schedule_fields kind) of
                 None \<Rightarrow> None
               | Some ms \<Rightarrow>
                   let valid =
                         (if kind = ''continuous''
                          then whole (py_field ms ''gap'') MIN_CONTINUOUS_GAP_SECONDS MAX_CONTINUOUS_GAP_SECONDS
                          else is_full_value full TIME_PATTERN (py_field ms ''time'') \<and>
                            (kind \<noteq> ''weekly'' \<or> whole (py_field ms ''weekday'') 0 6) \<and>
                            (kind \<noteq> ''monthly'' \<or> whole (py_field ms ''day'') 1 28))
                   in if valid then Some v else None)"

text \<open>The gap of a canonical schedule is positive, where \<open>/\<close> on \<open>i64\<close> is \<^const>\<open>divide\<close>.\<close>

definition continuous_cap :: "int \<Rightarrow> int" where
  "continuous_cap gap = (DAY_SECONDS - 1) div gap + 1"

definition daily_cap :: "json \<Rightarrow> int" where
  "daily_cap schedule =
     (case Option.bind (get schedule ''gap'') small_int of
        Some gap \<Rightarrow> if py_string (field_of schedule ''kind'') = Some ''continuous'' then continuous_cap gap else 1
      | None \<Rightarrow> 1)"

section \<open>Identifiers, purposes and framings\<close>

definition TEAM_ID_PATTERN :: string where "TEAM_ID_PATTERN = ''^[a-z0-9_]{1,40}$''"
definition IDENTIFIER_PATTERN :: string where "IDENTIFIER_PATTERN = ''^[a-z][a-z0-9]*(?:-[a-z0-9]+)*$''"
definition ACTION_ID_PATTERN :: string where "ACTION_ID_PATTERN = ''^[a-z][a-z0-9]*(?:[._-][a-z0-9]+)*$''"
definition MAX_ASSISTANT_ID_CHARS :: nat where "MAX_ASSISTANT_ID_CHARS = 40"
definition MAX_IDENTIFIER_CHARS :: nat where "MAX_IDENTIFIER_CHARS = 64"
definition MAX_ACTION_ID_CHARS :: nat where "MAX_ACTION_ID_CHARS = 128"

definition bounded_id :: "matcher \<Rightarrow> json \<Rightarrow> string \<Rightarrow> nat \<Rightarrow> string option" where
  "bounded_id full v pattern maximum =
     (case v of String s \<Rightarrow> if py_len s \<le> maximum \<and> full pattern s then Some s else None | _ \<Rightarrow> None)"

definition canonical_team_id :: "matcher \<Rightarrow> json \<Rightarrow> string option" where
  "canonical_team_id full v = (case v of String s \<Rightarrow> if full TEAM_ID_PATTERN s then Some s else None | _ \<Rightarrow> None)"

definition canonical_assistant_id :: "matcher \<Rightarrow> json \<Rightarrow> string option" where
  "canonical_assistant_id full v = bounded_id full v IDENTIFIER_PATTERN MAX_ASSISTANT_ID_CHARS"

definition canonical_identifier :: "matcher \<Rightarrow> json \<Rightarrow> string option" where
  "canonical_identifier full v = bounded_id full v IDENTIFIER_PATTERN MAX_IDENTIFIER_CHARS"

definition canonical_action_id :: "matcher \<Rightarrow> json \<Rightarrow> string option" where
  "canonical_action_id full v = bounded_id full v ACTION_ID_PATTERN MAX_ACTION_ID_CHARS"

text \<open>\<open>str::contains\<close> of a text.\<close>

fun contains :: "string \<Rightarrow> string \<Rightarrow> bool" where
  "contains needle [] = (needle = [])"
| "contains needle (c # cs) = (starts_with needle (c # cs) \<or> contains needle cs)"

definition MAX_PURPOSE_CHARS :: nat where "MAX_PURPOSE_CHARS = 280"

definition canonical_purpose :: "unicode \<Rightarrow> json \<Rightarrow> string option" where
  "canonical_purpose u v =
     (case v of
        String purpose \<Rightarrow>
          if is_nfc u purpose \<and> strip purpose = purpose \<and> 1 \<le> py_len purpose \<and> py_len purpose \<le> MAX_PURPOSE_CHARS \<and>
            list_all (\<lambda>ch. let c = category u ch
              in \<not> (starts_with ''C'' c \<or> c = ''Zl'' \<or> c = ''Zp'' \<or> c = ''Pd'' \<and> ch \<noteq> ''-'')) (chars purpose) \<and>
            \<not> contains '' -'' purpose \<and> \<not> contains ''- '' purpose \<and> \<not> contains ''://'' purpose \<and>
            \<not> contains ''www.'' (casefold u purpose)
          then Some purpose else None
      | _ \<Rightarrow> None)"

definition SHA256_PATTERN :: string where "SHA256_PATTERN = ''[0-9a-f]{64}''"

text \<open>\<open>largest\<close> is \<open>MAX_FILE_UPLOAD_BYTES\<close>.\<close>

definition canonical_content_framing :: "matcher \<Rightarrow> int \<Rightarrow> json \<Rightarrow> json option" where
  "canonical_content_framing full largest v =
     (case py_exact_object v [''length'', ''sha256''] of
        None \<Rightarrow> None
      | Some ms \<Rightarrow>
          if whole (py_field ms ''length'') 1 largest \<and> is_full_value full SHA256_PATTERN (py_field ms ''sha256'') then Some v
          else None)"

definition MAX_PREVIEW_BYTES :: int where "MAX_PREVIEW_BYTES = 512 * 1024"
definition MEDIA_TYPES :: "string list" where "MEDIA_TYPES = [''image/jpeg'', ''image/png'']"
definition MAX_PDF_PAGES :: int where "MAX_PDF_PAGES = 50"
definition PAGE_PATTERN :: string where "PAGE_PATTERN = ''[1-9][0-9]?''"

definition framed :: "json \<Rightarrow> json \<Rightarrow> bool" where
  "framed media_type len \<longleftrightarrow>
     (case py_string media_type of Some known \<Rightarrow> known \<in> set MEDIA_TYPES | None \<Rightarrow> False) \<and>
     (case small_int len of Some n \<Rightarrow> 1 \<le> n \<and> n \<le> MAX_PREVIEW_BYTES | None \<Rightarrow> False)"

definition canonical_preview_framing :: "json \<Rightarrow> json option" where
  "canonical_preview_framing v =
     (case py_exact_object v [''media_type'', ''length''] of
        None \<Rightarrow> None
      | Some ms \<Rightarrow> if framed (py_field ms ''media_type'') (py_field ms ''length'') then Some v else None)"

definition canonical_preview_page :: "matcher \<Rightarrow> json \<Rightarrow> int option" where
  "canonical_preview_page full v =
     (case py_string v of
        None \<Rightarrow> None
      | Some digits \<Rightarrow>
          if \<not> full PAGE_PATTERN digits then None
          else let page = foldl (\<lambda>page digit. page * 10 + int (digit_val digit)) 0 digits
               in if page \<le> MAX_PDF_PAGES then Some page else None)"

definition canonical_page_framing :: "json \<Rightarrow> json option" where
  "canonical_page_framing v =
     (case py_exact_object v [''media_type'', ''length'', ''page_count''] of
        None \<Rightarrow> None
      | Some ms \<Rightarrow>
          let framing = Object [(''media_type'', py_field ms ''media_type''), (''length'', py_field ms ''length'')]
          in if whole (py_field ms ''page_count'') 1 MAX_PDF_PAGES \<and> canonical_preview_framing framing \<noteq> None
             then Some v else None)"

section \<open>The daily cap\<close>

text \<open>The cap is the ceiling of a day over the gap: that many starts fit one gap apart, and one more would not.\<close>

lemma continuous_cap_ceiling:
  assumes "0 < gap"
  shows "(continuous_cap gap - 1) * gap < DAY_SECONDS \<and> DAY_SECONDS \<le> continuous_cap gap * gap"
proof -
  let ?q = "(DAY_SECONDS - 1) div gap"
  have "?q * gap + (DAY_SECONDS - 1) mod gap = DAY_SECONDS - 1" by (rule div_mult_mod_eq)
  moreover have "0 \<le> (DAY_SECONDS - 1) mod gap" "(DAY_SECONDS - 1) mod gap < gap" using assms by simp_all
  ultimately have "?q * gap < DAY_SECONDS" "DAY_SECONDS \<le> ?q * gap + gap" by linarith+
  then show ?thesis by (simp add: continuous_cap_def distrib_right)
qed

end
