(* ===== verification/Clarify.thy ===== *)
theory Clarify
  imports Texts "HOL-Library.Monad_Syntax"
begin

text \<open>
  The multiple-choice clarification, how its answer is composed and read back, and the Team's learned memory
  (\<open>protocol/team/http/src/payload/clarification.rs\<close>).
\<close>

definition MAX_CLARIFICATION_QUESTION_CHARS :: nat where "MAX_CLARIFICATION_QUESTION_CHARS = 240"
definition MAX_CLARIFICATION_LABEL_CHARS :: nat where "MAX_CLARIFICATION_LABEL_CHARS = 80"
definition MAX_CLARIFICATION_DESCRIPTION_CHARS :: nat where "MAX_CLARIFICATION_DESCRIPTION_CHARS = 160"
definition MIN_CLARIFICATION_OPTIONS :: nat where "MIN_CLARIFICATION_OPTIONS = 2"
definition MAX_CLARIFICATION_OPTIONS :: nat where "MAX_CLARIFICATION_OPTIONS = 5"
definition MAX_MEMORIES :: nat where "MAX_MEMORIES = 32"
definition MAX_MEMORY_CHANGES :: nat where "MAX_MEMORY_CHANGES = MAX_MEMORIES"
definition MAX_MEMORY_PREFERENCE_CHARS :: nat where "MAX_MEMORY_PREFERENCE_CHARS = 280"
definition MEMORY_TOPIC_PATTERN :: string where "MEMORY_TOPIC_PATTERN = ''^[a-z][a-z0-9-]{0,39}$''"

text \<open>The labels are UTF-8 bytes.\<close>

definition utf8 :: "nat list \<Rightarrow> string" where
  "utf8 bs = map char_of bs"

definition CLARIFICATION_LABELS :: "(string \<times> string \<times> string) list" where
  "CLARIFICATION_LABELS =
     [(''ar'', utf8 [0xD8, 0xA7, 0xD9, 0x84, 0xD8, 0xB3, 0xD8, 0xA4, 0xD8, 0xA7, 0xD9, 0x84],
         utf8 [0xD8, 0xA7, 0xD9, 0x84, 0xD8, 0xA5, 0xD8, 0xAC, 0xD8, 0xA7, 0xD8, 0xA8, 0xD8, 0xA9]),
      (''de'', ''Frage'', ''Antwort''),
      (''en'', ''Question'', ''Answer''),
      (''es'', ''Pregunta'', ''Respuesta''),
      (''fr'', ''Question'', ''R'' @ utf8 [0xC3, 0xA9] @ ''ponse''),
      (''ja'', utf8 [0xE8, 0xB3, 0xAA, 0xE5, 0x95, 0x8F], utf8 [0xE5, 0x9B, 0x9E, 0xE7, 0xAD, 0x94]),
      (''pt'', ''Pergunta'', ''Resposta''),
      (''zh'', utf8 [0xE9, 0x97, 0xAE, 0xE9, 0xA2, 0x98], utf8 [0xE5, 0x9B, 0x9E, 0xE7, 0xAD, 0x94])]"

section \<open>Clarifications\<close>

definition clarification_text :: "unicode \<Rightarrow> json \<Rightarrow> nat \<Rightarrow> bool \<Rightarrow> json option" where
  "clarification_text u v maximum blank =
     (case py_string v of
        None \<Rightarrow> None
      | Some line \<Rightarrow>
          if is_nfc u line \<and> strip line = line \<and> py_len line \<le> maximum \<and> (blank \<or> line \<noteq> []) \<and>
            \<not> list_ex (unprinted u) (chars line)
          then Some v else None)"

definition clarification_option :: "unicode \<Rightarrow> json \<Rightarrow> (string \<times> json) option" where
  "clarification_option u v = do {
     ms \<leftarrow> py_exact_object v [''description'', ''label''];
     label \<leftarrow> clarification_text u (py_field ms ''label'') MAX_CLARIFICATION_LABEL_CHARS False;
     detail \<leftarrow> clarification_text u (py_field ms ''description'') MAX_CLARIFICATION_DESCRIPTION_CHARS True;
     words \<leftarrow> py_string label;
     Some (casefold u words, Object [(''label'', label), (''description'', detail)]) }"

definition canonical_clarification :: "unicode \<Rightarrow> json \<Rightarrow> json option" where
  "canonical_clarification u v = do {
     ms \<leftarrow> py_exact_object v [''default_index'', ''options'', ''question''];
     question \<leftarrow> clarification_text u (py_field ms ''question'') MAX_CLARIFICATION_QUESTION_CHARS False;
     raw \<leftarrow> py_array (py_field ms ''options'');
     _ \<leftarrow> if MIN_CLARIFICATION_OPTIONS \<le> length raw \<and> length raw \<le> MAX_CLARIFICATION_OPTIONS then Some () else None;
     read \<leftarrow> opt_all (clarification_option u) raw;
     let chosen = py_field ms ''default_index'';
     let chosen_valid = (chosen = Null \<or>
           (case small_int chosen of Some i \<Rightarrow> 0 \<le> i \<and> nat i < length read | None \<Rightarrow> False));
     let folded = remdups_adj (sort (map fst read));
     let options = map snd read;
     if length folded = length options \<and> chosen_valid
     then Some (Object [(''question'', question), (''options'', Array options), (''default_index'', chosen)])
     else None }"

definition compose_clarified :: "string \<Rightarrow> string \<Rightarrow> string \<Rightarrow> string \<Rightarrow> string option" where
  "compose_clarified original question answer language =
     (case find (\<lambda>(code, _, _). code = language) CLARIFICATION_LABELS of
        None \<Rightarrow> None
      | Some (_, question_label, answer_label) \<Rightarrow>
          Some (strip original @ [CHR 0x0A, CHR 0x0A] @ question_label @ '': '' @ question @ [CHR 0x0A] @
            answer_label @ '': '' @ strip answer))"

text \<open>The loop of \<open>authored_segments\<close> over the lines, on the segments so far, the last one first.\<close>

fun segment_loop :: "string list \<Rightarrow> string list list \<Rightarrow> string list list" where
  "segment_loop [] segments = segments"
| "segment_loop (line # rest) segments =
     (let question = list_ex (\<lambda>(_, label, _). case strip_prefix label line of
            Some tail \<Rightarrow> starts_with '': '' tail | None \<Rightarrow> False) CLARIFICATION_LABELS;
          answer = List.map_filter (\<lambda>(_, _, label). Option.bind (strip_prefix label line) (strip_prefix '': '')) CLARIFICATION_LABELS
      in if question then segment_loop rest ([] # segments)
         else case answer of
                words # _ \<Rightarrow> segment_loop rest ([words] # segments)
              | [] \<Rightarrow> segment_loop rest ((hd segments @ [line]) # tl segments))"

definition authored_segments :: "string \<Rightarrow> string list" where
  "authored_segments message =
     filter (\<lambda>s. s \<noteq> [])
       (map (\<lambda>lines. strip (joined [CHR 0x0A] lines)) (rev (segment_loop (split_on (CHR 0x0A) message) [[]])))"

definition render_option :: "int option \<Rightarrow> nat \<times> json \<Rightarrow> string" where
  "render_option chosen = (\<lambda>(i, opt).
     let mark = (if chosen = Some (int i) then '' '' @ utf8 [0xE2, 0x9C, 0x93] else []);
         detail_text = the_or [] (py_string (field_of opt ''description''));
         detail = (if detail_text = [] then [] else '' '' @ utf8 [0xE2, 0x80, 0x94] @ '' '' @ detail_text);
         label = the_or [] (py_string (field_of opt ''label''))
     in dec_of_nat (i + 1) @ ''. '' @ label @ mark @ detail)"

definition render_clarification :: "json \<Rightarrow> string" where
  "render_clarification clarification =
     (let chosen = small_int (field_of clarification ''default_index'');
          options = the_or [] (py_array (field_of clarification ''options''))
      in joined [CHR 0x0A]
           ([the_or [] (py_string (field_of clarification ''question'')), []] @
            map (render_option chosen) (enumerate 0 options)))"

section \<open>Memory\<close>

definition memory_entry :: "unicode \<Rightarrow> matcher \<Rightarrow> json \<Rightarrow> json \<Rightarrow> bool \<Rightarrow> (string \<times> json) list option" where
  "memory_entry u full topic preference blank =
     (if \<not> is_full_value full MEMORY_TOPIC_PATTERN topic then None
      else case clarification_text u preference MAX_MEMORY_PREFERENCE_CHARS blank of
             None \<Rightarrow> None
           | Some preference \<Rightarrow> Some [(''topic'', topic), (''preference'', preference)])"

definition canonical_entry :: "unicode \<Rightarrow> matcher \<Rightarrow> json \<Rightarrow> (json \<times> json) option" where
  "canonical_entry u full entry = do {
     ms \<leftarrow> py_exact_object entry [''preference'', ''topic''];
     ns \<leftarrow> memory_entry u full (py_field ms ''topic'') (py_field ms ''preference'') False;
     Some (py_field ms ''topic'', Object ns) }"

fun distinct_values :: "json list \<Rightarrow> json list \<Rightarrow> bool" where
  "distinct_values earlier [] = True"
| "distinct_values earlier (v # vs) = (v \<notin> set earlier \<and> distinct_values (earlier @ [v]) vs)"

definition canonical_memory :: "unicode \<Rightarrow> matcher \<Rightarrow> json \<Rightarrow> json option" where
  "canonical_memory u full v = do {
     entries \<leftarrow> py_array v;
     _ \<leftarrow> if length entries \<le> MAX_MEMORIES then Some () else None;
     read \<leftarrow> opt_all (canonical_entry u full) entries;
     if distinct_values [] (map fst read) then Some (Array (map snd read)) else None }"

definition canonical_change :: "unicode \<Rightarrow> matcher \<Rightarrow> json \<Rightarrow> json option" where
  "canonical_change u full change = do {
     ms \<leftarrow> py_exact_object change [''op'', ''preference'', ''topic''];
     let op = py_field ms ''op'';
     let preference = py_field ms ''preference'';
     let forget = (py_string op = Some ''forget'');
     let known = (py_string op = Some ''remember'' \<or> py_string op = Some ''forget'');
     if \<not> known \<or> forget \<noteq> (py_string preference = Some []) then None
     else do {
       ns \<leftarrow> memory_entry u full (py_field ms ''topic'') preference forget;
       Some (Object ((''op'', op) # ns)) } }"

definition canonical_memory_changes :: "unicode \<Rightarrow> matcher \<Rightarrow> json \<Rightarrow> json option" where
  "canonical_memory_changes u full v = do {
     changes \<leftarrow> py_array v;
     _ \<leftarrow> if length changes \<le> MAX_MEMORY_CHANGES then Some () else None;
     read \<leftarrow> opt_all (canonical_change u full) changes;
     Some (Array read) }"

fun put_entry :: "(string \<times> json) list \<Rightarrow> string \<Rightarrow> json \<Rightarrow> (string \<times> json) list" where
  "put_entry [] topic preference = [(topic, preference)]"
| "put_entry ((known, old) # entries) topic preference =
     (if known = topic then (known, preference) # entries else (known, old) # put_entry entries topic preference)"

definition enter :: "(string \<times> json) list \<Rightarrow> json \<Rightarrow> (string \<times> json) list" where
  "enter entries entry =
     put_entry entries (the_or [] (py_string (field_of entry ''topic''))) (field_of entry ''preference'')"

definition apply_change :: "(string \<times> json) list \<Rightarrow> json \<Rightarrow> (string \<times> json) list" where
  "apply_change entries change =
     (let topic = the_or [] (py_string (field_of change ''topic''));
          kept = filter (\<lambda>(known, _). known \<noteq> topic) entries
      in if py_string (field_of change ''op'') = Some ''remember'' then kept @ [(topic, field_of change ''preference'')] else kept)"

definition apply_memory_changes :: "json \<Rightarrow> json \<Rightarrow> json" where
  "apply_memory_changes memory changes =
     (let entries = foldl enter [] (the_or [] (py_array memory));
          entries = foldl apply_change entries (the_or [] (py_array changes))
      in Array (map (\<lambda>(topic, preference). Object [(''topic'', String topic), (''preference'', preference)])
           (drop (length entries - MAX_MEMORIES) entries)))"


section \<open>Canonical memory\<close>

text \<open>A canonical memory is the list of its topics and preferences.\<close>

definition memory_json :: "(string \<times> json) list \<Rightarrow> json" where
  "memory_json entries = Array (map (\<lambda>(topic, preference). Object [(''topic'', String topic), (''preference'', preference)]) entries)"

definition entry_ok :: "unicode \<Rightarrow> matcher \<Rightarrow> string \<times> json \<Rightarrow> bool" where
  "entry_ok u full e \<longleftrightarrow> full MEMORY_TOPIC_PATTERN (fst e) \<and> clarification_text u (snd e) MAX_MEMORY_PREFERENCE_CHARS False = Some (snd e)"

definition entries_ok :: "unicode \<Rightarrow> matcher \<Rightarrow> (string \<times> json) list \<Rightarrow> bool" where
  "entries_ok u full entries \<longleftrightarrow> length entries \<le> MAX_MEMORIES \<and> distinct (map fst entries) \<and> list_all (entry_ok u full) entries"

lemma clarification_text_same: "clarification_text u v n blank = Some w \<Longrightarrow> w = v"
  by (auto simp: clarification_text_def split: option.splits if_splits)

lemma distinct_values_iff: "distinct_values earlier vs \<longleftrightarrow> distinct vs \<and> set vs \<inter> set earlier = {}"
  by (induction vs arbitrary: earlier) auto

lemma full_value_string: "is_full_value full pattern v \<longleftrightarrow> (\<exists>s. v = String s \<and> full pattern s)"
  by (auto simp: is_full_value_def split: json.splits)

lemma canonical_entry_Some:
  assumes "canonical_entry u full v = Some (topic, entry)"
  obtains s p where "topic = String s" "entry = Object [(''topic'', String s), (''preference'', p)]" "entry_ok u full (s, p)"
  using assms that
  by (auto simp: canonical_entry_def memory_entry_def bind_eq_Some_conv full_value_string entry_ok_def
      dest: clarification_text_same split: if_splits option.splits)

lemma canonical_entries:
  "opt_all (canonical_entry u full) vs = Some read \<Longrightarrow>
    \<exists>entries. map snd read = map (\<lambda>(topic, preference). Object [(''topic'', String topic), (''preference'', preference)]) entries \<and>
      map fst read = map (String \<circ> fst) entries \<and> list_all (entry_ok u full) entries"
proof (induction vs arbitrary: read)
  case (Cons v vs)
  then obtain t e rest where v: "canonical_entry u full v = Some (t, e)" and rest: "opt_all (canonical_entry u full) vs = Some rest"
      and read: "read = (t, e) # rest"
    by (auto simp: opt_all_Cons split: option.splits)
  obtain s p where "t = String s" "e = Object [(''topic'', String s), (''preference'', p)]" "entry_ok u full (s, p)"
    by (rule canonical_entry_Some [OF v])
  moreover obtain entries where
    "map snd rest = map (\<lambda>(topic, preference). Object [(''topic'', String topic), (''preference'', preference)]) entries"
    "map fst rest = map (String \<circ> fst) entries" "list_all (entry_ok u full) entries"
    using Cons.IH [OF rest] by blast
  ultimately show ?case unfolding read by (intro exI [of _ "(s, p) # entries"]) simp
qed simp

lemma canonical_memory_entries:
  assumes "canonical_memory u full v = Some m"
  obtains entries where "m = memory_json entries" "entries_ok u full entries"
proof -
  obtain vs read where vs: "v = Array vs" "length vs \<le> MAX_MEMORIES" and read: "opt_all (canonical_entry u full) vs = Some read"
      and distinct: "distinct (map fst read)" and m: "m = Array (map snd read)"
    using assms by (auto simp: canonical_memory_def bind_eq_Some_conv py_array_def distinct_values_iff split: json.splits if_splits)
  obtain entries where entries: "map snd read = map (\<lambda>(topic, preference). Object [(''topic'', String topic), (''preference'', preference)]) entries"
      "map fst read = map (String \<circ> fst) entries" "list_all (entry_ok u full) entries"
    using canonical_entries [OF read] by blast
  have "length entries = length vs" using arg_cong [OF entries(2), of length] opt_all_length [OF read] by simp
  moreover have "distinct (map fst entries)" using distinct entries(2) distinct_map [of String "map fst entries"] by simp
  ultimately have "entries_ok u full entries" using vs(2) entries(3) by (simp add: entries_ok_def)
  then show ?thesis using that [of entries] entries(1) m by (simp add: memory_json_def)
qed

lemma canonical_entry_json: "entry_ok u full (s, p) \<Longrightarrow>
    canonical_entry u full (Object [(''topic'', String s), (''preference'', p)])
      = Some (String s, Object [(''topic'', String s), (''preference'', p)])"
  by (simp add: canonical_entry_def py_exact_object_def py_object_def exact_members_def py_field_def memory_entry_def full_value_string
      entry_ok_def)

lemma canonical_memory_json:
  assumes "entries_ok u full entries"
  shows "canonical_memory u full (memory_json entries) = Some (memory_json entries)"
proof -
  have "opt_all (canonical_entry u full) (map (\<lambda>(t, p). Object [(''topic'', String t), (''preference'', p)]) entries)
      = Some (map (\<lambda>(t, p). (String t, Object [(''topic'', String t), (''preference'', p)])) entries)"
    using assms unfolding entries_ok_def
    by (induction entries) (auto simp: opt_all_Cons canonical_entry_json)
  moreover have "map fst (map (\<lambda>(t, p). (String t, Object [(''topic'', String t), (''preference'', p)])) entries) = map String (map fst entries)"
    by (simp add: case_prod_beta comp_def)
  moreover have "map snd (map (\<lambda>(t, p). (String t, Object [(''topic'', String t), (''preference'', p)])) entries)
      = map (\<lambda>(t, p). Object [(''topic'', String t), (''preference'', p)]) entries"
    by (simp add: case_prod_beta comp_def)
  moreover have "distinct_values [] (map String (map fst entries))"
    using assms by (simp only: entries_ok_def distinct_values_iff distinct_map) (simp add: inj_on_def)
  ultimately show ?thesis using assms
    by (simp add: canonical_memory_def memory_json_def py_array_def entries_ok_def del: map_map)
qed

section \<open>Changes\<close>

text \<open>A canonical change remembers an entry or forgets a topic.\<close>

datatype change_of = Remember string json | Forget string

fun change_json :: "change_of \<Rightarrow> json" where
  "change_json (Remember s p) = Object [(''op'', String ''remember''), (''topic'', String s), (''preference'', p)]"
| "change_json (Forget s) = Object [(''op'', String ''forget''), (''topic'', String s), (''preference'', String [])]"

fun change_ok :: "unicode \<Rightarrow> matcher \<Rightarrow> change_of \<Rightarrow> bool" where
  "change_ok u full (Remember s p) = entry_ok u full (s, p)"
| "change_ok u full (Forget s) = full MEMORY_TOPIC_PATTERN s"

fun apply_to :: "(string \<times> json) list \<Rightarrow> change_of \<Rightarrow> (string \<times> json) list" where
  "apply_to es (Remember s p) = filter (\<lambda>(k, _). k \<noteq> s) es @ [(s, p)]"
| "apply_to es (Forget s) = filter (\<lambda>(k, _). k \<noteq> s) es"

fun change_topic :: "change_of \<Rightarrow> string" where
  "change_topic (Remember s p) = s"
| "change_topic (Forget s) = s"

lemma py_string_iff: "py_string v = Some s \<longleftrightarrow> v = String s"
  by (cases v) (simp_all add: py_string_def)

lemma memory_entry_Some: "memory_entry u full topic preference blank = Some ns \<Longrightarrow>
    ns = [(''topic'', topic), (''preference'', preference)] \<and> (\<exists>s. topic = String s \<and> full MEMORY_TOPIC_PATTERN s) \<and>
    clarification_text u preference MAX_MEMORY_PREFERENCE_CHARS blank = Some preference"
  by (auto simp: memory_entry_def full_value_string dest: clarification_text_same split: if_splits option.splits)

lemma canonical_change_Some:
  assumes "canonical_change u full v = Some c"
  obtains change where "c = change_json change" "change_ok u full change"
proof -
  obtain op topic preference ns where
    op: "op = String ''remember'' \<and> preference \<noteq> String [] \<or> op = String ''forget'' \<and> preference = String []"
    and entry: "memory_entry u full topic preference (op = String ''forget'') = Some ns"
    and c: "c = Object ((''op'', op) # ns)"
    using assms by (auto simp: canonical_change_def bind_eq_Some_conv Let_def py_string_iff split: if_splits)
  obtain s where s: "topic = String s" "full MEMORY_TOPIC_PATTERN s" using memory_entry_Some [OF entry] by blast
  have ns: "ns = [(''topic'', String s), (''preference'', preference)]" using memory_entry_Some [OF entry] s by simp
  from op show ?thesis
  proof (elim disjE conjE)
    assume "op = String ''forget''" "preference = String []"
    then show ?thesis using that [of "Forget s"] c ns s by simp
  next
    assume "op = String ''remember''"
    then show ?thesis using that [of "Remember s preference"] memory_entry_Some [OF entry] c ns s by (simp add: entry_ok_def)
  qed
qed

lemma canonical_changes:
  assumes "canonical_memory_changes u full v = Some c"
  obtains changes where "c = Array (map change_json changes)" "list_all (change_ok u full) changes" "length changes \<le> MAX_MEMORY_CHANGES"
proof -
  obtain vs read where vs: "length vs \<le> MAX_MEMORY_CHANGES" and read: "opt_all (canonical_change u full) vs = Some read"
      and c: "c = Array read"
    using assms by (auto simp: canonical_memory_changes_def bind_eq_Some_conv split: if_splits)
  have "\<exists>changes. read = map change_json changes \<and> list_all (change_ok u full) changes"
    using read
  proof (induction vs arbitrary: read)
    case (Cons v vs)
    then obtain r rest where v: "canonical_change u full v = Some r" and rest: "opt_all (canonical_change u full) vs = Some rest"
        and read: "read = r # rest"
      by (auto simp: opt_all_Cons split: option.splits)
    obtain change where "r = change_json change" "change_ok u full change" by (rule canonical_change_Some [OF v])
    moreover obtain changes where "rest = map change_json changes" "list_all (change_ok u full) changes"
      using Cons.IH [OF rest] by blast
    ultimately show ?case unfolding read by (intro exI [of _ "change # changes"]) simp
  qed simp
  then obtain changes where "read = map change_json changes" "list_all (change_ok u full) changes" by blast
  then show ?thesis using that [of changes] c vs opt_all_length [OF read] by simp
qed

section \<open>Applying changes\<close>

lemma put_entry_new: "topic \<notin> fst ` set es \<Longrightarrow> put_entry es topic p = es @ [(topic, p)]"
  by (induction es) auto

lemma enter_entries: "distinct (map fst (es @ fs)) \<Longrightarrow>
    foldl enter es (map (\<lambda>(topic, preference). Object [(''topic'', String topic), (''preference'', preference)]) fs) = es @ fs"
proof (induction fs arbitrary: es)
  case (Cons f fs)
  obtain s p where f: "f = (s, p)" by fastforce
  have "enter es (Object [(''topic'', String s), (''preference'', p)]) = es @ [(s, p)]"
    using Cons.prems f by (simp add: enter_def field_of_def py_string_def) (rule put_entry_new, auto)
  then show ?case using Cons.IH [of "es @ [(s, p)]"] Cons.prems f by simp
qed simp

lemma apply_change_json: "apply_change es (change_json change) = apply_to es change"
  by (cases change) (simp_all add: apply_change_def field_of_def py_string_def Let_def)

lemma foldl_apply_json: "foldl apply_change es (map change_json changes) = foldl apply_to es changes"
  by (induction changes arbitrary: es) (simp_all add: apply_change_json)

lemma apply_memory_json:
  assumes "entries_ok u full entries"
  shows "apply_memory_changes (memory_json entries) (Array (map change_json changes))
    = (let es = foldl apply_to entries changes in memory_json (drop (length es - MAX_MEMORIES) es))"
  using assms enter_entries [of "[]" entries]
  by (simp add: apply_memory_changes_def memory_json_def py_array_def foldl_apply_json entries_ok_def Let_def)

lemma apply_to_distinct: "distinct (map fst es) \<Longrightarrow> distinct (map fst (apply_to es change))"
  by (cases change) (auto simp: distinct_map_filter case_prod_beta)

lemma apply_to_ok: "list_all (entry_ok u full) es \<Longrightarrow> change_ok u full change \<Longrightarrow> list_all (entry_ok u full) (apply_to es change)"
  by (cases change) (auto simp: list_all_iff)

lemma foldl_apply_ok:
  "distinct (map fst es) \<Longrightarrow> list_all (entry_ok u full) es \<Longrightarrow> list_all (change_ok u full) changes \<Longrightarrow>
    distinct (map fst (foldl apply_to es changes)) \<and> list_all (entry_ok u full) (foldl apply_to es changes)"
  by (induction changes arbitrary: es) (auto simp: apply_to_distinct apply_to_ok)

text \<open>
  C20 A canonical memory stays canonical: after canonical changes it is again at most 32 entries with distinct admitted
  topics and admitted, non-empty preferences, and Team's own reader takes it as it is.
\<close>

theorem memory_stays_canonical:
  assumes "canonical_memory u full v = Some memory" "canonical_memory_changes u full w = Some changes"
  shows "canonical_memory u full (apply_memory_changes memory changes) = Some (apply_memory_changes memory changes)"
proof -
  obtain entries where entries: "memory = memory_json entries" "entries_ok u full entries" by (rule canonical_memory_entries [OF assms(1)])
  obtain cs where cs: "changes = Array (map change_json cs)" "list_all (change_ok u full) cs" by (rule canonical_changes [OF assms(2)])
  define es where "es = foldl apply_to entries cs"
  have "distinct (map fst es) \<and> list_all (entry_ok u full) es"
    using foldl_apply_ok [OF _ _ cs(2)] entries(2) by (simp add: es_def entries_ok_def)
  then have "entries_ok u full (drop (length es - MAX_MEMORIES) es)"
    by (auto simp: entries_ok_def drop_map [symmetric] list_all_iff dest: in_set_dropD)
  then show ?thesis
    using canonical_memory_json apply_memory_json [OF entries(2)] by (simp add: entries(1) cs(1) es_def Let_def)
qed

text \<open>What a memory says of each topic, and what one change makes of that: the specification of applying changes.\<close>

definition remembered :: "json \<Rightarrow> string \<Rightarrow> json option" where
  "remembered v = map_of (map (\<lambda>e. (the_or [] (py_string (field_of e ''topic'')), field_of e ''preference'')) (the_or [] (py_array v)))"

definition changed :: "(string \<Rightarrow> json option) \<Rightarrow> json \<Rightarrow> string \<Rightarrow> json option" where
  "changed f change =
     f(the_or [] (py_string (field_of change ''topic'')) :=
         if py_string (field_of change ''op'') = Some ''remember'' then Some (field_of change ''preference'') else None)"

definition changed_topics :: "json \<Rightarrow> string set" where
  "changed_topics v = set (map (\<lambda>change. the_or [] (py_string (field_of change ''topic''))) (the_or [] (py_array v)))"

lemma remembered_json: "remembered (memory_json es) = map_of es"
  by (simp add: remembered_def memory_json_def py_array_def field_of_def py_string_def case_prod_beta comp_def)

lemma map_of_filter_key: "map_of (filter (\<lambda>(k, _). P k) es) k = (if P k then map_of es k else None)"
  by (induction es) auto

lemma map_of_apply_to: "map_of (apply_to es change) = changed (map_of es) (change_json change)"
  by (cases change) (auto simp: changed_def field_of_def py_string_def map_of_filter_key map_add_def fun_eq_iff split: option.splits)

lemma map_of_foldl: "map_of (foldl apply_to es cs) = foldl changed (map_of es) (map change_json cs)"
  by (induction cs arbitrary: es) (simp_all add: map_of_apply_to)

lemma apply_to_append: "apply_to (es @ fs) change = filter (\<lambda>e. fst e \<noteq> change_topic change) es @ apply_to fs change"
  by (cases change) (simp_all add: case_prod_unfold)

lemma foldl_apply_split:
  "foldl apply_to (es @ fs) cs = filter (\<lambda>e. fst e \<notin> change_topic ` set cs) es @ foldl apply_to fs cs"
  by (induction cs arbitrary: es fs) (simp_all add: apply_to_append conj_commute)

lemma length_apply_to: "length (apply_to es change) \<le> Suc (length es)"
  by (cases change) (auto intro: le_SucI)

lemma length_foldl_apply: "length (foldl apply_to es cs) \<le> length es + length cs"
proof (induction cs arbitrary: es)
  case (Cons change cs)
  show ?case using Cons [of "apply_to es change"] length_apply_to [of es change] by simp
qed simp

lemma map_of_drop_le: "distinct (map fst es) \<Longrightarrow> map_of (drop k es) \<subseteq>\<^sub>m map_of es"
proof -
  assume distinct: "distinct (map fst es)"
  have "map_of es t = Some p" if "map_of (drop k es) t = Some p" for t p
    using that distinct by (auto dest!: map_of_SomeD in_set_dropD)
  then show ?thesis by (auto simp: map_le_def)
qed

text \<open>
  C21 Applying changes is applying them one by one to what is remembered of each topic: the result says exactly that of
  every topic a change names, says nothing else that it does not, and only forgets other topics when the memory would pass
  32 entries.
\<close>

theorem memory_changes_refine:
  assumes "canonical_memory u full v = Some memory" "canonical_memory_changes u full w = Some changes"
  shows "let after = remembered (apply_memory_changes memory changes);
             wanted = foldl changed (remembered memory) (the_or [] (py_array changes))
         in (\<forall>t\<in>changed_topics changes. after t = wanted t) \<and> after \<subseteq>\<^sub>m wanted \<and>
            (card (dom wanted) \<le> MAX_MEMORIES \<longrightarrow> after = wanted)"
proof -
  obtain entries where entries: "memory = memory_json entries" "entries_ok u full entries" by (rule canonical_memory_entries [OF assms(1)])
  obtain cs where cs: "changes = Array (map change_json cs)" "list_all (change_ok u full) cs" "length cs \<le> MAX_MEMORY_CHANGES"
    by (rule canonical_changes [OF assms(2)])
  define es where "es = foldl apply_to entries cs"
  define k where "k = length es - MAX_MEMORIES"
  define old where "old = filter (\<lambda>e. fst e \<notin> change_topic ` set cs) entries"
  define new where "new = foldl apply_to [] cs"
  have split: "es = old @ new" using foldl_apply_split [of entries "[]" cs] by (simp add: es_def old_def new_def)
  have distinct: "distinct (map fst es)"
    using foldl_apply_ok [OF _ _ cs(2)] entries(2) by (simp add: es_def entries_ok_def)
  have "length new \<le> MAX_MEMORIES" using length_foldl_apply [of "[]" cs] cs(3) by (simp add: new_def MAX_MEMORY_CHANGES_def)
  then have dropped: "drop k es = drop k old @ new" by (simp add: split k_def)
  have after: "remembered (apply_memory_changes memory changes) = map_of (drop k es)"
    using apply_memory_json [OF entries(2), of cs] by (simp add: entries(1) cs(1) es_def k_def Let_def remembered_json)
  have wanted: "foldl changed (remembered memory) (the_or [] (py_array changes)) = map_of es"
    by (simp add: entries(1) remembered_json cs(1) py_array_def map_of_foldl es_def)
  have topics: "changed_topics changes = change_topic ` set cs"
  proof -
    have "the_or [] (py_string (field_of (change_json change) ''topic'')) = change_topic change" for change
      by (cases change) (simp_all add: field_of_def py_string_def)
    then show ?thesis by (simp add: changed_topics_def cs(1) py_array_def image_image)
  qed
  have "map_of (drop k es) t = map_of es t" if "t \<in> changed_topics changes" for t
  proof -
    have "t \<notin> fst ` set old" using that unfolding topics old_def by auto
    then have "map_of old t = None" "map_of (drop k old) t = None"
      by (auto simp: map_of_eq_None_iff dest: in_set_dropD)
    then show ?thesis unfolding dropped unfolding split by (simp add: map_add_def)
  qed
  moreover have "map_of (drop k es) \<subseteq>\<^sub>m map_of es" by (rule map_of_drop_le [OF distinct])
  moreover have "map_of (drop k es) = map_of es" if "card (dom (map_of es)) \<le> MAX_MEMORIES"
  proof -
    have "card (dom (map_of es)) = length es"
      using distinct distinct_card [of "map fst es"] by (simp add: dom_map_of_conv_image_fst)
    then show ?thesis using that by (simp add: k_def)
  qed
  ultimately show ?thesis by (simp add: after wanted)
qed

section \<open>Witnesses\<close>

definition plain_unicode :: unicode where
  "plain_unicode = \<lparr>nfc = id, category = (\<lambda>_. ''Ll''), casefold = id\<rparr>"

definition sample_memory :: json where
  "sample_memory = memory_json [(''tone'', String ''brief''), (''units'', String ''metric'')]"

definition sample_changes :: json where
  "sample_changes = Array [change_json (Forget ''units''), change_json (Remember ''tone'' (String ''long''))]"

lemma plain_word: "strip ''brief'' = ''brief''" "strip ''metric'' = ''metric''" "strip ''long'' = ''long''"
    "chars ''brief'' = [''b'', ''r'', ''i'', ''e'', ''f'']" "chars ''metric'' = [''m'', ''e'', ''t'', ''r'', ''i'', ''c'']"
    "chars ''long'' = [''l'', ''o'', ''n'', ''g'']"
  by (simp_all add: strip_def trim_end_def isspace_def WHITESPACE_def continuation_def)

lemma plain_nfc: "nfc plain_unicode s = s"
  by (simp add: plain_unicode_def)

lemma plain_printed: "\<not> unprinted plain_unicode ch"
  by (simp add: unprinted_def plain_unicode_def starts_with_def)

lemma plain_entries: "entry_ok plain_unicode (\<lambda>_ _. True) (s, String w)" if "w \<in> {''brief'', ''metric'', ''long''}"
  using that by (auto simp: entry_ok_def clarification_text_def py_string_def plain_word py_len_def is_nfc_def plain_printed
      plain_nfc list_ex_iff MAX_MEMORY_PREFERENCE_CHARS_def)

lemma samples_canonical:
  "canonical_memory plain_unicode (\<lambda>_ _. True) sample_memory = Some sample_memory"
  "canonical_memory_changes plain_unicode (\<lambda>_ _. True) sample_changes = Some sample_changes"
proof -
  show "canonical_memory plain_unicode (\<lambda>_ _. True) sample_memory = Some sample_memory"
    unfolding sample_memory_def by (rule canonical_memory_json) (simp add: entries_ok_def plain_entries MAX_MEMORIES_def)
  have "canonical_change plain_unicode (\<lambda>_ _. True) (change_json (Forget ''units'')) = Some (change_json (Forget ''units''))"
    by (simp add: canonical_change_def py_exact_object_def py_object_def exact_members_def py_field_def py_string_def memory_entry_def
        full_value_string clarification_text_def is_nfc_def plain_unicode_def strip_def trim_end_def py_len_def)
  moreover have "canonical_change plain_unicode (\<lambda>_ _. True) (change_json (Remember ''tone'' (String ''long'')))
      = Some (change_json (Remember ''tone'' (String ''long'')))"
    using plain_entries [of "''long''" "''tone''"]
    by (simp add: canonical_change_def py_exact_object_def py_object_def exact_members_def py_field_def py_string_def memory_entry_def
        full_value_string entry_ok_def)
  ultimately show "canonical_memory_changes plain_unicode (\<lambda>_ _. True) sample_changes = Some sample_changes"
    by (simp add: canonical_memory_changes_def sample_changes_def py_array_def opt_all_Cons MAX_MEMORY_CHANGES_def MAX_MEMORIES_def
        del: change_json.simps)
qed

theorem memory_stays_canonical_witness:
  "canonical_memory plain_unicode (\<lambda>_ _. True) (apply_memory_changes sample_memory sample_changes)
    = Some (apply_memory_changes sample_memory sample_changes)"
  by (rule memory_stays_canonical [OF samples_canonical])

theorem memory_changes_refine_witness:
  "remembered (apply_memory_changes sample_memory sample_changes) ''tone'' = Some (String ''long'')"
proof -
  have "''tone'' \<in> changed_topics sample_changes" by code_simp
  moreover have "foldl changed (remembered sample_memory) (the_or [] (py_array sample_changes)) ''tone'' = Some (String ''long'')" by code_simp
  ultimately show ?thesis using memory_changes_refine [OF samples_canonical] by (simp add: Let_def)
qed

end
