(* ===== verification/Regex.thy ===== *)
theory Regex
  imports Texts
begin

text \<open>
  Python patterns over the third-party engine (\<open>protocol/team/http/src/python/regex.rs\<close>).  The engine's first match from a
  position is the parameter \<open>engine\<close>: a pattern, a text and a byte position give a match, no match, or a search that stopped.
  The loops over it (\<open>finditer\<close>, \<open>sub\<close>, the refusing searches) are the code's.  A loop's fuel is one more than the bytes of
  the text: every match is non-empty and starts at or after the position before it.
\<close>

record pattern_match =
  match_start :: nat
  match_end :: nat
  match_groups :: "(nat \<times> nat) option list"

datatype match_error = Engine_Stopped | Empty_Match

type_synonym engine_search = "string \<Rightarrow> string \<Rightarrow> nat \<Rightarrow> match_error + pattern_match option"

definition slice :: "string \<Rightarrow> nat \<Rightarrow> nat \<Rightarrow> string" where
  "slice s i j = take (j - i) (drop i s)"

definition match_group :: "pattern_match \<Rightarrow> string \<Rightarrow> nat \<Rightarrow> string option" where
  "match_group m s index =
     (if index - 1 < length (match_groups m) then map_option (\<lambda>(i, j). slice s i j) (match_groups m ! (index - 1)) else None)"

definition is_absent :: "engine_search \<Rightarrow> string \<Rightarrow> string \<Rightarrow> bool" where
  "is_absent engine pattern s \<longleftrightarrow> engine pattern s 0 = Inr None"

fun finditer_from :: "engine_search \<Rightarrow> string \<Rightarrow> string \<Rightarrow> nat \<Rightarrow> nat \<Rightarrow> match_error + pattern_match list" where
  "finditer_from engine pattern s 0 position = Inl Engine_Stopped"
| "finditer_from engine pattern s (Suc fuel) position =
     (case engine pattern s position of
        Inl err \<Rightarrow> Inl err
      | Inr None \<Rightarrow> Inr []
      | Inr (Some found) \<Rightarrow>
          if match_start found = match_end found then Inl Empty_Match
          else (case finditer_from engine pattern s fuel (match_end found) of
                  Inl err \<Rightarrow> Inl err
                | Inr rest \<Rightarrow> Inr (found # rest)))"

definition finditer :: "engine_search \<Rightarrow> string \<Rightarrow> string \<Rightarrow> match_error + pattern_match list" where
  "finditer engine pattern s = finditer_from engine pattern s (Suc (length s)) 0"

fun sub_from :: "string \<Rightarrow> (string \<Rightarrow> string) \<Rightarrow> nat \<Rightarrow> pattern_match list \<Rightarrow> string" where
  "sub_from s replace copied [] = drop copied s"
| "sub_from s replace copied (found # rest) =
     slice s copied (match_start found) @ replace (slice s (match_start found) (match_end found)) @
     sub_from s replace (match_end found) rest"

definition sub :: "engine_search \<Rightarrow> string \<Rightarrow> string \<Rightarrow> (string \<Rightarrow> string) \<Rightarrow> match_error + string" where
  "sub engine pattern s replace =
     (case finditer engine pattern s of Inl err \<Rightarrow> Inl err | Inr found \<Rightarrow> Inr (sub_from s replace 0 found))"

text \<open>A pattern as the source writes it, with a tilde for the backslash.\<close>

definition re_text :: "string \<Rightarrow> string" where
  "re_text s = map (\<lambda>c. if c = CHR ''~'' then escape_char else c) s"

section \<open>Enough fuel\<close>

text \<open>What the engine documents of a match: it lies in the text, at or after the position the search starts from.\<close>

definition engine_ok :: "engine_search \<Rightarrow> bool" where
  "engine_ok engine \<longleftrightarrow> (\<forall>pattern s position found. engine pattern s position = Inr (Some found) \<longrightarrow>
     position \<le> match_start found \<and> match_start found \<le> match_end found \<and> match_end found \<le> length s)"

text \<open>Matches in order, apart from one another and none of them empty.\<close>

fun apart :: "nat \<Rightarrow> nat \<Rightarrow> pattern_match list \<Rightarrow> bool" where
  "apart width position [] \<longleftrightarrow> position \<le> width"
| "apart width position (found # rest) \<longleftrightarrow>
     position \<le> match_start found \<and> match_start found < match_end found \<and> apart width (match_end found) rest"

lemma finditer_from_ok:
  assumes "engine_ok engine" "position \<le> length s" "length s - position < fuel"
  shows "finditer_from engine pattern s fuel position = finditer_from engine pattern s (Suc (length s - position)) position"
    and "finditer_from engine pattern s fuel position = Inr found \<Longrightarrow> apart (length s) position found"
proof -
  have "finditer_from engine pattern s fuel position = finditer_from engine pattern s fuel' position \<and>
      (\<forall>found. finditer_from engine pattern s fuel position = Inr found \<longrightarrow> apart (length s) position found)"
    if "position \<le> length s" "length s - position < fuel" "length s - position < fuel'" for fuel fuel' position
    using that
  proof (induction fuel arbitrary: fuel' position)
    case (Suc fuel)
    then obtain n where n: "fuel' = Suc n" by (cases fuel') simp_all
    show ?case
    proof (cases "engine pattern s position")
      case (Inr r)
      show ?thesis
      proof (cases r)
        case (Some m)
        then have "position \<le> match_start m" "match_start m \<le> match_end m" "match_end m \<le> length s"
          using assms(1) Inr unfolding engine_ok_def by blast+
        moreover have "match_start m \<noteq> match_end m \<Longrightarrow>
            length s - match_end m < fuel \<and> length s - match_end m < n"
          using calculation Suc.prems n by linarith
        ultimately show ?thesis
          using Suc.IH [of "match_end m" n] Inr Some n Suc.prems(1) by (auto split: sum.splits)
      qed (use Suc.prems n Inr in simp)
    qed (use n in simp)
  qed simp
  from this [of position fuel "Suc (length s - position)"]
  show "finditer_from engine pattern s fuel position = finditer_from engine pattern s (Suc (length s - position)) position"
    "finditer_from engine pattern s fuel position = Inr found \<Longrightarrow> apart (length s) position found"
    using assms(2,3) by auto
qed

lemma finditer_apart: "engine_ok engine \<Longrightarrow> finditer engine pattern s = Inr found \<Longrightarrow> apart (length s) 0 found"
  unfolding finditer_def using finditer_from_ok(2) [of engine 0 s "Suc (length s)" pattern found]
  by (simp del: finditer_from.simps)

lemma sub_from_same: "apart (length s) copied found \<Longrightarrow> sub_from s (\<lambda>w. w) copied found = drop copied s"
proof (induction found arbitrary: copied)
  case (Cons m rest)
  then have order: "copied \<le> match_start m" "match_start m \<le> match_end m"
    and rest: "sub_from s (\<lambda>w. w) (match_end m) rest = drop (match_end m) s" by simp_all
  have join: "slice s i j @ drop j s = drop i s" if "i \<le> j" for i j
    using append_take_drop_id [of "j - i" "drop i s"] that by (simp add: slice_def)
  show ?case using order by (simp add: rest join)
qed simp

lemma finditer_from_ends:
  assumes "engine_ok engine" "\<forall>position. engine pattern s position \<noteq> Inl Engine_Stopped"
  shows "position \<le> length s \<Longrightarrow> length s - position < fuel \<Longrightarrow> finditer_from engine pattern s fuel position \<noteq> Inl Engine_Stopped"
proof (induction fuel arbitrary: position)
  case (Suc fuel)
  show ?case
  proof (cases "engine pattern s position")
    case (Inr r)
    show ?thesis
    proof (cases r)
      case (Some m)
      then have m: "position \<le> match_start m" "match_start m \<le> match_end m" "match_end m \<le> length s"
        using assms(1) Inr unfolding engine_ok_def by blast+
      show ?thesis
      proof (cases "match_start m = match_end m")
        case False
        then have "length s - match_end m < fuel" using m Suc.prems by linarith
        then show ?thesis using m(3) Suc.IH [of "match_end m"] Inr Some by (auto split: sum.splits)
      qed (use Inr Some in simp)
    qed (use Inr in simp)
  next
    case (Inl err)
    moreover have "err \<noteq> Engine_Stopped" using Inl assms(2) by blast
    ultimately show ?thesis by simp
  qed
qed simp

text \<open>
  C33 The search over a text ends: over an engine that does not stop by itself, \<open>finditer\<close> either refuses an empty match or returns
  matches that lie apart from one another, in order and inside the text, and more steps than one per byte change nothing.
\<close>

theorem matching_ends:
  assumes "engine_ok engine" "\<forall>position. engine pattern s position \<noteq> Inl Engine_Stopped"
  shows "(finditer engine pattern s = Inl Empty_Match \<or> (\<exists>found. finditer engine pattern s = Inr found \<and> apart (length s) 0 found)) \<and>
    (length s < fuel \<longrightarrow> finditer_from engine pattern s fuel 0 = finditer engine pattern s)"
proof -
  have "finditer engine pattern s \<noteq> Inl Engine_Stopped"
    using finditer_from_ends [OF assms, of 0 "Suc (length s)"] by (simp add: finditer_def del: finditer_from.simps)
  moreover have "e = Empty_Match" if "e \<noteq> Engine_Stopped" for e using that by (cases e) simp_all
  ultimately have "finditer engine pattern s = Inl Empty_Match \<or> (\<exists>found. finditer engine pattern s = Inr found)"
    by (cases "finditer engine pattern s") auto
  then show ?thesis
    using finditer_apart [OF assms(1)] finditer_from_ok(1) [OF assms(1), of 0 s fuel pattern]
    by (auto simp: finditer_def simp del: finditer_from.simps)
qed

definition each_byte :: engine_search where
  "each_byte pattern s position =
     Inr (if position < length s then Some \<lparr>match_start = position, match_end = Suc position, match_groups = []\<rparr> else None)"

theorem matching_ends_witness: "finditer_from each_byte ''x'' ''ab'' 5 0 = finditer each_byte ''x'' ''ab''"
proof -
  have "engine_ok each_byte" by (auto simp: engine_ok_def each_byte_def)
  moreover have "\<forall>position. each_byte ''x'' ''ab'' position \<noteq> Inl Engine_Stopped" by (simp add: each_byte_def)
  ultimately show ?thesis using matching_ends [of each_byte "''x''" "''ab''" 5] by simp
qed

end
