(* ===== verification/Recording.thy ===== *)
theory Recording
  imports Tools Datetime
begin

text \<open>
  Routines recorded from a turn: the refinement's edits and the written dates (\<open>protocol/team/http/src/routine_context/mod.rs\<close>),
  the Routine guard (\<open>runtime/src/tools/routine.rs\<close>), refinements (\<open>routine/refine.rs\<close>) and the rerun guard
  (\<open>routine/rerun.rs\<close>).  The Unicode data, the compiled patterns (\<open>full\<close>), the pattern engine, the strict reader, SHA-256
  and today's date are parameters.
\<close>

section \<open>Edits of a refinement\<close>

definition MAX_ROUTINE_STEPS :: int where "MAX_ROUTINE_STEPS = 256"
definition ROUTINE_STEP_ID_PATTERN :: string where "ROUTINE_STEP_ID_PATTERN = re_text ''[a-z][a-z0-9_-]{0,31}~Z''"
definition REFINE_KINDS :: "string list" where "REFINE_KINDS = [''insert'', ''replace'', ''remove'']"
definition CALL_HANDLE_PATTERN :: string where "CALL_HANDLE_PATTERN = re_text ''c[1-9][0-9]{0,2}~Z''"
definition MAX_REFINE_EDITS :: nat where "MAX_REFINE_EDITS = 256"

definition edit_ok :: "matcher \<Rightarrow> json \<Rightarrow> bool" where
  "edit_ok full v =
     (case py_exact_object v [''kind'', ''step'', ''calls''] of
        None \<Rightarrow> False
      | Some ms \<Rightarrow>
          (case (py_string (py_field ms ''kind''), py_array (py_field ms ''calls'')) of
             (Some kind, Some calls) \<Rightarrow>
               kind \<in> set REFINE_KINDS \<and>
               is_full_value full ROUTINE_STEP_ID_PATTERN (py_field ms ''step'') \<and>
               list_all (is_full_value full CALL_HANDLE_PATTERN) calls \<and>
               (if kind = ''insert'' then 1 \<le> length calls \<and> int (length calls) \<le> MAX_ROUTINE_STEPS
                else if kind = ''replace'' then length calls = 1
                else calls = [])
           | _ \<Rightarrow> False))"

definition distinct_names :: "string list \<Rightarrow> bool" where
  "distinct_names names = successively (\<lambda>a b. a \<noteq> b) (sort names)"

definition edit_steps :: "json list \<Rightarrow> string list" where
  "edit_steps edits = List.map_filter (\<lambda>item. py_string (field_of item ''step'')) edits"

definition edit_calls :: "json list \<Rightarrow> string list" where
  "edit_calls edits =
     List.map_filter py_string (concat (map (\<lambda>item. the_or [] (py_array (field_of item ''calls''))) edits))"

definition canonical_edits :: "matcher \<Rightarrow> json \<Rightarrow> json option" where
  "canonical_edits full v =
     (case py_array v of
        None \<Rightarrow> None
      | Some edits \<Rightarrow>
          if length edits \<le> MAX_REFINE_EDITS \<and> list_all (edit_ok full) edits \<and>
            distinct_names (edit_steps edits) \<and> distinct_names (edit_calls edits)
          then Some v else None)"

section \<open>Written dates\<close>

definition MIN_IDENTIFIER_CHARS :: nat where "MIN_IDENTIFIER_CHARS = 6"
definition MIN_IDENTIFIER_DIGITS :: nat where "MIN_IDENTIFIER_DIGITS = 6"
definition MAX_DATE_OFFSET_DAYS :: int where "MAX_DATE_OFFSET_DAYS = 31"

definition NUMBER_TOKEN_PATTERN :: string where
  "NUMBER_TOKEN_PATTERN = re_text ''(?<![~w.,+-])[-+]?~d+(?:[.,]~d+)*(?:[eE][-+]?~d+)?(?!~w|[.,]~d)''"

definition UNSPACED_DATE_FORMS :: "(string \<times> string) list" where
  "UNSPACED_DATE_FORMS =
     [(''iso'', re_text ''(?<![~d-])(~d{4})-(~d{2})-(~d{2})(?![~d-])''),
      (''numeric'', re_text ''(?<![~d/.])(~d{1,2})(?:/(~d{1,2})/|~.(~d{1,2})~.)(~d{4})(?![~d/]|~.~d)''),
      (''short'', re_text ''(?<![~d/.])(~d{1,2})/(~d{1,2})(?![~d/]|~.~d)''),
      (''cjk'', re_text (''(?:(~d{4})'' @ utf8 [0xE5, 0xB9, 0xB4] @ '')?(~d{1,2})'' @ utf8 [0xE6, 0x9C, 0x88] @
         ''(~d{1,2})'' @ utf8 [0xE6, 0x97, 0xA5]))]"

text \<open>\<open>groups[i]\<close>; the engine gives every match of a pattern as many groups as the pattern has.\<close>

definition group_at :: "string option list \<Rightarrow> nat \<Rightarrow> string option" where
  "group_at captured i = (if i < length captured then captured ! i else None)"

definition dates_written :: "string \<Rightarrow> string option list \<Rightarrow> (string option \<times> string \<times> string) list" where
  "dates_written kind captured =
     (let part = (\<lambda>i. the_or [] (group_at captured i))
      in if kind = ''iso'' \<or> kind = ''cjk'' then [(group_at captured 0, part 1, part 2)]
         else if kind = ''numeric'' then
           (let second = (case group_at captured 1 of Some s \<Rightarrow> s | None \<Rightarrow> part 2)
            in [(group_at captured 3, second, part 0), (group_at captured 3, part 0, second)])
         else [(None, part 1, part 0), (None, part 0, part 1)])"

text \<open>\<open>str::parse::<i32>\<close>, with zero for what does not parse.\<close>

definition i32_of :: "string \<Rightarrow> int" where
  "i32_of s =
     (let unsigned = (case s of c # cs \<Rightarrow> if c = CHR ''-'' \<or> c = CHR ''+'' then cs else s | [] \<Rightarrow> []);
          n = (if unsigned \<noteq> [] \<and> list_all ascii_digit unsigned
               then (if starts_with ''-'' s then - int (nat_of_dec unsigned) else int (nat_of_dec unsigned)) else 0)
      in if - (2 ^ 31) \<le> n \<and> n < 2 ^ 31 then n else 0)"

definition near :: "string option \<Rightarrow> string \<Rightarrow> string \<Rightarrow> int \<times> int \<times> int \<Rightarrow> bool" where
  "near year month day today =
     (let years = (case year of
            Some y \<Rightarrow> if y \<noteq> [] then [i32_of y] else [fst today - 1, fst today, fst today + 1]
          | None \<Rightarrow> [fst today - 1, fst today, fst today + 1]);
          m = i32_of month;
          d = i32_of day;
          now_ord = ymd_to_ord (fst today) (fst (snd today)) (snd (snd today))
      in list_ex (\<lambda>y. 1 \<le> y \<and> y \<le> 9999 \<and> 1 \<le> m \<and> m \<le> 12 \<and> 1 \<le> d \<and> d \<le> days_in_month y m \<and>
           \<bar>ymd_to_ord y m d - now_ord\<bar> \<le> MAX_DATE_OFFSET_DAYS + 1) years)"

definition ascii_text :: "string \<Rightarrow> bool" where
  "ascii_text s = list_all is_ascii s"

definition date_match :: "string \<Rightarrow> string \<Rightarrow> int \<times> int \<times> int \<Rightarrow> pattern_match \<Rightarrow> bool" where
  "date_match kind words today found =
     (let captured = map (\<lambda>i. match_group found words i) [1..<Suc (length (match_groups found))]
      in list_all (\<lambda>g. case g of Some s \<Rightarrow> ascii_text s | None \<Rightarrow> True) captured \<and>
         list_ex (\<lambda>(year, month, day). near year month day today) (dates_written kind captured))"

fun writes_date :: "engine_search \<Rightarrow> (string \<times> string) list \<Rightarrow> string \<Rightarrow> int \<times> int \<times> int \<Rightarrow> match_error + bool" where
  "writes_date engine [] words today = Inr False"
| "writes_date engine ((kind, pattern) # forms) words today =
     (case finditer engine pattern words of
        Inl err \<Rightarrow> Inl err
      | Inr found \<Rightarrow>
          if list_ex (date_match kind words today) found then Inr True else writes_date engine forms words today)"

definition may_write_date :: "engine_search \<Rightarrow> string \<Rightarrow> int \<times> int \<times> int \<Rightarrow> match_error + bool" where
  "may_write_date engine words today = writes_date engine UNSPACED_DATE_FORMS words today"

section \<open>The recorded call\<close>

definition ROUTINE_TOOL :: string where "ROUTINE_TOOL = ''shimpz_routine''"
definition ROUTINE_REPLY_CHARS :: nat where "ROUTINE_REPLY_CHARS = 4000"

definition REPLY_CONTROL_PATTERN :: string where
  "REPLY_CONTROL_PATTERN = re_text ''[~x00-~x08~x0b~x0c~x0e-~x1f~x7f]''"

definition SETTINGS_QUESTION_CODES :: "string list" where
  "SETTINGS_QUESTION_CODES = [''routine-interval-over-budget'', ''routine-output-unstated'', ''routine-schedule-unstated'']"

record routine_tools =
  rt_memory :: memory_tools
  rt_digest :: "string \<Rightarrow> nat list"
  rt_today :: "int \<times> int \<times> int"

definition routine_correction :: "string \<Rightarrow> string" where
  "routine_correction field =
     ''Not done: nothing was recorded. '' @
     (if field = ''mixed'' then
        ''Call shimpz_routine alone in its response, after the work ran; nothing else in this response ran, so repeat '' @
        ''the calls you still need.''
      else if field = ''invalid'' then ''Call it with op record and exactly the members its schema names.''
      else if field = ''name'' then
        ''Give a name of one line, at most '' @ dec_of_nat MAX_ROUTINE_NAME_CHARS @ '' characters.''
      else if field = ''description'' then
        ''Give a description of one plain paragraph, at most '' @ dec_of_nat MAX_ROUTINE_DESCRIPTION_CHARS @ '' characters.''
      else if field = ''replaces'' then ''replaces must be the routine_id of a listed Routine, or null for a new one.''
      else if field = ''reply'' then
        ''Give the person an empty reply, or text that says something, of at most '' @ dec_of_nat ROUTINE_REPLY_CHARS @
        '' characters with no control characters other than line breaks and tabs.''
      else if field = ''refine'' then
        ''With op refine, give routine_id and base_revision exactly as the selected Routine shows them, name null, '' @
        ''replaces null, and edits with at most one edit per step id it lists; with op record, give routine_id, '' @
        ''base_revision, and edits null.''
      else if field = ''calls'' then
        ''Name in edits only the call handles of Action results of this message, each once: one or more to insert, '' @
        ''exactly one to replace, none to remove. Run the missing work first.''
      else if field = ''dependency'' then
        ''A step you remove or replace is read by a step you keep. Record that whole Routine again with op record and '' @
        ''replaces instead, after running all of its work once.''
      else ''Change at least one step or the description.'')"

definition settled_answer :: "turn_context \<Rightarrow> bool" where
  "settled_answer ctx =
     (let code = Option.bind (routine_question ctx) (\<lambda>question. str_of question ''code'')
      in if code = Some ''routine-output-unstated'' then routine_output ctx \<noteq> None
         else (case code of Some c \<Rightarrow> c \<in> set SETTINGS_QUESTION_CODES | None \<Rightarrow> False) \<and> routine_schedule ctx \<noteq> None)"

definition settings_question :: "json option \<Rightarrow> bool" where
  "settings_question question =
     (case Option.bind question (\<lambda>q. str_of q ''code'') of
        Some code \<Rightarrow> code \<in> set SETTINGS_QUESTION_CODES
      | None \<Rightarrow> False)"

definition routine_reply :: "engine_search \<Rightarrow> json \<Rightarrow> string option" where
  "routine_reply engine v =
     (case v of
        String words \<Rightarrow>
          if words = [] then Some words
          else if is_absent engine REPLY_CONTROL_PATTERN words \<and> strip words \<noteq> [] \<and> py_len words \<le> ROUTINE_REPLY_CHARS
          then Some words else None
      | _ \<Rightarrow> None)"

definition required_members :: "bool \<Rightarrow> string list" where
  "required_members refinable =
     [''op'', ''name'', ''description'', ''replaces''] @
     (if refinable then [''routine_id'', ''base_revision'', ''edits''] else []) @ [''reply'']"

section \<open>Refinements\<close>

definition steps_of :: "json \<Rightarrow> json list" where
  "steps_of selected = the_or [] (array_of selected ''steps'')"

definition is_integer_number :: "json \<Rightarrow> bool" where
  "is_integer_number v = (case v of Number (Integer _) \<Rightarrow> True | Number (BigInt _) \<Rightarrow> True | _ \<Rightarrow> False)"

definition names_selection :: "json \<Rightarrow> json \<Rightarrow> json \<Rightarrow> bool" where
  "names_selection arguments selected edits =
     (let revision = field_of arguments ''base_revision'';
          step_ids = map (\<lambda>step. field_of step ''id'') (steps_of selected)
      in py_eq (field_of arguments ''routine_id'') (field_of selected ''routine_id'') \<and>
         is_integer_number revision \<and>
         py_eq revision (field_of selected ''revision'') \<and>
         field_of arguments ''name'' = Null \<and>
         field_of arguments ''replaces'' = Null \<and>
         list_all (\<lambda>edit. list_ex (\<lambda>ident. py_eq ident (field_of edit ''step'')) step_ids) (elements edits))"

definition step_position :: "json \<Rightarrow> json \<Rightarrow> json option" where
  "step_position selected ident =
     map_option (\<lambda>step. field_of step ''position'') (find (\<lambda>step. py_eq (field_of step ''id'') ident) (steps_of selected))"

definition gone_positions :: "json \<Rightarrow> json \<Rightarrow> json list" where
  "gone_positions selected edits =
     List.map_filter (\<lambda>edit. step_position selected (field_of edit ''step''))
       (filter (\<lambda>edit. str_of edit ''kind'' = Some ''remove'' \<or> str_of edit ''kind'' = Some ''replace'') (elements edits))"

definition removed_position :: "json \<Rightarrow> json \<Rightarrow> json \<Rightarrow> bool" where
  "removed_position selected edits v = list_ex (\<lambda>position. py_eq position v) (gone_positions selected edits)"

definition read_after :: "json \<Rightarrow> json \<Rightarrow> bool" where
  "read_after selected edits =
     list_ex (\<lambda>item. str_of item ''source'' = Some ''step_output'' \<and> removed_position selected edits (field_of item ''step''))
       (concat (map (\<lambda>step. the_or [] (array_of step ''inputs''))
          (filter (\<lambda>step. \<not> removed_position selected edits (field_of step ''position'')) (steps_of selected))))"

definition refined :: "routine_tools \<Rightarrow> json \<Rightarrow> json \<Rightarrow> string list \<Rightarrow> string + json" where
  "refined t arguments selected handles =
     (let u = mt_unicode (rt_memory t);
          named = (case canonical_edits (mt_full (rt_memory t)) (field_of arguments ''edits'') of
            Some edits \<Rightarrow> if names_selection arguments selected edits then Some edits else None
          | None \<Rightarrow> None);
          detail = field_of arguments ''description'';
          reply = routine_reply (mt_engine (rt_memory t)) (field_of arguments ''reply'')
      in case named of
           None \<Rightarrow> Inl ''refine''
         | Some edits \<Rightarrow>
             if canonical_description u detail = None then Inl ''description''
             else if \<not> list_all (\<lambda>call. case call of String handle \<Rightarrow> handle \<in> set handles | _ \<Rightarrow> False)
                 (concat (map (\<lambda>edit. the_or [] (array_of edit ''calls'')) (elements edits)))
             then Inl ''calls''
             else if read_after selected edits then Inl ''dependency''
             else if elements edits = [] \<and> py_eq detail (field_of selected ''description'') then Inl ''empty''
             else (case reply of
                     None \<Rightarrow> Inl ''reply''
                   | Some words \<Rightarrow>
                       Inr (object
                         [(''routine'', object
                             [(''routine_id'', field_of selected ''routine_id''), (''base_revision'', field_of selected ''revision''),
                              (''description'', detail), (''edits'', edits)]),
                          (''reply'', String words)])))"

section \<open>The Routine guard\<close>

definition recorded_outcome :: "routine_tools \<Rightarrow> json \<Rightarrow> turn_context \<Rightarrow> string + json" where
  "recorded_outcome t arguments ctx =
     (let u = mt_unicode (rt_memory t);
          detail = field_of arguments ''description'';
          replaces = field_of arguments ''replaces'';
          listed = list_ex (\<lambda>item. case get item ''routine_id'' of Some ident \<Rightarrow> py_eq ident replaces | None \<Rightarrow> False)
            (the_or [] (routines ctx))
      in case canonical_name u (field_of arguments ''name'') of
           None \<Rightarrow> Inl ''name''
         | Some name \<Rightarrow>
             if canonical_description u detail = None then Inl ''description''
             else if replaces \<noteq> Null \<and> \<not> listed then Inl ''replaces''
             else (case routine_reply (mt_engine (rt_memory t)) (field_of arguments ''reply'') of
                     None \<Rightarrow> Inl ''reply''
                   | Some words \<Rightarrow>
                       Inr (object
                         [(''routine'', object
                             [(''name'', String name), (''description'', detail), (''replaces'', replaces)]),
                          (''reply'', String words)])))"

definition record_call :: "routine_tools \<Rightarrow> json \<Rightarrow> turn_context \<Rightarrow> string list \<Rightarrow> string + json" where
  "record_call t arguments ctx handles =
     (let op = str_of arguments ''op''
      in if \<not> has_exactly arguments (required_members (routine_selected ctx \<noteq> None))
         then Inl (if routine_selected ctx \<noteq> None then ''refine'' else ''invalid'')
         else (case routine_selected ctx of
                 Some selected \<Rightarrow>
                   if op = Some ''refine'' then refined t arguments selected handles
                   else if list_ex (\<lambda>name. field_of arguments name \<noteq> Null) [''routine_id'', ''base_revision'', ''edits'']
                   then Inl ''refine''
                   else if op \<noteq> Some ''record'' then Inl ''invalid''
                   else recorded_outcome t arguments ctx
               | None \<Rightarrow> if op \<noteq> Some ''record'' then Inl ''invalid'' else recorded_outcome t arguments ctx))"

definition result_value :: "(string \<Rightarrow> json option) \<Rightarrow> string \<Rightarrow> json" where
  "result_value parse content = (case parse content of Some v \<Rightarrow> v | None \<Rightarrow> String content)"

definition turn_begins :: "message list \<Rightarrow> nat" where
  "turn_begins messages = (case from_last_user messages of Some later \<Rightarrow> length messages - length later | None \<Rightarrow> 0)"

definition call_handle :: "routine_tools \<Rightarrow> tool_message \<Rightarrow> string option" where
  "call_handle t result =
     (let v = result_value (mt_parse (rt_memory t)) (result_content result)
      in if \<not> has_exactly v [''call'', ''result''] then None
         else (case str_of v ''call'' of
                 Some handle \<Rightarrow> if mt_full (rt_memory t) CALL_HANDLE_PATTERN handle then Some handle else None
               | None \<Rightarrow> None))"

definition call_handles :: "routine_tools \<Rightarrow> message list \<Rightarrow> string list" where
  "call_handles t messages =
     List.map_filter (call_handle t) (List.map_filter tool (drop (turn_begins messages) messages))"

datatype verdict = Pass | Refuse string | Record string

definition review_routine :: "routine_tools \<Rightarrow> message list \<Rightarrow> turn_context \<Rightarrow> brain_error + verdict" where
  "review_routine t messages ctx =
     (case lone_call_of messages ROUTINE_TOOL of
        Inl err \<Rightarrow> Inl err
      | Inr Absent \<Rightarrow> Inr Pass
      | Inr Mixed \<Rightarrow> Inr (Refuse (routine_correction ''mixed''))
      | Inr (Alone call) \<Rightarrow>
          Inr (case record_call t (call_arguments call) ctx (call_handles t messages) of
                 Inr outcome \<Rightarrow> Record (compact_text outcome)
               | Inl field \<Rightarrow> Refuse (routine_correction field)))"

definition routine_recorded :: "(string \<Rightarrow> json option) \<Rightarrow> message list \<Rightarrow> (string \<times> json) option" where
  "routine_recorded parse messages =
     (if messages = [] then None
      else do {
        result \<leftarrow> tool (last messages);
        _ \<leftarrow> if result_name result = ROUTINE_TOOL then Some () else None;
        v \<leftarrow> parse (result_content result);
        _ \<leftarrow> if has_exactly v [''routine'', ''reply''] then Some () else None;
        reply \<leftarrow> str_of v ''reply'';
        routine \<leftarrow> get v ''routine'';
        Some (reply, routine) })"

section \<open>The rerun guard\<close>

definition RERUN_CORRECTION :: string where
  "RERUN_CORRECTION = ''Not done: no Action in this response ran. The Team needs each '' @ [CHR 0x27] @ ''fresh'' @ [CHR 0x27] @
     '' input of its rerun work to come from a result in this turn: first run the listed source Action, or an Action '' @
     ''that returns the value, then send the value from that result; never send a value you remember.''"

fun add_slot :: "string \<Rightarrow> string list \<Rightarrow> (string \<times> string list list) list \<Rightarrow> (string \<times> string list list) list" where
  "add_slot name fresh [] = [(name, [fresh])]"
| "add_slot name fresh ((other, sets) # slots) =
     (if other = name then (other, sets @ [fresh]) # slots else (other, sets) # add_slot name fresh slots)"

definition fresh_members :: "json \<Rightarrow> string list" where
  "fresh_members entry =
     List.map_filter (\<lambda>item. str_of item ''member'')
       (filter (\<lambda>item. str_of item ''kind'' = Some ''fresh'') (the_or [] (array_of entry ''inputs'')))"

definition entry_tool :: "(string \<Rightarrow> nat list) \<Rightarrow> json \<Rightarrow> string" where
  "entry_tool digest entry =
     action_tool_name digest (the_or [] (str_of entry ''assistant'')) (the_or [] (str_of entry ''action''))"

definition common_members :: "string list list \<Rightarrow> string list" where
  "common_members sets =
     (case sets of [] \<Rightarrow> [] | first # rest \<Rightarrow> fold (\<lambda>other. filter (\<lambda>m. m \<in> set other)) rest first)"

definition checked_members :: "(string \<Rightarrow> nat list) \<Rightarrow> json list \<Rightarrow> (string \<times> string list) list" where
  "checked_members digest work =
     filter (\<lambda>(name, ms). ms \<noteq> [])
       (map (\<lambda>(name, sets). (name, common_members sets))
          (fold (\<lambda>entry. add_slot (entry_tool digest entry) (fresh_members entry)) work []))"

function values_inside :: "json \<Rightarrow> json list" where
  "values_inside v = v # concat (map values_inside (children v))"
  by pat_completeness auto

termination by (relation "measure node_count") (simp_all add: node_count_child)

definition integer_digits :: "json \<Rightarrow> string option" where
  "integer_digits v = (case v of Number (Integer n) \<Rightarrow> Some (dec_of_int n) | Number (BigInt ds) \<Rightarrow> Some ds | _ \<Rightarrow> None)"

definition identifier_shaped :: "routine_tools \<Rightarrow> json \<Rightarrow> bool" where
  "identifier_shaped t v =
     (case integer_digits v of
        Some ds \<Rightarrow> length (dropWhile (\<lambda>c. c = CHR ''-'') ds) \<ge> MIN_IDENTIFIER_DIGITS
      | None \<Rightarrow>
          (case v of
             String word \<Rightarrow>
               py_len word \<ge> MIN_IDENTIFIER_CHARS \<and> \<not> list_ex isspace (chars word) \<and>
               (case may_write_date (mt_engine (rt_memory t)) word (rt_today t) of Inr dated \<Rightarrow> \<not> dated | Inl _ \<Rightarrow> False)
           | _ \<Rightarrow> False))"

definition written_in :: "engine_search \<Rightarrow> json \<Rightarrow> string list \<Rightarrow> bool" where
  "written_in engine v segments =
     (case v of
        String word \<Rightarrow> list_ex (contains word) segments
      | _ \<Rightarrow>
          (case integer_digits v of
             None \<Rightarrow> False
           | Some ds \<Rightarrow>
               list_ex (\<lambda>segment. case finditer engine NUMBER_TOKEN_PATTERN segment of
                   Inr tokens \<Rightarrow> list_ex (\<lambda>token. slice segment (match_start token) (match_end token) = ds) tokens
                 | Inl _ \<Rightarrow> False) segments))"

definition turn_results :: "routine_tools \<Rightarrow> string list \<Rightarrow> message list \<Rightarrow> json list" where
  "turn_results t offered turn =
     concat (map (\<lambda>result. values_inside (result_value (mt_parse (rt_memory t)) (result_content result)))
       (filter (\<lambda>result. result_name result \<in> set offered) (List.map_filter tool turn)))"

definition turn_segments :: "routine_tools \<Rightarrow> message list \<Rightarrow> string list" where
  "turn_segments t turn =
     authored_segments (case turn of User _ words # _ \<Rightarrow> the_or [] (turn_message (mt_parse (rt_memory t)) words) | _ \<Rightarrow> [])"

definition unsourced :: "routine_tools \<Rightarrow> json list \<Rightarrow> string list \<Rightarrow> json \<Rightarrow> bool" where
  "unsourced t results segments v \<longleftrightarrow>
     identifier_shaped t v \<and> \<not> list_ex (py_eq v) results \<and> \<not> written_in (mt_engine (rt_memory t)) v segments"

definition rerun_review :: "routine_tools \<Rightarrow> message list \<Rightarrow> json list \<Rightarrow> string list \<Rightarrow> review" where
  "rerun_review t messages work offered =
     (case latest_turn messages of
        None \<Rightarrow> Inr None
      | Some latest \<Rightarrow>
          let checked = checked_members (rt_digest t) work;
              calls = filter (\<lambda>call. map_of checked (call_name call) \<noteq> None) (turn_calls latest);
              turn = drop (turn_begins messages) messages;
              results = turn_results t offered turn;
              segments = turn_segments t turn
          in if calls = [] then Inr None
             else if turn_invalid_calls latest \<noteq> [] then Inl (Contract UNPARSABLE)
             else if list_ex (\<lambda>call. list_ex (\<lambda>m. case get (call_arguments call) m of
                      Some v \<Rightarrow> unsourced t results segments v | None \<Rightarrow> False)
                    (the_or [] (map_of checked (call_name call)))) calls
             then Inr (Some RERUN_CORRECTION) else Inr None)"

section \<open>A refinement keeps the plan whole\<close>

lemma successively_distinct: "sorted xs \<Longrightarrow> successively (\<lambda>a b. a \<noteq> b) xs = distinct xs" for xs :: "'a::linorder list"
proof (induction xs rule: induct_list012)
  case (3 x y zs)
  then have "x \<le> y" "\<forall>z\<in>set (y # zs). y \<le> z" by auto
  then have "x \<noteq> y \<Longrightarrow> x \<notin> set (y # zs)" by force
  then show ?case using 3 by auto
qed simp_all

lemma distinct_names_iff: "distinct_names names = distinct names"
  by (simp add: distinct_names_def successively_distinct)

lemma refined_Inr:
  assumes "refined t arguments selected handles = Inr outcome"
  defines "edits \<equiv> field_of arguments ''edits''"
  shows "canonical_edits (mt_full (rt_memory t)) edits = Some edits" "names_selection arguments selected edits"
    "list_all (\<lambda>call. case call of String handle \<Rightarrow> handle \<in> set handles | _ \<Rightarrow> False)
       (concat (map (\<lambda>edit. the_or [] (array_of edit ''calls'')) (elements edits)))"
    "\<not> read_after selected edits"
    "\<exists>words. outcome = object
       [(''routine'', object
           [(''routine_id'', field_of selected ''routine_id''), (''base_revision'', field_of selected ''revision''),
            (''description'', field_of arguments ''description''), (''edits'', edits)]),
        (''reply'', String words)]"
  using assms by (auto simp: refined_def Let_def canonical_edits_def split: option.splits if_splits)

lemma canonical_edits_distinct:
  "canonical_edits full v = Some w \<Longrightarrow> distinct (edit_steps (elements v)) \<and> distinct (edit_calls (elements v)) \<and> list_all (edit_ok full) (elements v)"
  by (auto simp: canonical_edits_def distinct_names_iff py_array_def split: json.splits option.splits if_splits)

lemma array_of_field: "the_or [] (array_of v k) = the_or [] (py_array (field_of v k))"
  by (simp add: array_of_def field_of_def py_array_def the_or_def split: option.splits json.splits)

lemma edit_calls_within:
  assumes "list_all (\<lambda>call. case call of String handle \<Rightarrow> handle \<in> set handles | _ \<Rightarrow> False)
       (concat (map (\<lambda>edit. the_or [] (array_of edit ''calls'')) edits))"
  shows "set (edit_calls edits) \<subseteq> set handles"
  using assms
  by (auto simp: edit_calls_def list_all_iff array_of_field map_filter_def py_string_def split: json.splits option.splits)

lemma member_read: "py_field ms k = field_of (Object ms) k"
  by (induction ms) (auto simp: py_field_def field_of_def the_or_def)

lemma field_of_string: "field_of v k = String s \<Longrightarrow> str_of v k = Some s"
  by (simp add: field_of_def str_of_def the_or_def split: option.splits)

text \<open>What an edit may say: one of three kinds, a step id, and as many call handles as the kind takes.\<close>

definition edit_stated :: "matcher \<Rightarrow> string list \<Rightarrow> json \<Rightarrow> bool" where
  "edit_stated full handles edit \<longleftrightarrow> (\<exists>kind ident calls.
     str_of edit ''kind'' = Some kind \<and> str_of edit ''step'' = Some ident \<and> full ROUTINE_STEP_ID_PATTERN ident \<and>
     field_of edit ''calls'' = Array (map String calls) \<and> set calls \<subseteq> set handles \<and>
     (kind = ''insert'' \<and> 1 \<le> length calls \<and> length calls \<le> 256 \<or> kind = ''replace'' \<and> length calls = 1 \<or> kind = ''remove'' \<and> calls = []))"

lemma handles_listed:
  assumes "list_all (\<lambda>call. case call of String handle \<Rightarrow> handle \<in> set handles | _ \<Rightarrow> False) calls"
  obtains names where "calls = map String names" "set names \<subseteq> set handles"
proof -
  have "\<forall>call\<in>set calls. \<exists>handle\<in>set handles. call = String handle"
  proof
    fix call assume "call \<in> set calls"
    then have "case call of String handle \<Rightarrow> handle \<in> set handles | _ \<Rightarrow> False" using assms by (simp add: list_all_iff)
    then show "\<exists>handle\<in>set handles. call = String handle" by (cases call rule: json.exhaust) auto
  qed
  then obtain name where "\<forall>call\<in>set calls. name call \<in> set handles \<and> call = String (name call)" by metis
  then have "calls = map String (map name calls)" "set (map name calls) \<subseteq> set handles" by (auto simp: map_idI)
  then show ?thesis by (rule that)
qed

lemma edit_ok_stated:
  assumes "edit_ok full edit"
    and "list_all (\<lambda>call. case call of String handle \<Rightarrow> handle \<in> set handles | _ \<Rightarrow> False) (the_or [] (array_of edit ''calls''))"
  shows "edit_stated full handles edit"
proof -
  obtain ms kind ident calls where form: "edit = Object ms" "py_field ms ''kind'' = String kind" "py_field ms ''step'' = String ident"
    "py_field ms ''calls'' = Array calls" "kind \<in> set REFINE_KINDS" "full ROUTINE_STEP_ID_PATTERN ident"
    "if kind = ''insert'' then 1 \<le> length calls \<and> int (length calls) \<le> MAX_ROUTINE_STEPS
     else if kind = ''replace'' then length calls = 1 else calls = []"
    using assms(1)
    by (auto simp: edit_ok_def py_exact_object_def py_object_def py_string_def py_array_def is_full_value_def
        split: json.splits option.splits if_splits)
  have array: "field_of edit ''calls'' = Array calls" using form(1,4) by (simp add: member_read)
  then have "array_of edit ''calls'' = Some calls" by (simp add: field_of_def array_of_def the_or_def split: option.splits)
  then obtain names where names: "calls = map String names" "set names \<subseteq> set handles"
    using handles_listed [of handles calls] assms(2) by (auto simp: the_or_def)
  have "str_of edit ''kind'' = Some kind" "str_of edit ''step'' = Some ident"
    using form(1-3) field_of_string by (simp_all add: member_read)
  moreover have "kind = ''insert'' \<or> kind = ''replace'' \<or> kind = ''remove''" using form(5) by (simp add: REFINE_KINDS_def)
  ultimately show ?thesis
    unfolding edit_stated_def using form(6,7) array names
    by (intro exI [of _ kind] exI [of _ ident] exI [of _ names]) (auto simp: MAX_ROUTINE_STEPS_def split: if_splits)
qed

text \<open>The step an edit names is the first of the plan with its id; removing or replacing it takes it away.\<close>

definition takes_away :: "json \<Rightarrow> json \<Rightarrow> json \<Rightarrow> bool" where
  "takes_away selected edit step \<longleftrightarrow> str_of edit ''kind'' \<in> {Some ''remove'', Some ''replace''} \<and>
     find (\<lambda>s. py_eq (field_of s ''id'') (field_of edit ''step'')) (steps_of selected) = Some step"

lemma removed_position_iff:
  "removed_position selected edits v \<longleftrightarrow>
     (\<exists>edit\<in>set (elements edits). \<exists>step. takes_away selected edit step \<and> py_eq (field_of step ''position'') v)"
  by (auto simp: removed_position_def gone_positions_def step_position_def takes_away_def list_ex_iff map_filter_def split: option.splits)

text \<open>
  C23 A refinement that is recorded carries the selected Routine's id and revision, edits each of its steps at most once
  and only its own, and names each call of this message at most once and no other: one or more to insert, exactly one to
  replace, none to remove.  A step that reads the output of a step it removes or replaces is itself removed or replaced.
\<close>

theorem refinement_safe:
  assumes "record_call t arguments ctx handles = Inr outcome" "routine_selected ctx = Some selected"
    "str_of arguments ''op'' = Some ''refine''"
  defines "edits \<equiv> field_of arguments ''edits''"
  shows "(\<exists>words. outcome = object
       [(''routine'', object
           [(''routine_id'', field_of selected ''routine_id''), (''base_revision'', field_of selected ''revision''),
            (''description'', field_of arguments ''description''), (''edits'', edits)]),
        (''reply'', String words)]) \<and>
    (\<forall>edit\<in>set (elements edits). edit_stated (mt_full (rt_memory t)) handles edit) \<and>
    distinct (edit_steps (elements edits)) \<and>
    (\<forall>edit\<in>set (elements edits). \<exists>step\<in>set (steps_of selected). py_eq (field_of step ''id'') (field_of edit ''step'')) \<and>
    distinct (edit_calls (elements edits)) \<and> set (edit_calls (elements edits)) \<subseteq> set handles \<and>
    (\<forall>edit\<in>set (elements edits). \<forall>gone. takes_away selected edit gone \<longrightarrow>
       (\<forall>step\<in>set (steps_of selected). \<forall>item\<in>set (the_or [] (array_of step ''inputs'')).
          str_of item ''source'' = Some ''step_output'' \<and> py_eq (field_of gone ''position'') (field_of item ''step'') \<longrightarrow>
          (\<exists>other\<in>set (elements edits). \<exists>taken. takes_away selected other taken \<and>
             py_eq (field_of taken ''position'') (field_of step ''position''))))"
proof -
  have "refined t arguments selected handles = Inr outcome"
    using assms(1-3) by (auto simp: record_call_def Let_def split: if_splits)
  note r = refined_Inr [OF this, folded edits_def]
  have "\<forall>edit\<in>set (elements edits). \<exists>step\<in>set (steps_of selected). py_eq (field_of step ''id'') (field_of edit ''step'')"
    using r(2) by (auto simp: names_selection_def Let_def list_all_iff list_ex_iff)
  moreover have "\<forall>edit\<in>set (elements edits). edit_stated (mt_full (rt_memory t)) handles edit"
    using r(3) canonical_edits_distinct [OF r(1)] edit_ok_stated by (auto simp: list_all_iff)
  moreover have "removed_position selected edits (field_of step ''position'')"
    if "step \<in> set (steps_of selected)" "item \<in> set (the_or [] (array_of step ''inputs''))" "str_of item ''source'' = Some ''step_output''"
      "removed_position selected edits (field_of item ''step'')" for step item
    using r(4) that unfolding read_after_def list_ex_iff by auto
  ultimately show ?thesis
    using r(5) canonical_edits_distinct [OF r(1)] edit_calls_within [OF r(3)] unfolding removed_position_iff by blast
qed

section \<open>What the rerun guard refuses\<close>

text \<open>A member every slot of an Action in the work marks fresh.\<close>

definition always_fresh :: "(string \<Rightarrow> nat list) \<Rightarrow> json list \<Rightarrow> string \<Rightarrow> string \<Rightarrow> bool" where
  "always_fresh digest work name m \<longleftrightarrow> (\<exists>entry\<in>set work. entry_tool digest entry = name) \<and>
     (\<forall>entry\<in>set work. entry_tool digest entry = name \<longrightarrow> m \<in> set (fresh_members entry))"

lemma map_of_add_slot:
  "map_of (add_slot name fresh slots) =
     (map_of slots)(name \<mapsto> (case map_of slots name of None \<Rightarrow> [fresh] | Some sets \<Rightarrow> sets @ [fresh]))"
  by (induction name fresh slots rule: add_slot.induct) (auto simp: fun_eq_iff split: option.splits)

lemma add_slot_distinct: "distinct (map fst slots) \<Longrightarrow> distinct (map fst (add_slot name fresh slots))"
proof (induction name fresh slots rule: add_slot.induct)
  case (2 name fresh other sets slots)
  have "fst ` set (add_slot name fresh slots) = insert name (fst ` set slots)" for slots :: "(string \<times> string list list) list"
    by (induction name fresh slots rule: add_slot.induct) auto
  then show ?case using 2 by auto
qed simp

definition work_slots :: "(string \<Rightarrow> nat list) \<Rightarrow> json list \<Rightarrow> (string \<times> string list list) list" where
  "work_slots digest work = fold (\<lambda>entry. add_slot (entry_tool digest entry) (fresh_members entry)) work []"

lemma work_slots_snoc: "work_slots digest (work @ [entry]) = add_slot (entry_tool digest entry) (fresh_members entry) (work_slots digest work)"
  by (simp add: work_slots_def)

lemma work_slots_ok:
  "distinct (map fst (work_slots digest work)) \<and>
   map_of (work_slots digest work) name =
     (let sets = map fresh_members (filter (\<lambda>entry. entry_tool digest entry = name) work) in if sets = [] then None else Some sets)"
proof (induction work rule: rev_induct)
  case (snoc entry work)
  then show ?case
    unfolding work_slots_snoc by (auto simp: map_of_add_slot add_slot_distinct Let_def split: option.splits if_splits)
qed (simp add: work_slots_def)

lemma fold_common: "set (fold (\<lambda>other. filter (\<lambda>m. m \<in> set other)) rest kept) = {m \<in> set kept. \<forall>other\<in>set rest. m \<in> set other}"
  by (induction rest arbitrary: kept) auto

lemma common_members_iff: "m \<in> set (common_members sets) \<longleftrightarrow> sets \<noteq> [] \<and> (\<forall>s\<in>set sets. m \<in> set s)"
  by (cases sets) (auto simp: common_members_def fold_common)

lemma checked_members_iff:
  "m \<in> set (the_or [] (map_of (checked_members digest work) name)) \<longleftrightarrow> always_fresh digest work name m"
proof -
  have checked: "checked_members digest work = filter (\<lambda>(name, ms). ms \<noteq> []) (map (\<lambda>(name, sets). (name, common_members sets)) (work_slots digest work))"
    by (simp add: checked_members_def work_slots_def)
  have names: "distinct (map fst (map (\<lambda>(name, sets). (name, common_members sets)) (work_slots digest work)))"
    using work_slots_ok [of digest work] by (simp add: comp_def split_def)
  have drop: "distinct (map fst xs) \<Longrightarrow> map_of (filter (\<lambda>(name, ms). ms \<noteq> []) xs) name =
      (case map_of xs name of None \<Rightarrow> None | Some ms \<Rightarrow> if ms = [] then None else Some ms)" for xs :: "(string \<times> string list) list"
    by (induction xs) (auto simp: map_of_eq_None_iff rev_image_eqI split: option.splits)
  have "map_of (checked_members digest work) name =
      (case map_of (work_slots digest work) name of None \<Rightarrow> None
       | Some sets \<Rightarrow> if common_members sets = [] then None else Some (common_members sets))"
    unfolding checked drop [OF names] by (simp add: map_of_map [unfolded split_def] split_def split: option.splits)
  then have "set (the_or [] (map_of (checked_members digest work) name))
      = set (common_members (map fresh_members (filter (\<lambda>entry. entry_tool digest entry = name) work)))"
    using work_slots_ok [of digest work name] by (auto simp: Let_def the_or_def common_members_def split: option.splits if_splits)
  then show ?thesis by (auto simp: common_members_iff always_fresh_def filter_empty_conv)
qed

text \<open>
  C24 The rerun guard refuses a response exactly when one of its calls sends, under a member every slot of that Action in
  the rerun work marks fresh, an identifier that neither equals a value inside an Action result of this turn nor is
  written in the person's own words.
\<close>

theorem rerun_guard_exact:
  assumes "latest_turn messages = Some latest" "turn_invalid_calls latest = []"
  defines "turn \<equiv> drop (turn_begins messages) messages"
  shows "rerun_review t messages work offered =
    Inr (if \<exists>call\<in>set (turn_calls latest). \<exists>m v. always_fresh (rt_digest t) work (call_name call) m \<and>
           get (call_arguments call) m = Some v \<and> identifier_shaped t v \<and>
           \<not> (\<exists>result\<in>set (turn_results t offered turn). py_eq v result) \<and>
           \<not> written_in (mt_engine (rt_memory t)) v (turn_segments t turn)
         then Some RERUN_CORRECTION else None)"
proof -
  define ck where "ck = checked_members (rt_digest t) work"
  define bad where "bad call = list_ex (\<lambda>m. case get (call_arguments call) m of
      Some v \<Rightarrow> unsourced t (turn_results t offered turn) (turn_segments t turn) v | None \<Rightarrow> False)
    (the_or [] (map_of ck (call_name call)))" for call :: tool_call
  have bad: "bad call \<longleftrightarrow> (\<exists>m v. always_fresh (rt_digest t) work (call_name call) m \<and>
           get (call_arguments call) m = Some v \<and> identifier_shaped t v \<and>
           \<not> (\<exists>result\<in>set (turn_results t offered turn). py_eq v result) \<and>
           \<not> written_in (mt_engine (rt_memory t)) v (turn_segments t turn))" for call
    unfolding bad_def list_ex_iff ck_def
    by (auto simp: checked_members_iff unsourced_def list_ex_iff split: option.splits)
  have none: "map_of ck (call_name call) = None \<Longrightarrow> \<not> bad call" for call by (simp add: bad_def the_or_def)
  have "rerun_review t messages work offered =
      (if filter (\<lambda>call. map_of ck (call_name call) \<noteq> None) (turn_calls latest) = [] then Inr None
       else if list_ex bad (filter (\<lambda>call. map_of ck (call_name call) \<noteq> None) (turn_calls latest))
       then Inr (Some RERUN_CORRECTION) else Inr None)"
    unfolding bad_def [abs_def] ck_def turn_def using assms(1,2) by (simp add: rerun_review_def Let_def)
  also have "\<dots> = Inr (if \<exists>call\<in>set (turn_calls latest). bad call then Some RERUN_CORRECTION else None)"
    using none by (auto simp: list_ex_iff filter_empty_conv)
  finally show ?thesis by (simp only: bad)
qed


section \<open>Witnesses\<close>

lemma py_eq_texts: "py_eq (String a) (String b) \<longleftrightarrow> a = b" "py_eq (Number (Integer m)) (Number (Integer n)) \<longleftrightarrow> m = n"
  by (simp_all add: py_eq.simps numeric_of_def)

lemmas reading_simps = field_of_def the_or_def array_of_def str_of_def py_array_def py_string_def steps_of_def map_filter_def

definition plain_tools :: routine_tools where
  "plain_tools = \<lparr>rt_memory = \<lparr>mt_unicode = plain_unicode, mt_full = \<lambda>_ _. True, mt_engine = \<lambda>_ _ _. Inr None, mt_parse = \<lambda>_. None\<rparr>,
     rt_digest = \<lambda>_. [], rt_today = (2026, 1, 1)\<rparr>"

definition sample_selected :: json where
  "sample_selected = Object [(''routine_id'', String ''r''), (''revision'', Number (Integer 1)), (''description'', String ''brief''),
     (''steps'', Array
       [Object [(''id'', String ''a''), (''position'', Number (Integer 1)), (''inputs'', Array [])],
        Object [(''id'', String ''b''), (''position'', Number (Integer 2)),
          (''inputs'', Array [Object [(''source'', String ''step_output''), (''step'', Number (Integer 1))]])]])]"

definition sample_edits :: json where
  "sample_edits = Array
     [Object [(''kind'', String ''remove''), (''step'', String ''b''), (''calls'', Array [])],
      Object [(''kind'', String ''insert''), (''step'', String ''a''), (''calls'', Array [String ''c1''])]]"

definition sample_refinement :: json where
  "sample_refinement = Object [(''op'', String ''refine''), (''name'', Null), (''description'', String ''long''), (''replaces'', Null),
     (''routine_id'', String ''r''), (''base_revision'', Number (Integer 1)), (''edits'', sample_edits), (''reply'', String [])]"

lemma sample_refinement_fields:
  "field_of sample_refinement ''edits'' = sample_edits" "field_of sample_refinement ''description'' = String ''long''"
  "field_of sample_refinement ''reply'' = String []" "str_of sample_refinement ''op'' = Some ''refine''"
  "has_exactly sample_refinement (required_members True)"
  by (simp_all add: sample_refinement_def field_of_def the_or_def str_of_def has_exactly_def required_members_def)

lemma sample_recorded:
  "\<exists>outcome. record_call plain_tools sample_refinement (sample_context\<lparr>routine_selected := Some sample_selected\<rparr>) [''c1''] = Inr outcome"
proof -
  have edits: "canonical_edits (\<lambda>_ _. True) sample_edits = Some sample_edits"
    by (simp add: sample_edits_def canonical_edits_def edit_ok_def py_exact_object_def
        py_object_def exact_members_def py_field_def REFINE_KINDS_def is_full_value_def MAX_ROUTINE_STEPS_def
        MAX_REFINE_EDITS_def distinct_names_iff edit_steps_def edit_calls_def reading_simps)
  have names: "names_selection sample_refinement sample_selected sample_edits"
    by (simp add: sample_refinement_def sample_selected_def sample_edits_def names_selection_def Let_def py_eq_texts
        is_integer_number_def reading_simps)
  have detail: "canonical_description plain_unicode (String ''long'') = Some ''long''"
    by (simp add: canonical_description_def routine_line_def py_string_def py_len_def is_nfc_def plain_nfc plain_word
        MAX_ROUTINE_DESCRIPTION_CHARS_def list_ex_iff plain_printed)
  have gone: "gone_positions sample_selected sample_edits = [Number (Integer 2)]"
    by (simp add: gone_positions_def sample_selected_def sample_edits_def step_position_def py_eq_texts reading_simps)
  have kept: "\<not> read_after sample_selected sample_edits"
    by (simp add: read_after_def removed_position_def gone) (simp add: sample_selected_def py_eq_texts reading_simps)
  have handles: "list_all (\<lambda>call. case call of String handle \<Rightarrow> handle = ''c1'' | _ \<Rightarrow> False)
      (concat (map (\<lambda>edit. the_or [] (array_of edit ''calls'')) (elements sample_edits)))" "elements sample_edits \<noteq> []"
    by (simp_all add: sample_edits_def reading_simps)
  show ?thesis
    using handles by (simp add: record_call_def sample_refinement_fields refined_def plain_tools_def edits names detail kept routine_reply_def Let_def)
qed

theorem refinement_safe_witness:
  "\<exists>outcome. record_call plain_tools sample_refinement (sample_context\<lparr>routine_selected := Some sample_selected\<rparr>) [''c1''] = Inr outcome \<and>
     set (edit_calls (elements sample_edits)) \<subseteq> {''c1''}"
proof -
  obtain outcome where "record_call plain_tools sample_refinement (sample_context\<lparr>routine_selected := Some sample_selected\<rparr>) [''c1''] = Inr outcome"
    using sample_recorded by blast
  then show ?thesis
    using refinement_safe [of plain_tools sample_refinement "sample_context\<lparr>routine_selected := Some sample_selected\<rparr>" "[''c1'']" outcome sample_selected]
    by (simp add: sample_refinement_fields)
qed

definition sample_work :: "json list" where
  "sample_work = [Object [(''assistant'', String ''x''), (''action'', String ''y''),
     (''inputs'', Array [Object [(''member'', String ''id''), (''kind'', String ''fresh'')]])]]"

definition sample_rerun :: "message list" where
  "sample_rerun = [User ''u'' ''hi'', Assistant \<lparr>turn_id = ''a'', turn_text = [],
     turn_calls = [\<lparr>call_id = ''1'', call_name = action_tool_name (\<lambda>_. []) ''x'' ''y'',
       call_arguments = Object [(''id'', Number (Integer 123456))]\<rparr>],
     turn_invalid_calls = [], turn_refusal = False, turn_truncated = False, turn_provider = [], turn_raw = None, turn_attempts = 1\<rparr>]"

theorem rerun_guard_exact_witness: "rerun_review plain_tools sample_rerun sample_work [] = Inr (Some RERUN_CORRECTION)"
proof -
  let ?latest = "\<lparr>turn_id = ''a'', turn_text = [],
     turn_calls = [\<lparr>call_id = ''1'', call_name = action_tool_name (\<lambda>_. []) ''x'' ''y'',
       call_arguments = Object [(''id'', Number (Integer 123456))]\<rparr>],
     turn_invalid_calls = [], turn_refusal = False, turn_truncated = False, turn_provider = [], turn_raw = None, turn_attempts = 1\<rparr>"
  have latest: "latest_turn sample_rerun = Some ?latest" by (simp add: latest_turn_def sample_rerun_def)
  have fresh: "always_fresh (\<lambda>_. []) sample_work (action_tool_name (\<lambda>_. []) ''x'' ''y'') ''id''"
    by (simp add: always_fresh_def sample_work_def entry_tool_def fresh_members_def reading_simps)
  have shaped: "identifier_shaped plain_tools (Number (Integer 123456))"
    by (simp add: identifier_shaped_def integer_digits_def dec_of_int_def MIN_IDENTIFIER_DIGITS_def)
      (simp add: dec_of_nat.simps digit_char_def, simp add: char_of_def)
  have "\<exists>call\<in>set (turn_calls ?latest). \<exists>m v. always_fresh (rt_digest plain_tools) sample_work (call_name call) m \<and>
      get (call_arguments call) m = Some v \<and> identifier_shaped plain_tools v \<and>
      \<not> (\<exists>result\<in>set (turn_results plain_tools [] (drop (turn_begins sample_rerun) sample_rerun)). py_eq v result) \<and>
      \<not> written_in (mt_engine (rt_memory plain_tools)) v (turn_segments plain_tools (drop (turn_begins sample_rerun) sample_rerun))"
    using fresh shaped by (auto simp: turn_results_def written_in_def integer_digits_def plain_tools_def finditer_def list_ex_iff
        intro!: exI [of _ "''id''"])
  then show ?thesis using rerun_guard_exact [OF latest, of plain_tools sample_work "[]"] by simp
qed

end
