(* ===== verification/Turn.thy ===== *)
theory Turn
  imports Recording
begin

text \<open>
  The chat turn as a durable run (\<open>runtime/src/turn/definition.rs\<close> and \<open>step.rs\<close>).  Holdpoint re-executes the definition over
  the steps it has journaled (\<open>vendor/holdpoint/src/ctx.rs\<close>).  What the definition reads of its \<open>Ctx\<close> is the list of finished
  steps still to be replayed; what it does to the world is the list of what it asked.  A list that runs out is the suspension
  in which the run waits for its next answer, and a recorded step that does not match the call is the run's nondeterminism.
  Outside its \<open>Ctx\<close> the definition reads one thing that changes between executions, the wall clock of the rerun guard.
\<close>

section \<open>The journal\<close>

record failure =
  failure_code :: string
  failure_message :: string

text \<open>
  A finished step as the ledger keeps it.  A model step is found again by its kind and name alone; the deferred requests of a
  batch are kept with their digests, which stand here for the requests themselves, and their results.
\<close>

datatype step_answer = Model_Answer "failure + json" | Team_Answer "(string \<times> json) list" "json list"

datatype step_request = Model_Call json | Team_Call "(string \<times> json) list"

datatype interrupt = Suspended | Mismatched | Unrecoverable string

record journal =
  recorded_answers :: "step_answer list"
  asked_requests :: "step_request list"

definition journal_model :: "json \<Rightarrow> journal \<Rightarrow> (interrupt + failure + json) \<times> journal" where
  "journal_model request j =
     (let j' = j\<lparr>asked_requests := asked_requests j @ [Model_Call request]\<rparr>
      in case recorded_answers j of
           [] \<Rightarrow> (Inl Suspended, j')
         | Model_Answer reply # rest \<Rightarrow> (Inr reply, j'\<lparr>recorded_answers := rest\<rparr>)
         | Team_Answer _ _ # _ \<Rightarrow> (Inl Mismatched, j'))"

definition journal_deferred :: "(string \<times> json) list \<Rightarrow> journal \<Rightarrow> (interrupt + json list) \<times> journal" where
  "journal_deferred requests j =
     (let j' = j\<lparr>asked_requests := asked_requests j @ [Team_Call requests]\<rparr>
      in case recorded_answers j of
           [] \<Rightarrow> (Inl Suspended, j')
         | Team_Answer batch replies # rest \<Rightarrow>
             if batch = requests then (Inr replies, j'\<lparr>recorded_answers := rest\<rparr>) else (Inl Mismatched, j')
         | Model_Answer _ # _ \<Rightarrow> (Inl Mismatched, j'))"

section \<open>A run's state\<close>

definition RECURSION_LIMIT :: nat where "RECURSION_LIMIT = 12"
definition MAX_REPLY_CHARS :: nat where "MAX_REPLY_CHARS = 60000"

datatype failed = Failed_Contract string | Failed_Provider | Failed_Cancelled

definition failed_value :: "failed \<Rightarrow> json" where
  "failed_value f =
     (let (kind, detail) = (case f of
            Failed_Contract detail \<Rightarrow> (''contract'', detail)
          | Failed_Provider \<Rightarrow> (''provider'', [])
          | Failed_Cancelled \<Rightarrow> (''cancelled'', []))
      in object [(''error'', object [(''kind'', String kind), (''detail'', String detail)])])"

definition failed_from :: "json \<Rightarrow> failed option" where
  "failed_from v = do {
     err \<leftarrow> get v ''error'';
     kind \<leftarrow> str_of err ''kind'';
     if kind = ''contract'' then map_option Failed_Contract (str_of err ''detail'')
     else if kind = ''provider'' then Some Failed_Provider
     else if kind = ''cancelled'' then Some Failed_Cancelled
     else None }"

datatype stop = Interrupted interrupt | Failed failed

fun failed_of :: "brain_error \<Rightarrow> failed" where
  "failed_of (Contract detail) = Failed_Contract detail"
| "failed_of (Cancelled _) = Failed_Cancelled"
| "failed_of _ = Failed_Provider"

definition failure_of :: "failure \<Rightarrow> failed" where
  "failure_of f =
     (if failure_code f = ''cancelled'' then Failed_Cancelled
      else if failure_code f = ''contract'' then Failed_Contract (failure_message f)
      else Failed_Provider)"

text \<open>
  What one execution works with.  \<open>tt_clock n\<close> is the UTC date \<open>prompt::utc_date\<close> reads when the conversation has \<open>n\<close>
  messages: two executions of the same run have each their own.
\<close>

record turn_tools =
  tt_routine :: routine_tools
  tt_asks :: "string \<Rightarrow> string option \<Rightarrow> bool option"
  tt_engine :: engine
  tt_clock :: "nat \<Rightarrow> int \<times> int \<times> int"

abbreviation env_parse :: "turn_tools \<Rightarrow> string \<Rightarrow> json option" where
  "env_parse t \<equiv> mt_parse (rt_memory (tt_routine t))"

record turn =
  td_input :: turn_input
  td_messages :: "message list"
  td_prefix :: string
  td_counter :: nat
  td_steps :: nat
  td_first_segment :: bool
  td_after_browser :: bool

definition new_turn :: "turn_tools \<Rightarrow> string \<Rightarrow> turn_input \<Rightarrow> turn" where
  "new_turn t run_id input =
     \<lparr>td_input = input, td_messages = input_messages input, td_prefix = hex (take 8 (rt_digest (tt_routine t) run_id)),
      td_counter = 0, td_steps = 0, td_first_segment = True, td_after_browser = False\<rparr>"

definition next_id :: "string \<Rightarrow> turn \<Rightarrow> string \<times> turn" where
  "next_id kind s =
     (let n = Suc (td_counter s)
      in (''brain-'' @ td_prefix s @ ''-'' @ kind @ dec_of_nat n, s\<lparr>td_counter := n\<rparr>))"

definition interrupt_id_next :: "turn_tools \<Rightarrow> turn \<Rightarrow> string \<times> turn" where
  "interrupt_id_next t s =
     (let n = Suc (td_counter s)
      in (hex (take 16 (rt_digest (tt_routine t) (td_prefix s @ '':i'' @ dec_of_nat n))), s\<lparr>td_counter := n\<rparr>))"

definition take_steps :: "nat \<Rightarrow> turn \<Rightarrow> stop + turn" where
  "take_steps n s =
     (if td_steps s + n > RECURSION_LIMIT then Inl (Failed Failed_Provider) else Inr (s\<lparr>td_steps := td_steps s + n\<rparr>))"

definition push_message :: "message \<Rightarrow> turn \<Rightarrow> turn" where
  "push_message m s = s\<lparr>td_messages := td_messages s @ [m]\<rparr>"

definition resumed :: "bool \<Rightarrow> turn \<Rightarrow> turn" where
  "resumed browsed s = s\<lparr>td_steps := 0, td_first_segment := False, td_after_browser := browsed\<rparr>"

section \<open>The model call\<close>

definition action_names :: "turn_input \<Rightarrow> string list" where
  "action_names input = map spec_name (filter (\<lambda>spec. strict_flag spec = Some False) (input_tools input))"

text \<open>\<open>attachments::dispatched\<close>: the provider attempts recorded after the turn message, saturating at 32 bits.\<close>

definition dispatched :: "message list \<Rightarrow> string \<Rightarrow> nat" where
  "dispatched messages ident =
     foldl (\<lambda>sum turn. min (2 ^ 32 - 1) (sum + max 1 (turn_attempts turn))) 0
       (List.map_filter assistant (drop 1 (dropWhile (\<lambda>m. message_id m \<noteq> ident) messages)))"

definition chat_request :: "turn \<Rightarrow> json" where
  "chat_request s =
     (let input = td_input s;
          ctx = input_context input;
          tools = (if td_after_browser s then [] else map tool_value (input_tools input));
          ident = the_or [] (turn_message_id ctx);
          reserved = (if any_attachment (attachments ctx) then dispatched (td_messages s) ident else 0)
      in object
           [(''kind'', String ''chat''),
            (''provider'', String (provider_text (ctx_provider ctx))),
            (''model'', String (ctx_model ctx)),
            (''system'', String (input_system input)),
            (''messages'', conversation_value (td_messages s)),
            (''tools'', Array tools),
            (''cache'', Bool (ctx_provider ctx = Anthropic)),
            (''charge'', uint_json (attachment_charge (attachments ctx))),
            (''reserved'', uint_json reserved),
            (''turn_message_id'', String ident)])"

definition read_turn :: "turn_tools \<Rightarrow> json \<Rightarrow> turn \<Rightarrow> stop + (assistant_message \<times> turn)" where
  "read_turn t reply s =
     (case answer_from (env_parse t) reply ''message'' of
        Some (Some v) \<Rightarrow>
          (case message_from v of
             Some (Assistant m) \<Rightarrow>
               if turn_truncated m then Inl (Failed Failed_Provider)
               else (case next_id ''a'' s of (ident, s') \<Rightarrow> Inr (m\<lparr>turn_id := ident\<rparr>, s'))
           | _ \<Rightarrow> Inl (Failed Failed_Provider))
      | _ \<Rightarrow> Inl (Failed Failed_Provider))"

definition call_model :: "turn_tools \<Rightarrow> turn \<Rightarrow> journal \<Rightarrow> (stop + (assistant_message \<times> turn)) \<times> journal" where
  "call_model t s j =
     (case take_steps 1 s of
        Inl stop \<Rightarrow> (Inl stop, j)
      | Inr s' \<Rightarrow>
          (case journal_model (call_json (chat_request s')) j of
             (Inl i, j') \<Rightarrow> (Inl (Interrupted i), j')
           | (Inr (Inl f), j') \<Rightarrow> (Inl (Failed (failure_of f)), j')
           | (Inr (Inr reply), j') \<Rightarrow> (read_turn t reply s', j')))"

section \<open>The guards\<close>

datatype guard = After_Browser | Browser_Alone | Rerun_Guard | Routine_Guard | Memory_Guard | Clarification_Guard

datatype reviewed = Run_Calls | Refused string | Recorded string

definition guards_of :: "turn \<Rightarrow> guard list" where
  "guards_of s =
     (let input = td_input s;
          ctx = input_context input
      in (if td_after_browser s then [After_Browser] else []) @
         (if browser_tool input then [Browser_Alone] else []) @
         (if routine_rerun ctx \<noteq> None then [Rerun_Guard] else []) @
         (if routine_tool input then [Routine_Guard] else []) @
         (if memory_tool input then [Memory_Guard] else []) @
         [Clarification_Guard])"

definition refused_by :: "review \<Rightarrow> brain_error + reviewed" where
  "refused_by r =
     (case r of
        Inl err \<Rightarrow> Inl err
      | Inr None \<Rightarrow> Inr Run_Calls
      | Inr (Some correction) \<Rightarrow> Inr (Refused correction))"

definition apply_guard :: "turn_tools \<Rightarrow> turn \<Rightarrow> guard \<Rightarrow> brain_error + reviewed" where
  "apply_guard t s guard =
     (let messages = td_messages s;
          ctx = input_context (td_input s);
          r = tt_routine t
      in case guard of
           After_Browser \<Rightarrow> refused_by (review_after messages)
         | Browser_Alone \<Rightarrow> refused_by (review_alone messages)
         | Rerun_Guard \<Rightarrow>
             refused_by (rerun_review (r\<lparr>rt_today := tt_clock t (length messages)\<rparr>) messages (the_or [] (routine_rerun ctx))
               (action_names (td_input s)))
         | Routine_Guard \<Rightarrow>
             (case review_routine r messages ctx of
                Inl err \<Rightarrow> Inl err
              | Inr Pass \<Rightarrow> Inr Run_Calls
              | Inr (Refuse correction) \<Rightarrow> Inr (Refused correction)
              | Inr (Record outcome) \<Rightarrow> Inr (Recorded outcome))
         | Memory_Guard \<Rightarrow> refused_by (review_memory (rt_memory r) messages (td_first_segment s))
         | Clarification_Guard \<Rightarrow>
             refused_by (review_clarification (mt_unicode (rt_memory r)) (tt_asks t) messages (td_first_segment s)
               (routine_mode ctx) (locale_id ctx)))"

fun review_guards :: "turn_tools \<Rightarrow> guard list \<Rightarrow> turn \<Rightarrow> stop + (reviewed \<times> turn)" where
  "review_guards t [] s = Inr (Run_Calls, s)"
| "review_guards t (guard # guards) s =
     (case take_steps 1 s of
        Inl stop \<Rightarrow> Inl stop
      | Inr s' \<Rightarrow>
          (case apply_guard t s' guard of
             Inl err \<Rightarrow> Inl (Failed (failed_of err))
           | Inr Run_Calls \<Rightarrow> review_guards t guards s'
           | Inr other \<Rightarrow> Inr (other, s')))"

definition review_turn :: "turn_tools \<Rightarrow> turn \<Rightarrow> stop + (reviewed \<times> turn)" where
  "review_turn t s = review_guards t (guards_of s) s"

text \<open>The latest model turn, and the answers every call of a refused one receives.\<close>

definition latest_of :: "turn \<Rightarrow> assistant_message option" where
  "latest_of s = latest_turn (td_messages s)"

definition answer_call :: "string \<Rightarrow> string \<Rightarrow> string \<Rightarrow> bool \<Rightarrow> turn \<Rightarrow> turn" where
  "answer_call ident name content err s =
     (case next_id ''t'' s of (fresh, s') \<Rightarrow>
        push_message (Tool \<lparr>result_id = fresh, result_call_id = ident, result_name = name, result_content = content,
          result_error = err\<rparr>) s')"

definition answer_all :: "string \<Rightarrow> turn \<Rightarrow> turn" where
  "answer_all content s =
     fold (\<lambda>call. answer_call (call_id call) (call_name call) content False)
       (case latest_of s of Some m \<Rightarrow> turn_calls m | None \<Rightarrow> []) s"

definition answer_lone :: "string \<Rightarrow> string \<Rightarrow> turn \<Rightarrow> turn" where
  "answer_lone name content s =
     (let ident = (case latest_of s of Some m \<Rightarrow> (case turn_calls m of call # _ \<Rightarrow> call_id call | [] \<Rightarrow> []) | None \<Rightarrow> [])
      in answer_call ident name content False s)"

section \<open>The tools node\<close>

datatype tool_answer = Answer_Now string bool | Answer_Team team_request

definition action_of :: "turn_tools \<Rightarrow> turn_context \<Rightarrow> string list \<Rightarrow> string \<Rightarrow> (string \<times> action_definition) option" where
  "action_of t ctx offered name =
     find (\<lambda>(who, action). action_tool_name (rt_digest (tt_routine t)) who (action_id action) = name \<and> name \<in> set offered)
       (concat (map (\<lambda>a. map (Pair (assistant_id a)) (actions a)) (assistants ctx)))"

definition invalid_tool :: "string \<Rightarrow> turn_input \<Rightarrow> string" where
  "invalid_tool name input =
     ''Error: '' @ name @ '' is not a valid tool, try one of ['' @ joined '', '' (map spec_name (input_tools input)) @ ''].''"

definition answer_tool_call :: "turn_tools \<Rightarrow> string list \<Rightarrow> tool_call \<Rightarrow> turn \<Rightarrow> stop + (tool_answer \<times> turn)" where
  "answer_tool_call t offered call s =
     (let input = td_input s;
          name = call_name call;
          known = (list_ex (\<lambda>spec. spec_name spec = name) (input_tools input) \<and> \<not> td_after_browser s)
      in if \<not> known then Inr (Answer_Now (invalid_tool name input) True, s)
         else case action_of t (input_context input) offered name of
           Some (who, action) \<Rightarrow>
             if \<not> action_valid (tt_engine t) action (call_arguments call)
             then Inr (Answer_Now (action_correction name action) False, s)
             else (case interrupt_id_next t s of (ident, s') \<Rightarrow>
               Inr (Answer_Team (Action_Request ident who (action_id action) (call_arguments call)), s'))
         | None \<Rightarrow>
             if name = CLARIFY_TOOL then Inr (Answer_Now CLARIFY_RECORDED False, s)
             else if name = MEMORY_TOOL then Inr (Answer_Now MEMORY_PROPOSED False, s)
             else if name = BROWSER_TOOL then
               (case browser_objective (mt_unicode (rt_memory (tt_routine t))) (call_arguments call) of
                  Inr objective \<Rightarrow>
                    (case interrupt_id_next t s of (ident, s') \<Rightarrow> Inr (Answer_Team (Browser_Request ident objective), s'))
                | Inl correction \<Rightarrow> Inr (Answer_Now correction False, s))
             else Inl (Failed (Failed_Contract ''the Routine tool runs only through its guard'')))"

fun tool_answers :: "turn_tools \<Rightarrow> string list \<Rightarrow> tool_call list \<Rightarrow> turn \<Rightarrow> stop + (tool_answer list \<times> turn)" where
  "tool_answers t offered [] s = Inr ([], s)"
| "tool_answers t offered (call # calls) s =
     (case answer_tool_call t offered call s of
        Inl stop \<Rightarrow> Inl stop
      | Inr (answer, s') \<Rightarrow>
          (case tool_answers t offered calls s' of
             Inl stop \<Rightarrow> Inl stop
           | Inr (answers, s'') \<Rightarrow> Inr (answer # answers, s'')))"

fun result_text :: "team_request \<Rightarrow> json \<Rightarrow> string" where
  "result_text (Action_Request _ _ _ _) v = (case v of String words \<Rightarrow> words | _ \<Rightarrow> dumps SPACED v)"
| "result_text (Browser_Request _ _) v = compact_text v"

definition requests_of :: "tool_answer list \<Rightarrow> team_request list" where
  "requests_of answers = List.map_filter (\<lambda>answer. case answer of Answer_Team request \<Rightarrow> Some request | _ \<Rightarrow> None) answers"

definition requests_json :: "team_request list \<Rightarrow> (string \<times> json) list" where
  "requests_json requests = map (\<lambda>request. (request_name request, request_to_json request)) requests"

definition team_results :: "turn_tools \<Rightarrow> team_request list \<Rightarrow> journal \<Rightarrow> (stop + json list) \<times> journal" where
  "team_results t requests j =
     (if requests = [] then (Inr [], j)
      else case journal_deferred (requests_json requests) j of
        (Inl i, j') \<Rightarrow> (Inl (Interrupted i), j')
      | (Inr replies, j') \<Rightarrow>
          (case opt_all (result_from (env_parse t)) replies of
             Some results \<Rightarrow> (Inr results, j')
           | None \<Rightarrow> (Inl (Failed Failed_Provider), j')))"

fun push_answers :: "(tool_call \<times> tool_answer) list \<Rightarrow> json list \<Rightarrow> turn \<Rightarrow> turn" where
  "push_answers [] results s = s"
| "push_answers ((call, Answer_Now content err) # rest) results s =
     push_answers rest results (answer_call (call_id call) (call_name call) content err s)"
| "push_answers ((call, Answer_Team request) # rest) results s =
     push_answers rest (tl results)
       (answer_call (call_id call) (call_name call) (result_text request (case results of v # _ \<Rightarrow> v | [] \<Rightarrow> Null)) False s)"

fun is_browser :: "team_request \<Rightarrow> bool" where
  "is_browser (Browser_Request _ _) = True"
| "is_browser _ = False"

definition run_tools :: "turn_tools \<Rightarrow> assistant_message \<Rightarrow> turn \<Rightarrow> journal \<Rightarrow> (stop + (bool \<times> turn)) \<times> journal" where
  "run_tools t latest s j =
     (case tool_answers t (action_names (td_input s)) (turn_calls latest) s of
        Inl stop \<Rightarrow> (Inl stop, j)
      | Inr (answers, s') \<Rightarrow>
          let requests = requests_of answers
          in case team_results t requests j of
               (Inl stop, j') \<Rightarrow> (Inl stop, j')
             | (Inr results, j') \<Rightarrow>
                 let pushed = push_answers (zip (turn_calls latest) answers) results s'
                 in (Inr (list_ex (\<lambda>call. call_name call = CLARIFY_TOOL) (turn_calls latest),
                       if requests = [] then pushed else resumed (list_ex is_browser requests) pushed), j'))"

section \<open>The settled reply\<close>

record settled =
  settled_reply :: string
  settled_clarification :: "clarification option"
  settled_routine :: "json option"

definition remember :: "string \<Rightarrow> turn \<Rightarrow> turn" where
  "remember words s =
     (case next_id ''a'' s of (ident, s') \<Rightarrow>
        push_message (Assistant \<lparr>turn_id = ident, turn_text = words, turn_calls = [], turn_invalid_calls = [],
          turn_refusal = False, turn_truncated = False,
          turn_provider = provider_text (ctx_provider (input_context (td_input s))), turn_raw = None, turn_attempts = 1\<rparr>) s')"

definition settle_recorded :: "turn_tools \<Rightarrow> turn \<Rightarrow> (settled \<times> turn) option" where
  "settle_recorded t s =
     (case clarification_recorded (mt_unicode (rt_memory (tt_routine t))) (td_messages s) of
        Some asked \<Rightarrow>
          let asked = (if routine_mode (input_context (td_input s)) then asked\<lparr>default_index := None\<rparr> else asked);
              reply = clarification_render asked
          in Some (\<lparr>settled_reply = reply, settled_clarification = Some asked, settled_routine = None\<rparr>, remember reply s)
      | None \<Rightarrow>
          (case routine_recorded (env_parse t) (td_messages s) of
             None \<Rightarrow> None
           | Some (reply, recorded) \<Rightarrow>
               let remembered = (if reply = [] then the_or [] (str_of recorded ''description'') else reply)
               in Some (\<lparr>settled_reply = reply, settled_clarification = None, settled_routine = Some recorded\<rparr>,
                    remember remembered s)))"

definition last_assistant :: "turn \<Rightarrow> nat option" where
  "last_assistant s =
     (let n = length (td_messages s);
          start = min (turn_start (td_input s)) n
      in find (\<lambda>i. assistant (td_messages s ! i) \<noteq> None) (rev [start..<n]))"

definition shorten :: "string \<Rightarrow> message \<Rightarrow> message" where
  "shorten reply m = (case m of Assistant turn \<Rightarrow> Assistant (turn\<lparr>turn_text := reply, turn_raw := None\<rparr>) | _ \<Rightarrow> m)"

definition settle :: "turn_tools \<Rightarrow> turn \<Rightarrow> stop + (settled \<times> turn)" where
  "settle t s =
     (case settle_recorded t s of
        Some settled \<Rightarrow> Inr settled
      | None \<Rightarrow>
          let missing = Inl (Failed (Failed_Contract ''graph completed without an Assistant reply''))
          in case last_assistant s of
               None \<Rightarrow> missing
             | Some i \<Rightarrow>
                 let shown = final_reply (td_messages s ! i);
                     reply = concat (take MAX_REPLY_CHARS (chars shown))
                 in if shown = [] then missing
                    else Inr (\<lparr>settled_reply = reply, settled_clarification = None, settled_routine = None\<rparr>,
                      if reply \<noteq> shown then s\<lparr>td_messages := (td_messages s)[i := shorten reply (td_messages s ! i)]\<rparr> else s))"

definition check_request :: "turn \<Rightarrow> string \<Rightarrow> json" where
  "check_request s prompt =
     (let ctx = input_context (td_input s)
      in object
           [(''kind'', String ''check''),
            (''provider'', String (provider_text (ctx_provider ctx))),
            (''model'', String (ctx_model ctx)),
            (''prompt'', String prompt)])"

definition check_memory :: "turn_tools \<Rightarrow> turn \<Rightarrow> journal \<Rightarrow> (stop + memory_change list) \<times> journal" where
  "check_memory t s j =
     (case confirmation (rt_memory (tt_routine t)) (td_messages s) (memories (input_context (td_input s))) of
        None \<Rightarrow> (Inr [], j)
      | Some (prompt, changes) \<Rightarrow>
          (case journal_model (call_json (check_request s prompt)) j of
             (Inl i, j') \<Rightarrow> (Inl (Interrupted i), j')
           | (Inr (Inl f), j') \<Rightarrow> (Inl (Failed (failure_of f)), j')
           | (Inr (Inr reply), j') \<Rightarrow>
               (Inr (accepted_changes changes (Option.bind (answer_from (env_parse t) reply ''verdict'') (\<lambda>v. v))), j')))"

definition settled_value :: "settled \<Rightarrow> memory_change list \<Rightarrow> json" where
  "settled_value settled changes =
     object
       [(''status'', String ''completed''),
        (''reply'', String (settled_reply settled)),
        (''clarification'', case settled_clarification settled of None \<Rightarrow> Null | Some asked \<Rightarrow> clarification_value asked),
        (''memory'', Array (map memory_change_value changes)),
        (''routine'', the_or Null (settled_routine settled)),
        (''browser'', Null),
        (''actions'', Array [])]"

definition finish_turn :: "turn_tools \<Rightarrow> turn \<Rightarrow> journal \<Rightarrow> (stop + json) \<times> journal" where
  "finish_turn t s j =
     (case settle t s of
        Inl stop \<Rightarrow> (Inl stop, j)
      | Inr (settled, s') \<Rightarrow>
          (case check_memory t s' j of
             (Inl stop, j') \<Rightarrow> (Inl stop, j')
           | (Inr changes, j') \<Rightarrow>
               (Inr (object [(''turn'', settled_value settled changes), (''messages'', conversation_value (td_messages s'))]), j')))"

section \<open>The run\<close>

text \<open>One pass of the loop of \<open>drive\<close>: the turn goes on, or finishes.\<close>

datatype pass = Go_On turn | Finish turn

definition drive_pass :: "turn_tools \<Rightarrow> turn \<Rightarrow> journal \<Rightarrow> (stop + pass) \<times> journal" where
  "drive_pass t s j =
     (case call_model t s j of
        (Inl stop, j') \<Rightarrow> (Inl stop, j')
      | (Inr (m, s'), j') \<Rightarrow>
          (case review_turn t (push_message (Assistant m) s') of
             Inl stop \<Rightarrow> (Inl stop, j')
           | Inr (Refused correction, r) \<Rightarrow> (Inr (Go_On (answer_all correction r)), j')
           | Inr (Recorded content, r) \<Rightarrow> (Inr (Finish (answer_lone ROUTINE_TOOL content r)), j')
           | Inr (Run_Calls, r) \<Rightarrow>
               if turn_calls m = [] then (Inr (Finish r), j')
               else (case take_steps 1 r of
                       Inl stop \<Rightarrow> (Inl stop, j')
                     | Inr r' \<Rightarrow>
                         (case run_tools t m r' j' of
                            (Inl stop, j'') \<Rightarrow> (Inl stop, j'')
                          | (Inr (ended, r''), j'') \<Rightarrow> (Inr (if ended then Finish r'' else Go_On r''), j'')))))"

lemma journal_model_answers:
  "journal_model request j = (Inr r, j') \<Longrightarrow> length (recorded_answers j') < length (recorded_answers j)"
  by (auto simp: journal_model_def Let_def split: list.splits step_answer.splits)

lemma journal_deferred_answers:
  "journal_deferred requests j = (Inr r, j') \<Longrightarrow> length (recorded_answers j') < length (recorded_answers j)"
  by (auto simp: journal_deferred_def Let_def split: list.splits step_answer.splits if_splits)

lemma call_model_answers:
  "call_model t s j = (Inr r, j') \<Longrightarrow> length (recorded_answers j') < length (recorded_answers j)"
  by (auto simp: call_model_def split: sum.splits prod.splits dest: journal_model_answers)

lemma run_tools_answers:
  "run_tools t m s j = (Inr r, j') \<Longrightarrow> length (recorded_answers j') \<le> length (recorded_answers j)"
  by (auto simp: run_tools_def team_results_def Let_def split: sum.splits prod.splits if_splits option.splits
      dest: journal_deferred_answers)

lemma drive_pass_answers:
  "drive_pass t s j = (Inr p, j') \<Longrightarrow> length (recorded_answers j') < length (recorded_answers j)"
  by (auto simp: drive_pass_def split: sum.splits prod.splits reviewed.splits if_splits
      dest!: call_model_answers run_tools_answers)

function drive :: "turn_tools \<Rightarrow> turn \<Rightarrow> journal \<Rightarrow> (stop + json) \<times> journal" where
  "drive t s j =
     (case drive_pass t s j of
        (Inl stop, j') \<Rightarrow> (Inl stop, j')
      | (Inr (Finish s'), j') \<Rightarrow> finish_turn t s' j'
      | (Inr (Go_On s'), j') \<Rightarrow> drive t s' j')"
  by pat_completeness auto

termination
  by (relation "measure (\<lambda>(t, s, j). length (recorded_answers j))") (auto dest: drive_pass_answers [OF sym])

declare drive.simps [simp del]

text \<open>\<open>Definition::run\<close>: the outcome of the run, or the interrupt it propagates.\<close>

definition run_turn :: "turn_tools \<Rightarrow> string \<Rightarrow> json \<Rightarrow> journal \<Rightarrow> (interrupt + json) \<times> journal" where
  "run_turn t run_id captured j =
     (case input_from_json (env_parse t) captured of
        None \<Rightarrow> (Inl (Unrecoverable ''invalid-input''), j)
      | Some input \<Rightarrow>
          (case drive t (new_turn t run_id input) j of
             (Inr result, j') \<Rightarrow> (Inr (outcome_json result), j')
           | (Inl (Interrupted i), j') \<Rightarrow> (Inl i, j')
           | (Inl (Failed f), j') \<Rightarrow> (Inr (outcome_json (failed_value f)), j')))"

definition turn_fixed_tokens :: "turn \<Rightarrow> nat" where
  "turn_fixed_tokens s =
     fixed_tokens (input_system (td_input s)) (map tool_value (input_tools (td_input s))) +
     attachment_charge (attachments (input_context (td_input s)))"

end
