(* ===== verification/Runs.thy ===== *)
theory Runs
  imports Turn "HOL-Library.Sublist"
begin

text \<open>
  What holds of every run of the chat turn: a locale for the steps Holdpoint may replay, with the run as its instance, and
  the invariants of the loop of \<open>drive\<close> over what it has asked.
\<close>

section \<open>Effects of the operations\<close>

lemma call_model_Inr:
  assumes "call_model t s j = (Inr (m, s'), j')"
  shows "td_steps s < RECURSION_LIMIT"
    "asked_requests j' = asked_requests j @ [Model_Call (call_json (chat_request (s\<lparr>td_steps := Suc (td_steps s)\<rparr>)))]"
    "s' = s\<lparr>td_steps := Suc (td_steps s), td_counter := Suc (td_counter s)\<rparr>"
  using assms
  by (auto simp: call_model_def take_steps_def journal_model_def read_turn_def next_id_def Let_def
      split: if_splits list.splits step_answer.splits sum.splits option.splits message.splits)

lemma call_model_Inl:
  assumes "call_model t s j = (Inl stop, j')"
  shows "asked_requests j' = asked_requests j \<or> td_steps s < RECURSION_LIMIT \<and>
    asked_requests j' = asked_requests j @ [Model_Call (call_json (chat_request (s\<lparr>td_steps := Suc (td_steps s)\<rparr>)))]"
  using assms
  by (auto simp: call_model_def take_steps_def journal_model_def Let_def
      split: if_splits list.splits step_answer.splits sum.splits)

lemma review_guards_Inr:
  "review_guards t guards s = Inr (r, s') \<Longrightarrow> \<exists>n. s' = s\<lparr>td_steps := n\<rparr> \<and> td_steps s + (if guards = [] then 0 else 1) \<le> n \<and>
     (guards = [] \<or> n \<le> RECURSION_LIMIT)"
proof (induction guards arbitrary: s)
  case (Cons guard guards)
  define s1 where "s1 = s\<lparr>td_steps := Suc (td_steps s)\<rparr>"
  have step: "take_steps 1 s = Inr s1" "td_steps s1 \<le> RECURSION_LIMIT"
    using Cons.prems by (auto simp: take_steps_def s1_def split: if_splits)
  show ?case
  proof (cases "apply_guard t s1 guard")
    case (Inr verdict)
    show ?thesis
    proof (cases "verdict = Run_Calls")
      case True
      then have "review_guards t guards s1 = Inr (r, s')" using Cons.prems step Inr by simp
      from Cons.IH [OF this] obtain n where n: "s' = s1\<lparr>td_steps := n\<rparr>" "td_steps s1 \<le> n" "guards = [] \<or> n \<le> RECURSION_LIMIT"
        by (auto split: if_splits)
      show ?thesis
      proof (cases "guards = []")
        case True
        then have "s' = s\<lparr>td_steps := Suc (td_steps s)\<rparr>" using \<open>review_guards t guards s1 = Inr (r, s')\<close> by (simp add: s1_def)
        then show ?thesis using step(2) by (intro exI [of _ "Suc (td_steps s)"]) (simp add: s1_def)
      next
        case False
        then show ?thesis using n by (intro exI [of _ n]) (simp add: s1_def)
      qed
    next
      case False
      then have "s' = s1" using Cons.prems step Inr by (cases verdict) simp_all
      then show ?thesis using step(2) by (auto simp: s1_def)
    qed
  qed (use Cons.prems step in simp)
next
  case Nil
  then show ?case by (auto intro!: exI [of _ "td_steps s"])
qed

lemma guards_of_some: "guards_of s \<noteq> []"
  by (simp add: guards_of_def Let_def)

lemma review_turn_Inr:
  assumes "review_turn t s = Inr (r, s')"
  obtains n where "s' = s\<lparr>td_steps := n\<rparr>" "Suc (td_steps s) \<le> n" "n \<le> RECURSION_LIMIT"
  using review_guards_Inr [of t "guards_of s" s r s'] assms guards_of_some [of s] by (auto simp: review_turn_def)

text \<open>What answering calls leaves as it was.\<close>

definition same_turn :: "turn \<Rightarrow> turn \<Rightarrow> bool" where
  "same_turn s s' \<longleftrightarrow> td_input s' = td_input s \<and> td_steps s' = td_steps s \<and> td_after_browser s' = td_after_browser s"

lemma same_turn_refl [simp]: "same_turn s s" by (simp add: same_turn_def)

lemma same_turn_trans: "same_turn s s' \<Longrightarrow> same_turn s' s'' \<Longrightarrow> same_turn s s''" by (simp add: same_turn_def)

lemma same_turn_answer_call [simp]: "same_turn s (answer_call ident name content err s)"
  by (simp add: same_turn_def answer_call_def next_id_def push_message_def Let_def)

lemma same_turn_fold: "same_turn s (fold (\<lambda>call. answer_call (call_id call) (call_name call) content err) calls s)"
  by (induction calls arbitrary: s) (auto intro: same_turn_trans [OF same_turn_answer_call])

lemma same_turn_answer_all [simp]: "same_turn s (answer_all content s)"
  by (simp add: answer_all_def same_turn_fold)

lemma same_turn_answer_lone [simp]: "same_turn s (answer_lone name content s)"
  by (simp add: answer_lone_def Let_def)

lemma same_turn_push_answers: "same_turn s (push_answers pairs results s)"
  by (induction pairs results s rule: push_answers.induct) (auto intro: same_turn_trans [OF same_turn_answer_call])

lemma tool_answers_Inr:
  "tool_answers t offered calls s = Inr (answers, s') \<Longrightarrow>
     length answers = length calls \<and> same_turn s s' \<and> td_messages s' = td_messages s"
proof (induction calls arbitrary: s answers)
  case (Cons call calls)
  then obtain a s1 rest where one: "answer_tool_call t offered call s = Inr (a, s1)"
      and rest: "tool_answers t offered calls s1 = Inr (rest, s')" "answers = a # rest"
    by (auto split: sum.splits)
  have "same_turn s s1 \<and> td_messages s1 = td_messages s"
    using one by (auto simp: answer_tool_call_def interrupt_id_next_def same_turn_def Let_def split: if_splits option.splits sum.splits)
  then show ?case using Cons.IH [OF rest(1)] rest(2) same_turn_trans by fastforce
qed simp

lemma run_tools_Inr:
  assumes "run_tools t m s j = (Inr (ended, s'), j')"
  obtains answers s1 results where "tool_answers t (action_names (td_input s)) (turn_calls m) s = Inr (answers, s1)"
    "requests_of answers = [] \<and> j' = j \<and> s' = push_answers (zip (turn_calls m) answers) results s1 \<or>
     requests_of answers \<noteq> [] \<and> asked_requests j' = asked_requests j @ [Team_Call (requests_json (requests_of answers))] \<and>
     s' = resumed (list_ex is_browser (requests_of answers)) (push_answers (zip (turn_calls m) answers) results s1)"
    "ended = list_ex (\<lambda>call. call_name call = CLARIFY_TOOL) (turn_calls m)"
  using assms that
  by (fastforce simp: run_tools_def team_results_def journal_deferred_def Let_def
      split: sum.splits prod.splits if_splits option.splits list.splits step_answer.splits)

lemma run_tools_Inl:
  assumes "run_tools t m s j = (Inl stop, j')"
  shows "asked_requests j' = asked_requests j \<or> (\<exists>answers s1.
     tool_answers t (action_names (td_input s)) (turn_calls m) s = Inr (answers, s1) \<and> requests_of answers \<noteq> [] \<and>
     asked_requests j' = asked_requests j @ [Team_Call (requests_json (requests_of answers))])"
  using assms
  by (auto simp: run_tools_def team_results_def journal_deferred_def Let_def
      split: sum.splits prod.splits if_splits option.splits list.splits step_answer.splits)

lemma finish_turn_asked:
  "\<exists>checks. asked_requests (snd (finish_turn t s j)) = asked_requests j @ checks \<and>
     (checks = [] \<or> (\<exists>s' prompt. td_input s' = td_input s \<and> checks = [Model_Call (call_json (check_request s' prompt))]))"
proof (cases "settle t s")
  case (Inr r)
  obtain settled s' where r: "r = (settled, s')" by fastforce
  have "td_input s' = td_input s"
    using Inr unfolding r settle_def settle_recorded_def
    by (auto simp: Let_def remember_def next_id_def push_message_def split: option.splits prod.splits if_splits)
  moreover have "asked_requests (snd (finish_turn t s j)) = asked_requests (snd (check_memory t s' j))"
    using Inr by (simp add: finish_turn_def r split: sum.splits prod.splits)
  moreover have "asked_requests (snd (check_memory t s' j)) = asked_requests j \<or>
      (\<exists>prompt. asked_requests (snd (check_memory t s' j)) = asked_requests j @ [Model_Call (call_json (check_request s' prompt))])"
    by (auto simp: check_memory_def journal_model_def Let_def split: option.splits sum.splits prod.splits list.splits step_answer.splits)
  ultimately show ?thesis by (elim disjE exE) auto
qed (simp add: finish_turn_def)

text \<open>The state in which a response is reviewed, and the request that got it.\<close>

definition called_turn :: "turn \<Rightarrow> turn" where
  "called_turn s = s\<lparr>td_steps := Suc (td_steps s)\<rparr>"

definition replied_turn :: "assistant_message \<Rightarrow> turn \<Rightarrow> turn" where
  "replied_turn m s = push_message (Assistant m) (s\<lparr>td_steps := Suc (td_steps s), td_counter := Suc (td_counter s)\<rparr>)"

text \<open>Everything a pass can do: stop before asking, stop on what it asked, end without tools, or run the tools.\<close>

lemma drive_pass_cases:
  assumes "drive_pass t s j = (r, j')"
  obtains (Nothing) stop where "r = Inl stop" "asked_requests j' = asked_requests j"
  | (Stopped) stop where "r = Inl stop" "td_steps s < RECURSION_LIMIT"
      "asked_requests j' = asked_requests j @ [Model_Call (call_json (chat_request (called_turn s)))]"
  | (Answered) m v n where "td_steps s < RECURSION_LIMIT"
      "asked_requests j' = asked_requests j @ [Model_Call (call_json (chat_request (called_turn s)))]"
      "review_turn t (replied_turn m s) = Inr (v, replied_turn m s\<lparr>td_steps := n\<rparr>)" "Suc (Suc (td_steps s)) \<le> n"
      "(\<exists>correction. v = Refused correction \<and> r = Inr (Go_On (answer_all correction (replied_turn m s\<lparr>td_steps := n\<rparr>)))) \<or>
       (\<exists>content. v = Recorded content \<and> r = Inr (Finish (answer_lone ROUTINE_TOOL content (replied_turn m s\<lparr>td_steps := n\<rparr>)))) \<or>
       v = Run_Calls \<and> turn_calls m = [] \<and> r = Inr (Finish (replied_turn m s\<lparr>td_steps := n\<rparr>))"
  | (Team_Stopped) m q stop requests where "td_steps s < RECURSION_LIMIT" "r = Inl stop" "requests \<noteq> []"
      "review_turn t (replied_turn m s) = Inr (Run_Calls, q)" "turn_calls m \<noteq> []"
      "asked_requests j' = asked_requests j @ [Model_Call (call_json (chat_request (called_turn s)))] @ [Team_Call (requests_json requests)]"
  | (Ran) m q n answers s1 results where "td_steps s < RECURSION_LIMIT" "review_turn t (replied_turn m s) = Inr (Run_Calls, q)"
      "turn_calls m \<noteq> []" "Suc (Suc (td_steps s)) \<le> n"
      "tool_answers t (action_names (td_input s)) (turn_calls m) (replied_turn m s\<lparr>td_steps := n\<rparr>) = Inr (answers, s1)"
      "let pushed = push_answers (zip (turn_calls m) answers) results s1; called = asked_requests j @ [Model_Call (call_json (chat_request (called_turn s)))];
           ended = list_ex (\<lambda>call. call_name call = CLARIFY_TOOL) (turn_calls m)
       in requests_of answers = [] \<and> asked_requests j' = called \<and> r = Inr (if ended then Finish pushed else Go_On pushed) \<or>
         requests_of answers \<noteq> [] \<and> asked_requests j' = called @ [Team_Call (requests_json (requests_of answers))] \<and>
         (let w = resumed (list_ex is_browser (requests_of answers)) pushed in r = Inr (if ended then Finish w else Go_On w))"
proof (cases "call_model t s j")
  case (Pair c j1)
  show ?thesis
  proof (cases c)
    case (Inl stop)
    then have "r = Inl stop" "j' = j1" using assms Pair by (simp_all add: drive_pass_def)
    then show ?thesis using call_model_Inl [of t s j stop j1] Pair Inl Nothing Stopped by (auto simp: called_turn_def)
  next
    case (Inr ms)
    then obtain m s1 where c: "call_model t s j = (Inr (m, s1), j1)" using Pair by (cases ms) simp
    have called: "td_steps s < RECURSION_LIMIT"
        "asked_requests j1 = asked_requests j @ [Model_Call (call_json (chat_request (called_turn s)))]"
        "push_message (Assistant m) s1 = replied_turn m s"
      using call_model_Inr [OF c] by (simp_all add: called_turn_def replied_turn_def)
    have steps: "td_steps (replied_turn m s) = Suc (td_steps s)" by (simp add: replied_turn_def push_message_def)
    show ?thesis
    proof (cases "review_turn t (replied_turn m s)")
      case (Inl stop)
      then have "r = Inl stop" "j' = j1" using assms c called(3) by (simp_all add: drive_pass_def)
      then show ?thesis using Stopped called by blast
    next
      case (Inr vr)
      then obtain v q where q: "review_turn t (replied_turn m s) = Inr (v, q)" by (cases vr) simp
      then obtain n where n: "q = replied_turn m s\<lparr>td_steps := n\<rparr>" "Suc (Suc (td_steps s)) \<le> n"
        by (rule review_turn_Inr) (simp add: steps)
      show ?thesis
      proof (cases "v = Run_Calls \<and> turn_calls m \<noteq> []")
        case False
        then have "j' = j1" using assms c q called(3) by (cases v) (simp_all add: drive_pass_def)
        moreover have "(\<exists>correction. v = Refused correction \<and> r = Inr (Go_On (answer_all correction q))) \<or>
            (\<exists>content. v = Recorded content \<and> r = Inr (Finish (answer_lone ROUTINE_TOOL content q))) \<or>
            v = Run_Calls \<and> turn_calls m = [] \<and> r = Inr (Finish q)"
          using False assms c q called(3) by (cases v) (simp_all add: drive_pass_def)
        ultimately show ?thesis using Answered [of m v n] called q n by simp
      next
        case True
        show ?thesis
        proof (cases "take_steps 1 q")
          case (Inl stop)
          then have "r = Inl stop" "j' = j1" using assms c q called(3) True by (simp_all add: drive_pass_def)
          then show ?thesis using Stopped called by blast
        next
          case (Inr q1)
          then have q1: "q1 = replied_turn m s\<lparr>td_steps := Suc n\<rparr>" using n(1) by (simp add: take_steps_def split: if_splits)
          have input: "td_input q1 = td_input s" by (simp add: q1 replied_turn_def push_message_def)
          obtain u j2 where tools: "run_tools t m q1 j1 = (u, j2)" by fastforce
          then have r: "r = (case u of Inl stop \<Rightarrow> Inl stop | Inr (ended, w) \<Rightarrow> Inr (if ended then Finish w else Go_On w))" "j' = j2"
            using assms c q called(3) Inr True by (auto simp: drive_pass_def split: sum.splits prod.splits)
          show ?thesis
          proof (cases u)
            case (Inl stop)
            then show ?thesis using run_tools_Inl [of t m q1 j1 stop j2] tools r called q True Stopped Team_Stopped by fastforce
          next
            case (Inr ew)
            then obtain ended w where w: "run_tools t m q1 j1 = (Inr (ended, w), j2)" using tools by (cases ew) simp
            then obtain answers s2 results where a: "tool_answers t (action_names (td_input q1)) (turn_calls m) q1 = Inr (answers, s2)"
                "requests_of answers = [] \<and> j2 = j1 \<and> w = push_answers (zip (turn_calls m) answers) results s2 \<or>
                 requests_of answers \<noteq> [] \<and> asked_requests j2 = asked_requests j1 @ [Team_Call (requests_json (requests_of answers))] \<and>
                 w = resumed (list_ex is_browser (requests_of answers)) (push_answers (zip (turn_calls m) answers) results s2)"
                "ended = list_ex (\<lambda>call. call_name call = CLARIFY_TOOL) (turn_calls m)"
              by (rule run_tools_Inr)
            have "u = Inr (ended, w)" using tools w by simp
            then have "r = Inr (if ended then Finish w else Go_On w)" using r(1) by simp
            then show ?thesis
              using Ran [of m q "Suc n" answers s2 results] called(1,2) q True n(2) a r(2) unfolding input unfolding q1 Let_def by auto
          qed
        qed
      qed
    qed
  qed
qed

section \<open>Invariants of the loop\<close>

lemma drive_invariant:
  assumes start: "Q s j"
    and stopped: "\<And>s j stop j'. Q s j \<Longrightarrow> drive_pass t s j = (Inl stop, j') \<Longrightarrow> R (Inl stop, j')"
    and kept: "\<And>s j s' j'. Q s j \<Longrightarrow> drive_pass t s j = (Inr (Go_On s'), j') \<Longrightarrow> Q s' j'"
    and finished: "\<And>s j s' j'. Q s j \<Longrightarrow> drive_pass t s j = (Inr (Finish s'), j') \<Longrightarrow> R (finish_turn t s' j')"
  shows "R (drive t s j)"
proof -
  have "Q s j \<longrightarrow> R (drive t s j)" for s j
  proof (induction "length (recorded_answers j)" arbitrary: s j rule: less_induct)
    case less
    show ?case
    proof
      assume q: "Q s j"
      obtain r j' where pass: "drive_pass t s j = (r, j')" by fastforce
      show "R (drive t s j)"
      proof (cases r)
        case (Inl stop)
        then show ?thesis using stopped [OF q, of stop j'] pass by (simp add: drive.simps [of t s j])
      next
        case (Inr p)
        then have fewer: "length (recorded_answers j') < length (recorded_answers j)" using drive_pass_answers pass by simp
        show ?thesis
        proof (cases p)
          case (Go_On s')
          then show ?thesis using less fewer kept [OF q, of s' j'] pass Inr by (simp add: drive.simps [of t s j])
        next
          case (Finish s')
          then show ?thesis using finished [OF q, of s' j'] pass Inr by (simp add: drive.simps [of t s j])
        qed
      qed
    qed
  qed
  then show ?thesis using start by blast
qed

lemma run_turn_journal:
  "snd (run_turn t run_id captured j) =
     (case input_from_json (env_parse t) captured of None \<Rightarrow> j | Some input \<Rightarrow> snd (drive t (new_turn t run_id input) j))"
proof (cases "input_from_json (env_parse t) captured")
  case (Some input)
  obtain r j' where "drive t (new_turn t run_id input) j = (r, j')" by fastforce
  then show ?thesis using Some by (simp add: run_turn_def split: sum.split stop.split)
qed (simp add: run_turn_def)

section \<open>How often a run asks\<close>

fun is_team :: "step_request \<Rightarrow> bool" where
  "is_team (Team_Call _) = True"
| "is_team (Model_Call _) = False"

text \<open>The model calls between Team's answers, the latest run of them first.\<close>

definition model_runs :: "step_request list \<Rightarrow> nat list" where
  "model_runs asks = foldl (\<lambda>ns step. if is_team step then 0 # ns else Suc (hd ns) # tl ns) [0] asks"

lemma model_runs_Nil [simp]: "model_runs [] = [0]" by (simp add: model_runs_def)

lemma model_runs_team [simp]: "model_runs (asks @ [Team_Call requests]) = 0 # model_runs asks"
  by (simp add: model_runs_def)

lemma model_runs_model [simp]: "model_runs (asks @ [Model_Call request]) = Suc (hd (model_runs asks)) # tl (model_runs asks)"
  by (simp add: model_runs_def)

lemma model_runs_both [simp]:
  "model_runs (asks @ [Model_Call request, Team_Call requests]) = 0 # Suc (hd (model_runs asks)) # tl (model_runs asks)"
  using model_runs_team [of "asks @ [Model_Call request]" requests] by simp

lemma model_runs_some [simp]: "model_runs asks \<noteq> []"
proof (induction asks rule: rev_induct)
  case (snoc x xs)
  then show ?case by (cases x) simp_all
qed simp

text \<open>At the start of a pass: no run of model calls was longer than six, and the current one has taken two steps for each.\<close>

definition within_steps :: "turn \<Rightarrow> journal \<Rightarrow> bool" where
  "within_steps s j \<longleftrightarrow> (\<forall>n\<in>set (model_runs (asked_requests j)). n \<le> 6) \<and>
     2 * hd (model_runs (asked_requests j)) \<le> td_steps s"

definition run_bounded :: "step_request list \<Rightarrow> bool" where
  "run_bounded asks \<longleftrightarrow> (\<exists>chats checks. asks = chats @ checks \<and> length checks \<le> 1 \<and> (\<forall>n\<in>set (model_runs chats). n \<le> 6))"

lemma runs_hd_tl: "(\<forall>n\<in>set (model_runs asks). P n) \<longleftrightarrow> P (hd (model_runs asks)) \<and> (\<forall>n\<in>set (tl (model_runs asks)). P n)"
  by (cases "model_runs asks") simp_all

lemma pass_model_call:
  assumes "within_steps s j" "td_steps s < RECURSION_LIMIT"
  shows "(\<forall>n\<in>set (model_runs (asked_requests j @ [Model_Call request])). n \<le> 6) \<and>
    2 * hd (model_runs (asked_requests j @ [Model_Call request])) \<le> Suc (Suc (td_steps s))"
  using assms unfolding within_steps_def runs_hd_tl [of "asked_requests j"] by (auto simp: RECURSION_LIMIT_def)

lemma run_boundedI: "(\<forall>n\<in>set (model_runs asks). n \<le> 6) \<Longrightarrow> run_bounded asks"
  unfolding run_bounded_def by (intro exI [of _ asks] exI [of _ "[]"]) simp

lemma pushed_same: "tool_answers t offered calls s = Inr (answers, s') \<Longrightarrow> same_turn s (push_answers pairs results s')"
  using tool_answers_Inr same_turn_push_answers same_turn_trans by blast

lemma drive_pass_calls:
  assumes "within_steps s j" "drive_pass t s j = (r, j')"
  shows "(\<forall>n\<in>set (model_runs (asked_requests j')). n \<le> 6) \<and> (\<forall>s'. r = Inr (Go_On s') \<longrightarrow> within_steps s' j')"
proof -
  note within = assms(1)
  note called = pass_model_call [OF within, where request = "call_json (chat_request (called_turn s))"]
  have small: "\<forall>n\<in>set (model_runs (asked_requests j)). n \<le> 6" using within by (simp add: within_steps_def)
  from assms(2) show ?thesis
  proof (cases rule: drive_pass_cases)
    case (Answered m v n)
    have "within_steps s' j'" if "same_turn (replied_turn m s\<lparr>td_steps := n\<rparr>) s'" for s'
      using that called Answered(1,2,4) by (simp add: within_steps_def same_turn_def)
    then show ?thesis using Answered(5) called Answered(1,2) by auto
  next
    case (Ran m q n answers s1 results)
    have "td_steps (push_answers (zip (turn_calls m) answers) results s1) = n"
      using pushed_same [OF Ran(5)] by (simp add: same_turn_def)
    then show ?thesis using Ran(4,6) called [OF Ran(1)] by (auto simp: Let_def within_steps_def resumed_def split: if_splits)
  qed (use small called in \<open>auto\<close>)
qed


section \<open>Nothing runs after the Browser\<close>

definition browsing :: "step_request \<Rightarrow> bool" where
  "browsing step = (case step of Team_Call requests \<Rightarrow> ''browser'' \<in> fst ` set requests | Model_Call _ \<Rightarrow> False)"

text \<open>Once a Browser task was asked, nothing more is asked of Team.\<close>

definition browser_last :: "step_request list \<Rightarrow> bool" where
  "browser_last asks = sorted_wrt (\<lambda>a b. \<not> (browsing a \<and> is_team b)) asks"

definition browser_known :: "turn \<Rightarrow> journal \<Rightarrow> bool" where
  "browser_known s j \<longleftrightarrow> browser_last (asked_requests j) \<and>
     (list_ex browsing (asked_requests j) \<longrightarrow> td_after_browser s)"

lemma browser_last_model [simp]: "browser_last (asks @ [Model_Call request]) = browser_last asks"
  by (simp add: browser_last_def sorted_wrt_append)

lemma browsing_model [simp]: "browsing (Model_Call request) = False"
  by (simp add: browsing_def)

lemma browser_last_team: "\<not> list_ex browsing asks \<Longrightarrow> browser_last asks \<Longrightarrow> browser_last (asks @ [Team_Call requests])"
  by (auto simp: browser_last_def sorted_wrt_append list_ex_iff)

lemma browsing_requests: "browsing (Team_Call (requests_json requests)) = list_ex is_browser requests"
proof -
  have "request_name request = ''browser'' \<longleftrightarrow> is_browser request" for request by (cases request) simp_all
  then have "''browser'' \<in> request_name ` set requests \<longleftrightarrow> (\<exists>request\<in>set requests. is_browser request)"
    unfolding image_iff by metis
  then show ?thesis by (simp add: browsing_def requests_json_def list_ex_iff image_image)
qed

text \<open>After a Browser result the first guard refuses every response that makes a call.\<close>

lemma after_browser_refuses:
  assumes "td_after_browser s" "review_turn t (push_message (Assistant m) s) = Inr (Run_Calls, q)"
  shows "turn_calls m = []"
proof (rule ccontr)
  assume calls: "turn_calls m \<noteq> []"
  define p where "p = push_message (Assistant m) s"
  obtain rest where "guards_of p = After_Browser # rest"
    using assms(1) by (simp add: guards_of_def Let_def p_def push_message_def)
  moreover have "review_after (td_messages p) = Inr (Some BROWSER_AFTER)"
    using calls by (simp add: review_after_def latest_turn_def p_def push_message_def)
  ultimately show False using assms(2) unfolding p_def [symmetric]
    by (simp add: review_turn_def take_steps_def apply_guard_def refused_by_def Let_def split: if_splits)
qed

lemma drive_pass_browser:
  assumes "browser_known s j" "drive_pass t s j = (r, j')"
  shows "browser_last (asked_requests j') \<and> (\<forall>s'. r = Inr (Go_On s') \<longrightarrow> browser_known s' j')"
proof -
  define called where "called = asked_requests j @ [Model_Call (call_json (chat_request (called_turn s)))]"
  have last: "browser_last (asked_requests j)" "browser_last called" and known: "list_ex browsing called \<Longrightarrow> td_after_browser s"
    using assms(1) by (simp_all add: called_def browser_known_def)
  have fresh: "\<not> list_ex browsing called" if "review_turn t (replied_turn m s) = Inr (Run_Calls, q)" "turn_calls m \<noteq> []" for m q
    using that known after_browser_refuses [of "s\<lparr>td_steps := Suc (td_steps s), td_counter := Suc (td_counter s)\<rparr>" t m q]
    by (auto simp: replied_turn_def)
  from assms(2) show ?thesis
  proof (cases rule: drive_pass_cases)
    case (Answered m v n)
    have "browser_known s' j'" if "same_turn (replied_turn m s\<lparr>td_steps := n\<rparr>) s'" for s'
      using that last known Answered(2)
      by (auto simp: browser_known_def same_turn_def called_def replied_turn_def push_message_def)
    then show ?thesis using Answered(5) last Answered(2) by (auto simp: called_def)
  next
    case (Team_Stopped m q stop requests)
    then show ?thesis using browser_last_team [OF fresh last(2)] by (simp add: called_def)
  next
    case (Ran m q n answers s1 results)
    note fresh = fresh [OF Ran(2,3)]
    show ?thesis using Ran(6) last fresh browser_last_team [OF fresh last(2)] unfolding called_def [symmetric]
      by (auto simp: Let_def browser_known_def resumed_def browsing_requests split: if_splits)
  qed (use last in \<open>simp_all add: called_def\<close>)
qed

text \<open>
  C26 A Browser task is the last thing a turn asks of Team: whatever the model answers after its result, no Action and no
  second Browser task is requested.
\<close>

theorem browser_ends_requests:
  "browser_last (asked_requests (snd (run_turn t run_id captured \<lparr>recorded_answers = answers, asked_requests = []\<rparr>)))"
proof (cases "input_from_json (env_parse t) captured")
  case (Some input)
  let ?j = "\<lparr>recorded_answers = answers, asked_requests = []\<rparr>"
  have "browser_last (asked_requests (snd (drive t (new_turn t run_id input) ?j)))"
  proof (rule drive_invariant [where Q = browser_known and R = "\<lambda>r. browser_last (asked_requests (snd r))"])
    show "browser_known (new_turn t run_id input) ?j" by (simp add: browser_known_def browser_last_def)
  next
    fix s j stop j'
    assume "browser_known s j" "drive_pass t s j = (Inl stop, j')"
    then show "browser_last (asked_requests (snd (Inl stop :: stop + json, j')))" using drive_pass_browser by simp
  next
    fix s j s' j'
    assume "browser_known s j" "drive_pass t s j = (Inr (Go_On s'), j')"
    then show "browser_known s' j'" using drive_pass_browser by blast
  next
    fix s j s' j'
    assume "browser_known s j" "drive_pass t s j = (Inr (Finish s'), j')"
    then have "browser_last (asked_requests j')" using drive_pass_browser by blast
    then show "browser_last (asked_requests (snd (finish_turn t s' j')))"
      using finish_turn_asked [of t s' j'] by (auto)
  qed
  then show ?thesis using Some by (simp add: run_turn_journal)
qed (simp add: run_turn_journal browser_last_def)

section \<open>Every call is answered\<close>

text \<open>
  The calls still to be answered after some messages, if every call so far was answered by one result, in order, before
  anything else was said; \<open>answered\<close> leaves none.
\<close>

fun pending_after :: "(string \<times> string) list \<Rightarrow> message list \<Rightarrow> (string \<times> string) list option" where
  "pending_after pending [] = Some pending"
| "pending_after pending (Tool result # ms) =
     (case pending of
        p # rest \<Rightarrow> if p = (result_call_id result, result_name result) then pending_after rest ms else None
      | [] \<Rightarrow> None)"
| "pending_after pending (Assistant m # ms) =
     (if pending = [] then pending_after (map (\<lambda>call. (call_id call, call_name call)) (turn_calls m)) ms else None)"
| "pending_after pending (User _ _ # ms) = (if pending = [] then pending_after [] ms else None)"

definition answered :: "message list \<Rightarrow> bool" where
  "answered ms \<longleftrightarrow> pending_after [] ms = Some []"

lemma pending_after_append: "pending_after pending (ms @ ns) = Option.bind (pending_after pending ms) (\<lambda>p. pending_after p ns)"
  by (induction pending ms rule: pending_after.induct) (auto split: list.splits)

definition pending_turn :: "turn \<Rightarrow> (string \<times> string) list option" where
  "pending_turn s = pending_after [] (td_messages s)"

lemma pending_answer_call:
  "pending_turn (answer_call ident name content err s) =
     Option.bind (pending_turn s) (\<lambda>p. case p of q # rest \<Rightarrow> if q = (ident, name) then Some rest else None | [] \<Rightarrow> None)"
  by (cases "pending_turn s")
    (auto simp: pending_turn_def answer_call_def next_id_def push_message_def Let_def pending_after_append split: list.split)

lemma pending_fold:
  "pending_turn s = Some (map (\<lambda>call. (call_id call, call_name call)) calls) \<Longrightarrow>
   pending_turn (fold (\<lambda>call. answer_call (call_id call) (call_name call) content err) calls s) = Some []"
  by (induction calls arbitrary: s) (simp_all add: pending_answer_call)

lemma pending_push_answers:
  "pending_turn s = Some (map (\<lambda>p. (call_id (fst p), call_name (fst p))) pairs) \<Longrightarrow>
   pending_turn (push_answers pairs results s) = Some []"
  by (induction pairs results s rule: push_answers.induct) (simp_all add: pending_answer_call)

lemma pending_replied:
  assumes "pending_turn s = Some []"
  shows "pending_turn (replied_turn m s\<lparr>td_steps := n\<rparr>) = Some (map (\<lambda>call. (call_id call, call_name call)) (turn_calls m))"
  using assms by (simp add: pending_turn_def replied_turn_def push_message_def pending_after_append)

lemma latest_replied: "latest_of (replied_turn m s\<lparr>td_steps := n\<rparr>) = Some m"
  by (simp add: latest_of_def latest_turn_def replied_turn_def push_message_def)

lemma pending_answer_all:
  "pending_turn s = Some [] \<Longrightarrow> pending_turn (answer_all content (replied_turn m s\<lparr>td_steps := n\<rparr>)) = Some []"
  unfolding answer_all_def latest_replied by (simp add: pending_fold pending_replied)

text \<open>A recorded Routine was the response's one call.\<close>

lemma lone_call_Alone:
  "lone_call_of messages name = Inr (Alone call) \<Longrightarrow> latest_turn messages = Some m \<Longrightarrow> turn_calls m = [call] \<and> call_name call = name"
  by (auto simp: lone_call_of_def split: if_splits list.splits option.splits)

lemma review_guards_Recorded:
  "review_guards t guards s = Inr (Recorded content, s') \<Longrightarrow> latest_of s = Some m \<Longrightarrow>
   \<exists>call. turn_calls m = [call] \<and> call_name call = ROUTINE_TOOL"
proof (induction guards arbitrary: s)
  case (Cons guard guards)
  define s1 where "s1 = s\<lparr>td_steps := Suc (td_steps s)\<rparr>"
  have step: "take_steps 1 s = Inr s1" using Cons.prems by (auto simp: take_steps_def s1_def split: if_splits)
  have latest: "latest_of s1 = Some m" using Cons.prems(2) by (simp add: s1_def latest_of_def)
  show ?case
  proof (cases "apply_guard t s1 guard = Inr (Recorded content)")
    case True
    then have "guard = Routine_Guard"
      by (cases guard) (auto simp: apply_guard_def refused_by_def Let_def split: sum.splits option.splits)
    then obtain outcome where "review_routine (tt_routine t) (td_messages s1) (input_context (td_input s1)) = Inr (Record outcome)"
      using True by (auto simp: apply_guard_def Let_def split: sum.splits verdict.splits)
    then obtain call where "lone_call_of (td_messages s1) ROUTINE_TOOL = Inr (Alone call)"
      by (auto simp: review_routine_def split: sum.splits lone_call.splits)
    then show ?thesis using lone_call_Alone latest unfolding latest_of_def by blast
  next
    case False
    then have "review_guards t guards s1 = Inr (Recorded content, s')"
      using Cons.prems(1) step by (auto split: sum.splits reviewed.splits)
    then show ?thesis using Cons.IH latest by blast
  qed
qed simp

lemma pending_answer_lone:
  assumes "review_turn t (replied_turn m s) = Inr (Recorded content, q)" "pending_turn s = Some []"
  shows "pending_turn (answer_lone ROUTINE_TOOL content' (replied_turn m s\<lparr>td_steps := n\<rparr>)) = Some []"
proof -
  have "latest_of (replied_turn m s) = Some m"
    by (simp add: latest_of_def latest_turn_def replied_turn_def push_message_def)
  then obtain call where "turn_calls m = [call]" "call_name call = ROUTINE_TOOL"
    using review_guards_Recorded assms(1) unfolding review_turn_def by blast
  then show ?thesis using pending_replied [OF assms(2), where m = m and n = n]
    unfolding answer_lone_def latest_replied Let_def by (simp add: pending_answer_call)
qed

lemma pending_ran:
  assumes "tool_answers t offered (turn_calls m) (replied_turn m s\<lparr>td_steps := n\<rparr>) = Inr (answers, s1)" "pending_turn s = Some []"
  shows "pending_turn (push_answers (zip (turn_calls m) answers) results s1) = Some []"
proof -
  have "length answers = length (turn_calls m)" "td_messages s1 = td_messages (replied_turn m s\<lparr>td_steps := n\<rparr>)"
    using tool_answers_Inr [OF assms(1)] by simp_all
  moreover have "map (\<lambda>p. (call_id (fst p), call_name (fst p))) (zip calls answers) = map (\<lambda>call. (call_id call, call_name call)) calls"
    if "length answers = length calls" for calls :: "tool_call list"
    using that by (induction calls answers rule: list_induct2') simp_all
  ultimately show ?thesis using pending_replied [OF assms(2), where m = m and n = n] by (intro pending_push_answers) (simp add: pending_turn_def)
qed

lemma pending_settle:
  assumes "settle t s = Inr (settled, s')" "pending_turn s = Some []"
  shows "pending_turn s' = Some []"
proof -
  have remember: "pending_turn (remember words s) = Some []" for words
    using assms(2) by (simp add: pending_turn_def remember_def next_id_def push_message_def Let_def pending_after_append)
  have shorten: "pending_after p (ms[i := shorten reply (ms ! i)]) = pending_after p ms" for p ms i reply
  proof (induction p ms arbitrary: i rule: pending_after.induct)
    case (2 p result ms)
    then show ?case by (cases i) (auto simp: shorten_def split: list.splits)
  next
    case (3 p m ms)
    then show ?case by (cases i) (auto simp: shorten_def)
  next
    case (4 p a b ms)
    then show ?case by (cases i) (auto simp: shorten_def)
  qed simp
  show ?thesis
    using assms remember shorten unfolding settle_def settle_recorded_def
    by (auto simp: Let_def pending_turn_def split: option.splits if_splits)
qed

text \<open>What was asked of the model so far went with a conversation whose every call is answered.\<close>

definition asked_of :: "turn_input \<Rightarrow> step_request \<Rightarrow> bool" where
  "asked_of input step \<longleftrightarrow>
     (case step of
        Model_Call request \<Rightarrow>
          (\<exists>s. td_input s = input \<and> answered (td_messages s) \<and> request = call_json (chat_request s)) \<or>
          (\<exists>s prompt. td_input s = input \<and> request = call_json (check_request s prompt))
      | Team_Call _ \<Rightarrow> True)"

definition all_answered :: "turn_input \<Rightarrow> turn \<Rightarrow> journal \<Rightarrow> bool" where
  "all_answered input s j \<longleftrightarrow> td_input s = input \<and> pending_turn s = Some [] \<and> list_all (asked_of input) (asked_requests j)"

lemma asked_of_called: "td_input s = input \<Longrightarrow> pending_turn s = Some [] \<Longrightarrow> asked_of input (Model_Call (call_json (chat_request (called_turn s))))"
  unfolding asked_of_def step_request.case by (rule disjI1, rule exI [of _ "called_turn s"]) (simp add: called_turn_def answered_def pending_turn_def)

lemma asked_of_team [simp]: "asked_of input (Team_Call requests)" by (simp add: asked_of_def)

lemma same_replied: "td_input (replied_turn m s\<lparr>td_steps := n\<rparr>) = td_input s"
  by (simp add: replied_turn_def push_message_def)

lemma drive_pass_answered:
  assumes "all_answered input s j" "drive_pass t s j = (r, j')"
  shows "list_all (asked_of input) (asked_requests j') \<and>
    (\<forall>s'. r = Inr (Go_On s') \<or> r = Inr (Finish s') \<longrightarrow> all_answered input s' j')"
proof -
  have pending: "pending_turn s = Some []" and input: "td_input s = input" and asked: "list_all (asked_of input) (asked_requests j)"
    using assms(1) by (simp_all add: all_answered_def)
  note call = asked_of_called [OF input pending]
  from assms(2) show ?thesis
  proof (cases rule: drive_pass_cases)
    case (Answered m v n)
    let ?q = "replied_turn m s\<lparr>td_steps := n\<rparr>"
    have "td_input (answer_all c ?q) = input" "td_input (answer_lone ROUTINE_TOOL c ?q) = input" for c
      using same_turn_answer_all [of ?q c] same_turn_answer_lone [of ?q ROUTINE_TOOL c] input
      by (simp_all only: same_turn_def same_replied)
    moreover have "pending_turn ?q = Some []" if "turn_calls m = []" using pending_replied [OF pending, where m = m and n = n] that by simp
    ultimately show ?thesis
      using Answered(2,3,5) call asked pending_answer_all [OF pending] pending_answer_lone [OF _ pending] input same_replied
      by (auto simp: all_answered_def)
  next
    case (Ran m q n answers s1 results)
    have "td_input (push_answers (zip (turn_calls m) answers) results s1) = input"
      using pushed_same [OF Ran(5)] input by (simp add: same_turn_def same_replied)
    then show ?thesis using Ran(6) call asked pending_ran [OF Ran(5) pending]
      by (auto simp: Let_def all_answered_def resumed_def pending_turn_def split: if_splits)
  qed (use asked call in auto)
qed

definition run_answered :: "turn_input \<Rightarrow> (stop + json) \<times> journal \<Rightarrow> bool" where
  "run_answered input r \<longleftrightarrow> list_all (asked_of input) (asked_requests (snd r)) \<and>
     (\<forall>result. fst r = Inr result \<longrightarrow>
        (\<exists>ms settled. answered ms \<and> result = object [(''turn'', settled), (''messages'', conversation_value ms)]))"

lemma finish_turn_answered:
  assumes "all_answered input s j"
  shows "run_answered input (finish_turn t s j)"
proof -
  obtain checks where "asked_requests (snd (finish_turn t s j)) = asked_requests j @ checks"
      "checks = [] \<or> (\<exists>s' prompt. td_input s' = td_input s \<and> checks = [Model_Call (call_json (check_request s' prompt))])"
    using finish_turn_asked by blast
  moreover have "asked_of input (Model_Call (call_json (check_request s' prompt)))" if "td_input s' = td_input s" for s' prompt
    using that assms unfolding asked_of_def all_answered_def by auto
  ultimately have "list_all (asked_of input) (asked_requests (snd (finish_turn t s j)))"
    using assms by (auto simp: all_answered_def)
  moreover have "\<exists>ms settled. answered ms \<and> result = object [(''turn'', settled), (''messages'', conversation_value ms)]"
    if finished: "fst (finish_turn t s j) = Inr result" for result
  proof -
    obtain settled s' where settled: "settle t s = Inr (settled, s')" using finished by (auto simp: finish_turn_def split: sum.splits)
    then obtain changes where "result = object [(''turn'', settled_value settled changes), (''messages'', conversation_value (td_messages s'))]"
      using finished by (auto simp: finish_turn_def split: sum.splits prod.splits)
    moreover have "answered (td_messages s')"
      using pending_settle [OF settled] assms by (simp add: all_answered_def answered_def pending_turn_def)
    ultimately show ?thesis by blast
  qed
  ultimately show ?thesis by (simp add: run_answered_def)
qed

text \<open>
  C27 When the conversation a turn starts from has every call answered, so has every conversation the turn sends to the
  model and the one it ends with: each call of each response has exactly one result, in the response's order, before
  anything else is said.
\<close>

theorem calls_answered:
  assumes "answered (input_messages input)"
  shows "run_answered input (drive t (new_turn t run_id input) \<lparr>recorded_answers = answers, asked_requests = []\<rparr>)"
proof (rule drive_invariant [where Q = "all_answered input" and R = "run_answered input"])
  show "all_answered input (new_turn t run_id input) \<lparr>recorded_answers = answers, asked_requests = []\<rparr>"
    using assms by (simp add: all_answered_def new_turn_def answered_def pending_turn_def)
next
  fix s j stop j'
  assume "all_answered input s j" "drive_pass t s j = (Inl stop, j')"
  then have "list_all (asked_of input) (asked_requests j')" using drive_pass_answered by blast
  then show "run_answered input (Inl stop, j')" by (simp add: run_answered_def)
next
  fix s j s' j'
  assume "all_answered input s j" "drive_pass t s j = (Inr (Go_On s'), j')"
  then show "all_answered input s' j'" using drive_pass_answered by blast
next
  fix s j s' j'
  assume "all_answered input s j" "drive_pass t s j = (Inr (Finish s'), j')"
  then show "run_answered input (finish_turn t s' j')" using drive_pass_answered finish_turn_answered by blast
qed

definition plain_turn_tools :: turn_tools where
  "plain_turn_tools = \<lparr>tt_routine = plain_tools, tt_asks = \<lambda>_ _. None, tt_engine = sample_engine,
     tt_clock = \<lambda>_. (2026, 1, 1)\<rparr>"

theorem calls_answered_witness:
  "answered (input_messages sample_input) \<and>
   run_answered sample_input (drive plain_turn_tools (new_turn plain_turn_tools ''run'' sample_input) \<lparr>recorded_answers = [], asked_requests = []\<rparr>)"
proof -
  have "answered (input_messages sample_input)" by (simp add: answered_def sample_input_def)
  then show ?thesis using calls_answered by blast
qed

section \<open>Replay\<close>

end
