(* ===== verification/Replay.thy ===== *)
theory Replay
  imports Runs
begin

text \<open>
  Replay: Holdpoint executes a run again whenever an answer arrives, so a run is right only if its next execution asks what it
  asked before.  The laws of a durable step (what it was answered are the answers of what it asked; more recorded answers
  change nothing already settled) are the locale \<open>durable\<close>, and every layer of the turn up to the loop is an instance of it.
  The one thing outside the journal an execution reads, the wall clock of the rerun guard, is then set free: two executions
  under clocks that settle dates alike agree, and two under clocks that do not may not.
\<close>

section \<open>Durable steps\<close>

text \<open>A journal with more answers recorded, and steps run one after another.\<close>

definition extend :: "step_answer list \<Rightarrow> journal \<Rightarrow> journal" where
  "extend later j = j\<lparr>recorded_answers := recorded_answers j @ later\<rparr>"

definition steps_bind :: "(journal \<Rightarrow> (stop + 'a) \<times> journal) \<Rightarrow> ('a \<Rightarrow> journal \<Rightarrow> (stop + 'b) \<times> journal) \<Rightarrow> journal \<Rightarrow> (stop + 'b) \<times> journal" where
  "steps_bind f g j = (case f j of (Inl stop, j') \<Rightarrow> (Inl stop, j') | (Inr a, j') \<Rightarrow> g a j')"

definition growing :: "(journal \<Rightarrow> (stop + 'a) \<times> journal) \<Rightarrow> bool" where
  "growing f \<longleftrightarrow> (\<forall>j. prefix (asked_requests j) (asked_requests (snd (f j))))"

definition replays :: "(journal \<Rightarrow> (stop + 'a) \<times> journal) \<Rightarrow> journal \<Rightarrow> step_answer list \<Rightarrow> bool" where
  "replays f j later \<longleftrightarrow>
     (if fst (f j) = Inl (Interrupted Suspended)
      then prefix (asked_requests (snd (f j))) (asked_requests (snd (f (extend later j))))
      else f (extend later j) = (fst (f j), extend later (snd (f j))))"

text \<open>Which finished step answers a request, as \<open>Ctx::position\<close> compares them.\<close>

fun answers_to :: "step_request \<Rightarrow> step_answer \<Rightarrow> bool" where
  "answers_to (Model_Call _) (Model_Answer _) = True"
| "answers_to (Team_Call requests) (Team_Answer batch _) = (batch = requests)"
| "answers_to _ _ = False"

text \<open>
  The account of what a step asked and read: every request but the one it waits on was answered by the next recorded answer,
  and a mismatch is a recorded answer that is not the one of the last request.
\<close>

definition account :: "stop option \<Rightarrow> step_request list \<Rightarrow> step_answer list \<Rightarrow> step_answer list \<Rightarrow> bool" where
  "account stopped asks used unread \<longleftrightarrow>
     (if stopped = Some (Interrupted Suspended) then asks \<noteq> [] \<and> list_all2 answers_to (butlast asks) used \<and> unread = []
      else if stopped = Some (Interrupted Mismatched)
      then asks \<noteq> [] \<and> list_all2 answers_to (butlast asks) used \<and> (\<exists>a rest. unread = a # rest \<and> \<not> answers_to (last asks) a)
      else list_all2 answers_to asks used)"

definition stop_of :: "stop + 'a \<Rightarrow> stop option" where
  "stop_of r = (case r of Inl stop \<Rightarrow> Some stop | Inr _ \<Rightarrow> None)"

definition accounts :: "(stop + 'a) \<times> journal \<Rightarrow> journal \<Rightarrow> bool" where
  "accounts result j \<longleftrightarrow>
     (\<exists>asks used. asked_requests (snd result) = asked_requests j @ asks \<and> recorded_answers j = used @ recorded_answers (snd result) \<and>
        account (stop_of (fst result)) asks used (recorded_answers (snd result)))"

lemma stop_of_simps [simp]: "stop_of (Inl stop) = Some stop" "stop_of (Inr a) = None"
  by (simp_all add: stop_of_def)

lemma account_append: "list_all2 answers_to asks used \<Longrightarrow> account stopped asks' used' unread \<Longrightarrow> account stopped (asks @ asks') (used @ used') unread"
  by (auto simp: account_def butlast_append intro: list_all2_appendI split: if_splits)

lemma accountsE:
  assumes "accounts result j"
  obtains asks used where "asked_requests (snd result) = asked_requests j @ asks" "recorded_answers j = used @ recorded_answers (snd result)"
    "account (stop_of (fst result)) asks used (recorded_answers (snd result))"
  using assms by (auto simp: accounts_def)

locale durable =
  fixes f :: "journal \<Rightarrow> (stop + 'a) \<times> journal"
  assumes accounted: "accounts (f j) j"
    and replay: "replays f j later"
begin

lemma grows: "growing f"
  unfolding growing_def by (metis accounted accountsE prefixI)

lemma settled_stays: "fst (f j) \<noteq> Inl (Interrupted Suspended) \<Longrightarrow> f (extend later j) = (fst (f j), extend later (snd (f j)))"
  using replay [of j later] by (simp add: replays_def)

lemma asked_stays: "prefix (asked_requests (snd (f j))) (asked_requests (snd (f (extend later j))))"
  using replay [of j later] by (simp add: replays_def extend_def split: if_splits)

text \<open>A step that waits goes on when its last request is answered: it is never refused as another run's journal.\<close>

lemma resumes:
  assumes waits: "fst (f j) = Inl (Interrupted Suspended)" and answered: "answers_to (last (asked_requests (snd (f j)))) a"
  shows "fst (f (extend [a] j)) \<noteq> Inl (Interrupted Mismatched)"
proof
  assume refused: "fst (f (extend [a] j)) = Inl (Interrupted Mismatched)"
  obtain asks used where first: "asked_requests (snd (f j)) = asked_requests j @ asks" "recorded_answers j = used" "asks \<noteq> []"
      "list_all2 answers_to (butlast asks) used"
    using accounted [of j] waits by (auto simp: account_def elim!: accountsE)
  obtain asks' used' b rest where again: "asked_requests (snd (f (extend [a] j))) = asked_requests j @ asks'" "asks' \<noteq> []"
      "used @ [a] = used' @ b # rest" "list_all2 answers_to (butlast asks') used'" "\<not> answers_to (last asks') b"
    using accounted [of "extend [a] j"] refused first(2) by (auto simp: account_def extend_def elim!: accountsE)
  obtain more where more: "asks' = asks @ more"
    using asked_stays [of j "[a]"] first(1) again(1) by (auto simp: prefix_def)
  have "length (butlast asks') = length used'" "length (butlast asks) = length used"
    using first(4) again(4) list_all2_lengthD by blast+
  moreover have "length used = length used' + length rest" using arg_cong [OF again(3), of length] by simp
  moreover have "0 < length asks" "length asks' = length asks + length more" using first(3) more by simp_all
  ultimately have "length more = 0 \<and> length rest = 0" unfolding length_butlast by arith
  then show False using more again(3,5) answered first by simp
qed

end

lemma accounts_bind:
  assumes f: "accounts (f j) j" and g: "\<And>a j'. f j = (Inr a, j') \<Longrightarrow> accounts (g a j') j'"
  shows "accounts (steps_bind f g j) j"
proof -
  obtain r j' where fj: "f j = (r, j')" by fastforce
  show ?thesis
  proof (cases r)
    case (Inr a)
    obtain asks used where one: "asked_requests j' = asked_requests j @ asks" "recorded_answers j = used @ recorded_answers j'"
        "list_all2 answers_to asks used"
      using f fj Inr by (auto simp: account_def elim!: accountsE)
    have bound: "steps_bind f g j = g a j'" using fj Inr by (simp add: steps_bind_def)
    have "accounts (g a j') j'" using g fj Inr by simp
    then obtain asks' used' where two: "asked_requests (snd (g a j')) = asked_requests j' @ asks'"
        "recorded_answers j' = used' @ recorded_answers (snd (g a j'))"
        "account (stop_of (fst (g a j'))) asks' used' (recorded_answers (snd (g a j')))"
      by (rule accountsE)
    show ?thesis
      unfolding bound accounts_def
      by (rule exI [of _ "asks @ asks'"], rule exI [of _ "used @ used'"]) (use one two account_append in simp)
  qed (use f fj in \<open>simp add: steps_bind_def accounts_def\<close>)
qed

lemma replays_bind:
  assumes f: "replays f j later" and g: "\<And>a j'. f j = (Inr a, j') \<Longrightarrow> replays (g a) j' later" and grows: "\<And>a. growing (g a)"
  shows "replays (steps_bind f g) j later"
proof -
  obtain r j' where fj: "f j = (r, j')" by fastforce
  show ?thesis
  proof (cases r)
    case (Inr a)
    then have "f (extend later j) = (Inr a, extend later j')" using f fj by (simp add: replays_def)
    then show ?thesis using g [of a j'] fj Inr by (simp add: replays_def steps_bind_def)
  next
    case (Inl stop)
    show ?thesis
    proof (cases "stop = Interrupted Suspended")
      case True
      obtain r2 j2 where f2: "f (extend later j) = (r2, j2)" by fastforce
      then have "prefix (asked_requests j') (asked_requests j2)" using f fj Inl True by (simp add: replays_def)
      moreover have "prefix (asked_requests j2) (asked_requests (snd (g a j2)))" for a using grows unfolding growing_def by blast
      ultimately have "prefix (asked_requests j') (asked_requests (snd (steps_bind f g (extend later j))))"
        using f2 by (auto simp: steps_bind_def split: sum.split intro: prefix_order.trans)
      then show ?thesis using fj Inl True by (simp add: replays_def steps_bind_def)
    qed (use f fj Inl in \<open>simp add: replays_def steps_bind_def\<close>)
  qed
qed

lemma durable_bind: "durable f \<Longrightarrow> (\<And>a. durable (g a)) \<Longrightarrow> durable (steps_bind f g)"
  by unfold_locales (blast intro: accounts_bind replays_bind durable.accounted durable.replay durable.grows)+

lemma durable_pure: "(\<And>i. r \<noteq> Inl (Interrupted i)) \<Longrightarrow> durable (\<lambda>j. (r, j))"
  by unfold_locales (auto simp: accounts_def account_def replays_def extend_def stop_of_def split: sum.splits)

text \<open>Only the journal interrupts: a step that asks nothing ends with a result or a failure.\<close>

lemma take_steps_fails [simp]: "take_steps n s \<noteq> Inl (Interrupted i)"
  by (simp add: take_steps_def)

lemma read_turn_fails [simp]: "read_turn t reply s \<noteq> Inl (Interrupted i)"
  by (simp add: read_turn_def split: option.split message.split prod.split)

lemma review_guards_fails: "review_guards t guards s \<noteq> Inl (Interrupted i)"
  by (induction guards arbitrary: s) (auto split: sum.split reviewed.split)

lemma review_turn_fails [simp]: "review_turn t s \<noteq> Inl (Interrupted i)"
  by (simp add: review_turn_def review_guards_fails)

lemma answer_tool_call_fails: "answer_tool_call t offered call s \<noteq> Inl (Interrupted i)"
  by (simp add: answer_tool_call_def Let_def split: option.split prod.split sum.split)

lemma tool_answers_fails [simp]: "tool_answers t offered calls s \<noteq> Inl (Interrupted i)"
proof (induction calls arbitrary: s)
  case (Cons call calls)
  show ?case using answer_tool_call_fails [of t offered call s i] Cons by (auto split: sum.split)
qed simp

lemma settle_fails [simp]: "settle t s \<noteq> Inl (Interrupted i)"
  by (simp add: settle_def Let_def split: option.split)

definition ask_model :: "json \<Rightarrow> journal \<Rightarrow> (stop + failure + json) \<times> journal" where
  "ask_model request j = (case journal_model request j of (Inl i, j') \<Rightarrow> (Inl (Interrupted i), j') | (Inr r, j') \<Rightarrow> (Inr r, j'))"

definition ask_team :: "(string \<times> json) list \<Rightarrow> journal \<Rightarrow> (stop + json list) \<times> journal" where
  "ask_team requests j = (case journal_deferred requests j of (Inl i, j') \<Rightarrow> (Inl (Interrupted i), j') | (Inr r, j') \<Rightarrow> (Inr r, j'))"

interpretation asks_model: durable "ask_model request" for request
  by unfold_locales
    (auto simp: accounts_def account_def replays_def ask_model_def journal_model_def extend_def Let_def Cons_eq_append_conv split: list.split step_answer.split)

interpretation asks_team: durable "ask_team requests" for requests
  by unfold_locales
    (auto simp: accounts_def account_def replays_def ask_team_def journal_deferred_def extend_def Let_def Cons_eq_append_conv split: list.split step_answer.split)

lemmas durable_asks = asks_model.durable_axioms asks_team.durable_axioms

lemma call_model_bind:
  "call_model t s = (case take_steps 1 s of
     Inl stop \<Rightarrow> (\<lambda>j. (Inl stop, j))
   | Inr s' \<Rightarrow> steps_bind (ask_model (call_json (chat_request s'))) (\<lambda>reply j.
       (case reply of Inl f \<Rightarrow> Inl (Failed (failure_of f)) | Inr v \<Rightarrow> read_turn t v s', j)))"
  by (rule ext) (auto simp: call_model_def steps_bind_def ask_model_def split: sum.split prod.split)

lemma run_tools_bind:
  "run_tools t m s = (case tool_answers t (action_names (td_input s)) (turn_calls m) s of
     Inl stop \<Rightarrow> (\<lambda>j. (Inl stop, j))
   | Inr (answers, s') \<Rightarrow>
       steps_bind
         (if requests_of answers = [] then (\<lambda>j. (Inr [], j))
          else steps_bind (ask_team (requests_json (requests_of answers))) (\<lambda>replies j.
            (case opt_all (result_from (env_parse t)) replies of Some results \<Rightarrow> Inr results | None \<Rightarrow> Inl (Failed Failed_Provider), j)))
         (\<lambda>results j. (Inr (list_ex (\<lambda>call. call_name call = CLARIFY_TOOL) (turn_calls m),
            (let pushed = push_answers (zip (turn_calls m) answers) results s'
             in if requests_of answers = [] then pushed else resumed (list_ex is_browser (requests_of answers)) pushed)), j)))"
  by (rule ext) (auto simp: run_tools_def team_results_def steps_bind_def ask_team_def Let_def split: sum.split prod.split option.split)

lemma finish_turn_bind:
  "finish_turn t s = (case settle t s of
     Inl stop \<Rightarrow> (\<lambda>j. (Inl stop, j))
   | Inr (settled, s') \<Rightarrow>
       steps_bind
         (case confirmation (rt_memory (tt_routine t)) (td_messages s') (memories (input_context (td_input s'))) of
            None \<Rightarrow> (\<lambda>j. (Inr [], j))
          | Some (prompt, changes) \<Rightarrow> steps_bind (ask_model (call_json (check_request s' prompt))) (\<lambda>reply j.
              (case reply of
                 Inl f \<Rightarrow> Inl (Failed (failure_of f))
               | Inr v \<Rightarrow> Inr (accepted_changes changes (Option.bind (answer_from (env_parse t) v ''verdict'') (\<lambda>v. v))), j)))
         (\<lambda>changes j.
            (Inr (object [(''turn'', settled_value settled changes), (''messages'', conversation_value (td_messages s'))]), j)))"
  by (rule ext) (auto simp: finish_turn_def check_memory_def steps_bind_def ask_model_def split: sum.split prod.split option.split)

lemma drive_pass_bind:
  "drive_pass t s = steps_bind (call_model t s) (\<lambda>(m, s').
     (case review_turn t (push_message (Assistant m) s') of
        Inl stop \<Rightarrow> (\<lambda>j. (Inl stop, j))
      | Inr (Refused correction, r) \<Rightarrow> (\<lambda>j. (Inr (Go_On (answer_all correction r)), j))
      | Inr (Recorded content, r) \<Rightarrow> (\<lambda>j. (Inr (Finish (answer_lone ROUTINE_TOOL content r)), j))
      | Inr (Run_Calls, r) \<Rightarrow>
          if turn_calls m = [] then (\<lambda>j. (Inr (Finish r), j))
          else (case take_steps 1 r of
                  Inl stop \<Rightarrow> (\<lambda>j. (Inl stop, j))
                | Inr r' \<Rightarrow> steps_bind (run_tools t m r') (\<lambda>(ended, r'') j. (Inr (if ended then Finish r'' else Go_On r''), j)))))"
  by (rule ext) (auto simp: drive_pass_def steps_bind_def split: sum.split prod.split reviewed.split)

lemmas durable_rules = durable_bind durable_pure durable_asks

interpretation calls_model: durable "call_model t s" for t s
  unfolding call_model_bind by (auto split: sum.splits intro!: durable_rules)

interpretation runs_tools: durable "run_tools t m s" for t m s
  unfolding run_tools_bind by (auto split: sum.splits option.splits intro!: durable_rules)

interpretation finishes: durable "finish_turn t s" for t s
  unfolding finish_turn_bind by (auto split: sum.splits option.splits intro!: durable_rules)

interpretation passes: durable "drive_pass t s" for t s
  unfolding drive_pass_bind
proof (rule durable_bind [OF calls_model.durable_axioms], clarify)
  fix m s'
  show "durable (case review_turn t (push_message (Assistant m) s') of
      Inl stop \<Rightarrow> (\<lambda>j. (Inl stop, j))
    | Inr (Refused correction, r) \<Rightarrow> (\<lambda>j. (Inr (Go_On (answer_all correction r)), j))
    | Inr (Recorded content, r) \<Rightarrow> (\<lambda>j. (Inr (Finish (answer_lone ROUTINE_TOOL content r)), j))
    | Inr (Run_Calls, r) \<Rightarrow>
        if turn_calls m = [] then (\<lambda>j. (Inr (Finish r), j))
        else (case take_steps 1 r of
                Inl stop \<Rightarrow> (\<lambda>j. (Inl stop, j))
              | Inr r' \<Rightarrow> steps_bind (run_tools t m r') (\<lambda>(ended, r'') j. (Inr (if ended then Finish r'' else Go_On r''), j))))"
  proof (cases "review_turn t (push_message (Assistant m) s')")
    case (Inl stop)
    then have "stop \<noteq> Interrupted i" for i using review_turn_fails by force
    then have "durable (\<lambda>j. (Inl stop :: stop + pass, j))" by (intro durable_pure) simp
    then show ?thesis using Inl by simp
  next
    case (Inr vr)
    obtain v r where vr: "vr = (v, r)" by fastforce
    have tools: "durable (case take_steps 1 r of Inl stop \<Rightarrow> (\<lambda>j. (Inl stop, j))
        | Inr r' \<Rightarrow> steps_bind (run_tools t m r') (\<lambda>(ended, r'') j. (Inr (if ended then Finish r'' else Go_On r''), j)))"
    proof (cases "take_steps 1 r")
      case (Inl stop)
      then have "stop \<noteq> Interrupted i" for i using take_steps_fails by force
      then have "durable (\<lambda>j. (Inl stop :: stop + pass, j))" by (intro durable_pure) simp
      then show ?thesis using Inl by simp
    next
      case (Inr r')
      have "durable (steps_bind (run_tools t m r') (\<lambda>(ended, r'') j. (Inr (if ended then Finish r'' else Go_On r''), j)))"
        by (rule durable_bind [OF runs_tools.durable_axioms]) (auto split: prod.split intro!: durable_pure)
      then show ?thesis using Inr by simp
    qed
    have pure: "durable (\<lambda>j. (Inr p :: stop + pass, j))" for p by (rule durable_pure) simp
    show ?thesis using Inr vr tools pure by (cases v) simp_all
  qed
qed

lemma drive_bind: "drive t s = steps_bind (drive_pass t s) (\<lambda>p. case p of Finish s' \<Rightarrow> finish_turn t s' | Go_On s' \<Rightarrow> drive t s')"
  by (rule ext) (subst drive.simps, simp add: steps_bind_def split: prod.split sum.split pass.split)

lemma drive_pass_grows: "drive_pass t s j = (r, j') \<Longrightarrow> prefix (asked_requests j) (asked_requests j')"
  using passes.grows [of t s] unfolding growing_def by (metis snd_conv)

lemma finish_turn_grows: "prefix (asked_requests j) (asked_requests (snd (finish_turn t s j)))"
  using finishes.grows [of t s] unfolding growing_def by blast

lemma drive_grows: "prefix (asked_requests j) (asked_requests (snd (drive t s j)))"
proof (rule drive_invariant [where Q = "\<lambda>s' j'. prefix (asked_requests j) (asked_requests j')"
      and R = "\<lambda>r. prefix (asked_requests j) (asked_requests (snd r))"])
qed (auto intro: prefix_order.trans [OF prefix_order.trans [OF _ drive_pass_grows] finish_turn_grows]
    prefix_order.trans [OF _ drive_pass_grows])

lemma drive_accounts: "accounts (drive t s j) j"
proof (induction "length (recorded_answers j)" arbitrary: s j rule: less_induct)
  case less
  show ?case
    unfolding drive_bind [of t s]
  proof (rule accounts_bind)
    fix p j'
    assume "drive_pass t s j = (Inr p, j')"
    then show "accounts ((case p of Finish s' \<Rightarrow> finish_turn t s' | Go_On s' \<Rightarrow> drive t s') j') j'"
      using less drive_pass_answers finishes.accounted by (auto split: pass.split)
  qed (rule passes.accounted)
qed

lemma drive_replays: "replays (drive t s) j later"
proof (induction "length (recorded_answers j)" arbitrary: s j rule: less_induct)
  case less
  have grows: "growing (drive t s)" for s using drive_grows by (simp add: growing_def)
  show ?case
    unfolding drive_bind [of t s]
  proof (rule replays_bind)
    fix p j'
    assume "drive_pass t s j = (Inr p, j')"
    then show "replays (case p of Finish s' \<Rightarrow> finish_turn t s' | Go_On s' \<Rightarrow> drive t s') j' later"
      using less drive_pass_answers finishes.replay by (auto split: pass.split)
  qed (use passes.replay finishes.grows grows in \<open>auto split: pass.split\<close>)
qed

interpretation drives: durable "drive t s" for t s
  by unfold_locales (simp_all add: drive_accounts drive_replays)


section \<open>The clock\<close>

text \<open>
  An execution of the run: the clock it runs under and the answers recorded so far.
\<close>

definition execution :: "turn_tools \<Rightarrow> (nat \<Rightarrow> int \<times> int \<times> int) \<Rightarrow> string \<Rightarrow> json \<Rightarrow> step_answer list \<Rightarrow> (interrupt + json) \<times> journal" where
  "execution t clock run_id captured answers =
     run_turn (t\<lparr>tt_clock := clock\<rparr>) run_id captured \<lparr>recorded_answers = answers, asked_requests = []\<rparr>"

text \<open>Two clocks no date in a call's arguments can tell apart, and the runs that can tell them apart at all: those of a rerun.\<close>

definition dates_alike :: "turn_tools \<Rightarrow> (nat \<Rightarrow> int \<times> int \<times> int) \<Rightarrow> (nat \<Rightarrow> int \<times> int \<times> int) \<Rightarrow> bool" where
  "dates_alike t clock clock' \<longleftrightarrow>
     (\<forall>n word. may_write_date (mt_engine (rt_memory (tt_routine t))) word (clock n) =
        may_write_date (mt_engine (rt_memory (tt_routine t))) word (clock' n))"

definition clock_free :: "turn_tools \<Rightarrow> turn_input \<Rightarrow> (nat \<Rightarrow> int \<times> int \<times> int) \<Rightarrow> (nat \<Rightarrow> int \<times> int \<times> int) \<Rightarrow> bool" where
  "clock_free t input clock clock' \<longleftrightarrow> routine_rerun (input_context input) = None \<or> dates_alike t clock clock'"

lemma clock_fields:
  "tt_routine (t\<lparr>tt_clock := clock\<rparr>) = tt_routine t" "tt_asks (t\<lparr>tt_clock := clock\<rparr>) = tt_asks t"
  "tt_engine (t\<lparr>tt_clock := clock\<rparr>) = tt_engine t"
  by simp_all

lemma call_model_clock [simp]: "call_model (t\<lparr>tt_clock := clock\<rparr>) = call_model t"
  by (intro ext) (unfold call_model_def read_turn_def clock_fields, rule HOL.refl)

lemma answer_tool_call_clock: "answer_tool_call (t\<lparr>tt_clock := clock\<rparr>) = answer_tool_call t"
  by (intro ext) (unfold answer_tool_call_def action_of_def interrupt_id_next_def clock_fields, rule HOL.refl)

lemma tool_answers_clock: "tool_answers (t\<lparr>tt_clock := clock\<rparr>) offered calls s = tool_answers t offered calls s"
  by (induction calls arbitrary: s) (simp_all add: answer_tool_call_clock split: sum.split)

lemma run_tools_clock [simp]: "run_tools (t\<lparr>tt_clock := clock\<rparr>) = run_tools t"
  by (intro ext) (unfold run_tools_def tool_answers_clock team_results_def clock_fields, rule HOL.refl)

lemma finish_turn_clock [simp]: "finish_turn (t\<lparr>tt_clock := clock\<rparr>) = finish_turn t"
  by (intro ext) (unfold finish_turn_def check_memory_def settle_def settle_recorded_def clock_fields, rule HOL.refl)

lemma new_turn_clock [simp]: "new_turn (t\<lparr>tt_clock := clock\<rparr>) = new_turn t"
  by (intro ext) (unfold new_turn_def clock_fields, rule HOL.refl)

lemma today_fields: "rt_memory (r\<lparr>rt_today := d\<rparr>) = rt_memory r" "rt_digest (r\<lparr>rt_today := d\<rparr>) = rt_digest r"
  by simp_all

lemma rerun_review_dates:
  assumes "\<And>word. may_write_date (mt_engine (rt_memory r)) word d = may_write_date (mt_engine (rt_memory r)) word d'"
  shows "rerun_review (r\<lparr>rt_today := d\<rparr>) = rerun_review (r\<lparr>rt_today := d'\<rparr>)"
proof -
  have "identifier_shaped (r\<lparr>rt_today := d\<rparr>) v = identifier_shaped (r\<lparr>rt_today := d'\<rparr>) v" for v
    using assms by (simp add: identifier_shaped_def split: option.split json.split)
  then have same: "unsourced (r\<lparr>rt_today := d\<rparr>) = unsourced (r\<lparr>rt_today := d'\<rparr>)" by (intro ext) (simp add: unsourced_def)
  show ?thesis
    by (intro ext) (unfold rerun_review_def same turn_results_def turn_segments_def today_fields, rule HOL.refl)
qed

lemma apply_guard_clock:
  assumes "guard \<noteq> Rerun_Guard \<or> dates_alike t clock clock'"
  shows "apply_guard (t\<lparr>tt_clock := clock\<rparr>) s guard = apply_guard (t\<lparr>tt_clock := clock'\<rparr>) s guard"
proof (cases "guard = Rerun_Guard")
  case True
  then have "rerun_review (tt_routine t\<lparr>rt_today := clock (length (td_messages s))\<rparr>) =
      rerun_review (tt_routine t\<lparr>rt_today := clock' (length (td_messages s))\<rparr>)"
    using assms by (intro rerun_review_dates) (simp add: dates_alike_def)
  then show ?thesis using True by (simp add: apply_guard_def Let_def)
qed (simp add: apply_guard_def Let_def split: guard.split)

lemma review_guards_clock:
  "Rerun_Guard \<notin> set guards \<or> dates_alike t clock clock' \<Longrightarrow>
     review_guards (t\<lparr>tt_clock := clock\<rparr>) guards s = review_guards (t\<lparr>tt_clock := clock'\<rparr>) guards s"
proof (induction guards arbitrary: s)
  case (Cons guard guards)
  have "apply_guard (t\<lparr>tt_clock := clock\<rparr>) s' guard = apply_guard (t\<lparr>tt_clock := clock'\<rparr>) s' guard" for s'
    using Cons.prems by (intro apply_guard_clock) auto
  moreover have "review_guards (t\<lparr>tt_clock := clock\<rparr>) guards s' = review_guards (t\<lparr>tt_clock := clock'\<rparr>) guards s'" for s'
    using Cons by auto
  ultimately show ?case by (simp split: sum.split reviewed.split)
qed simp

lemma drive_pass_clock:
  assumes "clock_free t (td_input s) clock clock'"
  shows "drive_pass (t\<lparr>tt_clock := clock\<rparr>) s j = drive_pass (t\<lparr>tt_clock := clock'\<rparr>) s j"
proof (cases "call_model t s j")
  case (Pair r j')
  show ?thesis
  proof (cases r)
    case (Inr ms)
    obtain m s' where ms: "ms = (m, s')" by fastforce
    then have "push_message (Assistant m) s' = replied_turn m s"
      using call_model_Inr [of t s j m s' j'] Pair Inr by (simp add: replied_turn_def)
    then have "td_input (push_message (Assistant m) s') = td_input s" by (simp add: replied_turn_def push_message_def)
    then have "Rerun_Guard \<notin> set (guards_of (push_message (Assistant m) s')) \<or> dates_alike t clock clock'"
      using assms by (auto simp: clock_free_def guards_of_def Let_def)
    then have "review_turn (t\<lparr>tt_clock := clock\<rparr>) (push_message (Assistant m) s') =
        review_turn (t\<lparr>tt_clock := clock'\<rparr>) (push_message (Assistant m) s')"
      unfolding review_turn_def by (rule review_guards_clock)
    then show ?thesis
      using Pair Inr ms by (simp add: drive_pass_def split: sum.split prod.split reviewed.split)
  qed (use Pair in \<open>simp add: drive_pass_def\<close>)
qed

fun pass_turn :: "pass \<Rightarrow> turn" where
  "pass_turn (Go_On s) = s"
| "pass_turn (Finish s) = s"

lemma drive_pass_input:
  assumes "drive_pass t s j = (Inr p, j')"
  shows "td_input (pass_turn p) = td_input s"
  using assms
proof (cases rule: drive_pass_cases)
  case (Answered m v n)
  have "td_input (answer_all c (replied_turn m s\<lparr>td_steps := n\<rparr>)) = td_input s"
      "td_input (answer_lone ROUTINE_TOOL c (replied_turn m s\<lparr>td_steps := n\<rparr>)) = td_input s" for c
    using same_turn_answer_all [of "replied_turn m s\<lparr>td_steps := n\<rparr>" c] same_turn_answer_lone [of "replied_turn m s\<lparr>td_steps := n\<rparr>" ROUTINE_TOOL c]
    by (simp_all only: same_turn_def same_replied)
  then show ?thesis using Answered(5) by (auto simp: same_replied)
next
  case (Ran m q n answers s1 results)
  have "td_input (push_answers (zip (turn_calls m) answers) results s1) = td_input s"
    using pushed_same [OF Ran(5)] by (simp add: same_turn_def same_replied)
  then show ?thesis using Ran(6) by (auto simp: Let_def resumed_def split: if_splits)
qed auto

lemma drive_clock:
  "clock_free t (td_input s) clock clock' \<Longrightarrow> drive (t\<lparr>tt_clock := clock\<rparr>) s j = drive (t\<lparr>tt_clock := clock'\<rparr>) s j"
proof (induction "length (recorded_answers j)" arbitrary: s j rule: less_induct)
  case less
  obtain r j' where pass: "drive_pass (t\<lparr>tt_clock := clock'\<rparr>) s j = (r, j')" by fastforce
  then have same: "drive_pass (t\<lparr>tt_clock := clock\<rparr>) s j = (r, j')" using drive_pass_clock [OF less.prems, of j] by simp
  have "drive (t\<lparr>tt_clock := clock\<rparr>) s' j' = drive (t\<lparr>tt_clock := clock'\<rparr>) s' j'" if "r = Inr (Go_On s')" for s'
    using less.hyps [of j' s'] less.prems drive_pass_answers pass drive_pass_input that by fastforce
  then show ?case
    using pass same by (simp add: drive.simps [of _ s j] split: sum.split pass.split)
qed

lemma run_turn_clock:
  assumes "\<And>input. input_from_json (env_parse t) captured = Some input \<Longrightarrow> clock_free t input clock clock'"
  shows "run_turn (t\<lparr>tt_clock := clock\<rparr>) run_id captured j = run_turn (t\<lparr>tt_clock := clock'\<rparr>) run_id captured j"
proof (cases "input_from_json (env_parse t) captured")
  case (Some input)
  then have "clock_free t (td_input (new_turn t run_id input)) clock clock'" using assms by (simp add: new_turn_def)
  then have "drive (t\<lparr>tt_clock := clock\<rparr>) (new_turn t run_id input) j = drive (t\<lparr>tt_clock := clock'\<rparr>) (new_turn t run_id input) j"
    by (rule drive_clock)
  then show ?thesis using Some by (simp add: run_turn_def)
qed (simp add: run_turn_def)

text \<open>What a whole run shows of the loop's laws.\<close>

lemma run_turn_replays:
  assumes "run_turn t run_id captured \<lparr>recorded_answers = answers, asked_requests = []\<rparr> = (r, j)"
    and "run_turn t run_id captured \<lparr>recorded_answers = answers @ later, asked_requests = []\<rparr> = (r', j')"
  shows "(r = Inl Suspended \<or> (r', j') = (r, extend later j)) \<and> prefix (asked_requests j) (asked_requests j') \<and>
    (r = Inl Suspended \<and> (\<exists>a. later = [a] \<and> answers_to (last (asked_requests j)) a) \<longrightarrow> r' \<noteq> Inl Mismatched)"
proof (cases "input_from_json (env_parse t) captured")
  case (Some input)
  let ?j = "\<lparr>recorded_answers = answers, asked_requests = []\<rparr>"
  let ?s = "new_turn t run_id input"
  have extended: "\<lparr>recorded_answers = answers @ later, asked_requests = []\<rparr> = extend later ?j" by (simp add: extend_def)
  obtain d k where first: "drive t ?s ?j = (d, k)" by fastforce
  obtain d' k' where again: "drive t ?s (extend later ?j) = (d', k')" by fastforce
  have r: "j = k" "(r = Inl i) = (d = Inl (Interrupted i))" for i
    using assms(1) Some first by (auto simp: run_turn_def split: sum.splits stop.splits)
  have r': "j' = k'" "(r' = Inl i) = (d' = Inl (Interrupted i))" for i
    using assms(2) Some again unfolding extended by (auto simp: run_turn_def split: sum.splits stop.splits)
  have "d = Inl (Interrupted Suspended) \<or> (d', k') = (d, extend later k)"
    using drives.settled_stays [of t ?s ?j later] first again by auto
  then have "r = Inl Suspended \<or> (r', j') = (r, extend later j)"
    using assms Some first again unfolding extended by (auto simp: run_turn_def split: sum.splits stop.splits)
  moreover have "prefix (asked_requests k) (asked_requests k')"
    using drives.asked_stays [of t ?s ?j later] first again by simp
  moreover have "d' \<noteq> Inl (Interrupted Mismatched)"
      if "d = Inl (Interrupted Suspended)" "later = [a]" "answers_to (last (asked_requests k)) a" for a
    using drives.resumes [of t ?s ?j a] first again that by simp
  ultimately show ?thesis using r r' by blast
qed (use assms in \<open>auto simp: run_turn_def extend_def\<close>)

lemma run_turn_answered:
  assumes "run_turn t run_id captured \<lparr>recorded_answers = answers, asked_requests = []\<rparr> = (Inr outcome, j)"
  shows "\<exists>used. answers = used @ recorded_answers j \<and> list_all2 answers_to (asked_requests j) used"
proof (cases "input_from_json (env_parse t) captured")
  case (Some input)
  obtain d k where drive: "drive t (new_turn t run_id input) \<lparr>recorded_answers = answers, asked_requests = []\<rparr> = (d, k)" by fastforce
  then have "j = k" "\<And>i. d \<noteq> Inl (Interrupted i)"
    using assms Some by (auto simp: run_turn_def split: sum.splits stop.splits)
  then have "stop_of d \<noteq> Some (Interrupted i)" for i by (auto simp: stop_of_def split: sum.split)
  then show ?thesis
    using drives.accounted [of t "new_turn t run_id input" "\<lparr>recorded_answers = answers, asked_requests = []\<rparr>"] drive \<open>j = k\<close>
    by (auto simp: account_def elim!: accountsE)
qed (use assms in \<open>simp add: run_turn_def\<close>)

section \<open>A rerun across midnight\<close>

text \<open>
  A rerun whose one Action takes a fresh identifier, and a model that writes a date there: 2026-01-01 is a date the guard lets
  pass within thirty-two days of it, until 2026-02-02, and an identifier the person never wrote from 2026-02-03 on.
\<close>

definition new_years_day :: string where "new_years_day = ''2026-01-01''"

definition dns_tool :: string where "dns_tool = action_tool_name (\<lambda>_. []) ''x'' ''y''"

definition rerun_context :: turn_context where
  "rerun_context = sample_context\<lparr>assistants := [\<lparr>assistant_id = ''x'', genesis = ''g'', actions = [\<lparr>action_id = ''y'', summary = ''s'',
     input_schema = Object [], output_schema = Object [], authorization = False, input_files = []\<rparr>]\<rparr>],
     routine_rerun := Some sample_work\<rparr>"

definition rerun_input :: turn_input where
  "rerun_input = \<lparr>input_context = rerun_context, input_system = [],
     input_tools = [\<lparr>spec_name = dns_tool, description = [], spec_schema = Object [], strict_flag = Some False\<rparr>],
     input_messages = [User ''u'' ''hi''], turn_start = 0, memory_tool = False, routine_tool = False, browser_tool = False\<rparr>"

definition rerun_reply :: assistant_message where
  "rerun_reply = \<lparr>turn_id = [], turn_text = [],
     turn_calls = [\<lparr>call_id = ''1'', call_name = dns_tool, call_arguments = Object [(''id'', String new_years_day)]\<rparr>],
     turn_invalid_calls = [], turn_refusal = False, turn_truncated = False, turn_provider = [], turn_raw = None, turn_attempts = 1\<rparr>"

text \<open>The iso form's one match of that date, as the engine finds it.\<close>

definition iso_engine :: engine_search where
  "iso_engine pattern words position =
     (if pattern = snd (hd UNSPACED_DATE_FORMS) \<and> words = new_years_day \<and> position = 0
      then Inr (Some \<lparr>match_start = 0, match_end = 10, match_groups = [Some (0, 4), Some (5, 7), Some (8, 10)]\<rparr>) else Inr None)"

definition rerun_reader :: "string \<Rightarrow> json option" where
  "rerun_reader s =
     (if s = ''m'' then Some (message_value (Assistant rerun_reply))
      else if s = ''hi'' then None else Some (input_value rerun_input))"

definition rerun_tools :: turn_tools where
  "rerun_tools = \<lparr>tt_routine = \<lparr>rt_memory = \<lparr>mt_unicode = plain_unicode, mt_full = \<lambda>_ _. True, mt_engine = iso_engine, mt_parse = rerun_reader\<rparr>,
     rt_digest = \<lambda>_. [], rt_today = (2026, 1, 1)\<rparr>, tt_asks = \<lambda>_ _. None, tt_engine = sample_engine, tt_clock = \<lambda>_. (2026, 1, 1)\<rparr>"

definition rerun_recorded :: step_answer where
  "rerun_recorded = Model_Answer (Inr (Object [(''message'', String ''m'')]))"

lemma rerun_input_read: "input_from_json rerun_reader (input_to_json rerun_input) = Some rerun_input"
proof (rule input_reads_back)
  show "input_ok rerun_input"
    by (simp add: input_ok_def context_ok_def rerun_input_def rerun_context_def sample_context_def message_ok_def)
  obtain r where "compact_text (input_value rerun_input) = CHR ''{'' # r"
    unfolding input_value_def object_def using compact_first by blast
  then show "rerun_reader (compact_text (input_value rerun_input)) = Some (input_value rerun_input)"
    by (simp add: rerun_reader_def)
qed

lemma rerun_reply_read: "message_from (message_value (Assistant rerun_reply)) = Some (Assistant rerun_reply)"
  by (rule messages.reads_back) (simp add: message_ok_def turn_ok_def call_ok_def rerun_reply_def is_object_def)

lemma new_years_found:
  "finditer iso_engine (snd (hd UNSPACED_DATE_FORMS)) new_years_day =
     Inr [\<lparr>match_start = 0, match_end = 10, match_groups = [Some (0, 4), Some (5, 7), Some (8, 10)]\<rparr>]"
  by (simp add: finditer_def new_years_day_def numeral_eq_Suc iso_engine_def)

lemma other_found: "pattern \<noteq> snd (hd UNSPACED_DATE_FORMS) \<Longrightarrow> finditer iso_engine pattern words = Inr []"
  by (simp add: finditer_def iso_engine_def)

lemma other_forms: "list_all (\<lambda>form. snd form \<noteq> snd (hd UNSPACED_DATE_FORMS)) forms \<Longrightarrow> writes_date iso_engine forms words today = Inr False"
proof (induction forms)
  case (Cons form forms)
  then show ?case by (cases form) (simp add: other_found)
qed simp

lemma iso_only: "list_all (\<lambda>form. snd form \<noteq> snd (hd UNSPACED_DATE_FORMS)) (tl UNSPACED_DATE_FORMS)"
  by code_simp

lemma new_years_written:
  "may_write_date iso_engine new_years_day today = Inr (near (Some ''2026'') ''01'' ''01'' today)"
proof -
  have forms: "UNSPACED_DATE_FORMS = (''iso'', snd (hd UNSPACED_DATE_FORMS)) # tl UNSPACED_DATE_FORMS"
    by (simp add: UNSPACED_DATE_FORMS_def)
  have groups: "map (\<lambda>i. match_group \<lparr>match_start = 0, match_end = 10, match_groups = [Some (0, 4), Some (5, 7), Some (8, 10)]\<rparr> new_years_day i) [1..<4] =
      [Some ''2026'', Some ''01'', Some ''01'']"
    by (simp add: upt_rec numeral_eq_Suc match_group_def slice_def new_years_day_def)
  have "date_match ''iso'' new_years_day today \<lparr>match_start = 0, match_end = 10, match_groups = [Some (0, 4), Some (5, 7), Some (8, 10)]\<rparr> =
      near (Some ''2026'') ''01'' ''01'' today"
    using groups by (simp add: date_match_def dates_written_def group_at_def the_or_def ascii_text_def is_ascii_def numeral_eq_Suc)
  then show ?thesis
    unfolding may_write_date_def by (subst forms) (simp add: new_years_found other_forms [OF iso_only])
qed

lemma near_new_year:
  "near (Some ''2026'') ''01'' ''01'' (2026, 2, 2)" "\<not> near (Some ''2026'') ''01'' ''01'' (2026, 2, 3)"
  by code_simp+


lemma rerun_checked: "checked_members (\<lambda>_. []) sample_work = [(dns_tool, [''id''])]"
  by (simp add: checked_members_def sample_work_def entry_tool_def fresh_members_def common_members_def dns_tool_def
      array_of_def str_of_def the_or_def map_filter_def)

lemma no_segments: "authored_segments [] = []"
proof -
  have "segment_loop (split_on (CHR 0x0A) []) [[]] = [[[]]]" by code_simp
  then show ?thesis by (simp add: authored_segments_def strip_def trim_end_def)
qed

lemma rerun_fields:
  "rt_digest (tt_routine rerun_tools) = (\<lambda>_. [])" "mt_engine (rt_memory (tt_routine rerun_tools)) = iso_engine"
  "mt_parse (rt_memory (tt_routine rerun_tools)) = rerun_reader"
  by (simp_all add: rerun_tools_def)

lemma rerun_judged:
  assumes "turn_calls m = turn_calls rerun_reply" "turn_invalid_calls m = []"
  shows "rerun_review (tt_routine rerun_tools\<lparr>rt_today := today\<rparr>) [User ''u'' ''hi'', Assistant m] sample_work offered =
    Inr (if near (Some ''2026'') ''01'' ''01'' today then None else Some RERUN_CORRECTION)"
proof -
  let ?r = "tt_routine rerun_tools\<lparr>rt_today := today\<rparr>"
  have shape: "identifier_shaped ?r (String new_years_day) \<longleftrightarrow> \<not> near (Some ''2026'') ''01'' ''01'' today"
  proof -
    have "py_len new_years_day \<ge> MIN_IDENTIFIER_CHARS" "\<not> list_ex isspace (chars new_years_day)"
      by (simp_all add: new_years_day_def py_len_def MIN_IDENTIFIER_CHARS_def isspace_def WHITESPACE_def continuation_def)
    then show ?thesis by (simp add: identifier_shaped_def integer_digits_def rerun_fields new_years_written)
  qed
  have turn: "drop (turn_begins [User ''u'' ''hi'', Assistant m]) [User ''u'' ''hi'', Assistant m] = [User ''u'' ''hi'', Assistant m]"
    by (simp add: turn_begins_def)
  have results: "turn_results ?r offered [User ''u'' ''hi'', Assistant m] = []"
    by (simp add: turn_results_def map_filter_def)
  have segments: "turn_segments ?r [User ''u'' ''hi'', Assistant m] = []"
    by (simp add: turn_segments_def rerun_fields turn_message_def rerun_reader_def the_or_def no_segments)
  have "unsourced ?r [] [] (String new_years_day) \<longleftrightarrow> \<not> near (Some ''2026'') ''01'' ''01'' today"
    unfolding unsourced_def shape by (simp add: written_in_def)
  then show ?thesis
    using assms by (simp add: rerun_review_def latest_turn_def rerun_fields rerun_checked turn results segments rerun_reply_def Let_def the_or_def)
qed

definition rerun_turn :: "string \<Rightarrow> turn" where
  "rerun_turn run_id = new_turn rerun_tools run_id rerun_input"

lemma rerun_called:
  "\<exists>ident request. call_model rerun_tools (rerun_turn run_id) \<lparr>recorded_answers = rerun_recorded # later, asked_requests = []\<rparr> =
     (Inr (rerun_reply\<lparr>turn_id := ident\<rparr>, rerun_turn run_id\<lparr>td_steps := 1, td_counter := 1\<rparr>),
      \<lparr>recorded_answers = later, asked_requests = [Model_Call request]\<rparr>)"
proof -
  have steps: "take_steps 1 (rerun_turn run_id) = Inr (rerun_turn run_id\<lparr>td_steps := 1\<rparr>)"
    by (simp add: take_steps_def rerun_turn_def new_turn_def RECURSION_LIMIT_def)
  have "answer_from rerun_reader (Object [(''message'', String ''m'')]) ''message'' = Some (Some (message_value (Assistant rerun_reply)))"
    by (simp add: answer_from_def rerun_reader_def del: message_value.simps)
  moreover have "\<not> turn_truncated rerun_reply" by (simp add: rerun_reply_def)
  ultimately have "\<exists>ident. read_turn rerun_tools (Object [(''message'', String ''m'')]) (rerun_turn run_id\<lparr>td_steps := 1\<rparr>) =
      Inr (rerun_reply\<lparr>turn_id := ident\<rparr>, rerun_turn run_id\<lparr>td_steps := 1, td_counter := 1\<rparr>)"
    by (auto simp: read_turn_def rerun_fields rerun_reply_read next_id_def Let_def rerun_turn_def new_turn_def simp del: message_value.simps)
  with steps show ?thesis
    by (auto simp: call_model_def journal_model_def rerun_recorded_def)
qed

definition rerun_judging :: "string \<Rightarrow> string \<Rightarrow> turn" where
  "rerun_judging run_id ident = push_message (Assistant (rerun_reply\<lparr>turn_id := ident\<rparr>)) (rerun_turn run_id\<lparr>td_steps := 1, td_counter := 1\<rparr>)"

lemma rerun_reviewed:
  "review_turn (rerun_tools\<lparr>tt_clock := \<lambda>_. today\<rparr>) (rerun_judging run_id ident) =
     Inr (if near (Some ''2026'') ''01'' ''01'' today
          then (Run_Calls, rerun_judging run_id ident\<lparr>td_steps := 3\<rparr>)
          else (Refused RERUN_CORRECTION, rerun_judging run_id ident\<lparr>td_steps := 2\<rparr>))"
proof -
  let ?s = "rerun_judging run_id ident"
  have input: "td_input ?s = rerun_input" "td_messages ?s = [User ''u'' ''hi'', Assistant (rerun_reply\<lparr>turn_id := ident\<rparr>)]"
      "td_steps ?s = 1" "\<not> td_after_browser ?s"
    by (simp_all add: rerun_judging_def push_message_def rerun_turn_def new_turn_def) (simp add: rerun_input_def)
  have guards: "guards_of ?s = [Rerun_Guard, Clarification_Guard]"
    by (simp add: guards_of_def input rerun_input_def rerun_context_def Let_def)
  have work: "routine_rerun (input_context rerun_input) = Some sample_work" by (simp add: rerun_input_def rerun_context_def)
  have rerun: "apply_guard (rerun_tools\<lparr>tt_clock := \<lambda>_. today\<rparr>) (?s\<lparr>td_steps := n\<rparr>) Rerun_Guard =
      Inr (if near (Some ''2026'') ''01'' ''01'' today then Run_Calls else Refused RERUN_CORRECTION)" for n
    using rerun_judged [of "rerun_reply\<lparr>turn_id := ident\<rparr>" today]
    by (simp add: apply_guard_def input work refused_by_def the_or_def rerun_reply_def Let_def)
  have "dns_tool \<noteq> CLARIFY_TOOL" by (simp add: dns_tool_def action_tool_name_def CLARIFY_TOOL_def)
  then have clarify: "apply_guard (rerun_tools\<lparr>tt_clock := \<lambda>_. today\<rparr>) (?s\<lparr>td_steps := n\<rparr>) Clarification_Guard = Inr Run_Calls" for n
    by (simp add: apply_guard_def input refused_by_def review_clarification_def lone_call_of_def latest_turn_def rerun_reply_def Let_def)
  have steps: "take_steps 1 ?s = Inr (?s\<lparr>td_steps := 2\<rparr>)" "take_steps 1 (?s\<lparr>td_steps := 2\<rparr>) = Inr (?s\<lparr>td_steps := 3\<rparr>)"
    by (simp_all add: take_steps_def RECURSION_LIMIT_def input)
  show ?thesis
    unfolding review_turn_def guards using rerun clarify steps by simp
qed

lemma rerun_tool_answers:
  "\<exists>ident s. tool_answers rerun_tools (action_names rerun_input) (turn_calls rerun_reply) (rerun_judging run_id m\<lparr>td_steps := n\<rparr>) =
     Inr ([Answer_Team (Action_Request ident ''x'' ''y'' (Object [(''id'', String new_years_day)]))], s)"
proof -
  let ?s = "rerun_judging run_id m\<lparr>td_steps := n\<rparr>"
  have state: "td_input ?s = rerun_input" "\<not> td_after_browser ?s"
    by (simp_all add: rerun_judging_def push_message_def rerun_turn_def new_turn_def)
  have spec: "list_ex (\<lambda>spec. spec_name spec = dns_tool) (input_tools rerun_input)" by (simp add: rerun_input_def)
  have action: "action_of rerun_tools (input_context rerun_input) (action_names rerun_input) dns_tool =
      Some (''x'', \<lparr>action_id = ''y'', summary = ''s'', input_schema = Object [], output_schema = Object [], authorization = False, input_files = []\<rparr>)"
    by (simp add: action_of_def rerun_input_def rerun_context_def action_names_def rerun_fields dns_tool_def)
  have valid: "action_valid (tt_engine rerun_tools)
      \<lparr>action_id = ''y'', summary = ''s'', input_schema = Object [], output_schema = Object [], authorization = False, input_files = []\<rparr>
      (Object [(''id'', String new_years_day)])"
    by (simp add: action_valid_def validate_payload_def validate_payload_in_def is_object_def depth_within_def MAX_PAYLOAD_DEPTH_def
        is_valid_def EVALUATION_FUEL_def numeral_eq_Suc ret_def)
  show ?thesis
    using spec action valid state
    by (simp add: rerun_reply_def answer_tool_call_def interrupt_id_next_def Let_def)
qed

lemma rerun_execution:
  "execution rerun_tools (\<lambda>_. today) run_id (input_to_json rerun_input) answers =
     (case drive (rerun_tools\<lparr>tt_clock := \<lambda>_. today\<rparr>) (rerun_turn run_id) \<lparr>recorded_answers = answers, asked_requests = []\<rparr> of
        (Inr result, j) \<Rightarrow> (Inr (outcome_json result), j)
      | (Inl (Interrupted i), j) \<Rightarrow> (Inl i, j)
      | (Inl (Failed f), j) \<Rightarrow> (Inr (outcome_json (failed_value f)), j))"
  using rerun_input_read by (simp add: execution_def run_turn_def rerun_turn_def rerun_fields)

lemma rerun_asks:
  assumes "near (Some ''2026'') ''01'' ''01'' today"
  shows "\<exists>request batch. execution rerun_tools (\<lambda>_. today) run_id (input_to_json rerun_input) [rerun_recorded] =
    (Inl Suspended, \<lparr>recorded_answers = [], asked_requests = [Model_Call request, Team_Call batch]\<rparr>)"
proof -
  let ?t = "rerun_tools\<lparr>tt_clock := \<lambda>_. today\<rparr>"
  obtain ident request where called: "call_model rerun_tools (rerun_turn run_id) \<lparr>recorded_answers = [rerun_recorded], asked_requests = []\<rparr> =
      (Inr (rerun_reply\<lparr>turn_id := ident\<rparr>, rerun_turn run_id\<lparr>td_steps := 1, td_counter := 1\<rparr>),
       \<lparr>recorded_answers = [], asked_requests = [Model_Call request]\<rparr>)"
    using rerun_called [of run_id "[]"] by auto
  have reviewed: "review_turn ?t (push_message (Assistant (rerun_reply\<lparr>turn_id := ident\<rparr>)) (rerun_turn run_id\<lparr>td_steps := 1, td_counter := 1\<rparr>)) =
      Inr (Run_Calls, rerun_judging run_id ident\<lparr>td_steps := 3\<rparr>)"
    using rerun_reviewed [of today run_id ident] assms by (simp add: rerun_judging_def)
  have steps: "take_steps 1 (rerun_judging run_id ident\<lparr>td_steps := 3\<rparr>) = Inr (rerun_judging run_id ident\<lparr>td_steps := 4\<rparr>)"
    by (simp add: take_steps_def RECURSION_LIMIT_def)
  obtain call s where answered: "tool_answers rerun_tools (action_names rerun_input) (turn_calls rerun_reply)
      (rerun_judging run_id ident\<lparr>td_steps := 4\<rparr>) = Inr ([Answer_Team (Action_Request call ''x'' ''y'' (Object [(''id'', String new_years_day)]))], s)"
    using rerun_tool_answers by blast
  have input: "td_input (rerun_judging run_id ident\<lparr>td_steps := 4\<rparr>) = rerun_input"
    by (simp add: rerun_judging_def push_message_def rerun_turn_def new_turn_def)
  have tools: "run_tools rerun_tools (rerun_reply\<lparr>turn_id := ident\<rparr>) (rerun_judging run_id ident\<lparr>td_steps := 4\<rparr>)
      \<lparr>recorded_answers = [], asked_requests = [Model_Call request]\<rparr> =
      (Inl (Interrupted Suspended), \<lparr>recorded_answers = [], asked_requests = [Model_Call request,
        Team_Call (requests_json [Action_Request call ''x'' ''y'' (Object [(''id'', String new_years_day)])])]\<rparr>)"
    using answered by (simp add: run_tools_def input requests_of_def map_filter_def team_results_def journal_deferred_def)
  have "turn_calls (rerun_reply\<lparr>turn_id := ident\<rparr>) \<noteq> []" by (simp add: rerun_reply_def)
  then have "drive_pass ?t (rerun_turn run_id) \<lparr>recorded_answers = [rerun_recorded], asked_requests = []\<rparr> =
      (Inl (Interrupted Suspended), \<lparr>recorded_answers = [], asked_requests = [Model_Call request,
        Team_Call (requests_json [Action_Request call ''x'' ''y'' (Object [(''id'', String new_years_day)])])]\<rparr>)"
    using called reviewed steps tools by (simp add: drive_pass_def)
  then show ?thesis
    by (simp add: rerun_execution drive.simps [of _ "rerun_turn run_id"])
qed

lemma rerun_breaks:
  assumes "\<not> near (Some ''2026'') ''01'' ''01'' today"
  shows "fst (execution rerun_tools (\<lambda>_. today) run_id (input_to_json rerun_input) [rerun_recorded, Team_Answer batch replies]) = Inl Mismatched"
proof -
  let ?t = "rerun_tools\<lparr>tt_clock := \<lambda>_. today\<rparr>"
  obtain ident request where called: "call_model rerun_tools (rerun_turn run_id)
      \<lparr>recorded_answers = [rerun_recorded, Team_Answer batch replies], asked_requests = []\<rparr> =
      (Inr (rerun_reply\<lparr>turn_id := ident\<rparr>, rerun_turn run_id\<lparr>td_steps := 1, td_counter := 1\<rparr>),
       \<lparr>recorded_answers = [Team_Answer batch replies], asked_requests = [Model_Call request]\<rparr>)"
    using rerun_called [of run_id "[Team_Answer batch replies]"] by auto
  have reviewed: "review_turn ?t (push_message (Assistant (rerun_reply\<lparr>turn_id := ident\<rparr>)) (rerun_turn run_id\<lparr>td_steps := 1, td_counter := 1\<rparr>)) =
      Inr (Refused RERUN_CORRECTION, rerun_judging run_id ident\<lparr>td_steps := 2\<rparr>)"
    using rerun_reviewed [of today run_id ident] assms by (simp add: rerun_judging_def)
  define s where "s = answer_all RERUN_CORRECTION (rerun_judging run_id ident\<lparr>td_steps := 2\<rparr>)"
  have first: "drive_pass ?t (rerun_turn run_id) \<lparr>recorded_answers = [rerun_recorded, Team_Answer batch replies], asked_requests = []\<rparr> =
      (Inr (Go_On s), \<lparr>recorded_answers = [Team_Answer batch replies], asked_requests = [Model_Call request]\<rparr>)"
    using called reviewed by (simp add: drive_pass_def s_def)
  have "td_steps s = 2"
    using same_turn_answer_all [of "rerun_judging run_id ident\<lparr>td_steps := 2\<rparr>" RERUN_CORRECTION] by (simp add: s_def same_turn_def)
  then have "take_steps 1 s = Inr (s\<lparr>td_steps := 3\<rparr>)" by (simp add: take_steps_def RECURSION_LIMIT_def)
  then have "\<exists>j. drive_pass ?t s \<lparr>recorded_answers = [Team_Answer batch replies], asked_requests = [Model_Call request]\<rparr> =
      (Inl (Interrupted Mismatched), j)"
    by (simp add: drive_pass_def call_model_def journal_model_def Let_def)
  then show ?thesis
    using first by (auto simp: rerun_execution drive.simps [of _ "rerun_turn run_id"] drive.simps [of _ s])
qed

text \<open>
  C28 Replay under another clock: whatever answers are recorded later, a run that ended ends the same way on them and a run
  that waits asks again exactly what it asked, in the same order and under the same ids, before anything new; and when its
  last request is answered it goes on and is never refused as another run's journal.  What an ended run read are the answers
  of what it asked, one by one.  This holds between two executions on two clocks whenever the run is not a rerun or no date
  tells their clocks apart, the one use the run makes of the day.
\<close>

theorem replay_stable:
  assumes free: "\<And>input. input_from_json (env_parse t) captured = Some input \<Longrightarrow> clock_free t input clock clock'"
    and first: "execution t clock run_id captured answers = (r, j)"
    and again: "execution t clock' run_id captured (answers @ later) = (r', j')"
  shows "(r = Inl Suspended \<or> r' = r \<and> asked_requests j' = asked_requests j \<and> recorded_answers j' = recorded_answers j @ later) \<and>
    prefix (asked_requests j) (asked_requests j') \<and>
    (r = Inl Suspended \<and> (\<exists>a. later = [a] \<and> answers_to (last (asked_requests j)) a) \<longrightarrow> r' \<noteq> Inl Mismatched) \<and>
    (\<forall>outcome. r = Inr outcome \<longrightarrow>
       (\<exists>used. answers = used @ recorded_answers j \<and> list_all2 answers_to (asked_requests j) used))"
proof -
  have same: "execution t clock' run_id captured (answers @ later) = execution t clock run_id captured (answers @ later)"
    unfolding execution_def using run_turn_clock [OF free] by simp
  note run = first [unfolded execution_def] again [unfolded same, unfolded execution_def]
  have "\<exists>used. answers = used @ recorded_answers j \<and> list_all2 answers_to (asked_requests j) used" if "r = Inr outcome" for outcome
    using run_turn_answered run(1) that by blast
  then show ?thesis using run_turn_replays [OF run] by (auto simp: extend_def)
qed

definition chat_tools :: turn_tools where
  "chat_tools = plain_turn_tools\<lparr>tt_routine := plain_tools\<lparr>rt_memory := rt_memory plain_tools\<lparr>mt_parse := sample_reader\<rparr>\<rparr>\<rparr>"

lemma chat_input_read: "input_from_json (env_parse chat_tools) (input_to_json sample_input) = Some sample_input"
  using input_reads_back [OF sample_input_ok, of sample_reader] by (simp add: chat_tools_def sample_reader_def)

lemma chat_free: "clock_free chat_tools sample_input clock clock'"
  by (simp add: clock_free_def sample_input_def sample_context_def)

lemma chat_waits:
  "\<exists>request. execution chat_tools clock run_id (input_to_json sample_input) [] =
     (Inl Suspended, \<lparr>recorded_answers = [], asked_requests = [Model_Call request]\<rparr>)"
proof -
  have "take_steps 1 (new_turn chat_tools run_id sample_input) = Inr (new_turn chat_tools run_id sample_input\<lparr>td_steps := 1\<rparr>)"
    by (simp add: take_steps_def new_turn_def RECURSION_LIMIT_def)
  then have "\<exists>request. drive_pass (chat_tools\<lparr>tt_clock := clock\<rparr>) (new_turn chat_tools run_id sample_input)
      \<lparr>recorded_answers = [], asked_requests = []\<rparr> = (Inl (Interrupted Suspended), \<lparr>recorded_answers = [], asked_requests = [Model_Call request]\<rparr>)"
    by (simp add: drive_pass_def call_model_def journal_model_def Let_def)
  then show ?thesis
    using chat_input_read by (auto simp: execution_def run_turn_def drive.simps [of _ "new_turn chat_tools run_id sample_input"])
qed

theorem replay_stable_witness:
  "\<exists>request.
     execution chat_tools (\<lambda>_. (2026, 2, 2)) ''run'' (input_to_json sample_input) [] =
       (Inl Suspended, \<lparr>recorded_answers = [], asked_requests = [Model_Call request]\<rparr>) \<and>
     fst (execution chat_tools (\<lambda>_. (2026, 2, 3)) ''run'' (input_to_json sample_input) [rerun_recorded]) \<noteq> Inl Mismatched \<and>
     prefix [Model_Call request]
       (asked_requests (snd (execution chat_tools (\<lambda>_. (2026, 2, 3)) ''run'' (input_to_json sample_input) [rerun_recorded])))"
proof -
  obtain request where first: "execution chat_tools (\<lambda>_. (2026, 2, 2)) ''run'' (input_to_json sample_input) [] =
      (Inl Suspended, \<lparr>recorded_answers = [], asked_requests = [Model_Call request]\<rparr>)"
    using chat_waits by blast
  obtain r j where again: "execution chat_tools (\<lambda>_. (2026, 2, 3)) ''run'' (input_to_json sample_input) ([] @ [rerun_recorded]) = (r, j)"
    by fastforce
  have "clock_free chat_tools input (\<lambda>_. (2026, 2, 2)) (\<lambda>_. (2026, 2, 3))"
      if "input_from_json (env_parse chat_tools) (input_to_json sample_input) = Some input" for input
    using that chat_input_read chat_free by simp
  then show ?thesis
    using replay_stable [OF _ first again] first again by (simp add: rerun_recorded_def)
qed


end
