(* ===== verification/Plans.thy ===== *)
theory Plans
  imports Recording
begin

text \<open>
  A Routine's plan as a Supervisor inspects it (\<open>protocol/team/http/src/routine/plan.rs\<close>), what a run does with its result
  (\<open>routine/output.rs\<close>) and the shared forms of \<open>routine/mod.rs\<close>.  The compiled patterns (\<open>full\<close>) are a parameter.
\<close>

section \<open>Shared forms\<close>

definition MAX_ROUTINES :: nat where "MAX_ROUTINES = 8"
definition MAX_CONTINUOUS_CAP :: int where
  "MAX_CONTINUOUS_CAP = (DAY_SECONDS + MIN_CONTINUOUS_GAP_SECONDS - 1) div MIN_CONTINUOUS_GAP_SECONDS"
definition ERROR_CODE_PATTERN :: string where "ERROR_CODE_PATTERN = re_text ''[a-z][a-z0-9-]{0,63}~Z''"
definition ROUTINE_ID_PATTERN :: string where "ROUTINE_ID_PATTERN = re_text ''[0-9a-f]{32}~Z''"
definition TIMEZONE_PATTERN :: string where
  "TIMEZONE_PATTERN = re_text ''[A-Za-z][A-Za-z0-9_+-]{0,31}(?:/[A-Za-z0-9][A-Za-z0-9_+-]{0,31}){0,2}~Z''"
definition TIMEZONE_SOURCES :: "string list" where "TIMEZONE_SOURCES = [''browser'', ''person'', ''none'']"
definition CONVENTIONAL_TIMEZONE :: string where "CONVENTIONAL_TIMEZONE = ''UTC''"

definition exact_schedule :: "matcher \<Rightarrow> json \<Rightarrow> bool" where
  "exact_schedule full v \<longleftrightarrow> canonical_schedule full v \<noteq> None"

definition exact_name :: "unicode \<Rightarrow> json \<Rightarrow> bool" where
  "exact_name u v \<longleftrightarrow> canonical_name u v \<noteq> None"

definition exact_description :: "unicode \<Rightarrow> json \<Rightarrow> bool" where
  "exact_description u v \<longleftrightarrow> canonical_description u v \<noteq> None"

definition canonical_timezone :: "matcher \<Rightarrow> json \<Rightarrow> string option" where
  "canonical_timezone full v =
     (case py_string v of Some zone \<Rightarrow> if full TIMEZONE_PATTERN zone then Some zone else None | None \<Rightarrow> None)"

definition zoned :: "matcher \<Rightarrow> json \<Rightarrow> json \<Rightarrow> bool" where
  "zoned full zone source =
     (case py_string source of
        None \<Rightarrow> False
      | Some origin \<Rightarrow>
          origin \<in> set TIMEZONE_SOURCES \<and>
          (case canonical_timezone full zone of
             None \<Rightarrow> False
           | Some name \<Rightarrow> origin \<noteq> ''none'' \<or> name = CONVENTIONAL_TIMEZONE))"

definition valid_assistant :: "matcher \<Rightarrow> json \<Rightarrow> bool" where
  "valid_assistant full v \<longleftrightarrow> canonical_assistant_id full v \<noteq> None"

definition valid_action :: "matcher \<Rightarrow> json \<Rightarrow> bool" where
  "valid_action full v \<longleftrightarrow> canonical_action_id full v \<noteq> None"

definition valid_team :: "matcher \<Rightarrow> json \<Rightarrow> bool" where
  "valid_team full v \<longleftrightarrow> canonical_team_id full v \<noteq> None"

definition position_within :: "json \<Rightarrow> int \<Rightarrow> bool" where
  "position_within v maximum = whole v 1 maximum"

definition canonical_position :: "json \<Rightarrow> json \<Rightarrow> json option" where
  "canonical_position v steps =
     (case small_int steps of
        Some n \<Rightarrow> if 0 \<le> n \<and> n \<le> MAX_ROUTINE_STEPS \<and> position_within v n then Some v else None
      | None \<Rightarrow> None)"

definition encoded_bytes :: "json \<Rightarrow> nat" where
  "encoded_bytes v = length (dumps CANONICAL v)"

definition valid_revision :: "json \<Rightarrow> bool" where
  "valid_revision v = whole v 1 (2 ^ 31 - 1)"

section \<open>Escaped text\<close>

definition MAX_PREVIEW_CHARS :: nat where "MAX_PREVIEW_CHARS = 120"
definition MAX_STEP_INPUTS :: nat where "MAX_STEP_INPUTS = 64"
definition MAX_STEP_STORED_INPUTS :: nat where "MAX_STEP_STORED_INPUTS = 8"
definition MAX_MEMBER_CHARS :: nat where "MAX_MEMBER_CHARS = 128"
definition MAX_POINTER_CHARS :: nat where "MAX_POINTER_CHARS = 256"
definition MAX_WHERE_CHARS :: nat where "MAX_WHERE_CHARS = 4096"
definition MAX_STEP_VIEW_BYTES :: nat where "MAX_STEP_VIEW_BYTES = 24 * 1024"
definition MAX_PAGE_STEPS :: nat where "MAX_PAGE_STEPS = 64"
definition MAX_PAGE_BYTES :: nat where "MAX_PAGE_BYTES = 96 * 1024"
definition MAX_SUMMARY_RUNS :: nat where "MAX_SUMMARY_RUNS = 16"
definition PLAN_DIGEST_PATTERN :: string where "PLAN_DIGEST_PATTERN = re_text ''sha256:[0-9a-f]{64}~Z''"
definition POINTER_PATTERN :: string where
  "POINTER_PATTERN = ''(?:/(?:[^/~]|~[01])*)*'' @ [escape_char] @ ''Z''"

definition plan_unsafe :: "nat \<Rightarrow> bool" where
  "plan_unsafe point \<longleftrightarrow>
     point \<le> 0x1F \<or> 0x7F \<le> point \<and> point \<le> 0x9F \<or> 0x200B \<le> point \<and> point \<le> 0x200F \<or>
     0x2028 \<le> point \<and> point \<le> 0x202E \<or> 0x2060 \<le> point \<and> point \<le> 0x206F \<or>
     0xD800 \<le> point \<and> point \<le> 0xDFFF \<or> point = 0xFEFF"

definition unsafe_char :: "string \<Rightarrow> bool" where
  "unsafe_char ch = plan_unsafe (code_point ch)"

definition escaped_char :: "string \<Rightarrow> string" where
  "escaped_char ch = (if unsafe_char ch then push_escape (code_point ch) else ch)"

definition escaped :: "string \<Rightarrow> string" where
  "escaped s = concat (map escaped_char (chars s))"

definition preview :: "string \<Rightarrow> string" where
  "preview s =
     (if py_len (escaped s) \<le> MAX_PREVIEW_CHARS then escaped s
      else concat (take (MAX_PREVIEW_CHARS - 1) (chars (escaped s))) @ utf8 [0xE2, 0x80, 0xA6])"

definition literal_preview :: "json \<Rightarrow> string" where
  "literal_preview v = preview (dumps CANONICAL v)"

definition plain :: "json \<Rightarrow> nat \<Rightarrow> bool" where
  "plain v maximum =
     (case py_string v of
        Some s \<Rightarrow> 1 \<le> py_len s \<and> py_len s \<le> maximum \<and> \<not> list_ex unsafe_char (chars s)
      | None \<Rightarrow> False)"

definition pointer_ok :: "matcher \<Rightarrow> json \<Rightarrow> bool" where
  "pointer_ok full v =
     (case py_string v of
        Some s \<Rightarrow> py_len s \<le> MAX_POINTER_CHARS \<and> full POINTER_PATTERN s \<and> \<not> list_ex unsafe_char (chars s)
      | None \<Rightarrow> False)"

section \<open>Selectors\<close>

text \<open>A code point as UTF-8, and \<open>char::from_u32\<close>: none for a surrogate or beyond the last code point.\<close>

definition utf8_char :: "nat \<Rightarrow> string" where
  "utf8_char p =
     (if p < 0x80 then [char_of p]
      else if p < 0x800 then [char_of (0xC0 + p div 64), char_of (0x80 + p mod 64)]
      else if p < 0x10000 then [char_of (0xE0 + p div 4096), char_of (0x80 + p div 64 mod 64), char_of (0x80 + p mod 64)]
      else [char_of (0xF0 + p div 262144), char_of (0x80 + p div 4096 mod 64), char_of (0x80 + p div 64 mod 64),
            char_of (0x80 + p mod 64)])"

definition char_from :: "nat \<Rightarrow> string option" where
  "char_from p = (if p \<le> 0x10FFFF \<and> \<not> (0xD800 \<le> p \<and> p \<le> 0xDFFF) then Some (utf8_char p) else None)"

definition where_char :: "nat \<Rightarrow> string" where
  "where_char p =
     (case char_from p of
        Some ch \<Rightarrow>
          if p \<le> 0x1F \<or> p = 0x22 \<or> p = 0x5C then write_char False ch
          else if \<not> plan_unsafe p then ch else push_escape p
      | None \<Rightarrow> push_escape p)"

definition where_string :: "nat list \<Rightarrow> string" where
  "where_string points = CHR 0x22 # concat (map where_char points) @ [CHR 0x22]"

definition where_text :: "json \<Rightarrow> string option" where
  "where_text v =
     (case v of
        String s \<Rightarrow> Some (where_string (map code_point (chars s)))
      | Number (Integer _) \<Rightarrow> Some (dumps CANONICAL v)
      | Number (BigInt _) \<Rightarrow> Some (dumps CANONICAL v)
      | _ \<Rightarrow> None)"

datatype scalar = Scalar_String "nat list" | Scalar_Integer

definition hex_digit_value :: "string \<Rightarrow> nat option" where
  "hex_digit_value ch =
     (case ch of
        [c] \<Rightarrow>
          if ascii_digit c then Some (of_char c - 48)
          else if CHR ''a'' \<le> c \<and> c \<le> CHR ''f'' then Some (of_char c - 87)
          else if CHR ''A'' \<le> c \<and> c \<le> CHR ''F'' then Some (of_char c - 55)
          else None
      | _ \<Rightarrow> None)"

text \<open>The characters from an index on, in place of the vector and the index.\<close>

definition read_hex4 :: "string list \<Rightarrow> nat option" where
  "read_hex4 cs =
     (if length cs < 4 then None
      else do {
        a \<leftarrow> hex_digit_value (cs ! 0);
        b \<leftarrow> hex_digit_value (cs ! 1);
        c \<leftarrow> hex_digit_value (cs ! 2);
        d \<leftarrow> hex_digit_value (cs ! 3);
        Some (((a * 16 + b) * 16 + c) * 16 + d) })"

definition simple_escape :: "string \<Rightarrow> nat option" where
  "simple_escape ch =
     (if ch = [CHR 0x22] then Some 0x22
      else if ch = [escape_char] then Some 0x5C
      else if ch = ''b'' then Some 0x08
      else if ch = ''f'' then Some 0x0C
      else if ch = ''n'' then Some 0x0A
      else if ch = ''r'' then Some 0x0D
      else if ch = ''t'' then Some 0x09
      else None)"

definition json_escape :: "string list \<Rightarrow> (nat \<times> string list) option" where
  "json_escape cs =
     (case cs of
        [] \<Rightarrow> None
      | escape # rest \<Rightarrow>
          (case simple_escape escape of
             Some point \<Rightarrow> Some (point, rest)
           | None \<Rightarrow>
               if escape \<noteq> ''u'' then None
               else (case read_hex4 rest of
                       None \<Rightarrow> None
                     | Some high \<Rightarrow>
                         let after = drop 4 rest;
                             again = (take 2 after = [[escape_char], ''u''])
                         in if 0xD800 \<le> high \<and> high \<le> 0xDBFF \<and> again then
                              (case read_hex4 (drop 2 after) of
                                 None \<Rightarrow> None
                               | Some low \<Rightarrow> if 0xDC00 \<le> low \<and> low \<le> 0xDFFF then None else Some (high, after))
                            else Some (high, after))))"

lemma json_escape_shorter: "json_escape cs = Some (p, rest) \<Longrightarrow> length rest < length cs"
  by (auto simp: json_escape_def Let_def split: list.splits option.splits if_splits)

function scalar_points :: "string list \<Rightarrow> nat list option" where
  "scalar_points [] = None"
| "scalar_points (ch # rest) =
     (if ch = [CHR 0x22] then (if rest = [] then Some [] else None)
      else if ch = [escape_char] then
        (case json_escape rest of
           None \<Rightarrow> None
         | Some (point, after) \<Rightarrow> map_option ((#) point) (scalar_points after))
      else map_option ((#) (code_point ch)) (scalar_points rest))"
  by pat_completeness auto

termination
  by (relation "measure length") (auto dest: json_escape_shorter)

declare scalar_points.simps [simp del]

definition json_scalar :: "string \<Rightarrow> scalar option" where
  "json_scalar s =
     (let digits = the_or s (strip_prefix ''-'' s)
      in if digits \<noteq> [] \<and> list_all ascii_digit digits then
           (if digits = ''0'' \<or> \<not> starts_with ''0'' digits then Some Scalar_Integer else None)
         else if \<not> starts_with [CHR 0x22] s then None
         else map_option Scalar_String (scalar_points (drop 1 (chars s))))"

definition selector :: "json \<Rightarrow> bool" where
  "selector v =
     (case py_exact_object v [''member'', ''value_json''] of
        None \<Rightarrow> False
      | Some ms \<Rightarrow>
          let text_value = py_field ms ''value_json''
          in plain (py_field ms ''member'') MAX_MEMBER_CHARS \<and> plain text_value MAX_WHERE_CHARS \<and>
             (let words = the_or [] (py_string text_value)
              in case json_scalar words of
                   Some (Scalar_String points) \<Rightarrow> where_string points = words
                 | Some Scalar_Integer \<Rightarrow> words \<noteq> ''-0''
                 | None \<Rightarrow> False))"

section \<open>Projected steps\<close>

definition reference :: "matcher \<Rightarrow> (string \<times> json) list \<Rightarrow> int \<Rightarrow> bool" where
  "reference full ms at_position \<longleftrightarrow>
     position_within (py_field ms ''step'') (at_position - 1) \<and>
     pointer_ok full (py_field ms ''pointer'') \<and>
     (if py_field ms ''where'' \<noteq> Null
      then selector (py_field ms ''where'') \<and> pointer_ok full (py_field ms ''item'')
      else py_field ms ''item'' = Null)"

definition input_fields :: "string option \<Rightarrow> string list option" where
  "input_fields source =
     (if source = Some ''literal'' \<or> source = Some ''run_clock'' then Some [''member'', ''source'', ''value'']
      else if source = Some ''step_output'' then Some [''member'', ''source'', ''step'', ''pointer'', ''where'', ''item'']
      else None)"

definition step_input :: "matcher \<Rightarrow> int \<Rightarrow> json \<Rightarrow> bool" where
  "step_input full at_position v =
     (let source = Option.bind (get v ''source'') py_string
      in case Option.bind (input_fields source) (py_exact_object v) of
           None \<Rightarrow> False
         | Some ms \<Rightarrow>
             plain (py_field ms ''member'') MAX_MEMBER_CHARS \<and>
             (if source = Some ''step_output'' then reference full ms at_position
              else plain (py_field ms ''value'') MAX_PREVIEW_CHARS))"

text \<open>\<open>Option<&str>\<close> is ordered with none before every text.\<close>

fun option_less :: "string option \<Rightarrow> string option \<Rightarrow> bool" where
  "option_less None (Some _) = True"
| "option_less (Some a) (Some b) = (a < b)"
| "option_less _ None = False"

definition members_sorted :: "json \<Rightarrow> (json \<Rightarrow> bool) \<Rightarrow> bool" where
  "members_sorted items admit =
     (case py_array items of
        None \<Rightarrow> False
      | Some vs \<Rightarrow>
          length vs \<le> MAX_STEP_INPUTS \<and> list_all admit vs \<and>
          successively (\<lambda>a b. option_less (py_string (field_of a ''member'')) (py_string (field_of b ''member''))) vs)"

definition is_bool_value :: "json \<Rightarrow> bool" where
  "is_bool_value v = (case v of Bool _ \<Rightarrow> True | _ \<Rightarrow> False)"

definition STEP_FIELDS :: "string list" where
  "STEP_FIELDS = [''position'', ''assistant'', ''action'', ''read_only'', ''inputs'', ''stored_inputs'']"

definition canonical_step :: "matcher \<Rightarrow> json \<Rightarrow> int \<Rightarrow> json option" where
  "canonical_step full v at_position =
     (case py_exact_object v STEP_FIELDS of
        None \<Rightarrow> None
      | Some ms \<Rightarrow>
          let stored_ok = (case py_array (py_field ms ''stored_inputs'') of
                None \<Rightarrow> False
              | Some stored \<Rightarrow>
                  length stored \<le> MAX_STEP_STORED_INPUTS \<and>
                  (case opt_all (canonical_identifier full) stored of
                     Some names \<Rightarrow> successively (<) names
                   | None \<Rightarrow> False));
              valid = (1 \<le> at_position \<and> at_position \<le> MAX_ROUTINE_STEPS \<and>
                small_int (py_field ms ''position'') = Some at_position \<and>
                valid_assistant full (py_field ms ''assistant'') \<and>
                valid_action full (py_field ms ''action'') \<and>
                is_bool_value (py_field ms ''read_only'') \<and>
                members_sorted (py_field ms ''inputs'') (step_input full at_position) \<and>
                stored_ok \<and> encoded_bytes v \<le> MAX_STEP_VIEW_BYTES)
          in if valid then Some v else None)"

section \<open>Pages and summaries\<close>

fun numbered :: "int \<Rightarrow> (json \<Rightarrow> int \<Rightarrow> bool) \<Rightarrow> json list \<Rightarrow> bool" where
  "numbered n step [] = True"
| "numbered n step (v # vs) = (step v n \<and> numbered (n + 1) step vs)"

definition paged :: "(string \<times> json) list \<Rightarrow> (json \<Rightarrow> int \<Rightarrow> bool) \<Rightarrow> bool" where
  "paged ms step =
     (case (py_array (py_field ms ''steps''), small_int (py_field ms ''total''), small_int (py_field ms ''offset'')) of
        (Some steps, Some amount, Some offset) \<Rightarrow>
          whole (py_field ms ''total'') 1 MAX_ROUTINE_STEPS \<and>
          0 \<le> offset \<and> offset < amount \<and>
          0 < length steps \<and> length steps \<le> MAX_PAGE_STEPS \<and>
          int (length steps) \<le> amount - offset \<and>
          numbered (offset + 1) step steps \<and>
          (if offset + int (length steps) = amount then py_field ms ''next'' = Null
           else eq_int (py_field ms ''next'') (offset + int (length steps))) \<and>
          encoded_bytes (py_field ms ''steps'') \<le> MAX_PAGE_BYTES
      | _ \<Rightarrow> False)"

definition PAGE_FIELDS :: "string list" where
  "PAGE_FIELDS = [''routine_id'', ''revision'', ''plan_digest'', ''total'', ''offset'', ''steps'', ''next'']"

definition canonical_page :: "matcher \<Rightarrow> json \<Rightarrow> json option" where
  "canonical_page full v =
     (case py_exact_object v PAGE_FIELDS of
        None \<Rightarrow> None
      | Some ms \<Rightarrow>
          if is_full_value full ROUTINE_ID_PATTERN (py_field ms ''routine_id'') \<and>
            valid_revision (py_field ms ''revision'') \<and>
            is_full_value full PLAN_DIGEST_PATTERN (py_field ms ''plan_digest'') \<and>
            paged ms (\<lambda>item at_position. canonical_step full item at_position \<noteq> None)
          then Some v else None)"

definition summary_run :: "matcher \<Rightarrow> json \<Rightarrow> (json \<times> json \<times> int) option" where
  "summary_run full v =
     (case py_array v of
        Some [who, action, amount] \<Rightarrow>
          if valid_assistant full who \<and> valid_action full action \<and> position_within amount MAX_ROUTINE_STEPS
          then map_option (\<lambda>n. (who, action, n)) (small_int amount) else None
      | _ \<Rightarrow> None)"

definition canonical_summary :: "matcher \<Rightarrow> json \<Rightarrow> json option" where
  "canonical_summary full v =
     (case py_exact_object v [''revision'', ''plan_digest'', ''steps'', ''actions'', ''more''] of
        None \<Rightarrow> None
      | Some ms \<Rightarrow>
          (case py_array (py_field ms ''actions'') of
             None \<Rightarrow> None
           | Some runs \<Rightarrow>
               let runs_ok = (case (opt_all (summary_run full) runs, small_int (py_field ms ''more'')) of
                     (Some parsed, Some rest) \<Rightarrow>
                       successively (\<lambda>(who, action, _) (who', action', _). \<not> (py_eq who who' \<and> py_eq action action')) parsed \<and>
                       0 \<le> rest \<and> (rest = 0 \<or> length runs = MAX_SUMMARY_RUNS) \<and>
                       small_int (py_field ms ''steps'') = Some (sum_list (map (\<lambda>run. snd (snd run)) parsed) + rest)
                   | _ \<Rightarrow> False)
               in if valid_revision (py_field ms ''revision'') \<and>
                    is_full_value full PLAN_DIGEST_PATTERN (py_field ms ''plan_digest'') \<and>
                    whole (py_field ms ''steps'') 1 MAX_ROUTINE_STEPS \<and>
                    1 \<le> length runs \<and> length runs \<le> MAX_SUMMARY_RUNS \<and> runs_ok
                  then Some v else None))"

section \<open>What a run does with its result\<close>

definition OUTPUT_MODES :: "string list" where "OUTPUT_MODES = [''show'', ''changes'', ''none'']"
definition SHOWN_MODES :: "string list" where "SHOWN_MODES = [''changes'', ''show'']"
definition OUTPUT_STATES :: "string list" where "OUTPUT_STATES = [''shown'', ''unchanged'', ''unavailable'']"
definition MAX_OUTPUT_DEPTH :: nat where "MAX_OUTPUT_DEPTH = 4"
definition MAX_OUTPUT_ITEMS :: nat where "MAX_OUTPUT_ITEMS = 50"
definition MAX_OUTPUT_FIELDS :: nat where "MAX_OUTPUT_FIELDS = 24"
definition MAX_OUTPUT_TEXT_CHARS :: nat where "MAX_OUTPUT_TEXT_CHARS = 300"
definition MAX_OUTPUT_KEY_CHARS :: nat where "MAX_OUTPUT_KEY_CHARS = 64"
definition MAX_OUTPUT_NUMBER_CHARS :: nat where "MAX_OUTPUT_NUMBER_CHARS = 64"
definition OUTPUT_NUMBER_PATTERN :: string where
  "OUTPUT_NUMBER_PATTERN = re_text ''-?(?:0|[1-9][0-9]*)(?:~.[0-9]+)?(?:[eE][+-]?[0-9]+)?~Z''"
definition MAX_OUTPUT_BYTES :: nat where "MAX_OUTPUT_BYTES = 16 * 1024"

definition canonical_disposition :: "json \<Rightarrow> json \<Rightarrow> json option" where
  "canonical_disposition v amount =
     (case py_exact_object v [''mode'', ''step''] of
        None \<Rightarrow> None
      | Some ms \<Rightarrow>
          (case (py_string (py_field ms ''mode''), small_int amount) of
             (Some mode, Some n) \<Rightarrow>
               let shown = py_field ms ''step''
               in if mode \<in> set OUTPUT_MODES \<and> 1 \<le> n \<and> n \<le> MAX_ROUTINE_STEPS \<and>
                    (if mode \<in> set SHOWN_MODES then small_int shown = Some n else shown = Null)
                  then Some (Object [(''mode'', String mode), (''step'', shown)]) else None
           | _ \<Rightarrow> None))"

definition count_value :: "json option \<Rightarrow> bool" where
  "count_value v = (case v of Some w \<Rightarrow> whole w 0 (2 ^ 31 - 1) | None \<Rightarrow> False)"

definition plain_value :: "json option \<Rightarrow> nat \<Rightarrow> bool" where
  "plain_value v maximum =
     (case Option.bind v py_string of
        Some s \<Rightarrow> py_len s \<le> maximum \<and> \<not> list_ex unsafe_char (chars s)
      | None \<Rightarrow> False)"

definition scalar_node :: "matcher \<Rightarrow> (string \<times> json) list \<Rightarrow> string option \<Rightarrow> bool" where
  "scalar_node full ms kind =
     (let item = map_option snd (find (\<lambda>m. fst m = ''value'') ms)
      in case kind of
           None \<Rightarrow> False
         | Some k \<Rightarrow>
             if k = ''null'' \<or> k = ''redacted'' \<or> k = ''elided'' then exact_members ms [''kind'']
             else if k = ''bool'' then
               exact_members ms [''kind'', ''value''] \<and> (case item of Some v \<Rightarrow> is_bool_value v | None \<Rightarrow> False)
             else if k = ''number'' then
               exact_members ms [''kind'', ''value''] \<and>
               (case Option.bind item py_string of
                  Some words \<Rightarrow> py_len words \<le> MAX_OUTPUT_NUMBER_CHARS \<and> full OUTPUT_NUMBER_PATTERN words
                | None \<Rightarrow> False)
             else if k = ''text'' then
               exact_members ms [''kind'', ''value'', ''cut''] \<and> is_bool_value (py_field ms ''cut'') \<and>
               plain_value item MAX_OUTPUT_TEXT_CHARS
             else False)"

definition key_of :: "json \<Rightarrow> json option" where
  "key_of entry = (case py_array entry of Some (k # _) \<Rightarrow> Some k | _ \<Rightarrow> None)"

function output_node :: "matcher \<Rightarrow> json \<Rightarrow> nat \<Rightarrow> bool" where
  "output_node full v level =
     (case py_object v of
        None \<Rightarrow> False
      | Some ms \<Rightarrow>
          let kind = Option.bind (get v ''kind'') py_string
          in if kind \<noteq> Some ''list'' \<and> kind \<noteq> Some ''fields'' then scalar_node full ms kind
             else if level \<ge> MAX_OUTPUT_DEPTH \<or> \<not> count_value (get v ''omitted'') then False
             else if kind = Some ''list'' then
               exact_members ms [''kind'', ''items'', ''omitted''] \<and>
               (case py_array (py_field ms ''items'') of
                  Some items \<Rightarrow> length items \<le> MAX_OUTPUT_ITEMS \<and> list_all (\<lambda>item. output_node full item (Suc level)) items
                | None \<Rightarrow> False)
             else
               exact_members ms [''kind'', ''fields'', ''omitted''] \<and>
               (case py_array (py_field ms ''fields'') of
                  Some entries \<Rightarrow>
                    length entries \<le> MAX_OUTPUT_FIELDS \<and>
                    list_all (\<lambda>entry. case py_array entry of
                        Some [k, node] \<Rightarrow> plain k MAX_OUTPUT_KEY_CHARS \<and> output_node full node (Suc level)
                      | _ \<Rightarrow> False) entries \<and>
                    distinct (map key_of entries)
                | None \<Rightarrow> False))"
  by pat_completeness auto

termination
  by (relation "measure (\<lambda>(full, v, level). MAX_OUTPUT_DEPTH - level)") auto

declare output_node.simps [simp del]

definition canonical_output :: "matcher \<Rightarrow> json \<Rightarrow> json option" where
  "canonical_output full v =
     (case py_exact_object v [''step'', ''state'', ''value'', ''truncated''] of
        None \<Rightarrow> None
      | Some ms \<Rightarrow>
          let node = py_field ms ''value''; cut_off = py_field ms ''truncated'';
              state_ok = (case py_string (py_field ms ''state'') of
                None \<Rightarrow> False
              | Some mode \<Rightarrow>
                  mode \<in> set OUTPUT_STATES \<and>
                  (if mode = ''shown'' then output_node full node 0 else node = Null \<and> cut_off = Bool False))
          in if position_within (py_field ms ''step'') MAX_ROUTINE_STEPS \<and> is_bool_value cut_off \<and> state_ok \<and>
               encoded_bytes v \<le> MAX_OUTPUT_BYTES
             then Some v else None)"

end
