(* ===== verification/Planned.thy ===== *)
theory Planned
  imports Plans
begin

text \<open>
  What the plan forms of \<open>Plans\<close> promise: selectors read back, the check of a run's result is a typing judgement, and the pages of
  a plan cover it.
\<close>

section \<open>Selectors read back\<close>

text \<open>A character: a byte that is no continuation, then only continuations.\<close>

definition char_ok :: "string \<Rightarrow> bool" where
  "char_ok c \<longleftrightarrow> c \<noteq> [] \<and> \<not> continuation (hd c) \<and> list_all continuation (tl c)"

lemma chars_of_chars: "list_all char_ok cs \<Longrightarrow> chars (concat cs) = cs"
  by (rule chars_concat) (cases cs; auto simp: split_ok_def char_ok_def list_all_iff)

lemma char_ok_ascii: "(of_char c :: nat) < 128 \<Longrightarrow> char_ok [c]"
  by (simp add: char_ok_def continuation_def)

lemma four_digits: "n < 16 * (16 * (16 * 16)) \<Longrightarrow>
    ((n div 4096 mod 16 * 16 + n div 256 mod 16) * 16 + n div 16 mod 16) * 16 + n mod 16 = n" for n :: nat
proof -
  assume "n < 16 * (16 * (16 * 16))"
  then have "n div 4096 mod 16 = n div 4096" by simp
  moreover have "n div 16 div 16 = n div 256" "n div 256 div 16 = n div 4096" by (simp_all flip: div_mult2_eq)
  ultimately show ?thesis
    using div_mult_mod_eq [of n 16] div_mult_mod_eq [of "n div 16" 16] div_mult_mod_eq [of "n div 256" 16] by presburger
qed

lemma hex_char_value: "d < 16 \<Longrightarrow> hex_digit_value [hex_char d] = Some d \<and> (of_char (hex_char d) :: nat) < 128"
  by (cases "d < 10") (auto simp: hex_digit_value_def hex_char_def ascii_digit_def less_eq_char_def)

lemma read_hex4_hex4: "n < 65536 \<Longrightarrow> read_hex4 (map (\<lambda>c. [c]) (hex4 n) @ rest) = Some n"
  using four_digits [of n] by (simp add: read_hex4_def hex4_def hex_char_value)

lemma byte_low: "a < 32 \<Longrightarrow> (192 + a) mod 32 = a" "a < 16 \<Longrightarrow> (224 + a) mod 16 = a" "a < 8 \<Longrightarrow> (240 + a) mod 8 = a"
    "a < 64 \<Longrightarrow> (128 + a) mod 64 = a" for a :: nat
  by (subst mod_add_left_eq [symmetric], simp)+

lemma byte_of: "n < 256 \<Longrightarrow> (of_char (char_of n :: char) :: nat) = n" for n :: nat
  by simp

lemma continuation_byte: "a < 64 \<Longrightarrow> continuation (char_of (128 + a))" for a :: nat
  by (simp add: continuation_def byte_of)

lemma utf8_char_reads:
  assumes "p \<le> 0x10FFFF"
  shows "code_point (utf8_char p) = p" "char_ok (utf8_char p)"
proof -
  have parts: "p div 64 div 64 = p div 4096" "p div 4096 div 64 = p div 262144" by (simp_all flip: div_mult2_eq)
  have eqs: "p div 64 * 64 + p mod 64 = p" "p div 4096 * 64 + p div 64 mod 64 = p div 64" "p div 262144 * 64 + p div 4096 mod 64 = p div 4096"
    using div_mult_mod_eq [of p 64] div_mult_mod_eq [of "p div 64" 64] div_mult_mod_eq [of "p div 4096" 64] parts by simp_all
  have low: "p mod 64 < 64" "p div 64 mod 64 < 64" "p div 4096 mod 64 < 64" by simp_all
  have mid: "(of_char (char_of (128 + a) :: char) :: nat) mod 64 = a" if "a < 64" for a :: nat
    using that by (simp add: byte_of byte_low)
  consider "p < 0x80" | "0x80 \<le> p" "p < 0x800" | "0x800 \<le> p" "p < 0x10000" | "0x10000 \<le> p" by linarith
  then have "code_point (utf8_char p) = p \<and> char_ok (utf8_char p)"
  proof cases
    case 1
    then show ?thesis by (simp add: utf8_char_def char_ok_def continuation_def)
  next
    case 2
    then have lead: "p div 64 < 32" by linarith
    then have "(of_char (char_of (192 + p div 64) :: char) :: nat) = 192 + p div 64" by (intro byte_of) linarith
    moreover have "utf8_char p = [char_of (192 + p div 64), char_of (128 + p mod 64)]" using 2 by (simp add: utf8_char_def)
    ultimately show ?thesis
      by (simp only: char_ok_def list.sel list.pred_inject continuation_byte [OF low(1)] code_point.simps mid [OF low(1)] byte_low(1) [OF lead] eqs(1))
        (simp add: continuation_def)
  next
    case 3
    then have lead: "p div 4096 < 16" by linarith
    then have "(of_char (char_of (224 + p div 4096) :: char) :: nat) = 224 + p div 4096" by (intro byte_of) linarith
    moreover have "utf8_char p = [char_of (224 + p div 4096), char_of (128 + p div 64 mod 64), char_of (128 + p mod 64)]"
      using 3 by (simp add: utf8_char_def)
    moreover have "p div 4096 * 4096 + p div 64 mod 64 * 64 + p mod 64 = p" using eqs(1,2) by linarith
    ultimately show ?thesis
      by (simp only: char_ok_def list.sel list.pred_inject continuation_byte [OF low(1)] continuation_byte [OF low(2)] code_point.simps
          mid [OF low(1)] mid [OF low(2)] byte_low(2) [OF lead])
        (simp add: continuation_def)
  next
    case 4
    then have lead: "p div 262144 < 8" using assms by linarith
    then have "(of_char (char_of (240 + p div 262144) :: char) :: nat) = 240 + p div 262144" by (intro byte_of) linarith
    moreover have "utf8_char p = [char_of (240 + p div 262144), char_of (128 + p div 4096 mod 64), char_of (128 + p div 64 mod 64),
        char_of (128 + p mod 64)]"
      using 4 by (simp add: utf8_char_def)
    moreover have "p div 262144 * 262144 + p div 4096 mod 64 * 4096 + p div 64 mod 64 * 64 + p mod 64 = p" using eqs by linarith
    ultimately show ?thesis
      by (simp only: char_ok_def list.sel list.pred_inject continuation_byte [OF low(1)] continuation_byte [OF low(2)]
          continuation_byte [OF low(3)] code_point.simps mid [OF low(1)] mid [OF low(2)] mid [OF low(3)] byte_low(3) [OF lead])
        (simp add: continuation_def)
  qed
  then show "code_point (utf8_char p) = p" "char_ok (utf8_char p)" by simp_all
qed

text \<open>The characters \<open>where_char\<close> writes for a point.\<close>

definition escape_chars :: "nat \<Rightarrow> string list" where
  "escape_chars p = [escape_char] # ''u'' # map (\<lambda>c. [c]) (hex4 p)"

definition where_chars :: "nat \<Rightarrow> string list" where
  "where_chars p =
     (if p = 0x22 then [[escape_char], [CHR 0x22]]
      else if p = 0x5C then [[escape_char], [escape_char]]
      else if p = 0x0A then [[escape_char], ''n'']
      else if p = 0x0D then [[escape_char], ''r'']
      else if p = 0x09 then [[escape_char], ''t'']
      else if p = 0x08 then [[escape_char], ''b'']
      else if p = 0x0C then [[escape_char], ''f'']
      else if plan_unsafe p then escape_chars p
      else [utf8_char p])"

lemma concat_singles: "concat (map (\<lambda>c. [c]) s) = s"
  by (induction s) simp_all

lemma utf8_char_ascii: "p < 128 \<Longrightarrow> utf8_char p = [char_of p]"
  by (simp add: utf8_char_def)

lemma code_point_ascii: "p < 128 \<Longrightarrow> code_point [char_of p] = p"
  by simp

lemma char_of_eq: "p < 128 \<Longrightarrow> char_of p = c \<longleftrightarrow> p = of_char c" for p :: nat
  by (auto simp: byte_of)

lemma where_chars_concat: "p \<le> 0x10FFFF \<Longrightarrow> concat (where_chars p) = where_char p"
proof -
  assume p: "p \<le> 0x10FFFF"
  show ?thesis
  proof (cases "p \<le> 0x1F \<or> p = 0x22 \<or> p = 0x5C")
    case True
    then have "char_from p = Some [char_of p]" "p < 128" by (auto simp: char_from_def utf8_char_ascii)
    then have "where_char p = write_char False [char_of p]" using True by (simp add: where_char_def)
    also have "\<dots> = concat (where_chars p)"
      using True \<open>p < 128\<close>
      by (auto simp: write_char_def Let_def where_chars_def escape_chars_def push_escape_def char_of_eq plan_unsafe_def concat_singles
          escape_char_def byte_of)
    finally show ?thesis by simp
  next
    case False
    then show ?thesis using p
      by (auto simp: where_char_def char_from_def where_chars_def escape_chars_def push_escape_def concat_singles plan_unsafe_def)
  qed
qed

lemma hex4_ascii: "c \<in> set (hex4 n) \<Longrightarrow> (of_char c :: nat) < 128"
  by (auto simp: hex4_def hex_char_value)

lemma hex4_ok: "c \<in> set (hex4 n) \<Longrightarrow> char_ok [c]"
  by (blast intro: char_ok_ascii hex4_ascii)

lemma literal_ok: "list_all char_ok [[escape_char], [CHR 0x22], ''n'', ''r'', ''t'', ''b'', ''f'', ''u'']"
  by (simp add: char_ok_ascii escape_char_def)

lemma where_chars_ok: "p \<le> 0x10FFFF \<Longrightarrow> list_all char_ok (where_chars p)"
  using literal_ok by (auto simp: where_chars_def escape_chars_def list_all_iff utf8_char_reads(2) hex4_ok)

lemma chars_where_string:
  assumes "\<forall>p\<in>set points. p \<le> 0x10FFFF"
  shows "chars (where_string points) = [CHR 0x22] # concat (map where_chars points) @ [[CHR 0x22]]"
proof -
  have "concat (concat (map where_chars points)) = concat (map where_char points)"
    using assms by (induction points) (simp_all add: where_chars_concat)
  then have "where_string points = concat ([CHR 0x22] # concat (map where_chars points) @ [[CHR 0x22]])" by (simp add: where_string_def)
  moreover have "list_all char_ok ([CHR 0x22] # concat (map where_chars points) @ [[CHR 0x22]])"
    using assms where_chars_ok by (auto simp: list_all_iff char_ok_ascii)
  ultimately show ?thesis by (simp only: chars_of_chars)
qed

text \<open>No high surrogate directly before a low one: such a pair Python joins into one character.\<close>

definition high_surrogate :: "nat \<Rightarrow> bool" where "high_surrogate p \<longleftrightarrow> 0xD800 \<le> p \<and> p \<le> 0xDBFF"
definition low_surrogate :: "nat \<Rightarrow> bool" where "low_surrogate p \<longleftrightarrow> 0xDC00 \<le> p \<and> p \<le> 0xDFFF"

definition unpaired :: "nat list \<Rightarrow> bool" where
  "unpaired points = successively (\<lambda>a b. \<not> (high_surrogate a \<and> low_surrogate b)) points"

text \<open>What follows an escape is not a low surrogate's escape.\<close>

definition no_low_next :: "string list \<Rightarrow> bool" where
  "no_low_next rest \<longleftrightarrow> take 2 rest = [[escape_char], ''u''] \<longrightarrow>
     (case read_hex4 (drop 2 rest) of Some q \<Rightarrow> \<not> low_surrogate q | None \<Rightarrow> False)"

lemma unsafe_small: "plan_unsafe p \<Longrightarrow> p < 65536" by (auto simp: plan_unsafe_def)

lemma utf8_char_not: "p \<le> 0x10FFFF \<Longrightarrow> p \<noteq> of_char c \<Longrightarrow> utf8_char p \<noteq> [c]"
  using utf8_char_reads(1) [of p] by auto

lemma scalar_escape:
  "scalar_points ([escape_char] # cs) =
     (case json_escape cs of None \<Rightarrow> None | Some (point, after) \<Rightarrow> map_option ((#) point) (scalar_points after))"
  by (subst scalar_points.simps) (simp add: escape_char_def)

lemma scalar_simple:
  "simple_escape ch = Some q \<Longrightarrow> scalar_points ([escape_char] # ch # rest) = map_option ((#) q) (scalar_points rest)"
  by (simp add: scalar_escape json_escape_def)

lemma scalar_plain:
  assumes "p \<le> 0x10FFFF" "p \<noteq> 0x22" "p \<noteq> 0x5C"
  shows "scalar_points (utf8_char p # rest) = map_option ((#) p) (scalar_points rest)"
proof -
  have "utf8_char p \<noteq> [CHR 0x22]" "utf8_char p \<noteq> [escape_char]"
    using assms utf8_char_not [OF assms(1), of "CHR 0x22"] utf8_char_not [OF assms(1), of escape_char] by (simp_all add: escape_char_def)
  then show ?thesis
    by (subst scalar_points.simps) (simp only: if_False utf8_char_reads(1) [OF assms(1)])
qed

lemma json_escape_hex:
  assumes "p < 65536" "high_surrogate p \<longrightarrow> no_low_next rest"
  shows "json_escape (''u'' # map (\<lambda>c. [c]) (hex4 p) @ rest) = Some (p, rest)"
proof -
  have "drop 4 (map (\<lambda>c. [c]) (hex4 p) @ rest) = rest" by (simp add: hex4_def)
  moreover have "simple_escape ''u'' = None" by (simp add: simple_escape_def escape_char_def)
  ultimately show ?thesis
    using assms
    by (auto simp: json_escape_def read_hex4_hex4 no_low_next_def high_surrogate_def low_surrogate_def Let_def split: option.splits)
qed

lemma scalar_hex:
  assumes "plan_unsafe p" "high_surrogate p \<longrightarrow> no_low_next rest"
  shows "scalar_points (escape_chars p @ rest) = map_option ((#) p) (scalar_points rest)"
  using json_escape_hex [OF unsafe_small [OF assms(1)] assms(2)] by (simp add: escape_chars_def scalar_escape)

lemma where_chars_read:
  assumes "p \<le> 0x10FFFF" "high_surrogate p \<longrightarrow> no_low_next rest"
  shows "scalar_points (where_chars p @ rest) = map_option ((#) p) (scalar_points rest)"
proof (cases "p \<in> {0x22, 0x5C, 0x0A, 0x0D, 0x09, 0x08, 0x0C}")
  case True
  then consider "p = 0x22" | "p = 0x5C" | "p = 0x0A" | "p = 0x0D" | "p = 0x09" | "p = 0x08" | "p = 0x0C" by blast
  then show ?thesis
    by cases (simp_all add: where_chars_def scalar_simple simple_escape_def escape_char_def scalar_simple [unfolded escape_char_def])
next
  case False
  then show ?thesis
    using scalar_hex [OF _ assms(2)] scalar_plain [OF assms(1)] by (auto simp: where_chars_def)
qed

lemma where_chars_next: "q \<le> 0x10FFFF \<Longrightarrow> \<not> low_surrogate q \<Longrightarrow> no_low_next (where_chars q @ rest)"
  using utf8_char_not [of q escape_char]
  by (auto simp: no_low_next_def where_chars_def escape_chars_def read_hex4_hex4 unsafe_small escape_char_def)

lemma scalar_points_where:
  "\<forall>p\<in>set points. p \<le> 0x10FFFF \<Longrightarrow> unpaired points \<Longrightarrow>
   scalar_points (concat (map where_chars points) @ [[CHR 0x22]]) = Some points"
proof (induction points)
  case (Cons p points)
  let ?rest = "concat (map where_chars points) @ [[CHR 0x22]]"
  have "high_surrogate p \<longrightarrow> no_low_next ?rest"
  proof (cases points)
    case Nil
    then show ?thesis by (simp add: no_low_next_def)
  next
    case (Cons q qs)
    then show ?thesis using Cons.prems where_chars_next [of q "concat (map where_chars qs) @ [[CHR 0x22]]"] by (auto simp: unpaired_def)
  qed
  then have "scalar_points (where_chars p @ ?rest) = map_option ((#) p) (scalar_points ?rest)"
    using Cons.prems by (intro where_chars_read) simp_all
  moreover have "scalar_points ?rest = Some points"
    using Cons by (cases points) (simp_all add: unpaired_def scalar_points.simps)
  ultimately show ?case by simp
qed (simp add: scalar_points.simps)

text \<open>No character \<open>where_char\<close> writes is unsafe.\<close>

lemma where_chars_safe: "p \<le> 0x10FFFF \<Longrightarrow> ch \<in> set (where_chars p) \<Longrightarrow> \<not> unsafe_char ch"
proof -
  have ascii: "\<not> unsafe_char [c]" if "32 \<le> (of_char c :: nat)" "(of_char c :: nat) < 127" for c
    using that by (simp add: unsafe_char_def plan_unsafe_def)
  have digit: "\<not> unsafe_char [c]" if "c \<in> set (hex4 n)" for c n
  proof -
    have "32 \<le> (of_char (hex_char d) :: nat) \<and> (of_char (hex_char d) :: nat) < 127" if "d < 16" for d
      using that by (auto simp: hex_char_def)
    then show ?thesis using that ascii by (auto simp: hex4_def)
  qed
  have literal: "\<not> unsafe_char [escape_char]" "\<not> unsafe_char [CHR 0x22]" "\<not> unsafe_char ''n''" "\<not> unsafe_char ''r''"
    "\<not> unsafe_char ''t''" "\<not> unsafe_char ''b''" "\<not> unsafe_char ''f''" "\<not> unsafe_char ''u''"
    by (rule ascii; simp add: escape_char_def)+
  assume p: "p \<le> 0x10FFFF" and ch: "ch \<in> set (where_chars p)"
  have "unsafe_char (utf8_char p) = plan_unsafe p" using utf8_char_reads(1) [OF p] by (simp add: unsafe_char_def)
  then show ?thesis
    using ch digit literal by (auto simp: where_chars_def escape_chars_def simp del: code_point.simps split: if_splits)
qed

text \<open>
  C29 The text of a selector constant reads back: for any code points in which no high surrogate stands before a low one,
  the JSON text \<open>where_text\<close> writes shows no control or invisible character, is read back as exactly those points, and is
  admitted as a selector whenever it is within its length.
\<close>

theorem selector_text_reads_back:
  assumes "\<forall>p\<in>set points. p \<le> 0x10FFFF" "unpaired points"
  shows "json_scalar (where_string points) = Some (Scalar_String points) \<and>
    \<not> list_ex unsafe_char (chars (where_string points)) \<and>
    (selector (Object [(''member'', m), (''value_json'', String (where_string points))]) \<longleftrightarrow>
       plain m MAX_MEMBER_CHARS \<and> py_len (where_string points) \<le> MAX_WHERE_CHARS)"
proof -
  have quoted: "where_string points = CHR 0x22 # concat (map where_char points) @ [CHR 0x22]" by (simp add: where_string_def)
  then have digits: "the_or (where_string points) (strip_prefix ''-'' (where_string points)) = where_string points"
    "\<not> list_all ascii_digit (where_string points)" "starts_with [CHR 0x22] (where_string points)"
    by (simp_all add: the_or_def ascii_digit_def starts_with_def)
  have reads: "json_scalar (where_string points) = Some (Scalar_String points)"
    unfolding json_scalar_def Let_def digits(1) using digits(2,3)
    by (simp add: chars_where_string [OF assms(1)] scalar_points_where [OF assms])
  have safe: "\<not> list_ex unsafe_char (chars (where_string points))"
    using where_chars_safe assms(1) unfolding chars_where_string [OF assms(1)]
    by (auto simp: list_ex_iff) (simp add: unsafe_char_def plan_unsafe_def)
  have "1 \<le> py_len (where_string points)" by (simp add: py_len_def chars_where_string [OF assms(1)])
  then have "selector (Object [(''member'', m), (''value_json'', String (where_string points))]) \<longleftrightarrow>
       plain m MAX_MEMBER_CHARS \<and> py_len (where_string points) \<le> MAX_WHERE_CHARS"
    using reads safe
    by (auto simp: selector_def py_exact_object_def py_object_def exact_members_def py_field_def plain_def py_string_def the_or_def)
  then show ?thesis using reads safe by blast
qed

theorem selector_text_reads_back_witness:
  "json_scalar (where_string [0x41, 0x22, 0x0A, 0xD800, 0x20AC]) = Some (Scalar_String [0x41, 0x22, 0x0A, 0xD800, 0x20AC])"
proof -
  have "unpaired [0x41, 0x22, 0x0A, 0xD800, 0x20AC]" by (simp add: unpaired_def high_surrogate_def low_surrogate_def)
  then show ?thesis using selector_text_reads_back [of "[0x41, 0x22, 0x0A, 0xD800, 0x20AC]"] by simp
qed

section \<open>Shown results, as a typing judgement\<close>

text \<open>
  What a run may show, with the levels of nesting it has left: an object with exactly the members of its kind.  Lists and
  fields use up a level.
\<close>

definition made_of :: "(string \<times> json) list \<Rightarrow> (string \<times> json) list \<Rightarrow> bool" where
  "made_of ms fs \<longleftrightarrow> mset ms = mset fs"

inductive shown :: "matcher \<Rightarrow> nat \<Rightarrow> json \<Rightarrow> bool" for full where
  plain_kind: "made_of ms [(''kind'', String k)] \<Longrightarrow> k \<in> {''null'', ''redacted'', ''elided''} \<Longrightarrow> shown full d (Object ms)"
| bool_kind: "made_of ms [(''kind'', String ''bool''), (''value'', Bool b)] \<Longrightarrow> shown full d (Object ms)"
| number_kind: "made_of ms [(''kind'', String ''number''), (''value'', String words)] \<Longrightarrow>
    py_len words \<le> MAX_OUTPUT_NUMBER_CHARS \<Longrightarrow> full OUTPUT_NUMBER_PATTERN words \<Longrightarrow> shown full d (Object ms)"
| text_kind: "made_of ms [(''kind'', String ''text''), (''value'', String words), (''cut'', Bool b)] \<Longrightarrow>
    py_len words \<le> MAX_OUTPUT_TEXT_CHARS \<Longrightarrow> \<not> list_ex unsafe_char (chars words) \<Longrightarrow> shown full d (Object ms)"
| list_kind: "made_of ms [(''kind'', String ''list''), (''items'', Array items), (''omitted'', Number (Integer n))] \<Longrightarrow>
    0 \<le> n \<Longrightarrow> n \<le> 2 ^ 31 - 1 \<Longrightarrow> length items \<le> MAX_OUTPUT_ITEMS \<Longrightarrow> \<forall>item\<in>set items. shown full d item \<Longrightarrow>
    shown full (Suc d) (Object ms)"
| fields_kind: "made_of ms [(''kind'', String ''fields''), (''fields'', Array entries), (''omitted'', Number (Integer n))] \<Longrightarrow>
    0 \<le> n \<Longrightarrow> n \<le> 2 ^ 31 - 1 \<Longrightarrow> length entries \<le> MAX_OUTPUT_FIELDS \<Longrightarrow>
    \<forall>entry\<in>set entries. \<exists>name node. entry = Array [name, node] \<and> plain name MAX_OUTPUT_KEY_CHARS \<and> shown full d node \<Longrightarrow>
    distinct (map key_of entries) \<Longrightarrow> shown full (Suc d) (Object ms)"

text \<open>Distinct names: the members are the listed ones exactly when their names are and each holds its value.\<close>

lemma py_field_member: "distinct (map fst ms) \<Longrightarrow> (k, x) \<in> set ms \<Longrightarrow> py_field ms k = x"
  by (induction ms) (force simp: py_field_def)+

lemma py_field_in: "k \<in> fst ` set ms \<Longrightarrow> (k, py_field ms k) \<in> set ms"
  by (induction ms) (auto simp: py_field_def)

lemma members_are:
  assumes "distinct (map fst ms)" "distinct (map fst fs)"
  shows "made_of ms fs \<longleftrightarrow> exact_members ms (map fst fs) \<and> (\<forall>(k, x)\<in>set fs. py_field ms k = x)"
  unfolding made_of_def
proof
  assume same: "mset ms = mset fs"
  then have "set ms = set fs" "length ms = length fs" using mset_eq_setD mset_eq_length by blast+
  then show "exact_members ms (map fst fs) \<and> (\<forall>(k, x)\<in>set fs. py_field ms k = x)"
    using py_field_member [OF assms(1)] by (auto simp: exact_members_def list_all_iff)
next
  assume fields: "exact_members ms (map fst fs) \<and> (\<forall>(k, x)\<in>set fs. py_field ms k = x)"
  then have "length (map fst ms) = length (map fst fs)" "set (map fst ms) \<subseteq> set (map fst fs)"
    by (auto simp: exact_members_def list_all_iff)
  then have names: "set (map fst ms) = set (map fst fs)"
    using assms by (metis card_subset_eq distinct_card List.finite_set)
  have inside: "set fs \<subseteq> set ms"
  proof clarify
    fix k x assume kx: "(k, x) \<in> set fs"
    then have "k \<in> fst ` set ms" using names by force
    then show "(k, x) \<in> set ms" using py_field_in [of k ms] fields kx by auto
  qed
  have "distinct ms" "distinct fs" using assms by (simp_all add: distinct_map)
  moreover have "card (set ms) = card (set fs)"
    using calculation fields by (simp add: distinct_card exact_members_def)
  ultimately show "mset ms = mset fs" using inside by (metis card_subset_eq List.finite_set set_eq_iff_mset_eq_distinct)
qed

lemma find_map_of: "map_option snd (find (\<lambda>m. fst m = k) ms) = map_of ms k"
  by (induction ms) auto

lemma py_field_map_of: "py_field ms k = the_or Null (map_of ms k)"
  by (induction ms) (auto simp: py_field_def)

lemma read_text: "Option.bind (map_of ms k) py_string = Some s \<longleftrightarrow> py_field ms k = String s"
  by (cases "map_of ms k") (auto simp: py_field_map_of py_string_Some)

lemma count_field: "count_value (map_of ms k) \<longleftrightarrow> (\<exists>n. py_field ms k = Number (Integer n) \<and> 0 \<le> n \<and> n \<le> 2 ^ 31 - 1)"
  by (cases "map_of ms k")
    (auto simp: py_field_map_of count_value_def whole_def small_int_def split: option.splits json.splits number.splits)

lemma is_bool_iff: "is_bool_value v \<longleftrightarrow> (\<exists>b. v = Bool b)"
  by (cases v) (simp_all add: is_bool_value_def)

lemma py_array_Some: "py_array v = Some vs \<longleftrightarrow> v = Array vs"
  by (cases v) (simp_all add: py_array_def)

lemmas member_facts = find_map_of read_text count_field is_bool_iff py_array_Some py_string_Some

text \<open>The inductive step of the two directions below: the judgement for an object, read through \<open>output_node\<close>.\<close>

lemma kind_texts: "\<And>ms. Option.bind (get (Object ms) ''kind'') py_string = Some k \<longleftrightarrow> py_field ms ''kind'' = String k"
  by (simp only: get.simps read_text)

lemma output_node_object:
  assumes "py_field ms ''kind'' = String k"
  shows "output_node full (Object ms) level \<longleftrightarrow>
    (if k \<noteq> ''list'' \<and> k \<noteq> ''fields'' then scalar_node full ms (Some k)
     else level < MAX_OUTPUT_DEPTH \<and> count_value (map_of ms ''omitted'') \<and>
       (if k = ''list'' then
          exact_members ms [''kind'', ''items'', ''omitted''] \<and>
          (\<exists>items. py_field ms ''items'' = Array items \<and> length items \<le> MAX_OUTPUT_ITEMS \<and>
             (\<forall>item\<in>set items. output_node full item (Suc level)))
        else
          exact_members ms [''kind'', ''fields'', ''omitted''] \<and>
          (\<exists>entries. py_field ms ''fields'' = Array entries \<and> length entries \<le> MAX_OUTPUT_FIELDS \<and>
             (\<forall>entry\<in>set entries. \<exists>name node. entry = Array [name, node] \<and> plain name MAX_OUTPUT_KEY_CHARS \<and>
                output_node full node (Suc level)) \<and>
             distinct (map key_of entries))))"
proof -
  have kind: "Option.bind (get (Object ms) ''kind'') py_string = Some k" using assms by (simp only: kind_texts)
  have entry: "(case vs of [name, node] \<Rightarrow> P name node | _ \<Rightarrow> False) \<longleftrightarrow> (\<exists>name node. vs = [name, node] \<and> P name node)"
    for vs and P :: "json \<Rightarrow> json \<Rightarrow> bool"
    by (auto split: list.splits)
  have pair: "(\<exists>vs. e = Array vs \<and> (\<exists>name node. vs = [name, node] \<and> P name node)) \<longleftrightarrow> (\<exists>name node. e = Array [name, node] \<and> P name node)"
    for e and P :: "json \<Rightarrow> json \<Rightarrow> bool"
    by blast
  have array: "(case py_array v of Some vs \<Rightarrow> P vs | None \<Rightarrow> False) \<longleftrightarrow> (\<exists>vs. v = Array vs \<and> P vs)" for v and P :: "json list \<Rightarrow> bool"
    by (cases v) (simp_all add: py_array_def)
  show ?thesis
    unfolding output_node.simps [of full "Object ms"] list_all_iff array entry pair Let_def kind
    by (cases "k = ''list''"; cases "k = ''fields''"; simp add: py_object_def not_le)
qed

lemma shown_kind: "shown full d v \<Longrightarrow> value_ok v \<Longrightarrow> \<exists>ms k. v = Object ms \<and> py_field ms ''kind'' = String k"
proof -
  assume shown: "shown full d v" and ok: "value_ok v"
  from shown show ?thesis by cases (use ok in \<open>auto simp: members_are\<close>)
qed

lemma output_node_kind: "output_node full v level \<Longrightarrow> \<exists>ms k. v = Object ms \<and> py_field ms ''kind'' = String k"
proof -
  assume shown: "output_node full v level"
  then obtain ms where v: "v = Object ms"
    by (subst (asm) output_node.simps) (auto simp: py_object_def split: option.splits json.splits)
  moreover have "Option.bind (get v ''kind'') py_string \<noteq> None"
    using shown unfolding output_node.simps [of full v] by (auto simp: v py_object_def scalar_node_def Let_def split: if_splits option.splits)
  ultimately show ?thesis using kind_texts by blast
qed

text \<open>The leaves.\<close>

lemma scalar_iff:
  assumes "value_ok (Object ms)" "py_field ms ''kind'' = String k" "k \<noteq> ''list''" "k \<noteq> ''fields''"
  shows "scalar_node full ms (Some k) \<longleftrightarrow> shown full d (Object ms)"
proof -
  have "distinct (map fst ms)" using assms(1) by simp
  note are = members_are [OF this]
  consider "k \<in> {''null'', ''redacted'', ''elided''}" | "k = ''bool''" | "k = ''number''" | "k = ''text''"
    | "k \<notin> {''null'', ''redacted'', ''elided'', ''bool'', ''number'', ''text''}" by (simp only: insert_iff) argo
  then show ?thesis
  proof cases
    case 1
    have checked: "scalar_node full ms (Some k) \<longleftrightarrow> exact_members ms [''kind'']" using 1 by (auto simp: scalar_node_def)
    have "shown full d (Object ms)" if "exact_members ms [''kind'']"
      using shown.plain_kind [of ms k full d] are [of "[(''kind'', String k)]"] 1 assms(2) that by simp
    moreover have "exact_members ms [''kind'']" if "shown full d (Object ms)"
      using that
    proof cases
      case (plain_kind k)
      then show ?thesis by (simp add: are)
    qed (use 1 assms(2) in \<open>simp_all add: are\<close>)
    ultimately show ?thesis using checked by blast
  next
    case 2
    then show ?thesis using assms(2)
      by (subst shown.simps) (auto simp: are scalar_node_def find_map_of py_field_map_of is_bool_iff split: option.splits)
  next
    case 3
    then show ?thesis using assms(2)
      by (subst shown.simps)
        (auto simp: are scalar_node_def find_map_of py_field_map_of py_string_def split: option.splits json.splits Option.bind_splits)
  next
    case 4
    then show ?thesis using assms(2)
      by (subst shown.simps)
        (auto simp: are scalar_node_def find_map_of plain_value_def py_field_map_of is_bool_iff py_string_def
          split: option.splits json.splits Option.bind_splits)
  next
    case 5
    then show ?thesis using assms(2-4) by (subst shown.simps) (auto simp: are scalar_node_def)
  qed
qed

text \<open>One level: what the judgement says of lists and of fields.\<close>

lemma shown_nested:
  assumes "value_ok (Object ms)" "py_field ms ''kind'' = String k" "k = ''list'' \<or> k = ''fields''"
  shows "shown full 0 (Object ms) \<longleftrightarrow> False"
    and "shown full (Suc d) (Object ms) \<longleftrightarrow> count_value (map_of ms ''omitted'') \<and>
      (if k = ''list'' then
         exact_members ms [''kind'', ''items'', ''omitted''] \<and>
         (\<exists>items. py_field ms ''items'' = Array items \<and> length items \<le> MAX_OUTPUT_ITEMS \<and> (\<forall>item\<in>set items. shown full d item))
       else
         exact_members ms [''kind'', ''fields'', ''omitted''] \<and>
         (\<exists>entries. py_field ms ''fields'' = Array entries \<and> length entries \<le> MAX_OUTPUT_FIELDS \<and>
            (\<forall>entry\<in>set entries. \<exists>name node. entry = Array [name, node] \<and> plain name MAX_OUTPUT_KEY_CHARS \<and> shown full d node) \<and>
            distinct (map key_of entries)))"
proof -
  have "distinct (map fst ms)" using assms(1) by simp
  note are = members_are [OF this]
  show "shown full 0 (Object ms) \<longleftrightarrow> False"
    using assms(2,3) by (subst shown.simps) (auto simp: are)
  show "shown full (Suc d) (Object ms) \<longleftrightarrow> count_value (map_of ms ''omitted'') \<and>
      (if k = ''list'' then
         exact_members ms [''kind'', ''items'', ''omitted''] \<and>
         (\<exists>items. py_field ms ''items'' = Array items \<and> length items \<le> MAX_OUTPUT_ITEMS \<and> (\<forall>item\<in>set items. shown full d item))
       else
         exact_members ms [''kind'', ''fields'', ''omitted''] \<and>
         (\<exists>entries. py_field ms ''fields'' = Array entries \<and> length entries \<le> MAX_OUTPUT_FIELDS \<and>
            (\<forall>entry\<in>set entries. \<exists>name node. entry = Array [name, node] \<and> plain name MAX_OUTPUT_KEY_CHARS \<and> shown full d node) \<and>
            distinct (map key_of entries)))"
  proof (cases "k = ''list''")
    case True
    then show ?thesis using assms(2) by (subst shown.simps) (simp add: are count_field conj_ac, auto)
  next
    case False
    then show ?thesis using assms(2,3) by (subst shown.simps) (simp add: are count_field conj_ac, auto)
  qed
qed

lemma value_ok_item: "value_ok (Object ms) \<Longrightarrow> py_field ms k = Array vs \<Longrightarrow> v \<in> set vs \<Longrightarrow> value_ok v"
  by (cases "map_of ms k") (force simp: py_field_map_of dest: map_of_SomeD)+

text \<open>
  C30 The executable check of a result agrees with its typing judgement: a decoded value passes \<open>node\<close> at a level exactly when it
  is an object with exactly the members of its kind, of the right types and sizes, nested at most the levels left.
\<close>

theorem shown_results_typed:
  assumes "value_ok v" "d \<le> MAX_OUTPUT_DEPTH"
  shows "output_node full v (MAX_OUTPUT_DEPTH - d) \<longleftrightarrow> shown full d v"
  using assms
proof (induction d arbitrary: v)
  case 0
  show ?case
  proof (cases "\<exists>ms k. v = Object ms \<and> py_field ms ''kind'' = String k")
    case True
    then obtain ms k where v: "v = Object ms" "py_field ms ''kind'' = String k" by blast
    then show ?thesis
      using scalar_iff [of ms k full 0] shown_nested(1) [of ms k full] 0 by (auto simp: output_node_object)
  next
    case False
    then show ?thesis using output_node_kind shown_kind 0 by blast
  qed
next
  case (Suc d)
  have level: "MAX_OUTPUT_DEPTH - Suc d < MAX_OUTPUT_DEPTH" "Suc (MAX_OUTPUT_DEPTH - Suc d) = MAX_OUTPUT_DEPTH - d"
    using Suc.prems(2) by simp_all
  show ?case
  proof (cases "\<exists>ms k. v = Object ms \<and> py_field ms ''kind'' = String k")
    case True
    then obtain ms k where v: "v = Object ms" "py_field ms ''kind'' = String k" by blast
    have ok: "value_ok (Object ms)" using Suc.prems v by simp
    have inner: "output_node full w (MAX_OUTPUT_DEPTH - d) \<longleftrightarrow> shown full d w" if "value_ok w" for w
      using Suc.IH [OF that] Suc.prems(2) by simp
    show ?thesis
    proof (cases "k = ''list'' \<or> k = ''fields''")
      case nested: True
      have items: "(\<forall>item\<in>set items. output_node full item (MAX_OUTPUT_DEPTH - d)) \<longleftrightarrow> (\<forall>item\<in>set items. shown full d item)"
        if "py_field ms ''items'' = Array items" for items
        using value_ok_item [OF ok that] inner by blast
      have node: "output_node full node (MAX_OUTPUT_DEPTH - d) \<longleftrightarrow> shown full d node"
        if "py_field ms ''fields'' = Array entries" "Array [name, node] \<in> set entries" for entries name node
        using value_ok_item [OF ok that] inner by simp
      have entries: "(\<forall>entry\<in>set entries. \<exists>name node. entry = Array [name, node] \<and> plain name MAX_OUTPUT_KEY_CHARS \<and>
            output_node full node (MAX_OUTPUT_DEPTH - d)) \<longleftrightarrow>
          (\<forall>entry\<in>set entries. \<exists>name node. entry = Array [name, node] \<and> plain name MAX_OUTPUT_KEY_CHARS \<and> shown full d node)"
        if "py_field ms ''fields'' = Array entries" for entries
        by (intro ball_cong refl ex_cong1) (use node [OF that] in auto)
      note sides = v(1) output_node_object [OF v(2)] level(2) shown_nested(2) [OF ok v(2) nested]
      show ?thesis
      proof (cases "k = ''list''")
        case True
        then show ?thesis unfolding sides using level(1) by (simp add: items cong: conj_cong)
      next
        case False
        then show ?thesis unfolding sides using level(1) nested by (simp add: entries cong: conj_cong)
      qed
    next
      case False
      then show ?thesis using scalar_iff [OF ok v(2)] by (simp add: v output_node_object [OF v(2)])
    qed
  next
    case False
    then show ?thesis using output_node_kind shown_kind Suc.prems by blast
  qed
qed

theorem shown_results_typed_witness:
  "output_node (\<lambda>_ _. True)
     (Object [(''items'', Array [Object [(''value'', Bool True), (''kind'', String ''bool'')]]), (''omitted'', Number (Integer 2)),
              (''kind'', String ''list'')]) 3"
proof -
  let ?item = "Object [(''value'', Bool True), (''kind'', String ''bool'')]"
  let ?v = "Object [(''items'', Array [?item]), (''omitted'', Number (Integer 2)), (''kind'', String ''list'')]"
  have "shown (\<lambda>_ _. True) 0 ?item" by (rule shown.bool_kind [where b = True]) (simp add: made_of_def)
  then have "shown (\<lambda>_ _. True) (Suc 0) ?v"
    by (intro shown.list_kind [where items = "[?item]" and n = 2]) (simp_all add: made_of_def MAX_OUTPUT_ITEMS_def)
  moreover have "value_ok ?v" by (simp add: in_i64_def)
  ultimately show ?thesis
    using shown_results_typed [of ?v "Suc 0" "\<lambda>_ _. True"] by (simp add: MAX_OUTPUT_DEPTH_def)
qed

section \<open>Reading every page\<close>

text \<open>Pages read by following \<open>next\<close> from an offset until there is none, and the steps they show.\<close>

fun pages_from :: "int \<Rightarrow> int \<Rightarrow> json list \<Rightarrow> bool" where
  "pages_from amount offset [] = False"
| "pages_from amount offset (page # pages) =
     (small_int (field_of page ''total'') = Some amount \<and> small_int (field_of page ''offset'') = Some offset \<and>
      (if field_of page ''next'' = Null then pages = []
       else (case small_int (field_of page ''next'') of Some n \<Rightarrow> pages_from amount n pages | None \<Rightarrow> False)))"

definition page_steps :: "json \<Rightarrow> json list" where
  "page_steps page = the_or [] (py_array (field_of page ''steps''))"

lemma eq_int_small: "eq_int v i \<Longrightarrow> small_int v = Some n \<Longrightarrow> n = i"
  by (cases v) (auto simp: eq_int_def small_int_def py_eq.simps numeric_of_def split: number.splits)

lemma py_field_field_of: "py_field ms k = field_of (Object ms) k"
  by (simp add: field_of_def py_field_map_of)

lemma canonical_page_shape:
  assumes "canonical_page full page \<noteq> None" "small_int (field_of page ''total'') = Some amount"
    "small_int (field_of page ''offset'') = Some offset"
  shows "numbered (offset + 1) (\<lambda>item n. canonical_step full item n \<noteq> None) (page_steps page)"
    and "if offset + int (length (page_steps page)) = amount then field_of page ''next'' = Null
      else eq_int (field_of page ''next'') (offset + int (length (page_steps page)))"
  using assms
  by (auto simp: canonical_page_def paged_def py_exact_object_def py_object_def page_steps_def py_field_field_of
      split: option.splits json.splits if_splits)

lemma numbered_append: "numbered n P (xs @ ys) \<longleftrightarrow> numbered n P xs \<and> numbered (n + int (length xs)) P ys"
  by (induction xs arbitrary: n) (simp_all add: ac_simps)

lemma numbered_nth: "numbered n P xs \<Longrightarrow> i < length xs \<Longrightarrow> P (xs ! i) (n + int i)"
proof (induction xs arbitrary: n i)
  case (Cons x xs)
  show ?case using Cons.prems Cons.IH [of "n + 1" "i - 1"] by (cases i) (auto simp: ac_simps)
qed simp

text \<open>
  Following \<open>next\<close> over canonical pages from offset zero reads the whole plan: the steps of the pages, put together, are as many
  as the plan's total, and each is a canonical step of its own position, so none is skipped, repeated or out of order.
\<close>

theorem pages_cover:
  assumes "list_all (\<lambda>page. canonical_page full page \<noteq> None) pages" "pages_from amount 0 pages"
  shows "int (length (concat (map page_steps pages))) = amount \<and>
    (\<forall>i<length (concat (map page_steps pages)). canonical_step full (concat (map page_steps pages) ! i) (int i + 1) \<noteq> None)"
proof -
  have "offset + int (length (concat (map page_steps pages))) = amount \<and>
      numbered (offset + 1) (\<lambda>item n. canonical_step full item n \<noteq> None) (concat (map page_steps pages))"
    if "list_all (\<lambda>page. canonical_page full page \<noteq> None) pages" "pages_from amount offset pages" for offset
    using that
  proof (induction pages arbitrary: offset)
    case (Cons page pages)
    note shape = canonical_page_shape [of full page amount offset]
    have ends: "if offset + int (length (page_steps page)) = amount then field_of page ''next'' = Null
        else eq_int (field_of page ''next'') (offset + int (length (page_steps page)))"
      and steps: "numbered (offset + 1) (\<lambda>item n. canonical_step full item n \<noteq> None) (page_steps page)"
      using shape Cons.prems by auto
    show ?case
    proof (cases "field_of page ''next'' = Null")
      case True
      moreover have "\<not> eq_int Null n" for n by (simp add: eq_int_def py_eq.simps numeric_of_def)
      ultimately show ?thesis using Cons.prems ends steps by (auto split: if_splits)
    next
      case False
      then obtain n where n: "small_int (field_of page ''next'') = Some n" "pages_from amount n pages"
        using Cons.prems by (auto split: option.splits)
      then have "n = offset + int (length (page_steps page))" using ends False eq_int_small by (auto split: if_splits)
      then show ?thesis using Cons.IH [of n] Cons.prems n steps by (simp add: numbered_append ac_simps)
    qed
  qed simp
  from this [OF assms] show ?thesis using numbered_nth [of 1] by (auto simp: ac_simps)
qed


definition sample_step :: json where
  "sample_step = Object [(''position'', Number (Integer 1)), (''assistant'', String ''a''), (''action'', String ''b''),
     (''read_only'', Bool True), (''inputs'', Array []), (''stored_inputs'', Array [])]"

definition sample_page :: json where
  "sample_page = Object [(''routine_id'', String ''r''), (''revision'', Number (Integer 1)), (''plan_digest'', String ''d''),
     (''total'', Number (Integer 1)), (''offset'', Number (Integer 0)), (''steps'', Array [sample_step]), (''next'', Null)]"

lemma sample_bytes: "encoded_bytes sample_step = 91" "encoded_bytes (Array [sample_step]) = 93"
  by code_simp+

lemma sample_ids: "py_len ''a'' = 1" "py_len ''b'' = 1"
  by code_simp+

lemma sample_canonical: "canonical_page (\<lambda>_ _. True) sample_page \<noteq> None"
proof -
  have "canonical_step (\<lambda>_ _. True) sample_step 1 \<noteq> None"
    using sample_bytes(1)
    by (simp add: sample_ids bounded_id_def MAX_ASSISTANT_ID_CHARS_def MAX_ACTION_ID_CHARS_def canonical_step_def sample_step_def py_exact_object_def py_object_def exact_members_def STEP_FIELDS_def py_field_def
        py_array_def small_int_def MAX_ROUTINE_STEPS_def valid_assistant_def canonical_assistant_id_def valid_action_def
        canonical_action_id_def is_bool_value_def members_sorted_def MAX_STEP_VIEW_BYTES_def)
  then show ?thesis
    using sample_bytes(2)
    by (simp add: canonical_page_def paged_def sample_page_def py_exact_object_def py_object_def exact_members_def PAGE_FIELDS_def
        py_field_def py_array_def small_int_def whole_def MAX_ROUTINE_STEPS_def MAX_PAGE_STEPS_def MAX_PAGE_BYTES_def
        is_full_value_def valid_revision_def)
qed

theorem pages_cover_witness: "int (length (concat (map page_steps [sample_page]))) = 1"
  using pages_cover [of "\<lambda>_ _. True" "[sample_page]" 1] sample_canonical
  by (simp add: sample_page_def field_of_def small_int_def)

end
