(* ===== verification/Cards.thy ===== *)
theory Cards
  imports Planned
begin

text \<open>
  What Team sends a recording turn and shows the person about Routines: the listing, the rerun work and the selected Routine
  (\<open>protocol/team/http/src/routine_context/mod.rs\<close>), the confirmation cards and questions (\<open>routine_proposal.rs\<close>), and the
  admission of a turn's Routine fields (\<open>admit_context\<close> in \<open>runtime/src/tools/routine.rs\<close>).
\<close>

section \<open>Listings\<close>

definition LISTING_FIELDS :: "string list" where
  "LISTING_FIELDS = [''routine_id'', ''name'', ''schedule'', ''timezone'', ''timezone_source'', ''revision'', ''daily_steps'',
     ''output'', ''steps'']"

definition MAX_LISTED_DAILY_STEPS :: int where "MAX_LISTED_DAILY_STEPS = MAX_CONTINUOUS_CAP * MAX_ROUTINE_STEPS"
definition MAX_LISTED_STEPS_BYTES :: nat where "MAX_LISTED_STEPS_BYTES = 256 * 1024"
definition MAX_LISTING_STEPS_BYTES :: nat where "MAX_LISTING_STEPS_BYTES = 1024 * 1024"
definition MAX_RERUN_ENTRIES :: nat where "MAX_RERUN_ENTRIES = 256"
definition MAX_RERUN_CALLS :: int where "MAX_RERUN_CALLS = MAX_ROUTINE_STEPS"
definition MAX_RERUN_INPUTS :: nat where "MAX_RERUN_INPUTS = MAX_STEP_INPUTS"
definition MAX_RERUN_MEMBER_CHARS :: nat where "MAX_RERUN_MEMBER_CHARS = MAX_MEMBER_CHARS"
definition MAX_RERUN_LITERAL_CHARS :: nat where "MAX_RERUN_LITERAL_CHARS = 1024"
definition MAX_SELECTED_BYTES :: nat where "MAX_SELECTED_BYTES = 256 * 1024"
definition LAST_RUN_STATUSES :: "string list" where
  "LAST_RUN_STATUSES = [''done'', ''recovered'', ''failed'', ''stopped'', ''waiting'', ''not_run'', ''unavailable'']"
definition SELECTED_FIELDS :: "string list" where
  "SELECTED_FIELDS = [''routine_id'', ''name'', ''description'', ''revision'', ''output'', ''steps'', ''last_run'']"

definition members_listed :: "json list \<Rightarrow> nat \<Rightarrow> nat \<Rightarrow> bool" where
  "members_listed names limit maximum \<longleftrightarrow> length names \<le> limit \<and> list_all (\<lambda>name. plain name maximum) names \<and>
     successively (\<lambda>a b. option_less (py_string a) (py_string b)) names"

definition one_of :: "json \<Rightarrow> string list \<Rightarrow> bool" where
  "one_of v choices = (case py_string v of Some s \<Rightarrow> s \<in> set choices | None \<Rightarrow> False)"

definition listed_output :: "json \<Rightarrow> nat \<Rightarrow> bool" where
  "listed_output v amount =
     (case py_exact_object v [''mode''] of
        None \<Rightarrow> False
      | Some ms \<Rightarrow> one_of (py_field ms ''mode'') OUTPUT_MODES \<and> 1 \<le> amount \<and> int amount \<le> MAX_ROUTINE_STEPS)"

definition listed_step :: "matcher \<Rightarrow> json \<Rightarrow> bool" where
  "listed_step full v =
     (case py_exact_object v [''id'', ''assistant'', ''action'', ''inputs''] of
        None \<Rightarrow> False
      | Some ms \<Rightarrow>
          is_full_value full ROUTINE_STEP_ID_PATTERN (py_field ms ''id'') \<and>
          valid_assistant full (py_field ms ''assistant'') \<and> valid_action full (py_field ms ''action'') \<and>
          (case py_array (py_field ms ''inputs'') of
             Some names \<Rightarrow> members_listed names MAX_STEP_INPUTS MAX_MEMBER_CHARS
           | None \<Rightarrow> False))"

definition canonical_routine_listing :: "unicode \<Rightarrow> matcher \<Rightarrow> json \<Rightarrow> json option" where
  "canonical_routine_listing u full v =
     (case py_exact_object v LISTING_FIELDS of
        None \<Rightarrow> None
      | Some ms \<Rightarrow>
          (case py_array (py_field ms ''steps'') of
             None \<Rightarrow> None
           | Some steps \<Rightarrow>
               if is_full_value full ROUTINE_ID_PATTERN (py_field ms ''routine_id'') \<and>
                 exact_name u (py_field ms ''name'') \<and> exact_schedule full (py_field ms ''schedule'') \<and>
                 zoned full (py_field ms ''timezone'') (py_field ms ''timezone_source'') \<and>
                 valid_revision (py_field ms ''revision'') \<and>
                 whole (py_field ms ''daily_steps'') 1 MAX_LISTED_DAILY_STEPS \<and>
                 int (length steps) \<le> MAX_ROUTINE_STEPS \<and> listed_output (py_field ms ''output'') (length steps) \<and>
                 list_all (listed_step full) steps
               then Some v else None))"

definition steps_bytes :: "json \<Rightarrow> nat" where
  "steps_bytes listed = (case get listed ''steps'' of None \<Rightarrow> 0 | Some steps \<Rightarrow> length (dumps COMPACT steps))"

definition canonical_routine_listings :: "unicode \<Rightarrow> matcher \<Rightarrow> json \<Rightarrow> json option" where
  "canonical_routine_listings u full v =
     (case py_array v of
        None \<Rightarrow> None
      | Some items \<Rightarrow>
          let ids = List.map_filter (\<lambda>item. Option.bind (get item ''routine_id'') py_string) items;
              sizes = map steps_bytes items
          in if length items \<le> MAX_ROUTINES \<and> list_all (\<lambda>item. canonical_routine_listing u full item \<noteq> None) items \<and>
               distinct ids \<and> list_all (\<lambda>n. n \<le> MAX_LISTED_STEPS_BYTES) sizes \<and> sum_list sizes \<le> MAX_LISTING_STEPS_BYTES
             then Some v else None)"

section \<open>Rerun work\<close>

definition json_literal :: "(string \<Rightarrow> json option) \<Rightarrow> json \<Rightarrow> bool" where
  "json_literal parse v =
     (case py_string v of
        None \<Rightarrow> False
      | Some words \<Rightarrow>
          1 \<le> py_len words \<and> py_len words \<le> MAX_RERUN_LITERAL_CHARS \<and>
          (case parse words of Some decoded \<Rightarrow> dumps SPACED decoded = words | None \<Rightarrow> False))"

definition rerun_source :: "matcher \<Rightarrow> json \<Rightarrow> bool" where
  "rerun_source full v =
     (case py_exact_object v [''assistant'', ''action''] of
        None \<Rightarrow> False
      | Some ms \<Rightarrow> valid_assistant full (py_field ms ''assistant'') \<and> valid_action full (py_field ms ''action''))"

definition rerun_input :: "matcher \<Rightarrow> (string \<Rightarrow> json option) \<Rightarrow> json \<Rightarrow> bool" where
  "rerun_input full parse v =
     (case py_exact_object v [''member'', ''kind'', ''value'', ''chosen'', ''source''] of
        None \<Rightarrow> False
      | Some ms \<Rightarrow>
          let shown = py_field ms ''value''; chosen = py_field ms ''chosen''; source = py_field ms ''source'';
              kind = py_string (py_field ms ''kind'')
          in (if kind = Some ''value'' then (shown = Null \<or> json_literal parse shown) \<and> is_bool_value chosen \<and> source = Null
              else if kind = Some ''fresh'' then shown = Null \<and> chosen = Bool False \<and> (source = Null \<or> rerun_source full source)
              else kind = Some ''clock'' \<and> shown = Null \<and> chosen = Bool False \<and> source = Null) \<and>
             plain (py_field ms ''member'') MAX_RERUN_MEMBER_CHARS)"

definition rerun_entry :: "matcher \<Rightarrow> (string \<Rightarrow> json option) \<Rightarrow> json \<Rightarrow> bool" where
  "rerun_entry full parse v =
     (case py_exact_object v [''assistant'', ''action'', ''count'', ''inputs''] of
        None \<Rightarrow> False
      | Some ms \<Rightarrow>
          valid_assistant full (py_field ms ''assistant'') \<and> valid_action full (py_field ms ''action'') \<and>
          whole (py_field ms ''count'') 1 MAX_RERUN_CALLS \<and>
          (case py_array (py_field ms ''inputs'') of
             None \<Rightarrow> False
           | Some inputs \<Rightarrow>
               length inputs \<le> MAX_RERUN_INPUTS \<and> list_all (rerun_input full parse) inputs \<and>
               members_listed (map (\<lambda>item. field_of item ''member'') inputs) MAX_RERUN_INPUTS MAX_RERUN_MEMBER_CHARS))"

definition canonical_rerun :: "matcher \<Rightarrow> (string \<Rightarrow> json option) \<Rightarrow> json \<Rightarrow> json option" where
  "canonical_rerun full parse v =
     (case py_array v of
        None \<Rightarrow> None
      | Some entries \<Rightarrow>
          let calls = sum_list (map (\<lambda>entry. the_or 0 (small_int (field_of entry ''count''))) entries)
          in if 1 \<le> length entries \<and> length entries \<le> MAX_RERUN_ENTRIES \<and> list_all (rerun_entry full parse) entries \<and>
               calls \<le> MAX_RERUN_CALLS
             then Some v else None)"

section \<open>The selected Routine\<close>

definition selected_step :: "matcher \<Rightarrow> json \<Rightarrow> int \<Rightarrow> string list \<Rightarrow> bool" where
  "selected_step full v at_position earlier =
     (case v of
        Object ms \<Rightarrow>
          let ident = field_of v ''id'';
              projection = Object (filter (\<lambda>m. fst m \<noteq> ''id'') ms)
          in is_full_value full ROUTINE_STEP_ID_PATTERN ident \<and>
             (case py_string ident of Some name \<Rightarrow> name \<notin> set earlier | None \<Rightarrow> False) \<and>
             canonical_step full projection at_position \<noteq> None
      | _ \<Rightarrow> False)"

fun selected_ids_from :: "matcher \<Rightarrow> int \<Rightarrow> string list \<Rightarrow> json list \<Rightarrow> string list option" where
  "selected_ids_from full n ids [] = Some ids"
| "selected_ids_from full n ids (item # items) =
     (if selected_step full item n ids
      then selected_ids_from full (n + 1) (ids @ [the_or [] (py_string (field_of item ''id''))]) items
      else None)"

definition selected_ids :: "matcher \<Rightarrow> json \<Rightarrow> string list option" where
  "selected_ids full steps = selected_ids_from full 1 [] (the_or [] (py_array steps))"

definition run_step :: "json \<Rightarrow> int \<Rightarrow> bool" where
  "run_step item at_position =
     (case py_exact_object item [''position'', ''status''] of
        None \<Rightarrow> False
      | Some ms \<Rightarrow> small_int (py_field ms ''position'') = Some at_position \<and> one_of (py_field ms ''status'') LAST_RUN_STATUSES)"

definition last_run :: "json \<Rightarrow> bool" where
  "last_run v \<longleftrightarrow> v = Null \<or>
     (case py_exact_object v [''revision'', ''steps''] of
        None \<Rightarrow> False
      | Some ms \<Rightarrow>
          valid_revision (py_field ms ''revision'') \<and>
          (case py_array (py_field ms ''steps'') of
             None \<Rightarrow> False
           | Some steps \<Rightarrow> 1 \<le> length steps \<and> int (length steps) \<le> MAX_ROUTINE_STEPS \<and> numbered 1 run_step steps))"

definition selected_output :: "json \<Rightarrow> string list \<Rightarrow> bool" where
  "selected_output v ids =
     (case py_exact_object v [''mode'', ''step''] of
        None \<Rightarrow> False
      | Some ms \<Rightarrow>
          let mode = py_field ms ''mode''
          in one_of mode OUTPUT_MODES \<and>
             py_field ms ''step'' = (if one_of mode SHOWN_MODES then (if ids = [] then Null else String (last ids)) else Null))"

definition canonical_selected_routine :: "unicode \<Rightarrow> matcher \<Rightarrow> json \<Rightarrow> json option" where
  "canonical_selected_routine u full v =
     (case py_exact_object v SELECTED_FIELDS of
        None \<Rightarrow> None
      | Some ms \<Rightarrow>
          let steps = py_field ms ''steps''; amount = length (the_or [] (py_array steps))
          in case selected_ids full steps of
               None \<Rightarrow> None
             | Some ids \<Rightarrow>
                 if is_full_value full ROUTINE_ID_PATTERN (py_field ms ''routine_id'') \<and>
                   exact_name u (py_field ms ''name'') \<and> exact_description u (py_field ms ''description'') \<and>
                   valid_revision (py_field ms ''revision'') \<and> 1 \<le> amount \<and> int amount \<le> MAX_ROUTINE_STEPS \<and>
                   selected_output (py_field ms ''output'') ids \<and> last_run (py_field ms ''last_run'') \<and>
                   length (dumps COMPACT v) \<le> MAX_SELECTED_BYTES
                 then Some v else None)"

definition REFINE_FIELDS :: "string list" where
  "REFINE_FIELDS = [''routine_id'', ''base_revision'', ''description'', ''edits'']"

definition canonical_refine :: "unicode \<Rightarrow> matcher \<Rightarrow> json \<Rightarrow> json option" where
  "canonical_refine u full v =
     (case py_exact_object v REFINE_FIELDS of
        None \<Rightarrow> None
      | Some ms \<Rightarrow>
          if is_full_value full ROUTINE_ID_PATTERN (py_field ms ''routine_id'') \<and>
            valid_revision (py_field ms ''base_revision'') \<and> exact_description u (py_field ms ''description'') \<and>
            canonical_edits full (py_field ms ''edits'') \<noteq> None
          then Some v else None)"

section \<open>Cards\<close>

definition MAX_PROPOSAL_BYTES :: nat where "MAX_PROPOSAL_BYTES = 160 * 1024"
definition INPUT_ORIGINS :: "string list" where
  "INPUT_ORIGINS = [''request'', ''assistant'', ''clock'', ''step'', ''selector'']"
definition STEP_CHANGES :: "string list" where "STEP_CHANGES = [''kept'', ''added'', ''replaced'']"
definition REMOVED_CHANGES :: "string list" where "REMOVED_CHANGES = [''removed'', ''replaced'']"
definition PROPOSAL_STATUSES :: "string list" where "PROPOSAL_STATUSES = [''created'', ''changed'', ''revoked'']"
definition INSTANT_PATTERN :: string where "INSTANT_PATTERN = re_text ''[0-9]{4}-[0-9]{2}-[0-9]{2}T[0-9]{2}:[0-9]{2}:[0-9]{2}Z~Z''"

definition instant :: "matcher \<Rightarrow> json \<Rightarrow> bool" where
  "instant full v =
     (case py_string v of
        None \<Rightarrow> False
      | Some words \<Rightarrow> full INSTANT_PATTERN words \<and> (case fromisoformat words of Inr _ \<Rightarrow> True | Inl _ \<Rightarrow> False))"

definition optional_full :: "matcher \<Rightarrow> json \<Rightarrow> string \<Rightarrow> bool" where
  "optional_full full v pattern \<longleftrightarrow> v = Null \<or> is_full_value full pattern v"

definition safe_text :: "json \<Rightarrow> string option" where
  "safe_text v = (case py_string v of Some s \<Rightarrow> if list_ex unsafe_char (chars s) then None else Some s | None \<Rightarrow> None)"

definition nulls :: "(string \<times> json) list \<Rightarrow> string list \<Rightarrow> bool" where
  "nulls ms names = list_all (\<lambda>name. py_field ms name = Null) names"

definition card_input :: "matcher \<Rightarrow> json \<Rightarrow> int \<Rightarrow> bool" where
  "card_input full v at_position =
     (case py_exact_object v [''member'', ''origin'', ''value'', ''step'', ''pointer'', ''where'', ''item''] of
        None \<Rightarrow> False
      | Some ms \<Rightarrow>
          (case py_string (py_field ms ''origin'') of
             None \<Rightarrow> False
           | Some origin \<Rightarrow>
               let shown = py_field ms ''value'';
                   unreferenced = nulls ms [''step'', ''pointer'', ''where'', ''item'']
               in origin \<in> set INPUT_ORIGINS \<and> plain (py_field ms ''member'') MAX_MEMBER_CHARS \<and>
                  (if origin = ''request'' \<or> origin = ''assistant'' then safe_text shown \<noteq> None \<and> unreferenced
                   else if origin = ''clock'' then
                     (shown = Null \<or> (case safe_text shown of Some words \<Rightarrow> CHR 0x7B \<in> set words | None \<Rightarrow> False)) \<and> unreferenced
                   else shown = Null \<and> (py_field ms ''where'' \<noteq> Null) = (origin = ''selector'') \<and> reference full ms at_position)))"

definition card_members :: "matcher \<Rightarrow> (string \<times> json) list \<Rightarrow> int \<Rightarrow> bool" where
  "card_members full ms at_position \<longleftrightarrow>
     small_int (py_field ms ''position'') = Some at_position \<and>
     valid_assistant full (py_field ms ''assistant'') \<and> valid_action full (py_field ms ''action'') \<and>
     is_bool_value (py_field ms ''read_only'') \<and>
     members_sorted (py_field ms ''inputs'') (\<lambda>item. card_input full item at_position)"

definition CARD_STEP_FIELDS :: "string list" where
  "CARD_STEP_FIELDS = [''position'', ''assistant'', ''action'', ''read_only'', ''inputs'']"

definition card_step :: "matcher \<Rightarrow> json \<Rightarrow> int \<Rightarrow> bool" where
  "card_step full v at_position =
     (case py_exact_object v CARD_STEP_FIELDS of Some ms \<Rightarrow> card_members full ms at_position | None \<Rightarrow> False)"

definition card_steps :: "json \<Rightarrow> (json \<Rightarrow> int \<Rightarrow> bool) \<Rightarrow> bool" where
  "card_steps v step =
     (case py_array v of
        None \<Rightarrow> False
      | Some steps \<Rightarrow> steps \<noteq> [] \<and> int (length steps) \<le> MAX_ROUTINE_STEPS \<and> numbered 1 step steps)"

definition card_settings :: "unicode \<Rightarrow> matcher \<Rightarrow> (string \<times> json) list \<Rightarrow> bool" where
  "card_settings u full ms \<longleftrightarrow>
     exact_name u (py_field ms ''name'') \<and> exact_description u (py_field ms ''description'') \<and>
     exact_schedule full (py_field ms ''schedule'') \<and> zoned full (py_field ms ''timezone'') (py_field ms ''timezone_source'') \<and>
     one_of (py_field ms ''output'') OUTPUT_MODES"

definition PROPOSAL_FIELDS :: "string list" where
  "PROPOSAL_FIELDS = [''proposal_id'', ''expires_at'', ''replaces'', ''name'', ''description'', ''schedule'', ''timezone'',
     ''timezone_source'', ''output'', ''steps'']"

definition canonical_proposal :: "unicode \<Rightarrow> matcher \<Rightarrow> json \<Rightarrow> json option" where
  "canonical_proposal u full v =
     (case py_exact_object v PROPOSAL_FIELDS of
        None \<Rightarrow> None
      | Some ms \<Rightarrow>
          if is_full_value full ROUTINE_ID_PATTERN (py_field ms ''proposal_id'') \<and> instant full (py_field ms ''expires_at'') \<and>
            optional_full full (py_field ms ''replaces'') ROUTINE_ID_PATTERN \<and> card_settings u full ms \<and>
            card_steps (py_field ms ''steps'') (card_step full) \<and> encoded_bytes v \<le> MAX_PROPOSAL_BYTES
          then Some v else None)"

section \<open>Refinement cards\<close>

definition refined_step :: "matcher \<Rightarrow> json \<Rightarrow> int \<Rightarrow> bool" where
  "refined_step full v at_position =
     (case py_exact_object v [''position'', ''assistant'', ''action'', ''read_only'', ''inputs'', ''change'', ''base''] of
        None \<Rightarrow> False
      | Some ms \<Rightarrow>
          let change = py_field ms ''change''; base = py_field ms ''base''
          in one_of change STEP_CHANGES \<and>
             (if py_string change = Some ''added'' then base = Null else whole base 1 MAX_ROUTINE_STEPS) \<and>
             card_members full ms at_position)"

definition removed_step :: "matcher \<Rightarrow> json \<Rightarrow> bool" where
  "removed_step full v =
     (case py_exact_object v [''position'', ''assistant'', ''action'', ''read_only'', ''change''] of
        None \<Rightarrow> False
      | Some ms \<Rightarrow>
          whole (py_field ms ''position'') 1 MAX_ROUTINE_STEPS \<and>
          valid_assistant full (py_field ms ''assistant'') \<and> valid_action full (py_field ms ''action'') \<and>
          is_bool_value (py_field ms ''read_only'') \<and> one_of (py_field ms ''change'') REMOVED_CHANGES)"

definition change_positions :: "json list \<Rightarrow> string \<Rightarrow> string \<Rightarrow> int list" where
  "change_positions items change k =
     List.map_filter (\<lambda>item. small_int (field_of item k))
       (filter (\<lambda>item. py_string (field_of item ''change'') = Some change) items)"

definition base_positions :: "json list \<Rightarrow> json list \<Rightarrow> bool" where
  "base_positions steps removed =
     (let kept = change_positions steps ''kept'' ''base'';
          gone = List.map_filter (\<lambda>item. small_int (field_of item ''position'')) removed
      in sorted kept \<and> sorted gone \<and> sort (kept @ gone) = [1..int (length (kept @ gone))] \<and>
         sort (change_positions steps ''replaced'' ''base'') = change_positions removed ''replaced'' ''position'')"

definition REFINEMENT_FIELDS :: "string list" where
  "REFINEMENT_FIELDS = [''proposal_id'', ''expires_at'', ''routine_id'', ''base_revision'', ''name'', ''description'', ''schedule'',
     ''timezone'', ''timezone_source'', ''output'', ''last_changed'', ''steps'', ''removed'']"

definition canonical_refinement :: "unicode \<Rightarrow> matcher \<Rightarrow> json \<Rightarrow> json option" where
  "canonical_refinement u full v =
     (case py_exact_object v REFINEMENT_FIELDS of
        None \<Rightarrow> None
      | Some ms \<Rightarrow>
          (case (py_array (py_field ms ''steps''), py_array (py_field ms ''removed'')) of
             (Some steps, Some removed) \<Rightarrow>
               if is_full_value full ROUTINE_ID_PATTERN (py_field ms ''proposal_id'') \<and>
                 instant full (py_field ms ''expires_at'') \<and>
                 is_full_value full ROUTINE_ID_PATTERN (py_field ms ''routine_id'') \<and>
                 valid_revision (py_field ms ''base_revision'') \<and> card_settings u full ms \<and>
                 is_bool_value (py_field ms ''last_changed'') \<and>
                 card_steps (py_field ms ''steps'') (refined_step full) \<and> list_all (removed_step full) removed \<and>
                 base_positions steps removed \<and> encoded_bytes v \<le> MAX_PROPOSAL_BYTES
               then Some v else None
           | _ \<Rightarrow> None))"

section \<open>Questions and answers\<close>

definition QUESTION_CODES :: "string list" where
  "QUESTION_CODES = [''routine-schedule-unstated'', ''routine-output-unstated'', ''routine-interval-over-budget'',
     ''routine-binding-ambiguous'', ''routine-work-rerun'']"
definition MAX_QUESTION_OPTIONS :: nat where "MAX_QUESTION_OPTIONS = 8"
definition MAX_QUESTION_OPTION_CHARS :: nat where "MAX_QUESTION_OPTION_CHARS = 120"
definition MAX_QUESTION_VALUE_CHARS :: nat where "MAX_QUESTION_VALUE_CHARS = 2 * MAX_QUESTION_OPTION_CHARS + 2"

definition question_target :: "(string \<Rightarrow> json option) \<Rightarrow> json \<Rightarrow> bool" where
  "question_target parse v =
     (case py_string v of
        None \<Rightarrow> False
      | Some words \<Rightarrow>
          1 \<le> py_len words \<and> py_len words \<le> MAX_QUESTION_VALUE_CHARS \<and>
          (case parse words of
             None \<Rightarrow> False
           | Some decoded \<Rightarrow>
               (case decoded of
                  String _ \<Rightarrow> plain decoded MAX_QUESTION_OPTION_CHARS
                | _ \<Rightarrow> is_integer_number decoded \<and> py_len words \<le> MAX_QUESTION_OPTION_CHARS) \<and>
               dumps SPACED decoded = words))"

definition question_option :: "(string \<Rightarrow> json option) \<Rightarrow> json \<Rightarrow> bool" where
  "question_option parse v =
     (case py_exact_object v [''value'', ''label''] of
        None \<Rightarrow> False
      | Some ms \<Rightarrow>
          question_target parse (py_field ms ''value'') \<and>
          (py_field ms ''label'' = Null \<or> plain (py_field ms ''label'') MAX_QUESTION_OPTION_CHARS))"

definition question_options :: "(string \<Rightarrow> json option) \<Rightarrow> string \<Rightarrow> json \<Rightarrow> bool" where
  "question_options parse code v =
     (case py_array v of
        None \<Rightarrow> False
      | Some choices \<Rightarrow>
          (code = ''routine-binding-ambiguous'' \<or> choices = []) \<and>
          length choices \<le> MAX_QUESTION_OPTIONS \<and> list_all (question_option parse) choices \<and>
          length (remdups (List.map_filter (\<lambda>choice. py_string (field_of choice ''value'')) choices)) = length choices)"

definition canonical_question :: "(string \<Rightarrow> json option) \<Rightarrow> json \<Rightarrow> json option" where
  "canonical_question parse v =
     (case py_exact_object v [''code'', ''options'', ''value''] of
        None \<Rightarrow> None
      | Some ms \<Rightarrow>
          (case py_string (py_field ms ''code'') of
             None \<Rightarrow> None
           | Some code \<Rightarrow>
               if code \<in> set QUESTION_CODES \<and> question_options parse code (py_field ms ''options'') \<and>
                 (if code = ''routine-interval-over-budget''
                  then whole (py_field ms ''value'') MIN_CONTINUOUS_GAP_SECONDS MAX_CONTINUOUS_GAP_SECONDS
                  else py_field ms ''value'' = Null)
               then Some v else None))"

definition canonical_refusal :: "matcher \<Rightarrow> json \<Rightarrow> json option" where
  "canonical_refusal full v =
     (case py_exact_object v [''code''] of
        None \<Rightarrow> None
      | Some ms \<Rightarrow>
          if is_full_value full ERROR_CODE_PATTERN (py_field ms ''code'')
          then Some (Object [(''code'', py_field ms ''code'')]) else None)"

definition canonical_proposal_answer :: "matcher \<Rightarrow> json \<Rightarrow> json option" where
  "canonical_proposal_answer full v =
     (case py_exact_object v [''team_id'', ''proposal_id'', ''routine_id'', ''status''] of
        None \<Rightarrow> None
      | Some ms \<Rightarrow>
          if valid_team full (py_field ms ''team_id'') \<and> is_full_value full ROUTINE_ID_PATTERN (py_field ms ''proposal_id'') \<and>
            one_of (py_field ms ''status'') PROPOSAL_STATUSES \<and>
            (if py_string (py_field ms ''status'') = Some ''revoked'' then py_field ms ''routine_id'' = Null
             else is_full_value full ROUTINE_ID_PATTERN (py_field ms ''routine_id''))
          then Some v else None)"

section \<open>The Routine fields of a turn\<close>

definition same_member :: "string \<Rightarrow> json \<Rightarrow> json \<Rightarrow> bool" where
  "same_member k left right = (case (get left k, get right k) of (Some a, Some b) \<Rightarrow> py_eq a b | _ \<Rightarrow> False)"

definition sent_with :: "routine_tools \<Rightarrow> turn_context \<Rightarrow> string \<Rightarrow> bool" where
  "sent_with t ctx name =
     (if name = ''routine_selected'' then
        routine_mode ctx \<and>
        (case Option.bind (routine_selected ctx) (canonical_selected_routine (mt_unicode (rt_memory t)) (mt_full (rt_memory t))) of
           None \<Rightarrow> False
         | Some selected \<Rightarrow>
             list_ex (\<lambda>item. same_member ''routine_id'' item selected \<and> same_member ''revision'' item selected)
               (the_or [] (routines ctx)))
      else if name = ''routine_question'' \<or> name = ''routine_schedule'' then routine_mode ctx
      else if name = ''routine_rerun'' then
        (case routine_question ctx of Some question \<Rightarrow> str_of question ''code'' = Some ''routine-work-rerun'' | None \<Rightarrow> False)
      else True)"

definition admitted_field :: "routine_tools \<Rightarrow> turn_context \<Rightarrow> string \<Rightarrow> bool" where
  "admitted_field t ctx name =
     (if routines ctx = None \<or> \<not> sent_with t ctx name then False
      else if name = ''routine_question'' then
        (case routine_question ctx of Some q \<Rightarrow> canonical_question (mt_parse (rt_memory t)) q \<noteq> None | None \<Rightarrow> False)
      else if name = ''routine_rerun'' then
        (case routine_rerun ctx of
           Some work \<Rightarrow> canonical_rerun (mt_full (rt_memory t)) (mt_parse (rt_memory t)) (Array work) \<noteq> None
         | None \<Rightarrow> False)
      else if name = ''routine_schedule'' then
        (case routine_schedule ctx of Some plan \<Rightarrow> canonical_schedule (mt_full (rt_memory t)) plan \<noteq> None | None \<Rightarrow> False)
      else if name = ''routine_output'' then
        (case routine_output ctx of Some mode \<Rightarrow> mode \<in> set OUTPUT_MODES | None \<Rightarrow> False)
      else True)"

definition recording_fields :: "turn_context \<Rightarrow> (string \<times> bool \<times> string) list" where
  "recording_fields ctx =
     [(''routine_question'', routine_question ctx \<noteq> None, ''question''),
      (''routine_rerun'', routine_rerun ctx \<noteq> None, ''rerun''),
      (''routine_schedule'', routine_schedule ctx \<noteq> None, ''schedule''),
      (''routine_output'', routine_output ctx \<noteq> None, ''output''),
      (''routine_selected'', routine_selected ctx \<noteq> None, ''selection'')]"

definition admit_context :: "routine_tools \<Rightarrow> turn_context \<Rightarrow> brain_error + unit" where
  "admit_context t ctx =
     (if (case routines ctx of
            Some items \<Rightarrow> any_attachment (attachments ctx) \<or>
              canonical_routine_listings (mt_unicode (rt_memory t)) (mt_full (rt_memory t)) (Array items) = None
          | None \<Rightarrow> False) then Inl (Contract ''invalid routines'')
      else if routine_mode ctx \<and> routines ctx = None then Inl (Contract ''invalid Routine mode'')
      else case find (\<lambda>(name, present, _). present \<and> \<not> admitted_field t ctx name) (recording_fields ctx) of
        Some (_, _, word) \<Rightarrow> Inl (Contract (''invalid Routine '' @ word))
      | None \<Rightarrow>
          if routine_settings_answer ctx \<and> \<not> settled_answer ctx then Inl (Contract ''invalid Routine settings answer'')
          else Inr ())"


section \<open>What the cards promise\<close>

lemma count_map_filter: "count (mset (List.map_filter f xs)) p = length (filter (\<lambda>x. f x = Some p) xs)"
  by (induction xs) (auto simp: map_filter_def)

lemma count_positions:
  "count (mset (change_positions items change k)) p =
     length (filter (\<lambda>item. py_string (field_of item ''change'') = Some change \<and> small_int (field_of item k) = Some p) items)"
  by (simp add: change_positions_def count_map_filter conj_commute)

lemma count_upto: "count (mset [1..n]) p = (if 1 \<le> p \<and> p \<le> n then 1 else 0)" for p :: int
  using distinct_upto [of 1 n] by (simp add: distinct_count_atmost_1)

lemma numbered_all: "numbered n P xs \<Longrightarrow> x \<in> set xs \<Longrightarrow> \<exists>m. P x m"
  by (induction xs arbitrary: n) auto

lemma refined_step_base:
  "refined_step full step m \<Longrightarrow> py_string (field_of step ''change'') \<noteq> Some ''added'' \<Longrightarrow>
   py_string (field_of step ''change'') \<in> {Some ''kept'', Some ''replaced''} \<and> (\<exists>p. small_int (field_of step ''base'') = Some p)"
  by (auto simp: refined_step_def py_exact_object_def py_object_def py_field_field_of one_of_def STEP_CHANGES_def whole_def Let_def
      split: option.splits json.splits if_splits)

text \<open>
  C31 A canonical refinement card accounts for every step of the Routine it changes: there is a count of base steps such that each
  base position is kept by exactly one shown step or listed as removed exactly once, every shown step that is not added names a base
  position, and as many shown steps replace a base position as the removed list says are replaced there.
\<close>

theorem refinement_accounts:
  assumes "canonical_refinement u full v = Some w"
  shows "\<exists>steps removed n. field_of v ''steps'' = Array steps \<and> field_of v ''removed'' = Array removed \<and>
    (\<forall>p. length (filter (\<lambda>step. py_string (field_of step ''change'') = Some ''kept'' \<and> small_int (field_of step ''base'') = Some p) steps) +
         length (filter (\<lambda>step. small_int (field_of step ''position'') = Some p) removed) = (if 1 \<le> p \<and> p \<le> n then 1 else 0)) \<and>
    (\<forall>step\<in>set steps. py_string (field_of step ''change'') \<noteq> Some ''added'' \<longrightarrow>
         (\<exists>p. small_int (field_of step ''base'') = Some p \<and> 1 \<le> p \<and> p \<le> n)) \<and>
    (\<forall>p. length (filter (\<lambda>step. py_string (field_of step ''change'') = Some ''replaced'' \<and> small_int (field_of step ''base'') = Some p) steps) =
         length (filter (\<lambda>step. py_string (field_of step ''change'') = Some ''replaced'' \<and> small_int (field_of step ''position'') = Some p) removed))"
proof -
  obtain steps removed where arrays: "field_of v ''steps'' = Array steps" "field_of v ''removed'' = Array removed"
    and card: "card_steps (Array steps) (refined_step full)" and base: "base_positions steps removed"
    using assms
    by (auto simp: canonical_refinement_def py_exact_object_def py_object_def py_array_Some py_field_field_of
        split: option.splits json.splits if_splits)
  define kept where "kept = change_positions steps ''kept'' ''base''"
  define gone where "gone = List.map_filter (\<lambda>item. small_int (field_of item ''position'')) removed"
  define n where "n = int (length (kept @ gone))"
  have sorts: "sort (kept @ gone) = [1..n]" "sort (change_positions steps ''replaced'' ''base'') = change_positions removed ''replaced'' ''position''"
    using base by (simp_all add: base_positions_def Let_def kept_def gone_def n_def)
  have "mset kept + mset gone = mset [1..n]" using arg_cong [OF sorts(1), of mset] by simp
  then have once: "count (mset kept) p + count (mset gone) p = (if 1 \<le> p \<and> p \<le> n then 1 else 0)" for p
    by (metis count_union count_upto)
  have same: "count (mset (change_positions steps ''replaced'' ''base'')) p = count (mset (change_positions removed ''replaced'' ''position'')) p" for p
    using arg_cong [OF sorts(2), of mset] by simp
  have inside: "1 \<le> p \<and> p \<le> n" if "p \<in> set (change_positions steps ''kept'' ''base'') \<union> set (change_positions steps ''replaced'' ''base'')" for p
  proof -
    have "set (change_positions removed ''replaced'' ''position'') \<subseteq> set gone"
      by (force simp: change_positions_def gone_def map_filter_def)
    moreover have "set (change_positions steps ''replaced'' ''base'') = set (change_positions removed ''replaced'' ''position'')"
      using arg_cong [OF sorts(2), of set] by simp
    ultimately have "0 < count (mset kept) p + count (mset gone) p" using that by (auto simp: kept_def)
    then show ?thesis using once [of p] by (auto split: if_splits)
  qed
  have steps_based: "\<exists>p. small_int (field_of step ''base'') = Some p \<and> 1 \<le> p \<and> p \<le> n"
    if step: "step \<in> set steps" "py_string (field_of step ''change'') \<noteq> Some ''added''" for step
  proof -
    obtain m where "refined_step full step m"
      using card step(1) numbered_all [of 1 "refined_step full" steps step] by (auto simp: card_steps_def py_array_def)
    then obtain p where change: "py_string (field_of step ''change'') \<in> {Some ''kept'', Some ''replaced''}"
      and p: "small_int (field_of step ''base'') = Some p"
      using refined_step_base step(2) by blast
    have "p \<in> set (change_positions steps ''kept'' ''base'') \<union> set (change_positions steps ''replaced'' ''base'')"
      using change p step(1) by (force simp: change_positions_def map_filter_def)
    then show ?thesis using p inside by blast
  qed
  show ?thesis
    using arrays once same steps_based
    unfolding kept_def gone_def count_positions count_map_filter by blast
qed


definition sample_members :: "int \<Rightarrow> string \<Rightarrow> (string \<times> json) list" where
  "sample_members n change = [(''position'', Number (Integer n)), (''assistant'', String ''a''), (''action'', String ''b''),
     (''read_only'', Bool True), (''change'', String change)]"

definition sample_card :: json where
  "sample_card = Object [(''proposal_id'', String ''p''), (''expires_at'', String ''2024-01-01T00:00:00Z''), (''routine_id'', String ''r''),
     (''base_revision'', Number (Integer 1)), (''name'', String ''brief''), (''description'', String ''long''),
     (''schedule'', Object [(''kind'', String ''daily''), (''time'', String ''t'')]), (''timezone'', String ''UTC''),
     (''timezone_source'', String ''none''), (''output'', String ''none''), (''last_changed'', Bool False),
     (''steps'', Array [Object (sample_members 1 ''kept'' @ [(''inputs'', Array []), (''base'', Number (Integer 1))]),
                        Object (sample_members 2 ''replaced'' @ [(''inputs'', Array []), (''base'', Number (Integer 2))])]),
     (''removed'', Array [Object (sample_members 2 ''replaced'')])]"

lemma sample_instant: "map_sum (\<lambda>_. ()) dt_year (fromisoformat ''2024-01-01T00:00:00Z'') = Inr 2024"
  by code_simp

lemma sample_card_parts:
  "case fromisoformat ''2024-01-01T00:00:00Z'' of Inr _ \<Rightarrow> True | Inl _ \<Rightarrow> False"
  "py_len ''brief'' = 5" "py_len ''long'' = 4" "strip ''brief'' = ''brief''" "strip ''long'' = ''long''"
proof -
  show "case fromisoformat ''2024-01-01T00:00:00Z'' of Inr _ \<Rightarrow> True | Inl _ \<Rightarrow> False"
    using sample_instant by (cases "fromisoformat ''2024-01-01T00:00:00Z''") simp_all
  show "py_len ''brief'' = 5" "py_len ''long'' = 4" by code_simp+
qed (rule plain_word)+

lemma sample_card_bytes: "encoded_bytes sample_card = 547"
  by code_simp

lemmas sample_evaluation = sample_ids sample_members_def py_exact_object_def py_object_def exact_members_def py_field_def one_of_def
  py_string_def whole_def small_int_def MAX_ROUTINE_STEPS_def card_members_def valid_assistant_def canonical_assistant_id_def
  valid_action_def canonical_action_id_def bounded_id_def MAX_ASSISTANT_ID_CHARS_def MAX_ACTION_ID_CHARS_def is_bool_value_def
  members_sorted_def py_array_def

lemma sample_refined:
  "refined_step (\<lambda>_ _. True) (Object (sample_members 1 ''kept'' @ [(''inputs'', Array []), (''base'', Number (Integer 1))])) 1"
  "refined_step (\<lambda>_ _. True) (Object (sample_members 2 ''replaced'' @ [(''inputs'', Array []), (''base'', Number (Integer 2))])) 2"
  by (simp_all add: refined_step_def STEP_CHANGES_def sample_evaluation)

lemma sample_steps:
  "card_steps (py_field (members sample_card) ''steps'') (refined_step (\<lambda>_ _. True))"
  using sample_refined by (simp add: sample_card_def py_field_def card_steps_def py_array_def MAX_ROUTINE_STEPS_def)

lemma sample_removed: "removed_step (\<lambda>_ _. True) (Object (sample_members 2 ''replaced''))"
  by (simp add: removed_step_def REMOVED_CHANGES_def sample_evaluation)

lemma sample_settings: "card_settings plain_unicode (\<lambda>_ _. True) (members sample_card)"
  using sample_card_parts
  by (simp add: card_settings_def sample_card_def py_field_def exact_name_def canonical_name_def exact_description_def
      canonical_description_def routine_line_def py_string_def MAX_ROUTINE_NAME_CHARS_def MAX_ROUTINE_DESCRIPTION_CHARS_def is_nfc_def
      plain_nfc plain_printed exact_schedule_def canonical_schedule_def SCHEDULE_KINDS_def schedule_fields_def py_exact_object_def
      py_object_def exact_members_def is_full_value_def zoned_def TIMEZONE_SOURCES_def canonical_timezone_def CONVENTIONAL_TIMEZONE_def
      one_of_def OUTPUT_MODES_def chars.simps)

lemma sample_positions:
  "base_positions (the_or [] (py_array (py_field (members sample_card) ''steps''))) (the_or [] (py_array (py_field (members sample_card) ''removed'')))"
  by code_simp

lemma sample_card_canonical: "canonical_refinement plain_unicode (\<lambda>_ _. True) sample_card = Some sample_card"
proof -
  have fields: "py_exact_object sample_card REFINEMENT_FIELDS = Some (members sample_card)"
    by (simp add: sample_card_def py_exact_object_def py_object_def exact_members_def REFINEMENT_FIELDS_def)
  show ?thesis
    using sample_steps sample_removed sample_settings sample_positions sample_card_bytes sample_card_parts(1)
    unfolding canonical_refinement_def fields
    by (simp add: sample_card_def py_field_def py_array_def is_full_value_def instant_def py_string_def valid_revision_def whole_def
        small_int_def is_bool_value_def MAX_PROPOSAL_BYTES_def)
qed

theorem refinement_accounts_witness:
  "\<exists>steps removed n. field_of sample_card ''steps'' = Array steps \<and> field_of sample_card ''removed'' = Array removed \<and>
    length (filter (\<lambda>step. py_string (field_of step ''change'') = Some ''kept'' \<and> small_int (field_of step ''base'') = Some 1) steps) +
    length (filter (\<lambda>step. small_int (field_of step ''position'') = Some 1) removed) = (if 1 \<le> (1::int) \<and> (1::int) \<le> n then 1 else 0)"
  using refinement_accounts [OF sample_card_canonical] by blast


section \<open>A selected Routine reads backwards only\<close>

lemma selected_ids_from_steps:
  "selected_ids_from full n ids items = Some out \<Longrightarrow> i < length items \<Longrightarrow> \<exists>earlier. selected_step full (items ! i) (n + int i) earlier"
proof (induction items arbitrary: n ids i)
  case (Cons item items)
  then show ?case
    using Cons.IH [of "n + 1" "ids @ [the_or [] (py_string (field_of item ''id''))]" "i - 1"]
    by (cases i) (auto simp: ac_simps split: if_splits)
qed simp

lemma selected_ids_from_distinct:
  "selected_ids_from full n ids items = Some out \<Longrightarrow> distinct ids \<Longrightarrow>
   distinct out \<and> out = ids @ map (\<lambda>item. the_or [] (py_string (field_of item ''id''))) items"
  by (induction items arbitrary: n ids) (fastforce simp: selected_step_def Let_def split: if_splits json.splits option.splits)+

lemma field_without: "k \<noteq> x \<Longrightarrow> field_of (Object (filter (\<lambda>m. fst m \<noteq> x) ms)) k = field_of (Object ms) k"
  by (simp add: field_of_def) (induction ms; auto)

lemma selected_step_reads:
  assumes "selected_step full item n earlier"
  shows "small_int (field_of item ''position'') = Some n"
    and "\<exists>inputs. field_of item ''inputs'' = Array inputs \<and> list_all (step_input full n) inputs"
proof -
  obtain ms where item: "item = Object ms" and step: "canonical_step full (Object (filter (\<lambda>m. fst m \<noteq> ''id'') ms)) n \<noteq> None"
    using assms by (auto simp: selected_step_def Let_def split: json.splits)
  then show "small_int (field_of item ''position'') = Some n"
    "\<exists>inputs. field_of item ''inputs'' = Array inputs \<and> list_all (step_input full n) inputs"
    by (auto simp: canonical_step_def py_exact_object_def py_object_def py_field_field_of field_without members_sorted_def Let_def
        py_array_Some split: option.splits if_splits)
qed

lemma step_input_reads:
  assumes "step_input full n input" "field_of input ''source'' = String ''step_output''"
  shows "\<exists>p. small_int (field_of input ''step'') = Some p \<and> 1 \<le> p \<and> p < n"
proof -
  have source: "Option.bind (get input ''source'') py_string = Some ''step_output''"
    using assms(2) by (cases "get input ''source''") (simp_all add: field_of_def py_string_def)
  show ?thesis
    using assms(1) unfolding step_input_def Let_def source
    by (auto simp: input_fields_def py_exact_object_def py_object_def py_field_field_of reference_def position_within_def whole_def
        split: option.splits json.splits if_splits)
qed

text \<open>
  C32 The plan of an admitted selected Routine reads backwards only: its steps carry distinct names, the step at index i has position
  i + 1, and every input that takes a step's output names one of the positions 1 to i, so no step waits for itself or a later one.
\<close>

theorem selected_reads_backwards:
  assumes "canonical_selected_routine u full v = Some w"
  shows "\<exists>steps. field_of v ''steps'' = Array steps \<and> distinct (map (\<lambda>step. the_or [] (py_string (field_of step ''id''))) steps) \<and>
    (\<forall>i<length steps. small_int (field_of (steps ! i) ''position'') = Some (int i + 1) \<and>
      (\<exists>inputs. field_of (steps ! i) ''inputs'' = Array inputs \<and>
        (\<forall>input\<in>set inputs. field_of input ''source'' = String ''step_output'' \<longrightarrow>
          (\<exists>p. small_int (field_of input ''step'') = Some p \<and> 1 \<le> p \<and> p \<le> int i))))"
proof -
  obtain ids where ids: "selected_ids full (field_of v ''steps'') = Some ids" and some: "1 \<le> length (the_or [] (py_array (field_of v ''steps'')))"
    using assms
    by (auto simp: canonical_selected_routine_def py_exact_object_def py_object_def py_field_field_of Let_def
        split: option.splits json.splits if_splits)
  obtain steps where steps: "field_of v ''steps'' = Array steps"
    using some by (cases "field_of v ''steps''") (simp_all add: py_array_def)
  have read: "selected_ids_from full 1 [] steps = Some ids" using ids by (simp add: selected_ids_def steps py_array_def)
  have "small_int (field_of (steps ! i) ''position'') = Some (int i + 1) \<and>
      (\<exists>inputs. field_of (steps ! i) ''inputs'' = Array inputs \<and>
        (\<forall>input\<in>set inputs. field_of input ''source'' = String ''step_output'' \<longrightarrow>
          (\<exists>p. small_int (field_of input ''step'') = Some p \<and> 1 \<le> p \<and> p \<le> int i)))" if i: "i < length steps" for i
  proof -
    obtain earlier where step: "selected_step full (steps ! i) (1 + int i) earlier"
      using selected_ids_from_steps [OF read i] by blast
    obtain inputs where inputs: "field_of (steps ! i) ''inputs'' = Array inputs" "list_all (step_input full (1 + int i)) inputs"
      using selected_step_reads(2) [OF step] by blast
    have "\<exists>p. small_int (field_of input ''step'') = Some p \<and> 1 \<le> p \<and> p \<le> int i"
      if "input \<in> set inputs" "field_of input ''source'' = String ''step_output''" for input
      using step_input_reads [of full "1 + int i" input] inputs(2) that by (force simp: list_all_iff)
    then show ?thesis using selected_step_reads(1) [OF step] inputs(1) by (simp add: add.commute)
  qed
  then show ?thesis using steps selected_ids_from_distinct [OF read] by auto
qed

definition sample_selected_step :: "int \<Rightarrow> string \<Rightarrow> json list \<Rightarrow> json" where
  "sample_selected_step n name inputs = Object [(''id'', String name), (''position'', Number (Integer n)), (''assistant'', String ''a''),
     (''action'', String ''b''), (''read_only'', Bool True), (''inputs'', Array inputs), (''stored_inputs'', Array [])]"

definition sample_reading :: json where
  "sample_reading = Object [(''member'', String ''m''), (''source'', String ''step_output''), (''step'', Number (Integer 1)),
     (''pointer'', String ''/x''), (''where'', Null), (''item'', Null)]"

definition sample_selected :: json where
  "sample_selected = Object [(''routine_id'', String ''r''), (''name'', String ''brief''), (''description'', String ''long''),
     (''revision'', Number (Integer 1)), (''output'', Object [(''mode'', String ''none''), (''step'', Null)]),
     (''steps'', Array [sample_selected_step 1 ''p'' [], sample_selected_step 2 ''q'' [sample_reading]]), (''last_run'', Null)]"

definition sample_projection :: "int \<Rightarrow> json list \<Rightarrow> json" where
  "sample_projection n inputs = Object [(''position'', Number (Integer n)), (''assistant'', String ''a''),
     (''action'', String ''b''), (''read_only'', Bool True), (''inputs'', Array inputs), (''stored_inputs'', Array [])]"

lemma sample_selected_bytes:
  "encoded_bytes (sample_projection 1 []) = 91" "encoded_bytes (sample_projection 2 [sample_reading]) = 177"
  "length (dumps COMPACT sample_selected) = 418"
  by code_simp+

lemma sample_texts: "py_len ''m'' = 1" "py_len ''/x'' = 2" "\<not> list_ex unsafe_char (chars ''m'')" "\<not> list_ex unsafe_char (chars ''/x'')"
  by (simp_all add: py_len_def continuation_def unsafe_char_def plan_unsafe_def)

lemma sample_reading_ok: "step_input (\<lambda>_ _. True) 2 sample_reading"
  using sample_texts
  by (simp add: step_input_def sample_reading_def input_fields_def py_exact_object_def py_object_def exact_members_def py_field_def
      py_string_def plain_def MAX_MEMBER_CHARS_def reference_def position_within_def whole_def small_int_def pointer_ok_def
      MAX_POINTER_CHARS_def)

lemma sample_projections:
  "canonical_step (\<lambda>_ _. True) (sample_projection 1 []) 1 \<noteq> None"
  "canonical_step (\<lambda>_ _. True) (sample_projection 2 [sample_reading]) 2 \<noteq> None"
  using sample_selected_bytes(1,2) sample_reading_ok
  by (simp_all add: sample_projection_def canonical_step_def STEP_FIELDS_def MAX_STEP_INPUTS_def MAX_STEP_VIEW_BYTES_def sample_evaluation)

lemma sample_selected_canonical:
  "canonical_selected_routine plain_unicode (\<lambda>_ _. True) sample_selected = Some sample_selected"
proof -
  have fields: "py_exact_object sample_selected SELECTED_FIELDS = Some (members sample_selected)"
    by (simp add: sample_selected_def py_exact_object_def py_object_def exact_members_def SELECTED_FIELDS_def)
  have steps: "selected_step (\<lambda>_ _. True) (sample_selected_step 1 ''p'' []) 1 []"
    "selected_step (\<lambda>_ _. True) (sample_selected_step 2 ''q'' [sample_reading]) 2 [''p'']"
    using sample_projections
    by (simp_all add: selected_step_def sample_selected_step_def sample_projection_def is_full_value_def field_of_def py_string_def)
  have ids: "selected_ids (\<lambda>_ _. True) (Array [sample_selected_step 1 ''p'' [], sample_selected_step 2 ''q'' [sample_reading]]) = Some [''p'', ''q'']"
    using steps by (simp add: selected_ids_def py_array_def) (simp add: sample_selected_step_def field_of_def py_string_def)
  show ?thesis
    using ids sample_selected_bytes(3) sample_card_parts(2-5)
    unfolding canonical_selected_routine_def fields
    by (simp add: sample_selected_def py_field_def py_array_def is_full_value_def exact_name_def canonical_name_def
        exact_description_def canonical_description_def routine_line_def py_string_def MAX_ROUTINE_NAME_CHARS_def
        MAX_ROUTINE_DESCRIPTION_CHARS_def is_nfc_def plain_nfc plain_printed valid_revision_def whole_def small_int_def
        MAX_ROUTINE_STEPS_def selected_output_def py_exact_object_def py_object_def exact_members_def one_of_def OUTPUT_MODES_def
        SHOWN_MODES_def last_run_def MAX_SELECTED_BYTES_def)
qed

theorem selected_reads_backwards_witness:
  "\<exists>steps. field_of sample_selected ''steps'' = Array steps \<and> distinct (map (\<lambda>step. the_or [] (py_string (field_of step ''id''))) steps)"
  using selected_reads_backwards [OF sample_selected_canonical] by blast

end
