(* ===== verification/Causes.thy ===== *)
theory Causes
  imports Planned
begin

text \<open>
  The closed cause of a failed Team Action (\<open>protocol/team/http/src/payload/cause.rs\<close>): its words, its constructors, the wire
  object it is written as and read from, and its line for a person.  The narrow integers of the code are unbounded here; \<open>cause_ok\<close>
  states the range each field's type and condition give it.
\<close>

section \<open>The closed words\<close>

definition MAX_CAUSE_BYTES :: nat where "MAX_CAUSE_BYTES = 1024"
definition MAX_RENDERED_CHARS :: nat where "MAX_RENDERED_CHARS = 512"
definition MAX_CAUSE_COUNT :: int where "MAX_CAUSE_COUNT = 2 ^ 31 - 1"
definition CAUSE_MEMBERS :: "string list" where
  "CAUSE_MEMBERS = [''kind'', ''condition'', ''phase'', ''exit_code'', ''http_status'', ''bytes'', ''stderr_bytes'', ''cleanup'']"
definition UNKNOWN_CAUSE :: string where "UNKNOWN_CAUSE = ''cause unknown''"

datatype cause_kind =
    Kind_ActionAdmission | Kind_AssistantRequest | Kind_TeamAudit | Kind_TeamState
  | Kind_Docker | Kind_Integration | Kind_File | Kind_Stop
  | Kind_Workload | Kind_AssistantTransport | Kind_AssistantTimeout | Kind_AssistantExit
  | Kind_AssistantOutputInvalid | Kind_AssistantSecretEcho | Kind_AssistantAnswer

definition ALL_KINDS :: "cause_kind list" where
  "ALL_KINDS =
     [Kind_ActionAdmission, Kind_AssistantRequest, Kind_TeamAudit, Kind_TeamState,
      Kind_Docker, Kind_Integration, Kind_File, Kind_Stop,
      Kind_Workload, Kind_AssistantTransport, Kind_AssistantTimeout, Kind_AssistantExit,
      Kind_AssistantOutputInvalid, Kind_AssistantSecretEcho, Kind_AssistantAnswer]"

fun kind_text :: "cause_kind \<Rightarrow> string" where
  "kind_text Kind_ActionAdmission = ''action-admission''"
| "kind_text Kind_AssistantRequest = ''assistant-request''"
| "kind_text Kind_TeamAudit = ''team-audit''"
| "kind_text Kind_TeamState = ''team-state''"
| "kind_text Kind_Docker = ''docker''"
| "kind_text Kind_Integration = ''integration''"
| "kind_text Kind_File = ''file''"
| "kind_text Kind_Stop = ''stop''"
| "kind_text Kind_Workload = ''workload''"
| "kind_text Kind_AssistantTransport = ''assistant-transport''"
| "kind_text Kind_AssistantTimeout = ''assistant-timeout''"
| "kind_text Kind_AssistantExit = ''assistant-exit''"
| "kind_text Kind_AssistantOutputInvalid = ''assistant-output-invalid''"
| "kind_text Kind_AssistantSecretEcho = ''assistant-secret-echo''"
| "kind_text Kind_AssistantAnswer = ''assistant-answer''"

definition parse_kind :: "string \<Rightarrow> cause_kind option" where
  "parse_kind words = find (\<lambda>v. kind_text v = words) ALL_KINDS"

datatype condition =
    On_ActionNotDeclared | On_InputInvalid | On_ContextChanged | On_InvocationTooLarge
  | On_AttemptUncertain | On_HumanRequestRequired | On_RecordRefused | On_WriteFailed
  | On_JournalClosed | On_JournalUnavailable | On_StoredInputUnavailable | On_DispatchSealRefused
  | On_OperationIdUnavailable | On_DockerUnavailable | On_SlotTimeout | On_IntegrationUnavailable
  | On_FileUnavailable | On_FileBusy | On_Stopped | On_WorkloadBlocked
  | On_ExecStartFailed | On_StreamFailed | On_ReplyWriteFailed | On_DeadlinePassed
  | On_ExitStatus | On_ExitUnavailable | On_StillRunning | On_StderrOutput
  | On_StreamUnknown | On_OutputTooLarge | On_FrameTruncated | On_LineNotJson
  | On_OutputAfterTerminal | On_TerminalNotObject | On_RequestAfterProviderCall | On_FrameTypeInvalid
  | On_FrameMembersInvalid | On_FailureInvalid | On_RequestInvalid | On_AuthorizationRepeated
  | On_HeldInputRequested | On_StoredInputNotHeld | On_ResultWithWithheldFile | On_ResultNotObject
  | On_ResultTooDeep | On_ResultSchemaMismatch | On_SchemaPatternUnevaluable | On_ResultNumberUnevaluable
  | On_SchemaUnsupported | On_ResultNotDurable | On_InjectedValueEchoed | On_HandledFailure
  | On_StoredInputRejected

definition ALL_CONDITIONS :: "condition list" where
  "ALL_CONDITIONS =
     [On_ActionNotDeclared, On_InputInvalid, On_ContextChanged, On_InvocationTooLarge,
      On_AttemptUncertain, On_HumanRequestRequired, On_RecordRefused, On_WriteFailed,
      On_JournalClosed, On_JournalUnavailable, On_StoredInputUnavailable, On_DispatchSealRefused,
      On_OperationIdUnavailable, On_DockerUnavailable, On_SlotTimeout, On_IntegrationUnavailable,
      On_FileUnavailable, On_FileBusy, On_Stopped, On_WorkloadBlocked,
      On_ExecStartFailed, On_StreamFailed, On_ReplyWriteFailed, On_DeadlinePassed,
      On_ExitStatus, On_ExitUnavailable, On_StillRunning, On_StderrOutput,
      On_StreamUnknown, On_OutputTooLarge, On_FrameTruncated, On_LineNotJson,
      On_OutputAfterTerminal, On_TerminalNotObject, On_RequestAfterProviderCall, On_FrameTypeInvalid,
      On_FrameMembersInvalid, On_FailureInvalid, On_RequestInvalid, On_AuthorizationRepeated,
      On_HeldInputRequested, On_StoredInputNotHeld, On_ResultWithWithheldFile, On_ResultNotObject,
      On_ResultTooDeep, On_ResultSchemaMismatch, On_SchemaPatternUnevaluable, On_ResultNumberUnevaluable,
      On_SchemaUnsupported, On_ResultNotDurable, On_InjectedValueEchoed, On_HandledFailure,
      On_StoredInputRejected]"

fun condition_text :: "condition \<Rightarrow> string" where
  "condition_text On_ActionNotDeclared = ''action-not-declared''"
| "condition_text On_InputInvalid = ''input-invalid''"
| "condition_text On_ContextChanged = ''context-changed''"
| "condition_text On_InvocationTooLarge = ''invocation-too-large''"
| "condition_text On_AttemptUncertain = ''attempt-uncertain''"
| "condition_text On_HumanRequestRequired = ''human-request-required''"
| "condition_text On_RecordRefused = ''record-refused''"
| "condition_text On_WriteFailed = ''write-failed''"
| "condition_text On_JournalClosed = ''journal-closed''"
| "condition_text On_JournalUnavailable = ''journal-unavailable''"
| "condition_text On_StoredInputUnavailable = ''stored-input-unavailable''"
| "condition_text On_DispatchSealRefused = ''dispatch-seal-refused''"
| "condition_text On_OperationIdUnavailable = ''operation-id-unavailable''"
| "condition_text On_DockerUnavailable = ''docker-unavailable''"
| "condition_text On_SlotTimeout = ''slot-timeout''"
| "condition_text On_IntegrationUnavailable = ''integration-unavailable''"
| "condition_text On_FileUnavailable = ''file-unavailable''"
| "condition_text On_FileBusy = ''file-busy''"
| "condition_text On_Stopped = ''stopped''"
| "condition_text On_WorkloadBlocked = ''workload-blocked''"
| "condition_text On_ExecStartFailed = ''exec-start-failed''"
| "condition_text On_StreamFailed = ''stream-failed''"
| "condition_text On_ReplyWriteFailed = ''reply-write-failed''"
| "condition_text On_DeadlinePassed = ''deadline-passed''"
| "condition_text On_ExitStatus = ''exit-status''"
| "condition_text On_ExitUnavailable = ''exit-unavailable''"
| "condition_text On_StillRunning = ''still-running''"
| "condition_text On_StderrOutput = ''stderr-output''"
| "condition_text On_StreamUnknown = ''stream-unknown''"
| "condition_text On_OutputTooLarge = ''output-too-large''"
| "condition_text On_FrameTruncated = ''frame-truncated''"
| "condition_text On_LineNotJson = ''line-not-json''"
| "condition_text On_OutputAfterTerminal = ''output-after-terminal''"
| "condition_text On_TerminalNotObject = ''terminal-not-object''"
| "condition_text On_RequestAfterProviderCall = ''request-after-provider-call''"
| "condition_text On_FrameTypeInvalid = ''frame-type-invalid''"
| "condition_text On_FrameMembersInvalid = ''frame-members-invalid''"
| "condition_text On_FailureInvalid = ''failure-invalid''"
| "condition_text On_RequestInvalid = ''request-invalid''"
| "condition_text On_AuthorizationRepeated = ''authorization-repeated''"
| "condition_text On_HeldInputRequested = ''held-input-requested''"
| "condition_text On_StoredInputNotHeld = ''stored-input-not-held''"
| "condition_text On_ResultWithWithheldFile = ''result-with-withheld-file''"
| "condition_text On_ResultNotObject = ''result-not-object''"
| "condition_text On_ResultTooDeep = ''result-too-deep''"
| "condition_text On_ResultSchemaMismatch = ''result-schema-mismatch''"
| "condition_text On_SchemaPatternUnevaluable = ''schema-pattern-unevaluable''"
| "condition_text On_ResultNumberUnevaluable = ''result-number-unevaluable''"
| "condition_text On_SchemaUnsupported = ''schema-unsupported''"
| "condition_text On_ResultNotDurable = ''result-not-durable''"
| "condition_text On_InjectedValueEchoed = ''injected-value-echoed''"
| "condition_text On_HandledFailure = ''handled-failure''"
| "condition_text On_StoredInputRejected = ''stored-input-rejected''"

definition parse_condition :: "string \<Rightarrow> condition option" where
  "parse_condition words = find (\<lambda>v. condition_text v = words) ALL_CONDITIONS"

datatype phase =
    In_Admission | In_Preparation | In_FileSlot | In_Journal
  | In_DispatchRecord | In_SlotAdmission | In_ExecStart | In_Exchange
  | In_ProviderCall | In_ExitInspection | In_ResultValidation | In_Settlement

definition ALL_PHASES :: "phase list" where
  "ALL_PHASES =
     [In_Admission, In_Preparation, In_FileSlot, In_Journal,
      In_DispatchRecord, In_SlotAdmission, In_ExecStart, In_Exchange,
      In_ProviderCall, In_ExitInspection, In_ResultValidation, In_Settlement]"

fun phase_text :: "phase \<Rightarrow> string" where
  "phase_text In_Admission = ''admission''"
| "phase_text In_Preparation = ''preparation''"
| "phase_text In_FileSlot = ''file-slot''"
| "phase_text In_Journal = ''journal''"
| "phase_text In_DispatchRecord = ''dispatch-record''"
| "phase_text In_SlotAdmission = ''slot-admission''"
| "phase_text In_ExecStart = ''exec-start''"
| "phase_text In_Exchange = ''exchange''"
| "phase_text In_ProviderCall = ''provider-call''"
| "phase_text In_ExitInspection = ''exit-inspection''"
| "phase_text In_ResultValidation = ''result-validation''"
| "phase_text In_Settlement = ''settlement''"

definition parse_phase :: "string \<Rightarrow> phase option" where
  "parse_phase words = find (\<lambda>v. phase_text v = words) ALL_PHASES"

datatype cleanup =
    Cleanup_WorkloadStopped | Cleanup_WorkloadStopUnconfirmed | Cleanup_JournalUnavailable

definition ALL_CLEANUPS :: "cleanup list" where
  "ALL_CLEANUPS =
     [Cleanup_WorkloadStopped, Cleanup_WorkloadStopUnconfirmed, Cleanup_JournalUnavailable]"

fun cleanup_text :: "cleanup \<Rightarrow> string" where
  "cleanup_text Cleanup_WorkloadStopped = ''workload-stopped''"
| "cleanup_text Cleanup_WorkloadStopUnconfirmed = ''workload-stop-unconfirmed''"
| "cleanup_text Cleanup_JournalUnavailable = ''journal-unavailable''"

definition parse_cleanup :: "string \<Rightarrow> cleanup option" where
  "parse_cleanup words = find (\<lambda>v. cleanup_text v = words) ALL_CLEANUPS"

fun kind_of :: "condition \<Rightarrow> cause_kind" where
  "kind_of On_ActionNotDeclared = Kind_ActionAdmission"
| "kind_of On_InputInvalid = Kind_ActionAdmission"
| "kind_of On_ContextChanged = Kind_ActionAdmission"
| "kind_of On_InvocationTooLarge = Kind_ActionAdmission"
| "kind_of On_AttemptUncertain = Kind_ActionAdmission"
| "kind_of On_HumanRequestRequired = Kind_AssistantRequest"
| "kind_of On_RecordRefused = Kind_TeamAudit"
| "kind_of On_WriteFailed = Kind_TeamAudit"
| "kind_of On_JournalClosed = Kind_TeamAudit"
| "kind_of On_JournalUnavailable = Kind_TeamState"
| "kind_of On_StoredInputUnavailable = Kind_TeamState"
| "kind_of On_DispatchSealRefused = Kind_TeamState"
| "kind_of On_OperationIdUnavailable = Kind_TeamState"
| "kind_of On_DockerUnavailable = Kind_Docker"
| "kind_of On_SlotTimeout = Kind_Docker"
| "kind_of On_IntegrationUnavailable = Kind_Integration"
| "kind_of On_FileUnavailable = Kind_File"
| "kind_of On_FileBusy = Kind_File"
| "kind_of On_Stopped = Kind_Stop"
| "kind_of On_WorkloadBlocked = Kind_Workload"
| "kind_of On_ExecStartFailed = Kind_AssistantTransport"
| "kind_of On_StreamFailed = Kind_AssistantTransport"
| "kind_of On_ReplyWriteFailed = Kind_AssistantTransport"
| "kind_of On_DeadlinePassed = Kind_AssistantTimeout"
| "kind_of On_ExitStatus = Kind_AssistantExit"
| "kind_of On_ExitUnavailable = Kind_AssistantExit"
| "kind_of On_StillRunning = Kind_AssistantExit"
| "kind_of On_StderrOutput = Kind_AssistantExit"
| "kind_of On_StreamUnknown = Kind_AssistantOutputInvalid"
| "kind_of On_OutputTooLarge = Kind_AssistantOutputInvalid"
| "kind_of On_FrameTruncated = Kind_AssistantOutputInvalid"
| "kind_of On_LineNotJson = Kind_AssistantOutputInvalid"
| "kind_of On_OutputAfterTerminal = Kind_AssistantOutputInvalid"
| "kind_of On_TerminalNotObject = Kind_AssistantOutputInvalid"
| "kind_of On_RequestAfterProviderCall = Kind_AssistantOutputInvalid"
| "kind_of On_FrameTypeInvalid = Kind_AssistantOutputInvalid"
| "kind_of On_FrameMembersInvalid = Kind_AssistantOutputInvalid"
| "kind_of On_FailureInvalid = Kind_AssistantOutputInvalid"
| "kind_of On_RequestInvalid = Kind_AssistantOutputInvalid"
| "kind_of On_AuthorizationRepeated = Kind_AssistantOutputInvalid"
| "kind_of On_HeldInputRequested = Kind_AssistantOutputInvalid"
| "kind_of On_StoredInputNotHeld = Kind_AssistantOutputInvalid"
| "kind_of On_ResultWithWithheldFile = Kind_AssistantOutputInvalid"
| "kind_of On_ResultNotObject = Kind_AssistantOutputInvalid"
| "kind_of On_ResultTooDeep = Kind_AssistantOutputInvalid"
| "kind_of On_ResultSchemaMismatch = Kind_AssistantOutputInvalid"
| "kind_of On_SchemaPatternUnevaluable = Kind_AssistantOutputInvalid"
| "kind_of On_ResultNumberUnevaluable = Kind_AssistantOutputInvalid"
| "kind_of On_SchemaUnsupported = Kind_AssistantOutputInvalid"
| "kind_of On_ResultNotDurable = Kind_AssistantOutputInvalid"
| "kind_of On_InjectedValueEchoed = Kind_AssistantSecretEcho"
| "kind_of On_HandledFailure = Kind_AssistantAnswer"
| "kind_of On_StoredInputRejected = Kind_AssistantAnswer"

definition states_stderr :: "condition \<Rightarrow> bool" where
  "states_stderr c \<longleftrightarrow> kind_of c = Kind_AssistantExit"

section \<open>Causes\<close>

record cause =
  cause_condition :: condition
  cause_phase :: phase
  exit_code :: "int option"
  http_status :: "int option"
  cause_bytes :: "int option"
  stderr_bytes :: "int option"
  cause_cleanup :: "cleanup option"

definition cause_count :: "nat \<Rightarrow> int" where
  "cause_count n = min (min (int n) (2 ^ 32 - 1)) MAX_CAUSE_COUNT"

definition new_cause :: "condition \<Rightarrow> phase \<Rightarrow> cause" where
  "new_cause c p = \<lparr>cause_condition = c, cause_phase = p, exit_code = None, http_status = None, cause_bytes = None,
     stderr_bytes = None, cause_cleanup = None\<rparr>"

definition exit_status :: "int \<Rightarrow> cause" where
  "exit_status code =
     (new_cause On_ExitStatus In_ExitInspection)\<lparr>exit_code := Some (max (- (2 ^ 31)) (min code (2 ^ 31 - 1)))\<rparr>"

definition stderr_output :: "nat \<Rightarrow> cause" where
  "stderr_output n = (new_cause On_StderrOutput In_ExitInspection)\<lparr>stderr_bytes := Some (cause_count (max n 1))\<rparr>"

definition output_too_large :: "nat \<Rightarrow> phase \<Rightarrow> cause" where
  "output_too_large n p = (new_cause On_OutputTooLarge p)\<lparr>cause_bytes := Some (cause_count n)\<rparr>"

definition handled :: "int option \<Rightarrow> cause" where
  "handled status =
     (new_cause On_HandledFailure In_ResultValidation)
       \<lparr>http_status := (case status of Some s \<Rightarrow> if 100 \<le> s \<and> s \<le> 599 then Some s else None | None \<Rightarrow> None)\<rparr>"

definition with_stderr :: "cause \<Rightarrow> nat \<Rightarrow> cause" where
  "with_stderr c n =
     (if \<not> states_stderr (cause_condition c) \<or> n = 0 then c else c\<lparr>stderr_bytes := Some (cause_count n)\<rparr>)"

definition with_cleanup :: "cause \<Rightarrow> cleanup \<Rightarrow> cause" where
  "with_cleanup c cleanup = c\<lparr>cause_cleanup := Some cleanup\<rparr>"

section \<open>The wire object\<close>

definition int_value :: "int \<Rightarrow> json" where
  "int_value i = Number (Integer i)"

definition stated :: "string \<Rightarrow> int option \<Rightarrow> (string \<times> json) list" where
  "stated name number = (case number of Some n \<Rightarrow> [(name, int_value n)] | None \<Rightarrow> [])"

definition cause_members :: "cause \<Rightarrow> (string \<times> json) list" where
  "cause_members c =
     [(''kind'', String (kind_text (kind_of (cause_condition c)))),
      (''condition'', String (condition_text (cause_condition c))),
      (''phase'', String (phase_text (cause_phase c)))] @
     stated ''exit_code'' (exit_code c) @ stated ''http_status'' (http_status c) @ stated ''bytes'' (cause_bytes c) @
     stated ''stderr_bytes'' (stderr_bytes c) @
     (case cause_cleanup c of Some k \<Rightarrow> [(''cleanup'', String (cleanup_text k))] | None \<Rightarrow> [])"

definition cause_value :: "cause \<Rightarrow> json" where
  "cause_value c = Object (cause_members c)"

text \<open>A member that is stated must be a small integer in its range; none is stated when it is absent.\<close>

definition stated_number :: "(string \<times> json) list \<Rightarrow> string \<Rightarrow> int \<Rightarrow> int \<Rightarrow> int option option" where
  "stated_number ms name low high =
     (if \<not> list_ex (\<lambda>m. fst m = name) ms then Some None
      else (case small_int (py_field ms name) of
              Some n \<Rightarrow> if low \<le> n \<and> n \<le> high then Some (Some n) else None
            | None \<Rightarrow> None))"

definition narrow :: "int \<Rightarrow> int \<Rightarrow> int option \<Rightarrow> int option" where
  "narrow low high number = (case number of Some n \<Rightarrow> if low \<le> n \<and> n \<le> high then Some n else None | None \<Rightarrow> None)"

definition cause_word :: "(string \<times> json) list \<Rightarrow> string \<Rightarrow> string option" where
  "cause_word ms name = py_string (py_field ms name)"

definition cause_from :: "json \<Rightarrow> cause option" where
  "cause_from v = do {
     ms \<leftarrow> py_object v;
     _ \<leftarrow> (if length ms > length CAUSE_MEMBERS \<or> list_ex (\<lambda>m. fst m \<notin> set CAUSE_MEMBERS) ms then None else Some ());
     c \<leftarrow> Option.bind (cause_word ms ''condition'') parse_condition;
     p \<leftarrow> Option.bind (cause_word ms ''phase'') parse_phase;
     kind \<leftarrow> cause_word ms ''kind'';
     _ \<leftarrow> (if kind \<noteq> kind_text (kind_of c) then None else Some ());
     code \<leftarrow> stated_number ms ''exit_code'' (- (2 ^ 31)) (2 ^ 31 - 1);
     status \<leftarrow> stated_number ms ''http_status'' 100 599;
     bytes \<leftarrow> stated_number ms ''bytes'' 0 MAX_CAUSE_COUNT;
     stderr \<leftarrow> stated_number ms ''stderr_bytes'' 1 MAX_CAUSE_COUNT;
     cleanup \<leftarrow> (if list_ex (\<lambda>m. fst m = ''cleanup'') ms
                 then map_option Some (Option.bind (cause_word ms ''cleanup'') parse_cleanup) else Some None);
     _ \<leftarrow> (if (code \<noteq> None) = (c = On_ExitStatus) \<and> (bytes \<noteq> None) = (c = On_OutputTooLarge) \<and>
              (status = None \<or> c = On_HandledFailure) \<and> (stderr = None \<or> states_stderr c) \<and>
              (stderr \<noteq> None \<or> c \<noteq> On_StderrOutput) then Some () else None);
     Some \<lparr>cause_condition = c, cause_phase = p, exit_code = narrow (- (2 ^ 31)) (2 ^ 31 - 1) code,
           http_status = narrow 0 (2 ^ 16 - 1) status, cause_bytes = narrow 0 (2 ^ 32 - 1) bytes,
           stderr_bytes = narrow 0 (2 ^ 32 - 1) stderr, cause_cleanup = cleanup\<rparr> }"

definition canonical_cause :: "json \<Rightarrow> json option" where
  "canonical_cause v =
     (case map_option cause_value (cause_from v) of
        Some w \<Rightarrow> if length (dumps ASCII_COMPACT w) \<le> MAX_CAUSE_BYTES then Some w else None
      | None \<Rightarrow> None)"

section \<open>The line for a person\<close>

definition stated_text :: "string \<Rightarrow> int option \<Rightarrow> string list" where
  "stated_text name number = (case number of Some n \<Rightarrow> [name @ '' '' @ dec_of_int n] | None \<Rightarrow> [])"

definition cause_parts :: "cause \<Rightarrow> string list" where
  "cause_parts c =
     [kind_text (kind_of (cause_condition c)), condition_text (cause_condition c), phase_text (cause_phase c)] @
     stated_text ''exit-code'' (exit_code c) @ stated_text ''http-status'' (http_status c) @ stated_text ''bytes'' (cause_bytes c) @
     stated_text ''stderr-bytes'' (stderr_bytes c) @
     (case cause_cleanup c of Some k \<Rightarrow> [cleanup_text k] | None \<Rightarrow> [])"

definition render_known :: "cause \<Rightarrow> string" where
  "render_known c = joined (utf8 [0x20, 0xC2, 0xB7, 0x20]) (cause_parts c)"

definition render_cause :: "cause option \<Rightarrow> string" where
  "render_cause c = (case c of Some stated_cause \<Rightarrow> render_known stated_cause | None \<Rightarrow> UNKNOWN_CAUSE)"

section \<open>Every closed word reads back\<close>

lemma find_text: "distinct (map f vs) \<Longrightarrow> v \<in> set vs \<Longrightarrow> find (\<lambda>w. f w = f v) vs = Some v"
  by (induction vs) auto

lemma parse_kind_text [simp]: "parse_kind (kind_text v) = Some v"
  unfolding parse_kind_def by (rule find_text, code_simp) (cases v; simp add: ALL_KINDS_def)

lemma parse_phase_text [simp]: "parse_phase (phase_text v) = Some v"
  unfolding parse_phase_def by (rule find_text, code_simp) (cases v; simp add: ALL_PHASES_def)

lemma parse_cleanup_text [simp]: "parse_cleanup (cleanup_text v) = Some v"
  unfolding parse_cleanup_def by (rule find_text, code_simp) (cases v; simp add: ALL_CLEANUPS_def)

lemma condition_texts_distinct: "distinct (map condition_text ALL_CONDITIONS)"
  by code_simp

lemma parse_condition_text [simp]: "parse_condition (condition_text v) = Some v"
  unfolding parse_condition_def by (rule find_text [OF condition_texts_distinct]) (cases v; simp add: ALL_CONDITIONS_def)

lemma parse_sound:
  "parse_kind s = Some a \<Longrightarrow> kind_text a = s" "parse_phase s = Some b \<Longrightarrow> phase_text b = s"
  "parse_cleanup s = Some c \<Longrightarrow> cleanup_text c = s" "parse_condition s = Some d \<Longrightarrow> condition_text d = s"
  by (auto simp: parse_kind_def parse_phase_def parse_cleanup_def parse_condition_def find_Some_iff)

section \<open>Well-formed causes\<close>

definition cause_ok :: "cause \<Rightarrow> bool" where
  "cause_ok c \<longleftrightarrow>
     (exit_code c \<noteq> None) = (cause_condition c = On_ExitStatus) \<and>
     (cause_bytes c \<noteq> None) = (cause_condition c = On_OutputTooLarge) \<and>
     (http_status c = None \<or> cause_condition c = On_HandledFailure) \<and>
     (stderr_bytes c = None \<or> states_stderr (cause_condition c)) \<and>
     (stderr_bytes c \<noteq> None \<or> cause_condition c \<noteq> On_StderrOutput) \<and>
     pred_option (\<lambda>n. - (2 ^ 31) \<le> n \<and> n \<le> 2 ^ 31 - 1) (exit_code c) \<and>
     pred_option (\<lambda>n. 100 \<le> n \<and> n \<le> 599) (http_status c) \<and>
     pred_option (\<lambda>n. 0 \<le> n \<and> n \<le> MAX_CAUSE_COUNT) (cause_bytes c) \<and>
     pred_option (\<lambda>n. 1 \<le> n \<and> n \<le> MAX_CAUSE_COUNT) (stderr_bytes c)"

lemma cause_count_range: "0 \<le> cause_count n" "cause_count n \<le> MAX_CAUSE_COUNT" "0 < n \<Longrightarrow> 1 \<le> cause_count n"
  by (simp_all add: cause_count_def MAX_CAUSE_COUNT_def)

text \<open>
  The constructors make well-formed causes only: a new cause is one exactly when its condition requires no parameter of its own,
  the constructors that take a number clamp it into its range, and stating stderr bytes or a cleanup keeps a cause well formed.
\<close>

theorem causes_well_formed:
  "(cause_ok (new_cause c p) \<longleftrightarrow> c \<notin> {On_ExitStatus, On_OutputTooLarge, On_StderrOutput}) \<and>
   cause_ok (exit_status code) \<and> cause_ok (stderr_output n) \<and> cause_ok (output_too_large n p) \<and> cause_ok (handled status) \<and>
   cause_ok (with_stderr (exit_status code) n) \<and> cause_ok (with_stderr (stderr_output m) n) \<and>
   (cause_ok x \<longrightarrow> cause_ok (with_stderr x n) \<and> cause_ok (with_cleanup x k))"
  using cause_count_range [of n] cause_count_range [of m] cause_count_range(3) [of "max n 1"] cause_count_range(3) [of "max m 1"]
  by (auto simp: cause_ok_def new_cause_def exit_status_def stderr_output_def output_too_large_def handled_def with_stderr_def
      with_cleanup_def states_stderr_def cause_count_range split: option.splits)

theorem causes_well_formed_witness:
  "cause_ok (with_cleanup (new_cause On_Stopped In_Exchange) Cleanup_WorkloadStopped)"
proof -
  have "cause_ok (new_cause On_Stopped In_Exchange)" by (simp add: cause_ok_def new_cause_def)
  then show ?thesis
    using causes_well_formed [of On_Stopped In_Exchange 0 0 None 0 "new_cause On_Stopped In_Exchange" Cleanup_WorkloadStopped] by blast
qed

section \<open>The wire object reads back\<close>

definition stated_pair :: "string \<Rightarrow> int option \<Rightarrow> string \<times> int option" where
  "stated_pair name number = (name, number)"

lemma member_names: "distinct CAUSE_MEMBERS"
  by code_simp

lemma cause_names: "map fst (cause_members c) = [''kind'', ''condition'', ''phase''] @
    (if exit_code c = None then [] else [''exit_code'']) @ (if http_status c = None then [] else [''http_status'']) @
    (if cause_bytes c = None then [] else [''bytes'']) @ (if stderr_bytes c = None then [] else [''stderr_bytes'']) @
    (if cause_cleanup c = None then [] else [''cleanup''])"
  by (auto simp: cause_members_def stated_def split: option.splits)

lemma cause_names_known: "set (map fst (cause_members c)) \<subseteq> set CAUSE_MEMBERS" "distinct (map fst (cause_members c))"
  "length (cause_members c) \<le> length CAUSE_MEMBERS"
proof -
  show "set (map fst (cause_members c)) \<subseteq> set CAUSE_MEMBERS" unfolding cause_names CAUSE_MEMBERS_def by (simp split: if_splits)
  show distinct: "distinct (map fst (cause_members c))" unfolding cause_names by (simp split: if_splits)
  have "length (map fst (cause_members c)) \<le> length CAUSE_MEMBERS" unfolding cause_names CAUSE_MEMBERS_def by simp
  then show "length (cause_members c) \<le> length CAUSE_MEMBERS" by simp
qed

lemma cause_fields:
  "py_field (cause_members c) ''kind'' = String (kind_text (kind_of (cause_condition c)))"
  "py_field (cause_members c) ''condition'' = String (condition_text (cause_condition c))"
  "py_field (cause_members c) ''phase'' = String (phase_text (cause_phase c))"
  "exit_code c = Some n \<Longrightarrow> py_field (cause_members c) ''exit_code'' = int_value n"
  "http_status c = Some n \<Longrightarrow> py_field (cause_members c) ''http_status'' = int_value n"
  "cause_bytes c = Some n \<Longrightarrow> py_field (cause_members c) ''bytes'' = int_value n"
  "stderr_bytes c = Some n \<Longrightarrow> py_field (cause_members c) ''stderr_bytes'' = int_value n"
  "cause_cleanup c = Some k \<Longrightarrow> py_field (cause_members c) ''cleanup'' = String (cleanup_text k)"
  by (rule py_field_member [OF cause_names_known(2)]; simp add: cause_members_def stated_def)+

lemma cause_present:
  "list_ex (\<lambda>m. fst m = ''exit_code'') (cause_members c) \<longleftrightarrow> exit_code c \<noteq> None"
  "list_ex (\<lambda>m. fst m = ''http_status'') (cause_members c) \<longleftrightarrow> http_status c \<noteq> None"
  "list_ex (\<lambda>m. fst m = ''bytes'') (cause_members c) \<longleftrightarrow> cause_bytes c \<noteq> None"
  "list_ex (\<lambda>m. fst m = ''stderr_bytes'') (cause_members c) \<longleftrightarrow> stderr_bytes c \<noteq> None"
  "list_ex (\<lambda>m. fst m = ''cleanup'') (cause_members c) \<longleftrightarrow> cause_cleanup c \<noteq> None"
  by (simp_all add: cause_members_def stated_def split: option.splits)

lemma stated_number_stated:
  assumes "list_ex (\<lambda>m. fst m = name) ms \<longleftrightarrow> number \<noteq> None" "\<And>n. number = Some n \<Longrightarrow> py_field ms name = int_value n"
    "pred_option (\<lambda>n. low \<le> n \<and> n \<le> high) number"
  shows "stated_number ms name low high = Some number"
  using assms by (cases number) (simp_all add: stated_number_def int_value_def small_int_def)

lemma narrow_within: "pred_option (\<lambda>n. low \<le> n \<and> n \<le> high) number \<Longrightarrow> narrow low high number = number"
  by (cases number) (simp_all add: narrow_def)

lemma pred_option_mono_int: "pred_option (\<lambda>n. low \<le> n \<and> n \<le> high) number \<Longrightarrow> low' \<le> low \<Longrightarrow> high \<le> high' \<Longrightarrow>
    pred_option (\<lambda>n. low' \<le> n \<and> n \<le> high') number" for low :: int
  by (cases number) simp_all

lemma cause_from_value:
  assumes "cause_ok c"
  shows "cause_from (cause_value c) = Some c"
proof -
  note ok = assms [unfolded cause_ok_def]
  have known: "\<not> (length (cause_members c) > length CAUSE_MEMBERS \<or> list_ex (\<lambda>m. fst m \<notin> set CAUSE_MEMBERS) (cause_members c))"
    using cause_names_known by (auto simp: list_ex_iff not_less)
  have numbers:
    "stated_number (cause_members c) ''exit_code'' (- (2 ^ 31)) (2 ^ 31 - 1) = Some (exit_code c)"
    "stated_number (cause_members c) ''http_status'' 100 599 = Some (http_status c)"
    "stated_number (cause_members c) ''bytes'' 0 MAX_CAUSE_COUNT = Some (cause_bytes c)"
    "stated_number (cause_members c) ''stderr_bytes'' 1 MAX_CAUSE_COUNT = Some (stderr_bytes c)"
    using ok by (intro stated_number_stated cause_present cause_fields; blast)+
  have cleanup: "(if list_ex (\<lambda>m. fst m = ''cleanup'') (cause_members c)
      then map_option Some (Option.bind (cause_word (cause_members c) ''cleanup'') parse_cleanup) else Some None) = Some (cause_cleanup c)"
    by (cases "cause_cleanup c") (simp_all add: cause_present cause_word_def cause_fields py_string_def)
  have narrows: "narrow (- (2 ^ 31)) (2 ^ 31 - 1) (exit_code c) = exit_code c" "narrow 0 (2 ^ 16 - 1) (http_status c) = http_status c"
    "narrow 0 (2 ^ 32 - 1) (cause_bytes c) = cause_bytes c" "narrow 0 (2 ^ 32 - 1) (stderr_bytes c) = stderr_bytes c"
    using ok by (auto simp: MAX_CAUSE_COUNT_def intro!: narrow_within elim!: pred_option_mono_int)
  have fits: "(exit_code c \<noteq> None) = (cause_condition c = On_ExitStatus) \<and> (cause_bytes c \<noteq> None) = (cause_condition c = On_OutputTooLarge) \<and>
      (http_status c = None \<or> cause_condition c = On_HandledFailure) \<and> (stderr_bytes c = None \<or> states_stderr (cause_condition c)) \<and>
      (stderr_bytes c \<noteq> None \<or> cause_condition c \<noteq> On_StderrOutput)"
    using ok by blast
  have words: "Option.bind (cause_word (cause_members c) ''condition'') parse_condition = Some (cause_condition c)"
    "Option.bind (cause_word (cause_members c) ''phase'') parse_phase = Some (cause_phase c)"
    "cause_word (cause_members c) ''kind'' = Some (kind_text (kind_of (cause_condition c)))"
    by (simp_all add: cause_word_def cause_fields py_string_def)
  show ?thesis
    unfolding cause_from_def cause_value_def py_object_def
    by (simp only: json.case Option.bind.bind_lunit known if_False words numbers cleanup narrows fits HOL.simp_thms if_True)
      simp
qed

text \<open>And a value that is read states nothing else.\<close>

lemma stated_number_read:
  assumes "stated_number ms name low high = Some number"
  shows "list_ex (\<lambda>m. fst m = name) ms \<longleftrightarrow> number \<noteq> None" "number = Some n \<Longrightarrow> py_field ms name = int_value n"
    "pred_option (\<lambda>n. low \<le> n \<and> n \<le> high) number"
  using assms by (auto simp: stated_number_def small_int_def int_value_def split: if_splits option.splits json.splits number.splits)

lemma present_iff: "list_ex (\<lambda>m. fst m = k) ms \<longleftrightarrow> k \<in> fst ` set ms"
  by (auto simp: list_ex_iff)

lemma field_present: "py_field ms k = String s \<Longrightarrow> k \<in> fst ` set ms"
  by (induction ms) (auto simp: py_field_def split: if_splits)

lemma narrow_read: "stated_number ms name low high = Some number \<Longrightarrow> low' \<le> low \<Longrightarrow> high \<le> high' \<Longrightarrow> narrow low' high' number = number"
  by (rule narrow_within, rule pred_option_mono_int [OF stated_number_read(3)])

lemma cause_read:
  assumes "cause_from (Object ms) = Some c"
  shows "set (map fst ms) \<subseteq> set CAUSE_MEMBERS"
    and "py_field ms ''kind'' = String (kind_text (kind_of (cause_condition c)))"
    and "py_field ms ''condition'' = String (condition_text (cause_condition c))"
    and "py_field ms ''phase'' = String (phase_text (cause_phase c))"
    and "stated_number ms ''exit_code'' (- (2 ^ 31)) (2 ^ 31 - 1) = Some (exit_code c)"
    and "stated_number ms ''http_status'' 100 599 = Some (http_status c)"
    and "stated_number ms ''bytes'' 0 MAX_CAUSE_COUNT = Some (cause_bytes c)"
    and "stated_number ms ''stderr_bytes'' 1 MAX_CAUSE_COUNT = Some (stderr_bytes c)"
    and "list_ex (\<lambda>m. fst m = ''cleanup'') ms \<longleftrightarrow> cause_cleanup c \<noteq> None"
    and "cause_cleanup c = Some k \<Longrightarrow> py_field ms ''cleanup'' = String (cleanup_text k)"
    and "(exit_code c \<noteq> None) = (cause_condition c = On_ExitStatus) \<and> (cause_bytes c \<noteq> None) = (cause_condition c = On_OutputTooLarge) \<and>
      (http_status c = None \<or> cause_condition c = On_HandledFailure) \<and> (stderr_bytes c = None \<or> states_stderr (cause_condition c)) \<and>
      (stderr_bytes c \<noteq> None \<or> cause_condition c \<noteq> On_StderrOutput)"
proof -
  from assms obtain c' p kind code status bytes stderr cleanup where
    known: "\<not> (length ms > length CAUSE_MEMBERS \<or> list_ex (\<lambda>m. fst m \<notin> set CAUSE_MEMBERS) ms)"
    and words: "Option.bind (cause_word ms ''condition'') parse_condition = Some c'"
      "Option.bind (cause_word ms ''phase'') parse_phase = Some p" "cause_word ms ''kind'' = Some kind" "kind = kind_text (kind_of c')"
    and numbers: "stated_number ms ''exit_code'' (- (2 ^ 31)) (2 ^ 31 - 1) = Some code"
      "stated_number ms ''http_status'' 100 599 = Some status" "stated_number ms ''bytes'' 0 MAX_CAUSE_COUNT = Some bytes"
      "stated_number ms ''stderr_bytes'' 1 MAX_CAUSE_COUNT = Some stderr"
    and cleanup: "(if list_ex (\<lambda>m. fst m = ''cleanup'') ms
        then map_option Some (Option.bind (cause_word ms ''cleanup'') parse_cleanup) else Some None) = Some cleanup"
    and fits: "(code \<noteq> None) = (c' = On_ExitStatus) \<and> (bytes \<noteq> None) = (c' = On_OutputTooLarge) \<and>
        (status = None \<or> c' = On_HandledFailure) \<and> (stderr = None \<or> states_stderr c') \<and> (stderr \<noteq> None \<or> c' \<noteq> On_StderrOutput)"
    and c: "c = \<lparr>cause_condition = c', cause_phase = p, exit_code = narrow (- (2 ^ 31)) (2 ^ 31 - 1) code,
        http_status = narrow 0 (2 ^ 16 - 1) status, cause_bytes = narrow 0 (2 ^ 32 - 1) bytes,
        stderr_bytes = narrow 0 (2 ^ 32 - 1) stderr, cause_cleanup = cleanup\<rparr>"
    unfolding cause_from_def py_object_def json.case Option.bind.bind_lunit bind_eq_Some_conv
    by - (elim exE conjE, rule that, (assumption | blast | (simp split: if_splits; fail))+)
  have narrows: "narrow (- (2 ^ 31)) (2 ^ 31 - 1) code = code" "narrow 0 (2 ^ 16 - 1) status = status"
    "narrow 0 (2 ^ 32 - 1) bytes = bytes" "narrow 0 (2 ^ 32 - 1) stderr = stderr"
    using numbers by (auto simp: MAX_CAUSE_COUNT_def elim!: narrow_read)
  show "set (map fst ms) \<subseteq> set CAUSE_MEMBERS" using known by (auto simp: list_ex_iff)
  show "py_field ms ''kind'' = String (kind_text (kind_of (cause_condition c)))"
    using words(3,4) by (simp add: c cause_word_def py_string_Some)
  show "py_field ms ''condition'' = String (condition_text (cause_condition c))"
    "py_field ms ''phase'' = String (phase_text (cause_phase c))"
    using words(1,2) by (auto simp: c cause_word_def py_string_Some bind_eq_Some_conv dest: parse_sound)
  show "stated_number ms ''exit_code'' (- (2 ^ 31)) (2 ^ 31 - 1) = Some (exit_code c)"
    "stated_number ms ''http_status'' 100 599 = Some (http_status c)" "stated_number ms ''bytes'' 0 MAX_CAUSE_COUNT = Some (cause_bytes c)"
    "stated_number ms ''stderr_bytes'' 1 MAX_CAUSE_COUNT = Some (stderr_bytes c)"
    using numbers narrows by (simp_all add: c)
  show "list_ex (\<lambda>m. fst m = ''cleanup'') ms \<longleftrightarrow> cause_cleanup c \<noteq> None"
    using cleanup by (auto simp: c split: if_splits)
  show "py_field ms ''cleanup'' = String (cleanup_text k)" if "cause_cleanup c = Some k"
    using cleanup that by (auto simp: c cause_word_def py_string_Some bind_eq_Some_conv split: if_splits dest: parse_sound)
  show "(exit_code c \<noteq> None) = (cause_condition c = On_ExitStatus) \<and> (cause_bytes c \<noteq> None) = (cause_condition c = On_OutputTooLarge) \<and>
      (http_status c = None \<or> cause_condition c = On_HandledFailure) \<and> (stderr_bytes c = None \<or> states_stderr (cause_condition c)) \<and>
      (stderr_bytes c \<noteq> None \<or> cause_condition c \<noteq> On_StderrOutput)"
    using fits narrows by (simp add: c)
qed

lemma cause_name_set: "fst ` set (cause_members c) = {''kind'', ''condition'', ''phase''} \<union>
    (if exit_code c = None then {} else {''exit_code''}) \<union> (if http_status c = None then {} else {''http_status''}) \<union>
    (if cause_bytes c = None then {} else {''bytes''}) \<union> (if stderr_bytes c = None then {} else {''stderr_bytes''}) \<union>
    (if cause_cleanup c = None then {} else {''cleanup''})"
  using arg_cong [OF cause_names [of c], of set] by (simp split: if_splits)

lemma cause_read_exact:
  assumes "cause_from (Object ms) = Some c" "value_ok (Object ms)"
  shows "cause_ok c" "mset ms = mset (cause_members c)"
proof -
  note read = cause_read [OF assms(1)]
  note numbers = stated_number_read [OF read(5)] stated_number_read [OF read(6)] stated_number_read [OF read(7)] stated_number_read [OF read(8)]
  show "cause_ok c" unfolding cause_ok_def using read(11) numbers(3,6,9,12) by blast
  have present: "''kind'' \<in> fst ` set ms" "''condition'' \<in> fst ` set ms" "''phase'' \<in> fst ` set ms"
    "''exit_code'' \<in> fst ` set ms \<longleftrightarrow> exit_code c \<noteq> None" "''http_status'' \<in> fst ` set ms \<longleftrightarrow> http_status c \<noteq> None"
    "''bytes'' \<in> fst ` set ms \<longleftrightarrow> cause_bytes c \<noteq> None" "''stderr_bytes'' \<in> fst ` set ms \<longleftrightarrow> stderr_bytes c \<noteq> None"
    "''cleanup'' \<in> fst ` set ms \<longleftrightarrow> cause_cleanup c \<noteq> None"
    using field_present [OF read(2)] field_present [OF read(3)] field_present [OF read(4)]
    by (simp_all only: present_iff [symmetric] numbers(1,4,7,10) read(9))
  have inside: "x \<in> fst ` set ms \<longleftrightarrow> x \<in> fst ` set (cause_members c)" if "x \<in> set CAUSE_MEMBERS" for x
    using that unfolding CAUSE_MEMBERS_def list.set insert_iff empty_iff
    by (elim disjE FalseE; hypsubst; simp add: present cause_name_set)
  have "fst ` set ms \<subseteq> set CAUSE_MEMBERS" "fst ` set (cause_members c) \<subseteq> set CAUSE_MEMBERS"
    using read(1) cause_names_known(1) [of c] by simp_all
  then have "fst ` set ms = fst ` set (cause_members c)" using inside by blast
  then have names: "set (map fst ms) = set (map fst (cause_members c))" by simp
  then have exact: "exact_members ms (map fst (cause_members c))"
    using exact_members_names [OF assms(2) cause_names_known(2)] by blast
  have "py_field ms k = x" if "(k, x) \<in> set (cause_members c)" for k x
    using that read(2-4,10) numbers(2,5,8,11) by (auto simp: cause_members_def stated_def split: option.splits)
  then show "mset ms = mset (cause_members c)"
    using members_are [of ms "cause_members c"] exact assms(2) cause_names_known(2) by (auto simp: made_of_def)
qed

text \<open>
  C34 A cause reads back from its wire object, and a decoded value is read as a cause only when that cause is well formed and the
  value is its wire object up to the order of the members: nothing else is stated.
\<close>

theorem cause_round_trip:
  "(cause_ok c \<longrightarrow> cause_from (cause_value c) = Some c) \<and>
   (value_ok v \<and> cause_from v = Some c \<longrightarrow>
      cause_ok c \<and> (\<exists>ms. v = Object ms \<and> mset ms = mset (members (cause_value c))))"
proof -
  have "\<exists>ms. v = Object ms" if "cause_from v = Some c"
    using that by (cases v) (simp_all add: cause_from_def py_object_def)
  then show ?thesis using cause_from_value cause_read_exact by (fastforce simp: cause_value_def)
qed

theorem cause_round_trip_witness:
  "cause_from (cause_value (exit_status 3)) = Some (exit_status 3)"
proof -
  have "cause_ok (exit_status 3)" by (simp add: cause_ok_def exit_status_def new_cause_def)
  then show ?thesis using cause_round_trip [of "exit_status 3" Null] by blast
qed

section \<open>The bounds of a cause\<close>

lemma kinds_bounded: "well_formed (kind_text k) \<and> string_len (kind_text k) \<le> 26 \<and> length (kind_text k) \<le> 24"
  by (cases k; simp add: well_formed_def string_len_def char_len_def escape_char_def continuation_def)

lemma phases_bounded: "well_formed (phase_text p) \<and> string_len (phase_text p) \<le> 19 \<and> length (phase_text p) \<le> 17"
  by (cases p; simp add: well_formed_def string_len_def char_len_def escape_char_def continuation_def)

lemma cleanups_bounded: "well_formed (cleanup_text x) \<and> string_len (cleanup_text x) \<le> 27 \<and> length (cleanup_text x) \<le> 25"
  by (cases x; simp add: well_formed_def string_len_def char_len_def escape_char_def continuation_def)

lemma conditions_bounded: "well_formed (condition_text c) \<and> string_len (condition_text c) \<le> 29 \<and> length (condition_text c) \<le> 27"
  by (cases c; simp add: well_formed_def string_len_def char_len_def escape_char_def continuation_def)

lemma names_bounded:
  "name \<in> set CAUSE_MEMBERS \<Longrightarrow> well_formed name \<and> string_len name \<le> 14"
  unfolding CAUSE_MEMBERS_def by (auto simp: well_formed_def string_len_def char_len_def escape_char_def continuation_def)

lemma length_dec_of_nat: "n < 10 ^ k \<Longrightarrow> 0 < k \<Longrightarrow> length (dec_of_nat n) \<le> k"
proof (induction k arbitrary: n)
  case (Suc k)
  show ?case
  proof (cases "n < 10")
    case True
    then show ?thesis by (subst dec_of_nat.simps) simp
  next
    case False
    then have "0 < k" "n div 10 < 10 ^ k" using Suc.prems by (auto simp: less_mult_imp_div_less mult.commute intro!: Nat.gr0I)
    then show ?thesis using Suc.IH [of "n div 10"] False by (subst dec_of_nat.simps) simp
  qed
qed simp

lemma length_dec_of_int: "- (2 ^ 31) \<le> i \<Longrightarrow> i \<le> 2 ^ 31 - 1 \<Longrightarrow> length (dec_of_int i) \<le> 11"
proof -
  assume range: "- (2 ^ 31) \<le> i" "i \<le> 2 ^ 31 - 1"
  have "nat (- i) < 10 ^ 10" "nat i < 10 ^ 10" using range by (simp_all add: nat_less_iff)
  then show ?thesis
    using length_dec_of_nat [of "nat (- i)" 10] length_dec_of_nat [of "nat i" 10] by (simp add: dec_of_int_def)
qed

lemma cause_numbers_i32:
  assumes "cause_ok c"
  shows "pred_option (\<lambda>n. - (2 ^ 31) \<le> n \<and> n \<le> 2 ^ 31 - 1) (exit_code c)"
    "pred_option (\<lambda>n. - (2 ^ 31) \<le> n \<and> n \<le> 2 ^ 31 - 1) (http_status c)"
    "pred_option (\<lambda>n. - (2 ^ 31) \<le> n \<and> n \<le> 2 ^ 31 - 1) (cause_bytes c)"
    "pred_option (\<lambda>n. - (2 ^ 31) \<le> n \<and> n \<le> 2 ^ 31 - 1) (stderr_bytes c)"
  using assms by (auto simp: cause_ok_def MAX_CAUSE_COUNT_def elim: pred_option_mono_int)

text \<open>What a member costs in the encoding.\<close>

definition member_cost :: "string \<times> json \<Rightarrow> nat" where
  "member_cost m = string_len (fst m) + 1 + encoded_len (snd m)"

lemma stated_cost:
  "pred_option (\<lambda>n. - (2 ^ 31) \<le> n \<and> n \<le> 2 ^ 31 - 1) number \<Longrightarrow> name \<in> set CAUSE_MEMBERS \<Longrightarrow>
   sum_list (map member_cost (stated name number)) \<le> 26 \<and> length (stated name number) \<le> 1 \<and> texts_ok (Object (stated name number))"
proof (cases number)
  case (Some n)
  assume "pred_option (\<lambda>n. - (2 ^ 31) \<le> n \<and> n \<le> 2 ^ 31 - 1) number" "name \<in> set CAUSE_MEMBERS"
  then show ?thesis
    using names_bounded [of name] length_dec_of_int [of n] Some by (simp add: stated_def member_cost_def int_value_def)
qed (simp add: stated_def)

lemma encoded_len_members: "encoded_len (Object ms) = 2 + (length ms - 1) + sum_list (map member_cost ms)"
  by (simp add: member_cost_def [abs_def])

lemma cause_encoded:
  assumes "cause_ok c"
  shows "encoded_len (cause_value c) \<le> 400" "texts_ok (cause_value c)"
proof -
  let ?fixed = "[(''kind'', String (kind_text (kind_of (cause_condition c)))), (''condition'', String (condition_text (cause_condition c))),
      (''phase'', String (phase_text (cause_phase c)))]"
  let ?last = "case cause_cleanup c of Some k \<Rightarrow> [(''cleanup'', String (cleanup_text k))] | None \<Rightarrow> []"
  have names: "name \<in> set CAUSE_MEMBERS \<Longrightarrow> well_formed name" "name \<in> set CAUSE_MEMBERS \<Longrightarrow> string_len name \<le> 14" for name
    using names_bounded by blast+
  have members: "''kind'' \<in> set CAUSE_MEMBERS" "''condition'' \<in> set CAUSE_MEMBERS" "''phase'' \<in> set CAUSE_MEMBERS"
    "''exit_code'' \<in> set CAUSE_MEMBERS" "''http_status'' \<in> set CAUSE_MEMBERS" "''bytes'' \<in> set CAUSE_MEMBERS"
    "''stderr_bytes'' \<in> set CAUSE_MEMBERS" "''cleanup'' \<in> set CAUSE_MEMBERS"
    by (simp_all add: CAUSE_MEMBERS_def)
  have fixed: "sum_list (map member_cost ?fixed) \<le> 119" "length ?fixed = 3" "texts_ok (Object ?fixed)"
    using names(2) [OF members(1)] names(2) [OF members(2)] names(2) [OF members(3)] names(1) [OF members(1)] names(1) [OF members(2)]
      names(1) [OF members(3)] kinds_bounded [of "kind_of (cause_condition c)"] conditions_bounded [of "cause_condition c"]
      phases_bounded [of "cause_phase c"]
    by (simp_all add: member_cost_def)
  have last: "sum_list (map member_cost ?last) \<le> 42 \<and> length ?last \<le> 1 \<and> texts_ok (Object ?last)"
    using names(1) [OF members(8)] names(2) [OF members(8)] cleanups_bounded
    by (cases "cause_cleanup c") (auto simp: member_cost_def intro!: add_mono [of _ 14 _ 27, simplified])
  note costs = stated_cost [OF cause_numbers_i32(1) [OF assms] members(4)] stated_cost [OF cause_numbers_i32(2) [OF assms] members(5)]
    stated_cost [OF cause_numbers_i32(3) [OF assms] members(6)] stated_cost [OF cause_numbers_i32(4) [OF assms] members(7)]
  have parts: "cause_members c = ?fixed @ stated ''exit_code'' (exit_code c) @ stated ''http_status'' (http_status c) @
      stated ''bytes'' (cause_bytes c) @ stated ''stderr_bytes'' (stderr_bytes c) @ ?last"
    by (simp add: cause_members_def)
  have "sum_list (map member_cost (cause_members c)) \<le> 265" "length (cause_members c) \<le> 8"
    using fixed(1,2) last costs unfolding parts map_append sum_list_append length_append by linarith+
  then show "encoded_len (cause_value c) \<le> 400" unfolding cause_value_def encoded_len_members by linarith
  show "texts_ok (cause_value c)"
    using fixed(3) last costs unfolding cause_value_def parts by (simp only: texts_ok.simps set_append ball_Un) blast
qed

section \<open>The bounds of its line\<close>

lemma length_joined_le: "length (joined sep xs) \<le> length xs * length sep + sum_list (map length xs)"
  by (induction sep xs rule: joined.induct) auto

lemma stated_text_length:
  "pred_option (\<lambda>n. - (2 ^ 31) \<le> n \<and> n \<le> 2 ^ 31 - 1) number \<Longrightarrow>
   sum_list (map length (stated_text name number)) \<le> length name + 12 \<and> length (stated_text name number) \<le> 1"
  using length_dec_of_int by (cases number) (simp_all add: stated_text_def)

lemma rendered_length: "cause_ok c \<Longrightarrow> length (render_known c) \<le> 400"
proof -
  assume ok: "cause_ok c"
  let ?fixed = "[kind_text (kind_of (cause_condition c)), condition_text (cause_condition c), phase_text (cause_phase c)]"
  let ?last = "case cause_cleanup c of Some k \<Rightarrow> [cleanup_text k] | None \<Rightarrow> []"
  have fixed: "sum_list (map length ?fixed) \<le> 68" "length ?fixed = 3"
    using kinds_bounded [of "kind_of (cause_condition c)"] conditions_bounded [of "cause_condition c"] phases_bounded [of "cause_phase c"]
    by simp_all
  have last: "sum_list (map length ?last) \<le> 25" "length ?last \<le> 1"
    using cleanups_bounded by (cases "cause_cleanup c"; simp)+
  note costs = stated_text_length [OF cause_numbers_i32(1) [OF ok], of "''exit-code''"]
    stated_text_length [OF cause_numbers_i32(2) [OF ok], of "''http-status''"]
    stated_text_length [OF cause_numbers_i32(3) [OF ok], of "''bytes''"]
    stated_text_length [OF cause_numbers_i32(4) [OF ok], of "''stderr-bytes''"]
  have names: "length ''exit-code'' = 9" "length ''http-status'' = 11" "length ''bytes'' = 5" "length ''stderr-bytes'' = 12" by simp_all
  have parts: "cause_parts c = ?fixed @ stated_text ''exit-code'' (exit_code c) @ stated_text ''http-status'' (http_status c) @
      stated_text ''bytes'' (cause_bytes c) @ stated_text ''stderr-bytes'' (stderr_bytes c) @ ?last"
    by (simp add: cause_parts_def)
  have "sum_list (map length (cause_parts c)) \<le> 178" "length (cause_parts c) \<le> 8"
    using fixed last costs unfolding parts map_append sum_list_append length_append names by linarith+
  moreover have "length (utf8 [0x20, 0xC2, 0xB7, 0x20]) = 4" by (simp add: utf8_def)
  ultimately show ?thesis
    using length_joined_le [of "utf8 [0x20, 0xC2, 0xB7, 0x20]" "cause_parts c"] unfolding render_known_def by simp
qed

text \<open>
  C35 Both bounds of a cause hold of every well-formed one, so neither check ever refuses a cause Team stated: its canonical object is
  admitted as it stands within 1,024 bytes, and its line for a person is at most 512 characters.
\<close>

theorem cause_within_bounds:
  assumes "cause_ok c"
  shows "canonical_cause (cause_value c) = Some (cause_value c) \<and> length (dumps ASCII_COMPACT (cause_value c)) \<le> MAX_CAUSE_BYTES \<and>
    py_len (render_cause (Some c)) \<le> MAX_RENDERED_CHARS"
proof -
  have bytes: "length (dumps ASCII_COMPACT (cause_value c)) \<le> MAX_CAUSE_BYTES"
    using cause_encoded [OF assms] encoded_len_dumps [of "cause_value c"] by (simp add: MAX_CAUSE_BYTES_def)
  moreover have "py_len (render_known c) \<le> MAX_RENDERED_CHARS"
    using rendered_length [OF assms] length_chars_le [of "render_known c"] by (simp add: py_len_def MAX_RENDERED_CHARS_def)
  ultimately show ?thesis by (simp add: canonical_cause_def cause_from_value [OF assms] render_cause_def)
qed

theorem cause_within_bounds_witness:
  "canonical_cause (cause_value (exit_status 3)) = Some (cause_value (exit_status 3))"
proof -
  have "cause_ok (exit_status 3)" by (simp add: cause_ok_def exit_status_def new_cause_def)
  then show ?thesis using cause_within_bounds [of "exit_status 3"] by blast
qed

end
