(* ===== verification/Payload.thy ===== *)
theory Payload
  imports Causes
begin

text \<open>
  Wire values Team shares with its consumers (\<open>protocol/team/http/src/payload\<close>): the shared bounds and identities (\<open>mod.rs\<close>), a
  Team file's metadata and the storage answers (\<open>storage.rs\<close>), chat-turn presentation values (\<open>chat.rs\<close>), and Assistant pages and
  Local snapshots (\<open>details.rs\<close>).  The generated case tables behind \<open>text::lower\<close> are the record \<open>case_tables\<close>; the compiled
  patterns (\<open>full\<close>) and the Unicode tables (\<open>unicode\<close>) are parameters as before.
\<close>

section \<open>Lower case\<close>

record case_tables =
  lowering :: "string \<Rightarrow> string option"
  case_ignorable :: "string \<Rightarrow> bool"
  cased :: "string \<Rightarrow> bool"

definition CAPITAL_SIGMA :: nat where "CAPITAL_SIGMA = 0x3A3"

text \<open>The sigma's context: the characters before it, nearest first, and those after it.\<close>

definition final_sigma :: "case_tables \<Rightarrow> string list \<Rightarrow> string list \<Rightarrow> bool" where
  "final_sigma t before after =
     ((case find (\<lambda>c. \<not> case_ignorable t c) before of Some c \<Rightarrow> cased t c | None \<Rightarrow> False) \<and>
      (case find (\<lambda>c. \<not> case_ignorable t c) after of Some c \<Rightarrow> \<not> cased t c | None \<Rightarrow> True))"

fun lower_from :: "case_tables \<Rightarrow> string list \<Rightarrow> string list \<Rightarrow> string" where
  "lower_from t before [] = []"
| "lower_from t before (ch # after) =
     (if code_point ch = CAPITAL_SIGMA then (if final_sigma t before after then utf8_char 0x3C2 else utf8_char 0x3C3)
      else the_or ch (lowering t ch)) @ lower_from t (ch # before) after"

definition lower_text :: "case_tables \<Rightarrow> string \<Rightarrow> string" where
  "lower_text t s = lower_from t [] (chars s)"

section \<open>Shared values\<close>

definition FILE_ID_PATTERN :: string where "FILE_ID_PATTERN = ''^[0-9a-f]{32}$''"
definition SHA256_ID_PATTERN :: string where "SHA256_ID_PATTERN = ''^[0-9a-f]{64}$''"
definition SOURCE_DIGEST_PATTERN :: string where "SOURCE_DIGEST_PATTERN = ''^sha256:[0-9a-f]{64}$''"
definition MEDIA_TYPE_PATTERN :: string where
  "MEDIA_TYPE_PATTERN = re_text ''^[a-z0-9][a-z0-9!#$&^_.+~-]*/[a-z0-9][a-z0-9!#$&^_.+~-]*$''"
definition HELP_URL_PATTERN :: string where
  "HELP_URL_PATTERN =
     re_text ''^https://(?=[^/]{1,253}/)'' @
     re_text ''(?![^/]*~.(?:arpa|example|home|internal|invalid|lan|local|localdomain|localhost|onion|test)/)'' @
     re_text ''(?:(?!xn--)[a-z0-9](?:[a-z0-9-]{0,61}[a-z0-9])?~.)+(?!xn--)[a-z](?:[a-z0-9-]{0,61}[a-z0-9])?'' @
     re_text ''(?:/(?!~.~.?(?:/|~?|(?![~s~S])))(?:[A-Za-z0-9._'' @ ''~'' @ re_text ''!$&()*+,;=:@-]|%(?!2E)[0-9A-F]{2})*)+'' @
     re_text ''(?:~?(?:[A-Za-z0-9._'' @ ''~'' @ re_text ''!$&()*+,;=:@/?-]|%[0-9A-F]{2})+)?(?![~s~S])''"
definition MAX_HELP_URL_CHARS :: nat where "MAX_HELP_URL_CHARS = 2048"
definition MAX_STORED_INPUT_HELP_CHARS :: nat where "MAX_STORED_INPUT_HELP_CHARS = 500"
definition CREATOR_LINK_PREFIXES :: "(string \<times> string list) list" where
  "CREATOR_LINK_PREFIXES =
     [(''site'', [''https://'']), (''github'', [''https://github.com/'']), (''x'', [''https://x.com/'']),
      (''youtube'', [''https://youtube.com/'', ''https://www.youtube.com/'']),
      (''linkedin'', [''https://linkedin.com/'', ''https://www.linkedin.com/'']),
      (''instagram'', [''https://instagram.com/'', ''https://www.instagram.com/''])]"
definition MAX_CREATOR_LINK_CHARS :: nat where "MAX_CREATOR_LINK_CHARS = 256"
definition MAX_TEAM_FILES :: nat where "MAX_TEAM_FILES = 256"
definition MAX_TEAM_NAME_CHARS :: nat where "MAX_TEAM_NAME_CHARS = 80"
definition MAX_FILE_UPLOAD_BYTES :: int where "MAX_FILE_UPLOAD_BYTES = 25 * 1024 * 1024"
definition MAX_FILENAME_BYTES :: nat where "MAX_FILENAME_BYTES = 255"
definition MAX_MEDIA_TYPE_CHARS :: nat where "MAX_MEDIA_TYPE_CHARS = 127"
definition MAX_CONVERSATION_ENTRIES :: nat where "MAX_CONVERSATION_ENTRIES = 8"
definition MAX_CONVERSATION_TEXT_CHARS :: nat where "MAX_CONVERSATION_TEXT_CHARS = 512"
definition MAX_CONVERSATION_CHARS :: nat where "MAX_CONVERSATION_CHARS = 4096"
definition REQUEST_IDENTITY_FIELDS :: "string list" where "REQUEST_IDENTITY_FIELDS = [''issued_at'', ''nonce'']"
definition REQUEST_IDENTITY_SECONDS :: int where "REQUEST_IDENTITY_SECONDS = 900"
definition REQUEST_IDENTITY_SKEW_SECONDS :: int where "REQUEST_IDENTITY_SKEW_SECONDS = 60"
definition REQUEST_NONCE_PATTERN :: string where "REQUEST_NONCE_PATTERN = re_text ''[0-9a-f]{32}~Z''"
definition CHAT_LOCALES :: "string list" where "CHAT_LOCALES = [''ar'', ''de'', ''en'', ''es'', ''fr'', ''ja'', ''pt'', ''zh'']"
definition SNAPSHOT_SUMMARY_FIELDS :: "string list" where "SNAPSHOT_SUMMARY_FIELDS = [''locale'', ''summary'']"
definition MAX_SNAPSHOT_SUMMARY_CHARS :: nat where "MAX_SNAPSHOT_SUMMARY_CHARS = 80"
definition MAX_CHAT_LIMIT :: int where "MAX_CHAT_LIMIT = 2"

definition among :: "json \<Rightarrow> string list \<Rightarrow> bool" where
  "among v choices = (case py_string v of Some s \<Rightarrow> s \<in> set choices | None \<Rightarrow> False)"

definition canonical_locale :: "json \<Rightarrow> string option" where
  "canonical_locale v = (case py_string v of Some s \<Rightarrow> if s \<in> set CHAT_LOCALES then Some s else None | None \<Rightarrow> None)"

definition request_identity_fresh :: "int \<Rightarrow> int \<Rightarrow> bool" where
  "request_identity_fresh issued_at now \<longleftrightarrow>
     now - REQUEST_IDENTITY_SECONDS < issued_at \<and> issued_at \<le> now + REQUEST_IDENTITY_SKEW_SECONDS"

definition canonical_request_identity :: "matcher \<Rightarrow> json \<Rightarrow> json option" where
  "canonical_request_identity full v =
     (case py_exact_object v REQUEST_IDENTITY_FIELDS of
        None \<Rightarrow> None
      | Some ms \<Rightarrow>
          let issued_at = py_field ms ''issued_at''; nonce = py_field ms ''nonce''
          in if whole issued_at 1 (2 ^ 40 - 1) \<and> is_full_value full REQUEST_NONCE_PATTERN nonce
             then Some (Object [(''issued_at'', issued_at), (''nonce'', nonce)]) else None)"

definition full_text :: "matcher \<Rightarrow> json \<Rightarrow> string \<Rightarrow> string option" where
  "full_text full v pattern = (case py_string v of Some s \<Rightarrow> if full pattern s then Some s else None | None \<Rightarrow> None)"

definition canonical_source_digest :: "matcher \<Rightarrow> json \<Rightarrow> string option" where
  "canonical_source_digest full v = full_text full v SOURCE_DIGEST_PATTERN"

definition canonical_chat_limit :: "json \<Rightarrow> json option" where
  "canonical_chat_limit v =
     (case py_exact_object v [''limit''] of
        None \<Rightarrow> None
      | Some ms \<Rightarrow>
          if whole (py_field ms ''limit'') 1 MAX_CHAT_LIMIT then Some (Object [(''limit'', py_field ms ''limit'')]) else None)"

section \<open>Files and storage\<close>

definition canonical_file_id :: "matcher \<Rightarrow> json \<Rightarrow> string option" where
  "canonical_file_id full v = full_text full v FILE_ID_PATTERN"

definition ascii_control :: "string \<Rightarrow> bool" where
  "ascii_control ch \<longleftrightarrow> code_point ch < 0x20 \<or> code_point ch = 0x7F"

definition canonical_filename :: "json \<Rightarrow> string option" where
  "canonical_filename v =
     (case py_string v of
        None \<Rightarrow> None
      | Some name \<Rightarrow>
          if name \<noteq> [] \<and> strip name = name \<and> length name \<le> MAX_FILENAME_BYTES \<and> name \<noteq> ''.'' \<and> name \<noteq> ''..'' \<and>
            CHR ''/'' \<notin> set name \<and> escape_char \<notin> set name \<and> \<not> list_ex ascii_control (chars name)
          then Some name else None)"

definition canonical_media_type :: "case_tables \<Rightarrow> matcher \<Rightarrow> json \<Rightarrow> string option" where
  "canonical_media_type t full v =
     (if v = Null \<or> py_string v = Some [] then Some ''application/octet-stream''
      else (case py_string v of
              None \<Rightarrow> None
            | Some media \<Rightarrow>
                if py_len media \<le> MAX_MEDIA_TYPE_CHARS \<and> full MEDIA_TYPE_PATTERN (lower_text t media)
                then Some (lower_text t media) else None))"

definition integer_digits_of :: "json \<Rightarrow> nat \<Rightarrow> string option" where
  "integer_digits_of v minimum =
     (case natural_digits v of
        Some ds \<Rightarrow> if natural_cmp ds (dec_of_nat minimum) \<noteq> Less then Some ds else None
      | None \<Rightarrow> None)"

definition storage_usage :: "json \<Rightarrow> (string \<times> json) list option" where
  "storage_usage v = do {
     ms \<leftarrow> py_object v;
     used \<leftarrow> integer_digits_of (py_field ms ''used_bytes'') 0;
     limit \<leftarrow> integer_digits_of (py_field ms ''limit_bytes'') 1;
     remaining \<leftarrow> integer_digits_of (py_field ms ''remaining_bytes'') 0;
     (let order = natural_cmp used limit;
          within_quota = (order \<noteq> Greater \<and> remaining = natural_sub limit used);
          over_quota = (order \<noteq> Less \<and> remaining = ''0'')
      in if within_quota \<or> over_quota
         then Some [(''used_bytes'', py_field ms ''used_bytes''), (''limit_bytes'', py_field ms ''limit_bytes''),
                    (''remaining_bytes'', py_field ms ''remaining_bytes'')]
         else None) }"

definition project_storage_usage :: "json \<Rightarrow> json option" where
  "project_storage_usage v = map_option Object (storage_usage v)"

definition file_metadata :: "case_tables \<Rightarrow> matcher \<Rightarrow> json \<Rightarrow> bool \<Rightarrow> (string \<times> json) list option" where
  "file_metadata t full v include_usage = do {
     ms \<leftarrow> py_object v;
     ident \<leftarrow> canonical_file_id full (py_field ms ''id'');
     name \<leftarrow> canonical_filename (py_field ms ''name'');
     media \<leftarrow> canonical_media_type t full (py_field ms ''media_type'');
     size_digits \<leftarrow> integer_digits_of (py_field ms ''size'') 1;
     (if natural_cmp size_digits (dec_of_int MAX_FILE_UPLOAD_BYTES) \<noteq> Greater \<and>
        full_text full (py_field ms ''sha256'') SHA256_ID_PATTERN \<noteq> None \<and>
        integer_digits_of (py_field ms ''created_at'') 1 \<noteq> None
      then
        (let metadata = [(''id'', String ident), (''name'', String name), (''media_type'', String media), (''size'', py_field ms ''size''),
              (''sha256'', py_field ms ''sha256''), (''created_at'', py_field ms ''created_at'')]
         in if include_usage then map_option ((@) metadata) (storage_usage v) else Some metadata)
      else None) }"

definition project_file_metadata :: "case_tables \<Rightarrow> matcher \<Rightarrow> json \<Rightarrow> bool \<Rightarrow> json option" where
  "project_file_metadata t full v include_usage = map_option Object (file_metadata t full v include_usage)"

definition project_storage_response :: "case_tables \<Rightarrow> matcher \<Rightarrow> json \<Rightarrow> string \<Rightarrow> string \<Rightarrow> json option" where
  "project_storage_response t full v kind expected_team_id = do {
     ms \<leftarrow> py_object v;
     _ \<leftarrow> (if py_string (py_field ms ''team_id'') \<noteq> Some expected_team_id then None else Some ());
     (if kind = ''upload'' then
        map_option (\<lambda>file. Object ((''team_id'', String expected_team_id) #
            (''file'', Object (take (length file - 3) file)) # drop (length file - 3) file))
          (file_metadata t full (py_field ms ''file'') True)
      else if kind = ''list'' then do {
        raw_files \<leftarrow> py_array (py_field ms ''files'');
        _ \<leftarrow> (if length raw_files \<le> MAX_TEAM_FILES then Some () else None);
        usage \<leftarrow> storage_usage v;
        files \<leftarrow> opt_all (\<lambda>item. project_file_metadata t full item False) raw_files;
        (if distinct (map (\<lambda>file. field_of file ''id'') files)
         then Some (Object ((''team_id'', String expected_team_id) # (''files'', Array files) # usage)) else None) }
      else None) }"

section \<open>Chat-turn presentation values\<close>

definition MAX_TURN_DURATION_MS :: int where "MAX_TURN_DURATION_MS = 86400000"
definition MAX_TURN_USAGE_MODELS :: nat where "MAX_TURN_USAGE_MODELS = 16"
definition MAX_TURN_USAGE_TOKENS :: int where "MAX_TURN_USAGE_TOKENS = 1000000000"
definition TURN_USAGE_ID_PATTERN :: string where "TURN_USAGE_ID_PATTERN = re_text ''[a-z0-9][a-z0-9._-]{0,63}~Z''"
definition TURN_USAGE_MODEL_FIELDS :: "string list" where
  "TURN_USAGE_MODEL_FIELDS = [''input_tokens'', ''model'', ''output_tokens'', ''provider'']"

definition conversation_text :: "unicode \<Rightarrow> json \<Rightarrow> bool" where
  "conversation_text u v =
     (case py_string v of
        None \<Rightarrow> False
      | Some entry \<Rightarrow>
          1 \<le> py_len entry \<and> py_len entry \<le> MAX_CONVERSATION_TEXT_CHARS \<and> is_nfc u entry \<and> strip entry = entry \<and>
          \<not> list_ex (\<lambda>ch. starts_with ''C'' (category u ch) \<and> category u ch \<noteq> ''Cf'' \<and> ch \<notin> set LAYOUT) (chars entry))"

definition conversation_entry :: "unicode \<Rightarrow> json \<Rightarrow> json option" where
  "conversation_entry u v = do {
     ms \<leftarrow> py_exact_object v [''role'', ''text'', ''truncated''];
     (if among (py_field ms ''role'') [''user'', ''assistant''] \<and> is_bool_value (py_field ms ''truncated'') \<and>
        conversation_text u (py_field ms ''text'')
      then Some (Object [(''role'', py_field ms ''role''), (''text'', py_field ms ''text''), (''truncated'', py_field ms ''truncated'')])
      else None) }"

definition canonical_conversation :: "unicode \<Rightarrow> json \<Rightarrow> json option" where
  "canonical_conversation u v = do {
     entries \<leftarrow> py_array v;
     _ \<leftarrow> (if length entries \<le> MAX_CONVERSATION_ENTRIES then Some () else None);
     map_option Array (opt_all (conversation_entry u) entries) }"

definition canonical_help_url :: "matcher \<Rightarrow> json \<Rightarrow> string option" where
  "canonical_help_url full v =
     (case py_string v of
        Some url \<Rightarrow> if py_len url \<le> MAX_HELP_URL_CHARS \<and> full HELP_URL_PATTERN url then Some url else None
      | None \<Rightarrow> None)"

text \<open>A nullable field renders to null exactly when its reference is null.\<close>

definition rendered_text :: "unicode \<Rightarrow> json \<Rightarrow> json \<Rightarrow> nat \<Rightarrow> bool \<Rightarrow> bool" where
  "rendered_text u v reference_value maximum may_be_null =
     (if may_be_null \<and> reference_value = Null then v = Null
      else (case py_string v of
              None \<Rightarrow> False
            | Some rendered \<Rightarrow>
                strip rendered = rendered \<and> 1 \<le> py_len rendered \<and> py_len rendered \<le> maximum \<and> isprintable u rendered \<and>
                is_nfc u rendered))"

definition canonical_stored_input_help :: "unicode \<Rightarrow> json \<Rightarrow> string option" where
  "canonical_stored_input_help u v =
     (if rendered_text u v v MAX_STORED_INPUT_HELP_CHARS False then py_string v else None)"

definition creator_link :: "matcher \<Rightarrow> (string \<times> json) list \<Rightarrow> string \<times> string list \<Rightarrow> (string \<times> json) list option" where
  "creator_link full ms kp =
     (case find (\<lambda>m. fst m = fst kp) ms of
        None \<Rightarrow> Some []
      | Some (_, url) \<Rightarrow>
          (case py_string url of
             None \<Rightarrow> None
           | Some link \<Rightarrow>
               if py_len link \<le> MAX_CREATOR_LINK_CHARS \<and> canonical_help_url full url \<noteq> None \<and>
                 list_ex (\<lambda>prefix. starts_with prefix link) (snd kp)
               then Some [(fst kp, url)] else None))"

definition canonical_creator_links :: "matcher \<Rightarrow> json \<Rightarrow> json option" where
  "canonical_creator_links full v = do {
     ms \<leftarrow> py_object v;
     _ \<leftarrow> (if list_all (\<lambda>m. fst m \<in> set (map fst CREATOR_LINK_PREFIXES)) ms then Some () else None);
     map_option (Object \<circ> concat) (opt_all (creator_link full ms) CREATOR_LINK_PREFIXES) }"

definition canonical_pack_digest :: "matcher \<Rightarrow> json \<Rightarrow> string option" where
  "canonical_pack_digest full v = full_text full v SOURCE_DIGEST_PATTERN"

definition canonical_snapshot_summary :: "unicode \<Rightarrow> json \<Rightarrow> json option" where
  "canonical_snapshot_summary u v = do {
     ms \<leftarrow> py_exact_object v SNAPSHOT_SUMMARY_FIELDS;
     (if canonical_locale (py_field ms ''locale'') \<noteq> None \<and>
        rendered_text u (py_field ms ''summary'') (py_field ms ''summary'') MAX_SNAPSHOT_SUMMARY_CHARS False
      then Some v else None) }"

definition canonical_team_name :: "json \<Rightarrow> string option" where
  "canonical_team_name v =
     (case py_string v of
        None \<Rightarrow> None
      | Some name \<Rightarrow>
          if 1 \<le> py_len name \<and> py_len name \<le> MAX_TEAM_NAME_CHARS \<and> strip name = name \<and> \<not> list_ex ascii_control (chars name)
          then Some name else None)"

definition canonical_local_team_name :: "unicode \<Rightarrow> json \<Rightarrow> string option" where
  "canonical_local_team_name u v =
     (case canonical_team_name v of
        Some name \<Rightarrow> if is_nfc u name \<and> \<not> list_ex (unprinted u) (chars name) then Some name else None
      | None \<Rightarrow> None)"

definition usage_model :: "matcher \<Rightarrow> json \<Rightarrow> (string \<times> string) option" where
  "usage_model full v = do {
     ms \<leftarrow> py_exact_object v TURN_USAGE_MODEL_FIELDS;
     provider \<leftarrow> full_text full (py_field ms ''provider'') TURN_USAGE_ID_PATTERN;
     model \<leftarrow> full_text full (py_field ms ''model'') TURN_USAGE_ID_PATTERN;
     (if whole (py_field ms ''input_tokens'') 0 MAX_TURN_USAGE_TOKENS \<and> whole (py_field ms ''output_tokens'') 0 MAX_TURN_USAGE_TOKENS
      then Some (provider, model) else None) }"

text \<open>Rust orders pairs by their first component, then by their second.\<close>

definition pair_less :: "string \<times> string \<Rightarrow> string \<times> string \<Rightarrow> bool" where
  "pair_less a b \<longleftrightarrow> fst a < fst b \<or> fst a = fst b \<and> snd a < snd b"

definition canonical_turn_usage :: "matcher \<Rightarrow> json \<Rightarrow> json option" where
  "canonical_turn_usage full v = do {
     ms \<leftarrow> py_exact_object v [''duration_ms'', ''models''];
     models \<leftarrow> py_array (py_field ms ''models'');
     _ \<leftarrow> (if whole (py_field ms ''duration_ms'') 0 MAX_TURN_DURATION_MS \<and> 1 \<le> length models \<and> length models \<le> MAX_TURN_USAGE_MODELS
           then Some () else None);
     keys \<leftarrow> opt_all (usage_model full) models;
     (if successively pair_less keys
      then Some (Object [(''duration_ms'', py_field ms ''duration_ms''), (''models'', Array models)]) else None) }"

definition canonical_run_usage :: "json \<Rightarrow> json option" where
  "canonical_run_usage v = do {
     ms \<leftarrow> py_object v;
     _ \<leftarrow> (if exact_members ms [''duration_ms''] then Some () else None);
     (if whole (py_field ms ''duration_ms'') 0 MAX_TURN_DURATION_MS
      then Some (Object [(''duration_ms'', py_field ms ''duration_ms'')]) else None) }"

section \<open>Assistant pages and Local snapshots\<close>

definition LOCAL_ASSISTANT_FIELDS :: "string list" where
  "LOCAL_ASSISTANT_FIELDS =
     [''actions'', ''admission'', ''assistant_id'', ''assistant_version'', ''created_at'', ''declared_creators'', ''image_id'',
      ''integrations'', ''name'', ''platform'', ''provenance'', ''reason'', ''summary'', ''unpublished'']"
definition LOCAL_ASSISTANT_ADMISSIONS :: "string list" where
  "LOCAL_ASSISTANT_ADMISSIONS = [''admissible'', ''inadmissible'', ''unavailable'']"
definition LOCAL_ASSISTANT_REASONS :: "string list" where
  "LOCAL_ASSISTANT_REASONS = [''declaration-invalid'', ''image-inconsistent'', ''labels-invalid'']"
definition LOCAL_ASSISTANT_LABEL_FIELDS :: "string list" where
  "LOCAL_ASSISTANT_LABEL_FIELDS =
     [''assistant_version'', ''name'', ''summary'', ''declared_creators'', ''actions'', ''integrations'', ''created_at'']"
definition LOCAL_ASSISTANT_PLATFORMS :: "string list" where "LOCAL_ASSISTANT_PLATFORMS = [''linux/amd64'', ''linux/arm64'']"
definition LOCAL_ASSISTANT_CREATOR_PATTERN :: string where
  "LOCAL_ASSISTANT_CREATOR_PATTERN = re_text ''@[a-z0-9][a-z0-9-]{1,30}[a-z0-9]~Z''"
definition LOCAL_ASSISTANT_CREATED_PATTERN :: string where
  "LOCAL_ASSISTANT_CREATED_PATTERN = re_text ''[0-9TZ:+.-]{20,64}~Z''"
definition MAX_LOCAL_ASSISTANT_CREATORS :: nat where "MAX_LOCAL_ASSISTANT_CREATORS = 4"
definition MAX_LOCAL_ASSISTANT_TEXT_CHARS :: nat where "MAX_LOCAL_ASSISTANT_TEXT_CHARS = 80"
definition ASSISTANT_DETAILS_FIELDS :: "string list" where
  "ASSISTANT_DETAILS_FIELDS =
     [''actions'', ''assistant_id'', ''assistant_version'', ''creators'', ''description'', ''integrations'', ''links'', ''locale'',
      ''name'', ''stored_inputs'', ''summary'']"
definition ASSISTANT_VERSION_PATTERN :: string where
  "ASSISTANT_VERSION_PATTERN = re_text ''(?:0|[1-9][0-9]*)~.(?:0|[1-9][0-9]*)~.(?:0|[1-9][0-9]*)~Z''"
definition DETAILS_CREATOR_PATTERN :: string where
  "DETAILS_CREATOR_PATTERN = re_text ''@[A-Za-z0-9](?:[A-Za-z0-9-]{0,37}[A-Za-z0-9])?~Z''"
definition ACTION_EFFECTS :: "string list" where "ACTION_EFFECTS = [''mutating'', ''read_only'']"
definition MAX_DETAILS_NAME_CHARS :: nat where "MAX_DETAILS_NAME_CHARS = 80"
definition MAX_DETAILS_DESCRIPTION_CHARS :: nat where "MAX_DETAILS_DESCRIPTION_CHARS = 500"
definition MAX_DETAILS_LINE_CHARS :: nat where "MAX_DETAILS_LINE_CHARS = 120"
definition MAX_DETAILS_CREATORS :: nat where "MAX_DETAILS_CREATORS = 16"
definition MAX_DETAILS_ACTIONS :: nat where "MAX_DETAILS_ACTIONS = 128"
definition MAX_DETAILS_INTEGRATIONS :: nat where "MAX_DETAILS_INTEGRATIONS = 16"
definition MAX_DETAILS_STORED_INPUTS :: nat where "MAX_DETAILS_STORED_INPUTS = 8"

definition local_admission :: "json \<Rightarrow> json \<Rightarrow> bool" where
  "local_admission admission reason =
     (if py_string admission = Some ''inadmissible'' then among reason LOCAL_ASSISTANT_REASONS
      else among admission LOCAL_ASSISTANT_ADMISSIONS \<and> reason = Null)"

definition label_text :: "json \<Rightarrow> bool" where
  "label_text v =
     (case py_string v of
        None \<Rightarrow> False
      | Some label \<Rightarrow>
          1 \<le> py_len label \<and> py_len label \<le> MAX_LOCAL_ASSISTANT_TEXT_CHARS \<and> strip label = label \<and>
          \<not> list_ex ascii_control (chars label))"

definition creators_listed :: "matcher \<Rightarrow> json \<Rightarrow> nat \<Rightarrow> string \<Rightarrow> bool" where
  "creators_listed full v maximum pattern =
     (case py_array v of
        None \<Rightarrow> False
      | Some creators \<Rightarrow>
          1 \<le> length creators \<and> length creators \<le> maximum \<and> list_all (is_full_value full pattern) creators \<and>
          distinct_values [] creators)"

definition sorted_identifiers :: "matcher \<Rightarrow> json \<Rightarrow> nat \<Rightarrow> nat \<Rightarrow> bool" where
  "sorted_identifiers full v minimum maximum =
     (case py_array v of
        None \<Rightarrow> False
      | Some items \<Rightarrow>
          minimum \<le> length items \<and> length items \<le> maximum \<and>
          (case opt_all (canonical_identifier full) items of Some ids \<Rightarrow> strictly_sorted ids | None \<Rightarrow> False))"

definition canonical_created_at :: "matcher \<Rightarrow> json \<Rightarrow> string option" where
  "canonical_created_at full v =
     (case py_string v of
        None \<Rightarrow> None
      | Some created \<Rightarrow>
          if full LOCAL_ASSISTANT_CREATED_PATTERN created \<and>
            (case fromisoformat created of Inr parsed \<Rightarrow> dt_offset parsed \<noteq> None | Inl _ \<Rightarrow> False)
          then Some created else None)"

definition local_labels :: "matcher \<Rightarrow> (string \<times> json) list \<Rightarrow> bool" where
  "local_labels full ms \<longleftrightarrow>
     is_full_value full ASSISTANT_VERSION_PATTERN (py_field ms ''assistant_version'') \<and> label_text (py_field ms ''name'') \<and>
     label_text (py_field ms ''summary'') \<and>
     creators_listed full (py_field ms ''declared_creators'') MAX_LOCAL_ASSISTANT_CREATORS LOCAL_ASSISTANT_CREATOR_PATTERN \<and>
     sorted_identifiers full (py_field ms ''actions'') 1 MAX_DETAILS_ACTIONS \<and>
     sorted_identifiers full (py_field ms ''integrations'') 0 MAX_DETAILS_INTEGRATIONS \<and>
     canonical_created_at full (py_field ms ''created_at'') \<noteq> None"

definition canonical_local_assistant :: "matcher \<Rightarrow> json \<Rightarrow> json option" where
  "canonical_local_assistant full v = do {
     ms \<leftarrow> py_exact_object v LOCAL_ASSISTANT_FIELDS;
     _ \<leftarrow> (if canonical_assistant_id full (py_field ms ''assistant_id'') \<noteq> None \<and>
            canonical_source_digest full (py_field ms ''image_id'') \<noteq> None \<and>
            among (py_field ms ''platform'') LOCAL_ASSISTANT_PLATFORMS \<and>
            py_string (py_field ms ''provenance'') = Some ''local'' \<and> py_field ms ''unpublished'' = Bool True \<and>
            local_admission (py_field ms ''admission'') (py_field ms ''reason'')
          then Some () else None);
     (if py_string (py_field ms ''reason'') = Some ''labels-invalid''
      then (if list_all (\<lambda>name. py_field ms name = Null) LOCAL_ASSISTANT_LABEL_FIELDS then Some v else None)
      else if local_labels full ms then Some v else None) }"

text \<open>A bounded list of objects with exactly the named members, sorted by unique identifier.\<close>

definition details_items :: "matcher \<Rightarrow> json \<Rightarrow> nat \<Rightarrow> nat \<Rightarrow> string list \<Rightarrow> (string \<times> json) list list option" where
  "details_items full v minimum maximum names = do {
     items \<leftarrow> py_array v;
     _ \<leftarrow> (if minimum \<le> length items \<and> length items \<le> maximum then Some () else None);
     objects \<leftarrow> opt_all (\<lambda>item. case py_object item of Some ms \<Rightarrow> if exact_members ms names then Some ms else None | None \<Rightarrow> None) items;
     ids \<leftarrow> opt_all (\<lambda>ms. canonical_identifier full (py_field ms ''id'')) objects;
     (if strictly_sorted ids then Some objects else None) }"

definition details_line :: "unicode \<Rightarrow> json \<Rightarrow> bool" where
  "details_line u v \<longleftrightarrow> rendered_text u v v MAX_DETAILS_LINE_CHARS False"

definition items_all :: "(string \<times> json) list list option \<Rightarrow> ((string \<times> json) list \<Rightarrow> bool) \<Rightarrow> bool" where
  "items_all items p = (case items of Some objects \<Rightarrow> list_all p objects | None \<Rightarrow> False)"

definition details_capabilities :: "unicode \<Rightarrow> matcher \<Rightarrow> (string \<times> json) list \<Rightarrow> bool" where
  "details_capabilities u full ms \<longleftrightarrow>
     items_all (details_items full (py_field ms ''actions'') 1 MAX_DETAILS_ACTIONS [''description'', ''effect'', ''id''])
       (\<lambda>item. among (py_field item ''effect'') ACTION_EFFECTS \<and> details_line u (py_field item ''description'')) \<and>
     items_all (details_items full (py_field ms ''integrations'') 0 MAX_DETAILS_INTEGRATIONS [''id'', ''provider''])
       (\<lambda>item. canonical_identifier full (py_field item ''provider'') \<noteq> None) \<and>
     items_all (details_items full (py_field ms ''stored_inputs'') 0 MAX_DETAILS_STORED_INPUTS
         [''description'', ''help_url'', ''id'', ''label''])
       (\<lambda>item. details_line u (py_field item ''label'') \<and> canonical_stored_input_help u (py_field item ''description'') \<noteq> None \<and>
          canonical_help_url full (py_field item ''help_url'') \<noteq> None)"

definition canonical_assistant_details :: "unicode \<Rightarrow> matcher \<Rightarrow> json \<Rightarrow> json option" where
  "canonical_assistant_details u full v = do {
     ms \<leftarrow> py_exact_object v ASSISTANT_DETAILS_FIELDS;
     (if canonical_locale (py_field ms ''locale'') \<noteq> None \<and> canonical_assistant_id full (py_field ms ''assistant_id'') \<noteq> None \<and>
        is_full_value full ASSISTANT_VERSION_PATTERN (py_field ms ''assistant_version'') \<and>
        creators_listed full (py_field ms ''creators'') MAX_DETAILS_CREATORS DETAILS_CREATOR_PATTERN \<and>
        canonical_creator_links full (py_field ms ''links'') \<noteq> None \<and>
        list_all (\<lambda>(name, maximum). rendered_text u (py_field ms name) (py_field ms name) maximum False)
          [(''name'', MAX_DETAILS_NAME_CHARS), (''summary'', MAX_SNAPSHOT_SUMMARY_CHARS), (''description'', MAX_DETAILS_DESCRIPTION_CHARS)] \<and>
        details_capabilities u full ms
      then Some v else None) }"

section \<open>Storage arithmetic\<close>

text \<open>The integer a decoded value is, whatever its size.\<close>

definition integer_of :: "json \<Rightarrow> int option" where
  "integer_of v = (case v of Number (Integer i) \<Rightarrow> Some i | Number (BigInt ds) \<Rightarrow> int_of_dec ds | _ \<Rightarrow> None)"

lemma minus_or_digits: "starts_with ''-'' (dec_of_int i) \<longleftrightarrow> i < 0"
proof -
  obtain c cs where s: "dec_of_nat (nat i) = c # cs" by (cases "dec_of_nat (nat i)") auto
  have "ascii_digit c" using dec_of_nat_digits [of "nat i"] s by simp
  then have "c \<noteq> CHR ''-''" by (auto simp: ascii_digit_def less_eq_char_def)
  then show ?thesis by (simp add: dec_of_int_def s starts_with_def)
qed

lemma natural_digits_integer:
  assumes "value_ok v"
  shows "natural_digits v = Some ds \<longleftrightarrow> (\<exists>n. integer_of v = Some (int n) \<and> ds = dec_of_nat n)"
proof (cases "\<exists>s. v = Number (BigInt s)")
  case True
  then obtain s i where "v = Number (BigInt s)" "s = dec_of_int i" using big_int assms by fastforce
  then show ?thesis
    using minus_or_digits [of i] by (auto simp: natural_digits_def integer_of_def dec_of_int_def split: if_splits intro: exI [of _ "nat i"])
next
  case False
  then show ?thesis
    by (auto simp: natural_digits_def integer_of_def dec_of_int_def split: json.splits number.splits intro: exI [of _ "nat _"])
qed

lemma integer_digits_of_exact:
  assumes "value_ok v"
  shows "integer_digits_of v low = Some ds \<longleftrightarrow> (\<exists>n. integer_of v = Some (int n) \<and> ds = dec_of_nat n \<and> low \<le> n)"
proof -
  have "integer_digits_of v low = Some ds \<longleftrightarrow> natural_digits v = Some ds \<and> natural_cmp ds (dec_of_nat low) \<noteq> Less"
    by (auto simp: integer_digits_of_def split: option.splits)
  also have "\<dots> \<longleftrightarrow> (\<exists>n. integer_of v = Some (int n) \<and> ds = dec_of_nat n \<and> low \<le> n)"
    by (auto simp: natural_digits_integer [OF assms] natural_cmp_dec cmp_def split: if_splits)
  finally show ?thesis .
qed

lemma dec_of_nat_inj: "dec_of_nat m = dec_of_nat n \<longleftrightarrow> m = n"
  by (metis nat_of_dec_of_nat)

lemma zero_digits: "dec_of_nat 0 = ''0''"
  by code_simp

lemma quota_arithmetic:
  "(natural_cmp (dec_of_nat u) (dec_of_nat l) \<noteq> Greater \<and> dec_of_nat r = natural_sub (dec_of_nat l) (dec_of_nat u)) \<or>
   (natural_cmp (dec_of_nat u) (dec_of_nat l) \<noteq> Less \<and> dec_of_nat r = ''0'') \<longleftrightarrow> r = l - u"
proof -
  have zero: "dec_of_nat r = ''0'' \<longleftrightarrow> r = 0"
    using dec_of_nat_inj [of r 0] zero_digits by simp
  show ?thesis
  proof (cases "u \<le> l")
    case True
    then show ?thesis
      by (auto simp: natural_cmp_dec natural_sub_dec dec_of_nat_inj zero cmp_def split: if_splits)
  next
    case False
    then show ?thesis by (auto simp: natural_cmp_dec zero cmp_def)
  qed
qed

lemma py_field_absent: "name \<notin> fst ` set ms \<Longrightarrow> py_field ms name = Null"
  by (auto simp: py_field_def find_Some_iff split: option.splits)

lemma value_ok_py_field: "value_ok (Object ms) \<Longrightarrow> value_ok (py_field ms name)"
  using py_field_in [of name ms] py_field_absent [of name ms] by (cases "name \<in> fst ` set ms") force+

text \<open>
  C36 Storage usage is read exactly when the three members are integers of any size with a limit of at least one, and what remains
  is the limit less what is used, or nothing once a reduced quota leaves more used than the limit; the answer is those members alone.
\<close>

theorem storage_usage_exact:
  assumes "value_ok (Object ms)"
  shows "storage_usage (Object ms) = Some out \<longleftrightarrow>
    (\<exists>used limit. integer_of (py_field ms ''used_bytes'') = Some (int used) \<and> integer_of (py_field ms ''limit_bytes'') = Some (int limit) \<and>
       1 \<le> limit \<and> integer_of (py_field ms ''remaining_bytes'') = Some (int (limit - used)) \<and>
       out = map (\<lambda>name. (name, py_field ms name)) [''used_bytes'', ''limit_bytes'', ''remaining_bytes''])"
    (is "?read \<longleftrightarrow> ?exact")
proof -
  let ?u = "py_field ms ''used_bytes''" and ?l = "py_field ms ''limit_bytes''" and ?r = "py_field ms ''remaining_bytes''"
  have ok: "value_ok ?u" "value_ok ?l" "value_ok ?r" using value_ok_py_field [OF assms] by blast+
  have "?read \<longleftrightarrow> (\<exists>du dl dr. integer_digits_of ?u 0 = Some du \<and> integer_digits_of ?l 1 = Some dl \<and> integer_digits_of ?r 0 = Some dr \<and>
      ((natural_cmp du dl \<noteq> Greater \<and> dr = natural_sub dl du) \<or> (natural_cmp du dl \<noteq> Less \<and> dr = ''0'')) \<and>
      out = [(''used_bytes'', ?u), (''limit_bytes'', ?l), (''remaining_bytes'', ?r)])"
    by (auto simp: storage_usage_def py_object_def Let_def bind_eq_Some_conv)
  also have "\<dots> \<longleftrightarrow> (\<exists>u l r. integer_of ?u = Some (int u) \<and> integer_of ?l = Some (int l) \<and> 1 \<le> l \<and> integer_of ?r = Some (int r) \<and>
      ((natural_cmp (dec_of_nat u) (dec_of_nat l) \<noteq> Greater \<and> dec_of_nat r = natural_sub (dec_of_nat l) (dec_of_nat u)) \<or>
       (natural_cmp (dec_of_nat u) (dec_of_nat l) \<noteq> Less \<and> dec_of_nat r = ''0'')) \<and>
      out = [(''used_bytes'', ?u), (''limit_bytes'', ?l), (''remaining_bytes'', ?r)])"
    unfolding integer_digits_of_exact [OF ok(1)] integer_digits_of_exact [OF ok(2)] integer_digits_of_exact [OF ok(3)] by blast
  also have "\<dots> \<longleftrightarrow> ?exact" unfolding quota_arithmetic by auto
  finally show ?thesis .
qed

definition sample_usage :: "(string \<times> json) list" where
  "sample_usage = [(''used_bytes'', int_value 7), (''limit_bytes'', int_value 5), (''remaining_bytes'', int_value 0)]"

theorem storage_usage_exact_witness: "storage_usage (Object sample_usage) = Some sample_usage"
proof -
  have "value_ok (Object sample_usage)" by (simp add: sample_usage_def int_value_def in_i64_def)
  then show ?thesis
    using storage_usage_exact [of sample_usage sample_usage]
    by (auto simp: sample_usage_def py_field_def integer_of_def int_value_def intro!: exI [of _ 7] exI [of _ 5])
qed

section \<open>Canonical presentation values\<close>

lemma opt_all_cong_on: "(\<And>x. x \<in> set xs \<Longrightarrow> f x = g x) \<Longrightarrow> opt_all f xs = opt_all g xs"
  by (simp add: opt_all_def cong: map_cong)

lemma opt_all_again:
  assumes "opt_all f xs = Some ys" "\<And>x y. f x = Some y \<Longrightarrow> f y = Some y"
  shows "opt_all f ys = Some ys"
  using assms(1) by (induction xs arbitrary: ys) (auto simp: opt_all_Cons assms(2) split: option.splits)

lemma py_field_cons: "py_field ((name', v) # ms) name = (if name' = name then v else py_field ms name)"
  by (simp add: py_field_def)

lemmas written_back = py_exact_object_def py_object_def py_array_def exact_members_def py_field_cons

lemma conversation_entry_again:
  assumes "conversation_entry u v = Some w" shows "conversation_entry u w = Some w"
proof -
  obtain ms where "among (py_field ms ''role'') [''user'', ''assistant'']" "is_bool_value (py_field ms ''truncated'')"
    "conversation_text u (py_field ms ''text'')"
    "w = Object [(''role'', py_field ms ''role''), (''text'', py_field ms ''text''), (''truncated'', py_field ms ''truncated'')]"
    using assms by (auto simp: conversation_entry_def bind_eq_Some_conv split: if_splits)
  then show ?thesis by (simp add: conversation_entry_def written_back)
qed

lemma canonical_conversation_again:
  assumes "canonical_conversation u v = Some w" shows "canonical_conversation u w = Some w"
proof -
  obtain vs ws where "length vs \<le> MAX_CONVERSATION_ENTRIES" "opt_all (conversation_entry u) vs = Some ws" "w = Array ws"
    using assms by (auto simp: canonical_conversation_def bind_eq_Some_conv split: if_splits)
  then show ?thesis
    using opt_all_again [of "conversation_entry u" vs ws] conversation_entry_again opt_all_length [of "conversation_entry u" vs ws]
    by (simp add: canonical_conversation_def written_back)
qed

lemma canonical_turn_usage_again:
  assumes "canonical_turn_usage full v = Some w" shows "canonical_turn_usage full w = Some w"
proof -
  obtain ms models where "whole (py_field ms ''duration_ms'') 0 MAX_TURN_DURATION_MS" "1 \<le> length models" "length models \<le> MAX_TURN_USAGE_MODELS"
    "Option.bind (opt_all (usage_model full) models) (\<lambda>names. if successively pair_less names then Some () else None) = Some ()"
    "w = Object [(''duration_ms'', py_field ms ''duration_ms''), (''models'', Array models)]"
    using assms unfolding canonical_turn_usage_def bind_eq_Some_conv by - (elim exE conjE, rule that, (assumption | (simp split: if_splits; fail))+)
  then show ?thesis by (auto simp: canonical_turn_usage_def written_back bind_eq_Some_conv split: if_splits)
qed

lemma canonical_run_usage_again:
  assumes "canonical_run_usage v = Some w" shows "canonical_run_usage w = Some w"
proof -
  obtain ms where "whole (py_field ms ''duration_ms'') 0 MAX_TURN_DURATION_MS" "w = Object [(''duration_ms'', py_field ms ''duration_ms'')]"
    using assms by (auto simp: canonical_run_usage_def bind_eq_Some_conv split: if_splits)
  then show ?thesis by (simp add: canonical_run_usage_def written_back)
qed

text \<open>A link's place among the links that are kept is where its kind first stands.\<close>

lemma creator_link_kept:
  "creator_link full ms kp = Some out \<Longrightarrow> out = (case find (\<lambda>m. fst m = fst kp) ms of None \<Rightarrow> [] | Some m \<Rightarrow> [(fst kp, snd m)])"
  by (auto simp: creator_link_def split: option.splits if_splits prod.splits)

lemma link_absent: "fst kp \<notin> fst ` set ms \<Longrightarrow> find (\<lambda>m. fst m = fst kp) ms = None"
  by (force simp: find_None_iff)

lemma links_cons:
  "opt_all (creator_link full ms) (p # ps) = Some outs \<longleftrightarrow>
     (\<exists>out rest. creator_link full ms p = Some out \<and> opt_all (creator_link full ms) ps = Some rest \<and> outs = out # rest)"
  by (auto simp: opt_all_Cons split: option.splits)

lemma link_names: "opt_all (creator_link full ms) ps = Some outs \<Longrightarrow> fst ` set (concat outs) \<subseteq> fst ` set ps"
proof (induction ps arbitrary: outs)
  case (Cons p ps)
  obtain out rest where out: "creator_link full ms p = Some out" "opt_all (creator_link full ms) ps = Some rest" "outs = out # rest"
    using Cons.prems links_cons [of full ms p ps outs] by blast
  then have "fst ` set out \<subseteq> {fst p}" using creator_link_kept [OF out(1)] by (auto split: option.splits)
  moreover have "fst ` set (concat outs) = fst ` set out \<union> fst ` set (concat rest)"
    by (simp only: out(3) concat.simps set_append image_Un)
  moreover note Cons.IH [OF out(2)]
  ultimately show ?case unfolding list.set image_insert by blast
qed simp

lemma links_found:
  assumes "opt_all (creator_link full ms) ps = Some outs" "distinct (map fst ps)" "kp \<in> set ps"
  shows "map_option snd (find (\<lambda>m. fst m = fst kp) (concat outs)) = map_option snd (find (\<lambda>m. fst m = fst kp) ms)"
  using assms
proof (induction ps arbitrary: outs)
  case (Cons p ps)
  obtain out rest where out: "creator_link full ms p = Some out" "opt_all (creator_link full ms) ps = Some rest" "outs = out # rest"
    using Cons.prems(1) links_cons [of full ms p ps outs] by blast
  note kept = creator_link_kept [OF out(1)]
  show ?case
  proof (cases "kp = p")
    case True
    have "fst kp \<notin> fst ` set (concat rest)" using Cons.prems(2) link_names [OF out(2)] True by auto
    then have "find (\<lambda>m. fst m = fst kp) (concat rest) = None" by (rule link_absent)
    then show ?thesis using True out(3) by (cases "find (\<lambda>m. fst m = fst p) ms") (use kept in auto)
  next
    case False
    then have "kp \<in> set ps" using Cons.prems(3) by simp
    moreover from this have "fst p \<noteq> fst kp" using Cons.prems(2) by (metis distinct.simps(2) image_eqI list.simps(9) list.set_map)
    ultimately show ?thesis
      using Cons.IH [OF out(2)] Cons.prems(2) out(3) by (cases "find (\<lambda>m. fst m = fst p) ms") (use kept in auto)
  qed
qed simp

lemma canonical_creator_links_again:
  assumes "canonical_creator_links full v = Some w" shows "canonical_creator_links full w = Some w"
proof -
  obtain ms outs where outs: "opt_all (creator_link full ms) CREATOR_LINK_PREFIXES = Some outs" "w = Object (concat outs)"
    using assms by (auto simp: canonical_creator_links_def bind_eq_Some_conv split: if_splits)
  have names: "distinct (map fst CREATOR_LINK_PREFIXES)" by (simp add: CREATOR_LINK_PREFIXES_def)
  have same: "creator_link full (concat outs) kp = creator_link full ms kp" if "kp \<in> set CREATOR_LINK_PREFIXES" for kp
    using links_found [OF outs(1) names that]
    by (cases "find (\<lambda>m. fst m = fst kp) (concat outs)"; cases "find (\<lambda>m. fst m = fst kp) ms") (auto simp: creator_link_def)
  have "list_all (\<lambda>m. fst m \<in> set (map fst CREATOR_LINK_PREFIXES)) (concat outs)"
    using link_names [OF outs(1)] unfolding list_all_iff set_map by blast
  moreover have "opt_all (creator_link full (concat outs)) CREATOR_LINK_PREFIXES = Some outs"
    using outs(1) opt_all_cong_on [of CREATOR_LINK_PREFIXES "creator_link full (concat outs)" "creator_link full ms"] same by simp
  ultimately show ?thesis by (simp add: canonical_creator_links_def outs(2) py_object_def)
qed

text \<open>
  Canonical presentation values are settled: reading a canonical conversation, turn usage, run usage or set of Creator links
  again gives it back unchanged, so a value may pass any number of these checks on its way.
\<close>

theorem presentation_settled:
  "(canonical_conversation u v = Some w \<longrightarrow> canonical_conversation u w = Some w) \<and>
   (canonical_turn_usage full v = Some w \<longrightarrow> canonical_turn_usage full w = Some w) \<and>
   (canonical_run_usage v = Some w \<longrightarrow> canonical_run_usage w = Some w) \<and>
   (canonical_creator_links full v = Some w \<longrightarrow> canonical_creator_links full w = Some w)"
  using canonical_conversation_again canonical_turn_usage_again canonical_run_usage_again canonical_creator_links_again by blast

theorem presentation_settled_witness:
  "canonical_creator_links (\<lambda>_ _. True) (Object [(''x'', String ''https://x.com/a''), (''github'', String ''https://github.com/a/b'')]) =
     Some (Object [(''github'', String ''https://github.com/a/b''), (''x'', String ''https://x.com/a'')]) \<and>
   canonical_creator_links (\<lambda>_ _. True) (Object [(''github'', String ''https://github.com/a/b''), (''x'', String ''https://x.com/a'')]) =
     Some (Object [(''github'', String ''https://github.com/a/b''), (''x'', String ''https://x.com/a'')])"
proof -
  have "canonical_creator_links (\<lambda>_ _. True) (Object [(''x'', String ''https://x.com/a''), (''github'', String ''https://github.com/a/b'')]) =
     Some (Object [(''github'', String ''https://github.com/a/b''), (''x'', String ''https://x.com/a'')])"
    by code_simp
  then show ?thesis using presentation_settled by blast
qed

end
