(* ===== verification/Requests.thy ===== *)
theory Requests
  imports Payload Turn
begin

text \<open>
  The closed request objects every endpoint reads (\<open>runtime/src/server/input.rs\<close>), and the one structured provider call behind the
  stateless decisions: what is asked and how its answer is read (\<open>provider/structured.rs\<close>), the schema a decision's answer is held
  to (\<open>decisions/answer.rs\<close>) and the call of \<open>decisions/mod.rs\<close>.  The providers are a parameter: the function a call's request is
  answered by.  The strict reader is the parameter \<open>parse\<close> as before, and the model catalog the parameter \<open>chat_model\<close>.
\<close>

section \<open>Reading a request\<close>

datatype route_error = Invalid_Shape | Brain brain_error

definition closed_object :: "json \<Rightarrow> string list \<Rightarrow> string list \<Rightarrow> route_error + (string \<times> json) list" where
  "closed_object v admitted_names needed =
     (case py_object v of
        None \<Rightarrow> Inl Invalid_Shape
      | Some ms \<Rightarrow>
          if list_all (\<lambda>m. fst m \<in> set admitted_names) ms \<and> list_all (\<lambda>name. list_ex (\<lambda>m. fst m = name) ms) needed
          then Inr ms else Inl Invalid_Shape)"

definition string_in :: "json \<Rightarrow> string \<Rightarrow> nat \<Rightarrow> nat \<Rightarrow> route_error + string" where
  "string_in v name low high =
     (case str_of v name of
        Some s \<Rightarrow> if low \<le> py_len s \<and> py_len s \<le> high then Inr s else Inl Invalid_Shape
      | None \<Rightarrow> Inl Invalid_Shape)"

definition optional_in :: "json \<Rightarrow> string \<Rightarrow> (route_error + 'a) \<Rightarrow> route_error + 'a option" where
  "optional_in v name read = (if get v name = Some Null then Inr None else map_sum id Some read)"

definition boolean_in :: "json \<Rightarrow> string \<Rightarrow> route_error + bool" where
  "boolean_in v name = (case bool_of v name of Some b \<Rightarrow> Inr b | None \<Rightarrow> Inl Invalid_Shape)"

definition list_in :: "json \<Rightarrow> string \<Rightarrow> nat \<Rightarrow> nat \<Rightarrow> route_error + json list" where
  "list_in v name low high =
     (case array_of v name of
        Some items \<Rightarrow> if low \<le> length items \<and> length items \<le> high then Inr items else Inl Invalid_Shape
      | None \<Rightarrow> Inl Invalid_Shape)"

definition object_in :: "json \<Rightarrow> string \<Rightarrow> route_error + json" where
  "object_in v name = (case get v name of Some w \<Rightarrow> if is_object w then Inr w else Inl Invalid_Shape | None \<Rightarrow> Inl Invalid_Shape)"

definition integer_in :: "json \<Rightarrow> string \<Rightarrow> route_error + int" where
  "integer_in v name = (case Option.bind (get v name) small_int of Some i \<Rightarrow> Inr i | None \<Rightarrow> Inl Invalid_Shape)"

text \<open>Results in sequence: the first refusal ends the reading.\<close>

definition andThen :: "'e + 'a \<Rightarrow> ('a \<Rightarrow> 'e + 'b) \<Rightarrow> 'e + 'b" where
  "andThen r f = (case r of Inl e \<Rightarrow> Inl e | Inr x \<Rightarrow> f x)"

fun read_all :: "('a \<Rightarrow> 'e + 'b) \<Rightarrow> 'a list \<Rightarrow> 'e + 'b list" where
  "read_all f [] = Inr []"
| "read_all f (x # xs) = andThen (f x) (\<lambda>y. map_sum id ((#) y) (read_all f xs))"

definition ensure :: "bool \<Rightarrow> 'e \<Rightarrow> 'e + unit" where
  "ensure ok e = (if ok then Inr () else Inl e)"

definition MIN_API_KEY_CHARS :: nat where "MIN_API_KEY_CHARS = 16"
definition MAX_API_KEY_CHARS :: nat where "MAX_API_KEY_CHARS = 8192"

record provider_config =
  config_provider :: provider_id
  config_model :: string
  config_key :: string

definition refused :: "string \<Rightarrow> route_error" where
  "refused detail = Brain (Contract detail)"

definition broken :: route_error where
  "broken = Brain Provider_Failure"

definition provider_any :: "json \<Rightarrow> route_error + provider_config" where
  "provider_any v =
     andThen (object_in v ''provider'') (\<lambda>w.
     andThen (closed_object w [''provider'', ''model'', ''api_key''] [''provider'', ''model'', ''api_key'']) (\<lambda>_.
     (case Option.bind (str_of w ''provider'') provider_parse of
        None \<Rightarrow> Inl Invalid_Shape
      | Some ident \<Rightarrow>
          andThen (string_in w ''model'' 1 128) (\<lambda>model.
          andThen (string_in w ''api_key'' MIN_API_KEY_CHARS MAX_API_KEY_CHARS) (\<lambda>secret.
          if CHR 0x00 \<in> set secret then Inl (refused ''invalid model provider credential'')
          else Inr \<lparr>config_provider = ident, config_model = model, config_key = secret\<rparr>)))))"

definition provider_in :: "(string \<Rightarrow> string \<Rightarrow> bool) \<Rightarrow> json \<Rightarrow> route_error + provider_config" where
  "provider_in chat_model v =
     andThen (provider_any v) (\<lambda>config.
       if \<not> chat_model (provider_text (config_provider config)) (config_model config)
       then Inl (refused ''unsupported model for provider'') else Inr config)"

section \<open>The schema of an answer\<close>

text \<open>A decision's schema: closed objects, enumerated and bounded strings, booleans, bounded arrays and unions.\<close>

definition schema_properties :: "json \<Rightarrow> (string \<times> json) list" where
  "schema_properties s = (case get s ''properties'' of Some (Object ms) \<Rightarrow> ms | _ \<Rightarrow> [])"

definition complete_object :: "json \<Rightarrow> (string \<times> json) list \<Rightarrow> bool" where
  "complete_object s ms \<longleftrightarrow>
     list_all (\<lambda>name. case name of String n \<Rightarrow> list_ex (\<lambda>m. fst m = n) ms | _ \<Rightarrow> False) (the_or [] (array_of s ''required''))"

definition within_bound :: "json \<Rightarrow> string \<Rightarrow> nat \<Rightarrow> bool" where
  "within_bound s name n = (case u64_of s name of Some bound \<Rightarrow> n \<le> bound | None \<Rightarrow> True)"

definition conforming_string :: "json \<Rightarrow> string \<Rightarrow> bool" where
  "conforming_string s words \<longleftrightarrow>
     (case array_of s ''enum'' of Some choices \<Rightarrow> String words \<in> set choices | None \<Rightarrow> True) \<and>
     within_bound s ''maxLength'' (py_len words)"

lemma member_below: "get s name = Some v \<Longrightarrow> node_count v < node_count s"
  by (cases s) (auto dest!: map_of_SomeD node_count_member)

lemma variant_below: "array_of s name = Some vs \<Longrightarrow> v \<in> set vs \<Longrightarrow> node_count v < node_count s"
  by (auto simp: array_of_def split: option.splits json.splits dest!: member_below node_count_elem)

lemma property_below: "find (\<lambda>p. fst p = n) (schema_properties s) = Some p \<Longrightarrow> node_count (snd p) < node_count s"
proof -
  assume found: "find (\<lambda>p. fst p = n) (schema_properties s) = Some p"
  then have "p \<in> set (schema_properties s)" by (metis (mono_tags, lifting) find_Some_iff nth_mem)
  then obtain ms where "get s ''properties'' = Some (Object ms)" "(fst p, snd p) \<in> set ms"
    by (cases "get s ''properties''") (auto simp: schema_properties_def split: json.splits)
  then show ?thesis using member_below node_count_member by (meson less_trans)
qed

function conforms :: "json \<Rightarrow> json \<Rightarrow> bool" where
  "conforms s v =
     (case array_of s ''anyOf'' of
        Some variants \<Rightarrow> list_ex (\<lambda>variant. conforms variant v) variants
      | None \<Rightarrow>
          (case v of
             Object ms \<Rightarrow>
               str_of s ''type'' = Some ''object'' \<and> complete_object s ms \<and>
               list_all (\<lambda>m. case find (\<lambda>p. fst p = fst m) (schema_properties s) of
                   Some p \<Rightarrow> conforms (snd p) (snd m)
                 | None \<Rightarrow> get s ''additionalProperties'' \<noteq> Some (Bool False)) ms
           | String words \<Rightarrow> str_of s ''type'' = Some ''string'' \<and> conforming_string s words
           | Array items \<Rightarrow>
               str_of s ''type'' = Some ''array'' \<and> within_bound s ''maxItems'' (length items) \<and>
               (case get s ''items'' of Some item \<Rightarrow> list_all (conforms item) items | None \<Rightarrow> True)
           | Bool _ \<Rightarrow> str_of s ''type'' = Some ''boolean''
           | Null \<Rightarrow> str_of s ''type'' = Some ''null''
           | _ \<Rightarrow> False))"
  by pat_completeness auto

termination
  by (relation "measure (node_count \<circ> fst)") (auto dest: variant_below property_below member_below)

declare conforms.simps [simp del]

section \<open>One provider call\<close>

datatype block = Text_Block string | Image_Block string string

record chat_request =
  req_system :: "string option"
  req_messages :: "message list"
  req_tools :: "tool_spec list"
  req_output :: "(string \<times> json) option"
  req_cache :: bool

record projection =
  projected_id :: string
  projected_blocks :: "block list"

text \<open>How a call is bounded: its effort, the milliseconds and number of its attempts, and its output cap.\<close>

record profile =
  effort :: "string option"
  attempt_ms :: nat
  attempts :: nat
  max_output_tokens :: "nat option"

definition CHAT_PROFILE :: profile where
  "CHAT_PROFILE = \<lparr>effort = Some ''low'', attempt_ms = 60000, attempts = 3, max_output_tokens = None\<rparr>"
definition DECISION_PROFILE :: profile where
  "DECISION_PROFILE = \<lparr>effort = Some ''low'', attempt_ms = 10000, attempts = 2, max_output_tokens = None\<rparr>"
definition DEFAULT_PROFILE :: profile where
  "DEFAULT_PROFILE = \<lparr>effort = None, attempt_ms = 60000, attempts = 3, max_output_tokens = None\<rparr>"

datatype call_error = Request_Failed | Response_Broken | Call_Cancelled | Call_Contract string

fun into_brain :: "call_error \<Rightarrow> string \<Rightarrow> brain_error" where
  "into_brain Request_Failed cancelled = Provider_Failure"
| "into_brain Response_Broken cancelled = Provider_Failure"
| "into_brain Call_Cancelled cancelled = Cancelled cancelled"
| "into_brain (Call_Contract detail) cancelled = Contract detail"

type_synonym chat_call = "provider_config \<Rightarrow> profile \<Rightarrow> chat_request \<Rightarrow> projection option \<Rightarrow> call_error + assistant_message"

definition object_text :: "(string \<Rightarrow> json option) \<Rightarrow> string \<Rightarrow> json option" where
  "object_text parse s = (case parse s of Some v \<Rightarrow> if is_object v then Some v else None | None \<Rightarrow> None)"

definition text_value :: "(string \<Rightarrow> json option) \<Rightarrow> string \<Rightarrow> nat \<Rightarrow> json option" where
  "text_value parse s max_chars = (if py_len s > max_chars then None else object_text parse s)"

definition agreed :: "(string \<Rightarrow> json option) \<Rightarrow> string list \<Rightarrow> nat \<Rightarrow> json option" where
  "agreed parse blocks max_chars =
     (let written = strip (concat blocks); parts = filter (\<lambda>part. part \<noteq> []) (map strip blocks)
      in if written = [] then None
         else (case text_value parse written max_chars of
                 Some v \<Rightarrow> Some v
               | None \<Rightarrow>
                   if length parts < 2 \<or> py_len written > max_chars then None
                   else (case text_value parse (hd parts) max_chars of
                           None \<Rightarrow> None
                         | Some first \<Rightarrow>
                             if list_all (\<lambda>part. case text_value parse part max_chars of Some v \<Rightarrow> py_eq v first | None \<Rightarrow> False) (tl parts)
                             then Some first else None)))"

definition block_text :: "json \<Rightarrow> string \<Rightarrow> string list" where
  "block_text b kind =
     (if str_of b ''type'' = Some kind then (case str_of b ''text'' of Some s \<Rightarrow> [s] | None \<Rightarrow> []) else [])"

text \<open>The text blocks of an answer: OpenAI's output texts of its messages, or Anthropic's text blocks.\<close>

definition openai_texts :: "json list \<Rightarrow> string list" where
  "openai_texts items =
     concat (map (\<lambda>part. block_text part ''output_text'')
       (concat (map (\<lambda>item. the_or [] (array_of item ''content'')) (filter (\<lambda>item. str_of item ''type'' = Some ''message'') items))))"

definition anthropic_texts :: "json list \<Rightarrow> string list" where
  "anthropic_texts items = concat (map (\<lambda>item. block_text item ''text'') items)"

definition answer_texts :: "assistant_message \<Rightarrow> provider_id \<Rightarrow> string list" where
  "answer_texts turn provider =
     (case turn_raw turn of
        Some (Array items) \<Rightarrow> (case provider of Open_Ai \<Rightarrow> openai_texts items | Anthropic \<Rightarrow> anthropic_texts items)
      | _ \<Rightarrow> [turn_text turn])"

definition answered :: "(string \<Rightarrow> json option) \<Rightarrow> assistant_message \<Rightarrow> provider_id \<Rightarrow> nat \<Rightarrow> json option" where
  "answered parse turn provider max_chars =
     (if turn_refusal turn \<or> turn_calls turn \<noteq> [] \<or> turn_invalid_calls turn \<noteq> [] then None
      else agreed parse (answer_texts turn provider) max_chars)"

record decision_call =
  call_chat :: chat_call
  call_parse :: "string \<Rightarrow> json option"
  call_config :: provider_config
  call_profile :: profile
  call_cancelled :: string

definition call_failed :: "decision_call \<Rightarrow> call_error \<Rightarrow> route_error" where
  "call_failed call e = Brain (into_brain e (call_cancelled call))"

definition structured_conversation ::
    "decision_call \<Rightarrow> chat_request \<Rightarrow> projection option \<Rightarrow> nat \<Rightarrow> call_error + json" where
  "structured_conversation call request projected max_chars =
     andThen (call_chat call (call_config call) (call_profile call) request projected) (\<lambda>turn.
       (case answered (call_parse call) turn (config_provider (call_config call)) max_chars of
          Some v \<Rightarrow> Inr v
        | None \<Rightarrow> Inl Response_Broken))"

definition ASK_ID :: string where "ASK_ID = ''shimpz-ask''"

text \<open>A structured question: the system prompt, the user's one text, the schema's name and itself, and the answer's bound.\<close>

definition structured_value :: "decision_call \<Rightarrow> string option \<Rightarrow> block list \<Rightarrow> string \<Rightarrow> json \<Rightarrow> nat \<Rightarrow> call_error + json" where
  "structured_value call prompt_text blocks name s max_chars =
     (let (words, rest) = (case blocks of Text_Block t # bs \<Rightarrow> (t, bs) | _ \<Rightarrow> ([], blocks));
          request = \<lparr>req_system = prompt_text, req_messages = [User ASK_ID words], req_tools = [], req_output = Some (name, s),
            req_cache = False\<rparr>
      in structured_conversation call request
           (if rest = [] then None else Some \<lparr>projected_id = ASK_ID, projected_blocks = rest\<rparr>) max_chars)"

definition conforming :: "json \<Rightarrow> json \<Rightarrow> route_error + json" where
  "conforming s v = (if conforms s v then Inr v else Inl broken)"

definition converse :: "decision_call \<Rightarrow> chat_request \<Rightarrow> projection option \<Rightarrow> string \<Rightarrow> json \<Rightarrow> nat \<Rightarrow> route_error + json" where
  "converse call request projected name s max_chars =
     (case structured_conversation call (request\<lparr>req_output := Some (name, s)\<rparr>) projected max_chars of
        Inl e \<Rightarrow> Inl (call_failed call e)
      | Inr v \<Rightarrow> conforming s v)"

definition decide_answer :: "decision_call \<Rightarrow> string \<Rightarrow> json \<Rightarrow> string \<Rightarrow> json \<Rightarrow> nat \<Rightarrow> route_error + json" where
  "decide_answer call prompt_text payload name s max_chars =
     (case structured_value call (Some prompt_text) [Text_Block (compact_text payload)] name s max_chars of
        Inl e \<Rightarrow> Inl (call_failed call e)
      | Inr v \<Rightarrow> conforming s v)"

definition no_controls :: "unicode \<Rightarrow> string \<Rightarrow> bool \<Rightarrow> bool" where
  "no_controls u s layout =
     list_all (\<lambda>ch. \<not> starts_with ''C'' (category u ch) \<or> layout \<and> (ch = [CHR 0x0A] \<or> ch = [CHR 0x09])) (chars s)"

lemma andThen_Inr: "andThen r f = Inr y \<longleftrightarrow> (\<exists>x. r = Inr x \<and> f x = Inr y)"
  by (simp add: andThen_def split: sum.split)

lemma map_sum_Inr: "map_sum id f r = Inr y \<longleftrightarrow> (\<exists>x. r = Inr x \<and> y = f x)"
  by (cases r) auto

lemma read_all_Cons:
  "read_all f (x # xs) = Inr zs \<longleftrightarrow> (\<exists>y ys. f x = Inr y \<and> read_all f xs = Inr ys \<and> zs = y # ys)"
  by (auto simp: andThen_Inr map_sum_Inr)

lemma read_all_Inr: "read_all f xs = Inr ys \<longleftrightarrow> list_all2 (\<lambda>x y. f x = Inr y) xs ys"
  by (induction xs arbitrary: ys) (simp_all only: read_all_Cons list_all2_Cons1 read_all.simps(1) list_all2_Nil, auto)

lemma conforming_Inr: "conforming s v = Inr w \<longleftrightarrow> conforms s v \<and> w = v"
  by (auto simp: conforming_def)

lemma decide_conforms: "decide_answer call prompt_text payload name s n = Inr v \<Longrightarrow> conforms s v"
  by (auto simp: decide_answer_def conforming_Inr split: sum.splits)

definition language_name :: "string \<Rightarrow> string option" where
  "language_name locale =
     map_of [(''ar'', ''Arabic''), (''de'', ''German''), (''en'', ''English''), (''es'', ''Spanish''), (''fr'', ''French''),
       (''ja'', ''Japanese''), (''pt'', ''Brazilian Portuguese''), (''zh'', ''Simplified Chinese'')] locale"

end
