(* ===== verification/Browsing.thy ===== *)
theory Browsing
  imports Payload Websocket Tools
begin

text \<open>
  The Browser agent's closed step set and the exchange Team and the Brain share (\<open>protocol/team/http/src/browser\<close>): the flat schema
  and the canonical step (\<open>mod.rs\<close>), a task's thread with the byte measures both sides bound a request by (\<open>thread.rs\<close>), and the
  downloads, the completeness verdict and a chat terminal's Browser field (\<open>files.rs\<close>).
\<close>

section \<open>Bounds and closed words\<close>

definition MAX_SUMMARY_BYTES :: nat where "MAX_SUMMARY_BYTES = 4 * 1024"
definition MAX_SENTENCE_CHARS :: nat where "MAX_SENTENCE_CHARS = 300"
definition MAX_TEXT_CHARS :: nat where "MAX_TEXT_CHARS = 2000"
definition MAX_URL_CHARS :: nat where "MAX_URL_CHARS = 2048"
definition MAX_NOTE_CHARS :: nat where "MAX_NOTE_CHARS = 300"
definition MAX_TITLE_CHARS :: nat where "MAX_TITLE_CHARS = 300"
definition MAX_OBSERVATION_BYTES :: nat where "MAX_OBSERVATION_BYTES = 24 * 1024"
definition MAX_STEPS :: nat where "MAX_STEPS = 300"
definition MAX_READ_REFS :: nat where "MAX_READ_REFS = 10"
definition MAX_HISTORY_BYTES :: nat where "MAX_HISTORY_BYTES = 128 * 1024"
definition MAX_TASK_MEMORY_BYTES :: nat where "MAX_TASK_MEMORY_BYTES = 12 * 1024"
definition MAX_FOLDED_LINE_BYTES :: nat where "MAX_FOLDED_LINE_BYTES = 300"
definition MAX_FOLDED_BYTES :: nat where "MAX_FOLDED_BYTES = 8 * 1024"
definition ENTRY_OVERHEAD_BYTES :: nat where "ENTRY_OVERHEAD_BYTES = 512"
definition MAX_REQUEST_TEXT_BYTES :: nat where "MAX_REQUEST_TEXT_BYTES = 172 * 1024"
definition MAX_CALL_INPUT_TOKENS :: nat where "MAX_CALL_INPUT_TOKENS = 200000"
definition MAX_CALL_OUTPUT_TOKENS :: nat where "MAX_CALL_OUTPUT_TOKENS = 4096"
definition LANGUAGES :: "string list" where "LANGUAGES = [''en'', ''pt-BR'']"
definition REASONS :: "string list" where "REASONS = [''sign-in'', ''captcha'', ''payment'', ''confirmation'', ''blocked'']"
definition DIRECTIONS :: "string list" where "DIRECTIONS = [''up'', ''down'']"
definition OUTCOMES :: "string list" where
  "OUTCOMES = [''ok'', ''refused'', ''navigation-failed'', ''interrupted'', ''returned'']"
definition REF_PATTERN :: string where "REF_PATTERN = ''p[0-9]{1,6}:[0-9]{1,6}''"
definition STEP_KINDS :: "(string \<times> string list) list" where
  "STEP_KINDS =
     [(''navigate'', [''url'']), (''click'', [''ref'']), (''type'', [''ref'', ''text'']), (''scroll'', [''direction'']), (''wait'', []),
      (''screenshot'', []), (''read'', [''refs'']), (''done'', [''summary'']), (''needs_person'', [''reason'', ''sentence''])]"
definition ALL_FIELDS :: "string list" where
  "ALL_FIELDS = [''url'', ''ref'', ''refs'', ''text'', ''direction'', ''summary'', ''reason'', ''sentence'']"
definition COMPLETENESS :: "string list" where "COMPLETENESS = [''complete'', ''incomplete'', ''not-checked'']"
definition MAX_DOWNLOAD_NAMES :: nat where "MAX_DOWNLOAD_NAMES = 20"
definition MAX_PENDING_DOWNLOADS :: int where "MAX_PENDING_DOWNLOADS = 1000"
definition TERMINAL_LOSSES :: "string list" where
  "TERMINAL_LOSSES =
     [''browser-lost'', ''empty'', ''incomplete'', ''name-refused'', ''over-limit'', ''quota-exceeded'', ''store-unavailable'']"
definition MAX_TERMINAL_FILES :: nat where "MAX_TERMINAL_FILES = 8"
definition MAX_TERMINAL_LOSSES :: nat where "MAX_TERMINAL_LOSSES = 128"
definition MAX_TERMINAL_SKIPPED :: int where "MAX_TERMINAL_SKIPPED = 1000"
definition MAX_NAME_BYTES :: nat where "MAX_NAME_BYTES = 255"

section \<open>The flat schema\<close>

definition strings_value :: "string list \<Rightarrow> json" where
  "strings_value words = Array (map String words)"

definition bounded_string :: "nat \<Rightarrow> json" where
  "bounded_string maximum = Object [(''type'', String ''string''), (''maxLength'', int_value (int maximum))]"

definition closed_string :: "string list \<Rightarrow> json" where
  "closed_string choices = Object [(''type'', String ''string''), (''enum'', strings_value choices)]"

definition nullable_schema :: "json \<Rightarrow> json" where
  "nullable_schema s = Object [(''anyOf'', Array [s, Object [(''type'', String ''null'')]])]"

definition STEP_SCHEMA :: json where
  "STEP_SCHEMA =
     Object [
       (''type'', String ''object''),
       (''additionalProperties'', Bool False),
       (''required'', strings_value ([''kind''] @ ALL_FIELDS @ [''note''])),
       (''properties'', Object [
          (''kind'', closed_string (map fst STEP_KINDS)),
          (''url'', nullable_schema (bounded_string MAX_URL_CHARS)),
          (''ref'', nullable_schema (bounded_string 16)),
          (''refs'', nullable_schema (Object [(''type'', String ''array''), (''maxItems'', int_value (int MAX_READ_REFS)), (''items'', bounded_string 16)])),
          (''text'', nullable_schema (bounded_string MAX_TEXT_CHARS)),
          (''direction'', nullable_schema (closed_string DIRECTIONS)),
          (''summary'', nullable_schema (bounded_string MAX_SUMMARY_BYTES)),
          (''reason'', nullable_schema (closed_string REASONS)),
          (''sentence'', nullable_schema (bounded_string MAX_SENTENCE_CHARS)),
          (''note'', nullable_schema (bounded_string MAX_NOTE_CHARS))])]"

section \<open>The canonical step\<close>

definition same_letters :: "string \<Rightarrow> string \<Rightarrow> bool" where
  "same_letters url prefix \<longleftrightarrow> map to_lower (take (length prefix) url) = prefix"

definition netloc_of :: "string \<Rightarrow> string" where
  "netloc_of rest = takeWhile (\<lambda>c. c \<notin> {CHR ''/'', CHR ''?'', CHR 0x23}) rest"

definition web_authority :: "string \<Rightarrow> (string \<times> string) option" where
  "web_authority url = do {
     (scheme, rest) \<leftarrow> (if same_letters url ''https://'' then Some (''https'', drop 8 url)
                       else if same_letters url ''http://'' then Some (''http'', drop 7 url) else None);
     (if list_all is_ascii (netloc_of rest) \<and> CHR 0x5B \<notin> set (netloc_of rest) \<and> CHR 0x5D \<notin> set (netloc_of rest)
      then Some (scheme, netloc_of rest) else None) }"

definition canonical_url :: "unicode \<Rightarrow> json \<Rightarrow> string option" where
  "canonical_url u v = do {
     url \<leftarrow> py_string v;
     _ \<leftarrow> (if url = [] \<or> py_len url > MAX_URL_CHARS \<or> \<not> isprintable u url then None else Some ());
     (scheme, netloc) \<leftarrow> web_authority url;
     let parts = authority_of netloc;
     let credentials = (case userinfo parts of
                          Some (name, password) \<Rightarrow> name \<noteq> [] \<or> (case password of Some p \<Rightarrow> p \<noteq> [] | None \<Rightarrow> False)
                        | None \<Rightarrow> False);
     (if auth_host parts \<noteq> [] \<and> \<not> credentials \<and> CHR '' '' \<notin> set url then Some url else None) }"

definition step_reference :: "matcher \<Rightarrow> json \<Rightarrow> json option" where
  "step_reference full v = map_option String (full_text full v REF_PATTERN)"

definition step_references :: "matcher \<Rightarrow> json \<Rightarrow> json option" where
  "step_references full v = do {
     items \<leftarrow> py_array v;
     let named = List.map_filter (\<lambda>item. full_text full item REF_PATTERN) items;
     (if 1 \<le> length items \<and> length items \<le> MAX_READ_REFS \<and> length named = length items \<and> distinct named
      then Some v else None) }"

definition typed_text :: "unicode \<Rightarrow> json \<Rightarrow> json option" where
  "typed_text u v =
     (case py_string v of
        Some words \<Rightarrow> if py_len words \<le> MAX_TEXT_CHARS \<and> isprintable u words then Some (String words) else None
      | None \<Rightarrow> None)"

definition step_summary :: "unicode \<Rightarrow> json \<Rightarrow> json option" where
  "step_summary u v =
     (case plain_text u v MAX_SUMMARY_BYTES True of
        Some words \<Rightarrow> if length words \<le> MAX_SUMMARY_BYTES then Some (String words) else None
      | None \<Rightarrow> None)"

definition step_sentence :: "unicode \<Rightarrow> json \<Rightarrow> string option" where
  "step_sentence u v = plain_text u v MAX_SENTENCE_CHARS False"

definition step_choice :: "json \<Rightarrow> string list \<Rightarrow> json option" where
  "step_choice v choices = (case py_string v of Some s \<Rightarrow> if s \<in> set choices then Some (String s) else None | None \<Rightarrow> None)"

definition field_check :: "unicode \<Rightarrow> matcher \<Rightarrow> string \<Rightarrow> json \<Rightarrow> json option" where
  "field_check u full name v =
     (if name = ''url'' then map_option String (canonical_url u v)
      else if name = ''ref'' then step_reference full v
      else if name = ''refs'' then step_references full v
      else if name = ''text'' then typed_text u v
      else if name = ''direction'' then step_choice v DIRECTIONS
      else if name = ''summary'' then step_summary u v
      else if name = ''reason'' then step_choice v REASONS
      else if name = ''sentence'' then map_option String (step_sentence u v)
      else None)"

definition step_note :: "unicode \<Rightarrow> json option \<Rightarrow> (string \<times> json) list option" where
  "step_note u note =
     (case note of
        None \<Rightarrow> Some []
      | Some v \<Rightarrow>
          if v = Null \<or> (case py_string v of Some s \<Rightarrow> strip s = [] | None \<Rightarrow> False) then Some []
          else map_option (\<lambda>words. [(''note'', String words)]) (plain_text u v MAX_NOTE_CHARS False))"

definition browser_step :: "unicode \<Rightarrow> matcher \<Rightarrow> json \<Rightarrow> json option" where
  "browser_step u full v = do {
     ms \<leftarrow> py_object v;
     kind \<leftarrow> Option.bind (get v ''kind'') py_string;
     names \<leftarrow> map_of STEP_KINDS kind;
     _ \<leftarrow> (if list_ex (\<lambda>m. \<not> (fst m = ''kind'' \<or> fst m = ''note'' \<or> fst m \<in> set ALL_FIELDS)) ms \<or>
             list_ex (\<lambda>name. name \<notin> set names \<and> the_or Null (get v name) \<noteq> Null) ALL_FIELDS
           then None else Some ());
     admitted \<leftarrow> opt_all (\<lambda>name. map_option (Pair name) (field_check u full name (the_or Null (get v name)))) names;
     note \<leftarrow> step_note u (get v ''note'');
     Some (Object ((''kind'', String kind) # admitted @ note)) }"

section \<open>Downloads, verdicts and terminals\<close>

definition canonical_check :: "unicode \<Rightarrow> json \<Rightarrow> json option" where
  "canonical_check u v = do {
     ms \<leftarrow> py_exact_object v [''complete'', ''missing''];
     let verdict = py_field ms ''complete'';
     let missing = py_field ms ''missing'';
     (if (verdict = Bool True \<or> verdict = Null) \<and> missing = Null \<or> verdict = Bool False \<and> step_sentence u missing \<noteq> None
      then Some (Object [(''complete'', verdict), (''missing'', missing)]) else None) }"

definition download_name :: "unicode \<Rightarrow> json \<Rightarrow> string option" where
  "download_name u v =
     (case plain_text u v MAX_NAME_BYTES False of
        Some name \<Rightarrow> if length name \<le> MAX_NAME_BYTES then Some name else None
      | None \<Rightarrow> None)"

definition canonical_downloads :: "unicode \<Rightarrow> json \<Rightarrow> json option" where
  "canonical_downloads u v = do {
     ms \<leftarrow> py_exact_object v [''files'', ''pending'', ''truncated''];
     files \<leftarrow> py_array (py_field ms ''files'');
     let names = List.map_filter (download_name u) files;
     (if length files \<le> MAX_DOWNLOAD_NAMES \<and> length names = length files \<and> strictly_sorted names \<and>
        whole (py_field ms ''pending'') 0 MAX_PENDING_DOWNLOADS \<and> is_bool_value (py_field ms ''truncated'')
      then Some (Object [(''files'', Array files), (''pending'', py_field ms ''pending''), (''truncated'', py_field ms ''truncated'')])
      else None) }"

definition canonical_file_reference :: "case_tables \<Rightarrow> matcher \<Rightarrow> json \<Rightarrow> json option" where
  "canonical_file_reference t full v = do {
     ms \<leftarrow> py_exact_object v [''id'', ''name'', ''media_type'', ''size''];
     name \<leftarrow> py_string (py_field ms ''name'');
     media \<leftarrow> py_string (py_field ms ''media_type'');
     (if canonical_file_id full (py_field ms ''id'') \<noteq> None \<and> canonical_filename (py_field ms ''name'') = Some name \<and>
        canonical_media_type t full (py_field ms ''media_type'') = Some media \<and> whole (py_field ms ''size'') 1 MAX_FILE_UPLOAD_BYTES
      then Some (Object (map (\<lambda>key. (key, py_field ms key)) [''id'', ''name'', ''media_type'', ''size''])) else None) }"

definition terminal_loss :: "unicode \<Rightarrow> json \<Rightarrow> json option" where
  "terminal_loss u v = do {
     ms \<leftarrow> py_exact_object v [''name'', ''reason''];
     reason \<leftarrow> py_string (py_field ms ''reason'');
     _ \<leftarrow> (if reason \<in> set TERMINAL_LOSSES then Some () else None);
     name \<leftarrow> py_string (py_field ms ''name'');
     (if name \<noteq> [] \<and> length name \<le> MAX_NAME_BYTES \<and> isprintable u name
      then Some (Object [(''name'', String name), (''reason'', String reason)]) else None) }"

definition canonical_terminal :: "unicode \<Rightarrow> case_tables \<Rightarrow> matcher \<Rightarrow> json \<Rightarrow> json option" where
  "canonical_terminal u t full v = do {
     ms \<leftarrow> py_exact_object v [''files'', ''lost'', ''skipped''];
     files \<leftarrow> py_array (py_field ms ''files'');
     lost \<leftarrow> py_array (py_field ms ''lost'');
     _ \<leftarrow> (if length files > MAX_TERMINAL_FILES \<or> length lost > MAX_TERMINAL_LOSSES \<or>
             \<not> whole (py_field ms ''skipped'') 0 MAX_TERMINAL_SKIPPED then None else Some ());
     references \<leftarrow> opt_all (canonical_file_reference t full) files;
     losses \<leftarrow> opt_all (terminal_loss u) lost;
     Some (Object [(''files'', Array references), (''lost'', Array losses), (''skipped'', py_field ms ''skipped'')]) }"

section \<open>The thread\<close>

definition json_bytes :: "json \<Rightarrow> nat" where
  "json_bytes v = length (dumps COMPACT v)"

definition text_bytes :: "json \<Rightarrow> nat" where
  "text_bytes v = (case py_string v of Some s \<Rightarrow> length s | None \<Rightarrow> 0)"

definition shown_page :: "unicode \<Rightarrow> json \<Rightarrow> json option" where
  "shown_page u v = do {
     ms \<leftarrow> py_exact_object v [''url'', ''title''];
     url \<leftarrow> py_string (py_field ms ''url'');
     _ \<leftarrow> (if py_len url \<le> MAX_URL_CHARS \<and> isprintable u url then Some () else None);
     title \<leftarrow> py_string (py_field ms ''title'');
     (if py_len title \<le> MAX_TITLE_CHARS \<and> isprintable u title
      then Some (Object [(''url'', String url), (''title'', String title)]) else None) }"

definition record_members :: "unicode \<Rightarrow> matcher \<Rightarrow> json \<Rightarrow> (string \<times> json) list option" where
  "record_members u full v = do {
     ms \<leftarrow> py_exact_object v [''step'', ''outcome'', ''page''];
     outcome \<leftarrow> py_string (py_field ms ''outcome'');
     _ \<leftarrow> (if outcome \<in> set OUTCOMES then Some () else None);
     step \<leftarrow> browser_step u full (py_field ms ''step'');
     page \<leftarrow> shown_page u (py_field ms ''page'');
     (if \<not> py_eq step (py_field ms ''step'') \<or> Option.bind (get step ''kind'') py_string \<in> {Some ''done'', Some ''needs_person''}
      then None else Some [(''step'', step), (''outcome'', String outcome), (''page'', page)]) }"

definition canonical_record :: "unicode \<Rightarrow> matcher \<Rightarrow> json \<Rightarrow> json option" where
  "canonical_record u full v = map_option Object (record_members u full v)"

definition canonical_task_memory :: "unicode \<Rightarrow> json \<Rightarrow> string option" where
  "canonical_task_memory u v =
     (case plain_text u v MAX_TASK_MEMORY_BYTES True of
        Some memory \<Rightarrow> if length memory \<le> MAX_TASK_MEMORY_BYTES then Some memory else None
      | None \<Rightarrow> None)"

definition canonical_observation :: "json \<Rightarrow> string option" where
  "canonical_observation v =
     (case py_string v of Some s \<Rightarrow> if length s \<le> MAX_OBSERVATION_BYTES then Some s else None | None \<Rightarrow> None)"

definition downloads_admitted :: "unicode \<Rightarrow> json \<Rightarrow> bool" where
  "downloads_admitted u v \<longleftrightarrow>
     v = Null \<or> (case canonical_downloads u v of Some w \<Rightarrow> py_eq w v | None \<Rightarrow> False)"

definition thread_entry :: "unicode \<Rightarrow> matcher \<Rightarrow> json \<Rightarrow> json option" where
  "thread_entry u full v = do {
     ms \<leftarrow> py_exact_object v [''step'', ''outcome'', ''page'', ''text'', ''downloads'', ''screenshot''];
     es \<leftarrow> record_members u full (Object (map (\<lambda>key. (key, py_field ms key)) [''step'', ''outcome'', ''page'']));
     (if canonical_observation (py_field ms ''text'') = None \<or> \<not> downloads_admitted u (py_field ms ''downloads'') \<or>
        \<not> is_bool_value (py_field ms ''screenshot'')
      then None
      else Some (Object (es @ map (\<lambda>key. (key, py_field ms key)) [''text'', ''downloads'', ''screenshot'']))) }"

definition get_or_null :: "json \<Rightarrow> string \<Rightarrow> json" where
  "get_or_null v name = the_or Null (get v name)"

definition entry_bytes :: "json \<Rightarrow> nat" where
  "entry_bytes e =
     text_bytes (get_or_null e ''text'') + json_bytes (get_or_null e ''step'') +
     text_bytes (get_or_null (get_or_null e ''page'') ''url'') + text_bytes (get_or_null (get_or_null e ''page'') ''title'') +
     json_bytes (get_or_null e ''downloads'') + ENTRY_OVERHEAD_BYTES"

definition record_bytes :: "json \<Rightarrow> nat" where
  "record_bytes r = json_bytes r + 1"

definition thread_items :: "json \<Rightarrow> string \<Rightarrow> json list" where
  "thread_items v name = (case get v name of Some (Array items) \<Rightarrow> items | _ \<Rightarrow> [])"

definition history_bytes :: "json \<Rightarrow> nat" where
  "history_bytes v =
     ENTRY_OVERHEAD_BYTES + sum_list (map record_bytes (thread_items v ''folded'')) + text_bytes (get_or_null v ''memory'') +
     sum_list (map entry_bytes (thread_items v ''steps''))"

definition request_text_bytes :: "string \<Rightarrow> json \<Rightarrow> string \<Rightarrow> json \<Rightarrow> nat" where
  "request_text_bytes objective task_thread observation downloads =
     length objective + history_bytes task_thread + length observation + json_bytes downloads + ENTRY_OVERHEAD_BYTES"

definition thread_count :: "json \<Rightarrow> bool" where
  "thread_count v \<longleftrightarrow> whole v 0 (int (MAX_STEPS * MAX_STEPS))"

definition canonical_thread :: "unicode \<Rightarrow> matcher \<Rightarrow> json \<Rightarrow> json option" where
  "canonical_thread u full v = do {
     ms \<leftarrow> py_exact_object v [''folded'', ''folded_omitted'', ''memory'', ''unnoted'', ''steps''];
     folded \<leftarrow> py_array (py_field ms ''folded'');
     steps \<leftarrow> py_array (py_field ms ''steps'');
     memory \<leftarrow> py_string (py_field ms ''memory'');
     _ \<leftarrow> (if length folded + length steps > MAX_STEPS \<or> \<not> thread_count (py_field ms ''folded_omitted'') \<or>
             \<not> thread_count (py_field ms ''unnoted'') \<or>
             memory \<noteq> [] \<and> canonical_task_memory u (py_field ms ''memory'') \<noteq> Some memory
           then None else Some ());
     records \<leftarrow> opt_all (canonical_record u full) folded;
     entries \<leftarrow> opt_all (thread_entry u full) steps;
     let task_thread = Object [(''folded'', Array records), (''folded_omitted'', py_field ms ''folded_omitted''),
       (''memory'', String memory), (''unnoted'', py_field ms ''unnoted''), (''steps'', Array entries)];
     (if sum_list (map record_bytes records) \<le> MAX_FOLDED_BYTES \<and> history_bytes task_thread \<le> MAX_HISTORY_BYTES
      then Some task_thread else None) }"

section \<open>A canonical step is settled\<close>

lemma plain_text_Some: "plain_text u v n m = Some s \<Longrightarrow> v = String s \<and> strip s \<noteq> [] \<and> plain_text u (String s) n m = Some s"
  by (auto simp: plain_text_def py_string_def split: json.splits if_splits)

lemma field_check_same: "field_check u full name v = Some w \<Longrightarrow> w = v"
  by (auto simp: field_check_def canonical_url_def step_reference_def step_references_def typed_text_def step_summary_def
      step_sentence_def step_choice_def full_text_def py_string_def bind_eq_Some_conv Let_def
      split: json.splits if_splits option.splits dest!: plain_text_Some)

lemma step_kinds_table:
  "list_all (\<lambda>(kind, names). distinct names \<and> list_all (\<lambda>n. n \<in> set ALL_FIELDS) names) STEP_KINDS"
  "''kind'' \<notin> set ALL_FIELDS" "''note'' \<notin> set ALL_FIELDS"
  by code_simp+

lemma step_names:
  assumes "map_of STEP_KINDS kind = Some names"
  shows "distinct names" "set names \<subseteq> set ALL_FIELDS" "''kind'' \<notin> set names" "''note'' \<notin> set names"
proof -
  have "(kind, names) \<in> set STEP_KINDS" by (rule map_of_SomeD [OF assms])
  then have "distinct names \<and> list_all (\<lambda>n. n \<in> set ALL_FIELDS) names" using step_kinds_table(1) by (auto simp: list_all_iff)
  then show "distinct names" "set names \<subseteq> set ALL_FIELDS" by (auto simp: list_all_iff)
  then show "''kind'' \<notin> set names" "''note'' \<notin> set names" using step_kinds_table(2,3) by blast+
qed

lemma opt_all_same: "opt_all (\<lambda>n. map_option (Pair n) (f n)) names = Some out \<Longrightarrow> (\<And>n w. f n = Some w \<Longrightarrow> w = g n) \<Longrightarrow>
    out = map (\<lambda>n. (n, g n)) names \<and> (\<forall>n\<in>set names. f n = Some (g n))"
  by (induction names arbitrary: out) (auto simp: opt_all_Cons split: option.splits)

lemma step_note_form:
  "step_note u jot = Some out \<Longrightarrow> out = [] \<or> (\<exists>s. out = [(''note'', String s)] \<and> jot = Some (String s) \<and> strip s \<noteq> [] \<and>
     plain_text u (String s) MAX_NOTE_CHARS False = Some s)"
  by (auto simp: step_note_def split: option.splits if_splits dest: plain_text_Some)

lemma browser_step_form:
  assumes "browser_step u full v = Some w"
  obtains kind names jot where "map_of STEP_KINDS kind = Some names"
    "w = Object ((''kind'', String kind) # map (\<lambda>n. (n, get_or_null v n)) names @ jot)"
    "\<And>n. n \<in> set names \<Longrightarrow> field_check u full n (get_or_null v n) = Some (get_or_null v n)"
    "jot = [] \<or> (\<exists>s. jot = [(''note'', String s)] \<and> get v ''note'' = Some (String s) \<and> strip s \<noteq> [] \<and> plain_text u (String s) MAX_NOTE_CHARS False = Some s)"
proof -
  obtain ms kind names out jot where form: "map_of STEP_KINDS kind = Some names" "step_note u (get v ''note'') = Some jot"
    "opt_all (\<lambda>name. map_option (Pair name) (field_check u full name (the_or Null (get v name)))) names = Some out"
    "w = Object ((''kind'', String kind) # out @ jot)"
    using assms unfolding browser_step_def bind_eq_Some_conv by - (elim exE conjE, rule that, (assumption | (simp split: if_splits; fail))+)
  have "out = map (\<lambda>n. (n, get_or_null v n)) names \<and> (\<forall>n\<in>set names. field_check u full n (get_or_null v n) = Some (get_or_null v n))"
    using opt_all_same [OF form(3), of "get_or_null v"] field_check_same by (auto simp: get_or_null_def)
  then show ?thesis using that form step_note_form [OF form(2)] by blast
qed

lemma map_of_pairs: "map_of (map (\<lambda>n. (n, f n)) names) = (\<lambda>k. if k \<in> set names then Some (f k) else None)"
  by (induction names) auto

lemma browser_step_again:
  assumes "browser_step u full v = Some w"
  shows "browser_step u full w = Some w"
proof -
  obtain kind names jot where form: "map_of STEP_KINDS kind = Some names"
    "w = Object ((''kind'', String kind) # map (\<lambda>n. (n, get_or_null v n)) names @ jot)"
    "\<And>n. n \<in> set names \<Longrightarrow> field_check u full n (get_or_null v n) = Some (get_or_null v n)"
    "jot = [] \<or> (\<exists>s. jot = [(''note'', String s)] \<and> get v ''note'' = Some (String s) \<and> strip s \<noteq> [] \<and> plain_text u (String s) MAX_NOTE_CHARS False = Some s)"
    using browser_step_form [OF assms] by blast
  note names = step_names [OF form(1)]
  have kind: "get w ''kind'' = Some (String kind)" by (simp add: form(2))
  have used: "get w n = Some (get_or_null v n)" if "n \<in> set names" for n
    using that names(3) by (auto simp: form(2) map_of_pairs map_add_def)
  have unused: "get w n = None" if "n \<in> set ALL_FIELDS" "n \<notin> set names" for n
    using that step_kinds_table(2,3) form(4) by (auto simp: form(2) map_of_pairs map_add_def)
  have noted: "step_note u (get w ''note'') = Some jot"
    using form(4) names(4) by (auto simp: form(2) map_of_pairs map_add_def step_note_def py_string_def)
  have known: "\<not> list_ex (\<lambda>m. \<not> (fst m = ''kind'' \<or> fst m = ''note'' \<or> fst m \<in> set ALL_FIELDS)) (members w)"
    using names(2) form(4) by (auto simp: form(2) list_ex_iff)
  have nulls: "\<not> list_ex (\<lambda>name. name \<notin> set names \<and> the_or Null (get w name) \<noteq> Null) ALL_FIELDS"
    using unused by (fastforce simp: list_ex_iff the_or_def)
  have "opt_all (\<lambda>name. map_option (Pair name) (field_check u full name (the_or Null (get w name)))) names =
      Some (map (\<lambda>n. (n, get_or_null v n)) names)"
    using used form(3) unfolding opt_all_def by (induction names) (simp_all add: the_or_def)
  then show ?thesis
    using kind noted known nulls form(1) by (simp add: browser_step_def form(2) py_object_def py_string_def)
qed

lemma browser_step_ok:
  assumes "browser_step u full v = Some w" "value_ok v"
  shows "value_ok w"
proof -
  obtain kind names jot where form: "map_of STEP_KINDS kind = Some names"
    "w = Object ((''kind'', String kind) # map (\<lambda>n. (n, get_or_null v n)) names @ jot)"
    "jot = [] \<or> (\<exists>s. jot = [(''note'', String s)])"
    by (rule browser_step_form [OF assms(1)]) blast
  have "value_ok (get_or_null v n)" for n
    using assms(2) by (cases v) (auto simp: get_or_null_def the_or_def split: option.splits dest!: map_of_SomeD)
  then show ?thesis using step_names [OF form(1)] form(3) by (auto simp: form(2) comp_def)
qed

lemma py_eq_same: "value_ok v \<Longrightarrow> py_eq v v"
  by (simp add: py_eq_json_equal json_equal_key value_ok_unboxed)

section \<open>A canonical thread is settled\<close>

lemma shown_page_again:
  assumes "shown_page u v = Some w" shows "shown_page u w = Some w"
proof -
  obtain url title where "py_len url \<le> MAX_URL_CHARS" "isprintable u url" "py_len title \<le> MAX_TITLE_CHARS" "isprintable u title"
    "w = Object [(''url'', String url), (''title'', String title)]"
    using assms by (auto simp: shown_page_def bind_eq_Some_conv split: if_splits)
  then show ?thesis by (simp add: shown_page_def written_back py_string_def)
qed

lemma record_members_form:
  assumes "record_members u full v = Some es" "value_ok v"
  obtains step outcome page where "browser_step u full step = Some step" "value_ok step" "outcome \<in> set OUTCOMES" "shown_page u page = Some page"
    "Option.bind (get step ''kind'') py_string \<notin> {Some ''done'', Some ''needs_person''}"
    "es = [(''step'', step), (''outcome'', String outcome), (''page'', page)]"
proof -
  obtain ms step outcome page where form: "v = Object ms" "browser_step u full (py_field ms ''step'') = Some step" "outcome \<in> set OUTCOMES"
    "shown_page u (py_field ms ''page'') = Some page" "Option.bind (get step ''kind'') py_string \<notin> {Some ''done'', Some ''needs_person''}"
    "es = [(''step'', step), (''outcome'', String outcome), (''page'', page)]"
    using assms(1) unfolding record_members_def bind_eq_Some_conv
    by - (elim exE conjE, rule that, (assumption | (simp add: py_exact_object_def py_object_def split: if_splits json.splits option.splits; fail))+)
  show ?thesis
    by (intro that [of step outcome page] browser_step_again [OF form(2)] browser_step_ok [OF form(2)] shown_page_again [OF form(4)]
        value_ok_py_field assms(2) [unfolded form(1)] form(3,5,6))
qed

lemma record_members_again:
  assumes "record_members u full v = Some es" "value_ok v"
  shows "record_members u full (Object es) = Some es"
proof -
  obtain step outcome page where "browser_step u full step = Some step" "value_ok step" "outcome \<in> set OUTCOMES" "shown_page u page = Some page"
    "Option.bind (get step ''kind'') py_string \<notin> {Some ''done'', Some ''needs_person''}"
    "es = [(''step'', step), (''outcome'', String outcome), (''page'', page)]"
    by (rule record_members_form [OF assms])
  then show ?thesis using py_eq_same by (simp add: record_members_def written_back py_string_def)
qed

lemma canonical_record_again:
  assumes "canonical_record u full v = Some w" "value_ok v" shows "canonical_record u full w = Some w"
  using assms record_members_again [OF _ assms(2)] by (auto simp: canonical_record_def)

lemma thread_entry_form:
  assumes "thread_entry u full v = Some w" "value_ok v"
  obtains ms es where "v = Object ms" "record_members u full (Object es) = Some es" "map fst es = [''step'', ''outcome'', ''page'']"
    "canonical_observation (py_field ms ''text'') \<noteq> None" "downloads_admitted u (py_field ms ''downloads'')"
    "is_bool_value (py_field ms ''screenshot'')"
    "w = Object (es @ map (\<lambda>key. (key, py_field ms key)) [''text'', ''downloads'', ''screenshot''])"
proof -
  obtain ms es where form: "v = Object ms" "record_members u full (Object (map (\<lambda>key. (key, py_field ms key)) [''step'', ''outcome'', ''page''])) = Some es"
    "canonical_observation (py_field ms ''text'') \<noteq> None" "downloads_admitted u (py_field ms ''downloads'')"
    "is_bool_value (py_field ms ''screenshot'')"
    "w = Object (es @ map (\<lambda>key. (key, py_field ms key)) [''text'', ''downloads'', ''screenshot''])"
    using assms(1) unfolding thread_entry_def bind_eq_Some_conv
    by - (elim exE conjE, rule that, (assumption | (simp add: py_exact_object_def py_object_def split: if_splits json.splits option.splits; fail))+)
  have ok: "value_ok (Object (map (\<lambda>key. (key, py_field ms key)) [''step'', ''outcome'', ''page'']))"
    using value_ok_py_field assms(2) form(1) by simp
  have "map fst es = [''step'', ''outcome'', ''page'']"
    by (rule record_members_form [OF form(2) ok]) simp
  then show ?thesis by (intro that [OF form(1) record_members_again [OF form(2) ok]] form(3-6))
qed

lemma thread_entry_again:
  assumes "thread_entry u full v = Some w" "value_ok v" shows "thread_entry u full w = Some w"
proof -
  obtain ms es where form: "record_members u full (Object es) = Some es" "map fst es = [''step'', ''outcome'', ''page'']"
    "canonical_observation (py_field ms ''text'') \<noteq> None" "downloads_admitted u (py_field ms ''downloads'')"
    "is_bool_value (py_field ms ''screenshot'')"
    "w = Object (es @ map (\<lambda>key. (key, py_field ms key)) [''text'', ''downloads'', ''screenshot''])"
    by (rule thread_entry_form [OF assms])
  obtain a b c where es: "es = [(''step'', a), (''outcome'', b), (''page'', c)]"
    using form(2) by (auto simp: map_eq_Cons_conv)
  show ?thesis using form(1,3-5) by (simp add: thread_entry_def form(6) es written_back)
qed

lemma opt_all_again_on:
  assumes "opt_all f xs = Some ys" "\<And>x y. x \<in> set xs \<Longrightarrow> f x = Some y \<Longrightarrow> f y = Some y"
  shows "opt_all f ys = Some ys"
proof -
  have "f y = Some y" if listed: "y \<in> set ys" for y
  proof -
    obtain i where i: "i < length ys" "ys ! i = y" using listed unfolding in_set_conv_nth by blast
    then have "i < length xs" using opt_all_length [OF assms(1)] by simp
    then show ?thesis using opt_all_nth [OF assms(1)] assms(2) [of "xs ! i" y] i by simp
  qed
  then show ?thesis using opt_all_map [of ys f id] by simp
qed

lemma opt_all_in: "opt_all f xs = Some ys \<Longrightarrow> y \<in> set ys \<Longrightarrow> \<exists>x\<in>set xs. f x = Some y"
  by (induction xs arbitrary: ys) (auto simp: opt_all_Cons split: option.splits)

text \<open>The kind of the step an entry or a record holds.\<close>

definition kept_kind :: "json \<Rightarrow> string option" where
  "kept_kind e = Option.bind (get (get_or_null e ''step'') ''kind'') py_string"

lemma record_members_kind:
  "record_members u full v = Some es \<Longrightarrow> kept_kind (Object (es @ rest)) \<notin> {Some ''done'', Some ''needs_person''}"
  by (auto simp: record_members_def bind_eq_Some_conv kept_kind_def get_or_null_def the_or_def split: if_splits)

lemma canonical_record_kind: "canonical_record u full v = Some e \<Longrightarrow> kept_kind e \<notin> {Some ''done'', Some ''needs_person''}"
  using record_members_kind [of u full v _ "[]"] by (fastforce simp: canonical_record_def)

lemma thread_entry_kind: "thread_entry u full v = Some e \<Longrightarrow> kept_kind e \<notin> {Some ''done'', Some ''needs_person''}"
  using record_members_kind unfolding thread_entry_def bind_eq_Some_conv by (auto split: if_splits)

text \<open>
  C37 Team and the Brain admit a step or a thread only in its canonical form, and that form is settled: what either side admitted the
  other reads back unchanged, so nothing a task's thread holds changes as it goes back and forth.  An admitted thread renders within
  its history bound, holds at most 300 steps, and none of its steps ends the task.
\<close>

theorem thread_settled:
  assumes "value_ok v"
  shows "(browser_step u full v = Some s \<longrightarrow> browser_step u full s = Some s) \<and>
    (canonical_thread u full v = Some w \<longrightarrow> canonical_thread u full w = Some w \<and> history_bytes w \<le> MAX_HISTORY_BYTES \<and>
       length (thread_items w ''folded'') + length (thread_items w ''steps'') \<le> MAX_STEPS \<and>
       (\<forall>e\<in>set (thread_items w ''folded'') \<union> set (thread_items w ''steps'').
          kept_kind e \<notin> {Some ''done'', Some ''needs_person''}))"
proof (intro conjI impI)
  show "browser_step u full s = Some s" if "browser_step u full v = Some s" by (rule browser_step_again [OF that])
  assume read: "canonical_thread u full v = Some w"
  obtain ms folded steps memory records entries where form: "v = Object ms" "py_field ms ''folded'' = Array folded"
    "py_field ms ''steps'' = Array steps" "\<not> length folded + length steps > MAX_STEPS" "thread_count (py_field ms ''folded_omitted'')"
    "thread_count (py_field ms ''unnoted'')" "memory = [] \<or> canonical_task_memory u (String memory) = Some memory"
    "opt_all (canonical_record u full) folded = Some records" "opt_all (thread_entry u full) steps = Some entries"
    "sum_list (map record_bytes records) \<le> MAX_FOLDED_BYTES" "history_bytes w \<le> MAX_HISTORY_BYTES"
    "w = Object [(''folded'', Array records), (''folded_omitted'', py_field ms ''folded_omitted''),
       (''memory'', String memory), (''unnoted'', py_field ms ''unnoted''), (''steps'', Array entries)]"
    using read unfolding canonical_thread_def bind_eq_Some_conv Let_def
    by - (elim exE conjE, rule that, (assumption | (auto simp add: py_exact_object_def py_object_def py_array_def py_string_def
        split: if_splits json.splits option.splits; fail))+)
  have item: "value_ok x" if "x \<in> set folded \<or> x \<in> set steps" for x
    using that value_ok_item assms form(1-3) by metis
  have records: "opt_all (canonical_record u full) records = Some records"
    using opt_all_again_on [OF form(8)] canonical_record_again item by blast
  have entries: "opt_all (thread_entry u full) entries = Some entries"
    using opt_all_again_on [OF form(9)] thread_entry_again item by blast
  have amount: "length records = length folded" "length entries = length steps" using opt_all_length form(8,9) by blast+
  show "canonical_thread u full w = Some w"
    using form(4-7,10,11) records entries amount unfolding form(12)
    by (simp add: canonical_thread_def written_back py_string_def)
  show "history_bytes w \<le> MAX_HISTORY_BYTES" by (rule form(11))
  show "length (thread_items w ''folded'') + length (thread_items w ''steps'') \<le> MAX_STEPS"
    using form(4) amount by (simp add: form(12) thread_items_def)
  have "kept_kind e \<notin> {Some ''done'', Some ''needs_person''}" if "e \<in> set records \<or> e \<in> set entries" for e
    using that opt_all_in [OF form(8)] opt_all_in [OF form(9)] canonical_record_kind thread_entry_kind by blast
  then show "\<forall>e\<in>set (thread_items w ''folded'') \<union> set (thread_items w ''steps'').
      kept_kind e \<notin> {Some ''done'', Some ''needs_person''}"
    by (simp add: form(12) thread_items_def)
qed

definition sample_record :: json where
  "sample_record =
     Object [(''outcome'', String ''ok''), (''step'', Object [(''kind'', String ''wait'')]),
       (''page'', Object [(''title'', String ''t''), (''url'', String ''u'')])]"

definition settled_record :: json where
  "settled_record =
     Object [(''step'', Object [(''kind'', String ''wait'')]), (''outcome'', String ''ok''),
       (''page'', Object [(''url'', String ''u''), (''title'', String ''t'')])]"

lemma sample_wait: "browser_step plain_unicode full (Object [(''kind'', String ''wait'')]) = Some (Object [(''kind'', String ''wait'')])"
  by (simp add: browser_step_def py_object_def py_string_def STEP_KINDS_def ALL_FIELDS_def step_note_def the_or_def)

lemma sample_page: "shown_page plain_unicode (Object [(''title'', String ''t''), (''url'', String ''u'')]) = Some (Object [(''url'', String ''u''), (''title'', String ''t'')])"
  by code_simp

lemma sample_record_bytes: "record_bytes settled_record = 71"
  by code_simp

lemma sample_record_reads: "canonical_record plain_unicode full sample_record = Some settled_record"
  using py_eq_same [of "Object [(''kind'', String ''wait'')]"]
  by (simp add: canonical_record_def record_members_def sample_record_def settled_record_def sample_wait sample_page written_back
      py_string_def OUTCOMES_def)

definition sample_thread :: json where
  "sample_thread =
     Object [(''steps'', Array []), (''folded'', Array [sample_record]), (''folded_omitted'', int_value 2), (''memory'', String []),
       (''unnoted'', int_value 0)]"

definition settled_thread :: json where
  "settled_thread =
     Object [(''folded'', Array [settled_record]), (''folded_omitted'', int_value 2), (''memory'', String []),
       (''unnoted'', int_value 0), (''steps'', Array [])]"

lemma sample_thread_reads: "canonical_thread plain_unicode full sample_thread = Some settled_thread"
  by (simp add: canonical_thread_def sample_thread_def settled_thread_def written_back py_string_def sample_record_reads opt_all_Cons
      sample_record_bytes history_bytes_def thread_items_def get_or_null_def the_or_def text_bytes_def thread_count_def whole_def
      small_int_def int_value_def MAX_STEPS_def MAX_FOLDED_BYTES_def MAX_HISTORY_BYTES_def ENTRY_OVERHEAD_BYTES_def)

theorem thread_settled_witness:
  "canonical_thread plain_unicode (\<lambda>_ _. True) settled_thread = Some settled_thread"
proof -
  have "value_ok sample_thread" by (simp add: sample_thread_def sample_record_def int_value_def in_i64_def)
  then show ?thesis using thread_settled [of sample_thread plain_unicode "\<lambda>_ _. True" _ settled_thread] sample_thread_reads by blast
qed

end
